(* ===== verification/Prelude.thy ===== *)
theory Prelude
  imports Main "HOL-Library.Word"
begin

text \<open>
  Shared vocabulary of the development: the machine types of the sources, faults (the
  undefined behaviour of C++ made a value), raw memory blocks with the \<open>memcpy\<close>,
  \<open>memset\<close> and little-endian loads and stores the sources use, C strings inside
  received bytes, broken-down time, and the text formatting several components call
  (\<open>snprintf\<close> truncation, \<open>%d\<close>, \<open>%4d\<close> and \<open>%02d\<close>).

  Conventions. A memory block is a total function from offsets to bytes; which offsets
  belong to the block is checked by the operations that access it, so an access outside
  the block is the value \<open>Inl OutOfBounds\<close>, never an arbitrary byte. A C string is the
  list of its characters before the terminating NUL, and a \<open>char *\<close> into it is the
  remaining suffix.
\<close>

unbundle bit_operations_syntax

section \<open>Types\<close>

type_synonym byte = "8 word"
type_synonym u32 = "32 word"
type_synonym u64 = "64 word"
type_synonym mem = "nat \<Rightarrow> byte"

datatype fault =
    NullDeref         \<comment> \<open>a null pointer is dereferenced\<close>
  | OutOfBounds       \<comment> \<open>an access outside the block that was allocated\<close>
  | UseAfterFree      \<comment> \<open>an access to an object that was freed or erased\<close>
  | Indeterminate     \<comment> \<open>an uninitialised value decides the behaviour\<close>
  | SignedOverflow    \<comment> \<open>an \<open>int\<close> computation leaves its range\<close>
  | Uncaught          \<comment> \<open>an exception nobody catches ends the process\<close>
  | NoReturn          \<comment> \<open>the call never returns: it waits for something that does not happen\<close>

type_synonym 'a res = "fault + 'a"

definition ebind :: "'e + 'a \<Rightarrow> ('a \<Rightarrow> 'e + 'b) \<Rightarrow> 'e + 'b" where
  "ebind x f = (case x of Inl e \<Rightarrow> Inl e | Inr a \<Rightarrow> f a)"

text \<open>Sequencing of calls that end early with an error number, or with nothing, and may fault.\<close>

definition abind :: "('x + 'a) res \<Rightarrow> ('a \<Rightarrow> ('x + 'b) res) \<Rightarrow> ('x + 'b) res" where
  "abind x k = ebind x (\<lambda>r. case r of Inl e \<Rightarrow> Inr (Inl e) | Inr a \<Rightarrow> k a)"

definition obind :: "'a option res \<Rightarrow> ('a \<Rightarrow> 'b option res) \<Rightarrow> 'b option res" where
  "obind x k = ebind x (\<lambda>r. case r of None \<Rightarrow> Inr None | Some a \<Rightarrow> k a)"

definition guard :: "bool \<Rightarrow> 'e \<Rightarrow> 'e + unit" where
  "guard b e = (if b then Inr () else Inl e)"

fun efold :: "('x \<Rightarrow> 's \<Rightarrow> 'e + 's) \<Rightarrow> 'x list \<Rightarrow> 's \<Rightarrow> 'e + 's" where
  "efold f [] s = Inr s"
| "efold f (x # xs) s = ebind (f x s) (efold f xs)"

section \<open>Memory\<close>

named_theorems mem_simps

definition memcpy :: "mem \<Rightarrow> nat \<Rightarrow> mem \<Rightarrow> nat \<Rightarrow> nat \<Rightarrow> mem" where
  "memcpy dst d src s n = (\<lambda>a. if d \<le> a \<and> a < d + n then src (s + (a - d)) else dst a)"

definition memset :: "mem \<Rightarrow> nat \<Rightarrow> byte \<Rightarrow> nat \<Rightarrow> mem" where
  "memset m d v n = (\<lambda>a. if d \<le> a \<and> a < d + n then v else m a)"

definition mem_of_list :: "byte list \<Rightarrow> mem" where
  "mem_of_list xs = (\<lambda>a. if a < length xs then xs ! a else 0)"

definition bytes_at :: "mem \<Rightarrow> nat \<Rightarrow> nat \<Rightarrow> byte list" where
  "bytes_at m a n = map (\<lambda>i. m (a + i)) [0..<n]"

fun load_le :: "nat \<Rightarrow> mem \<Rightarrow> nat \<Rightarrow> nat" where
  "load_le 0 m a = 0"
| "load_le (Suc n) m a = unat (m a) + 256 * load_le n m (Suc a)"

definition store_le :: "nat \<Rightarrow> mem \<Rightarrow> nat \<Rightarrow> nat \<Rightarrow> mem" where
  "store_le n m a v =
     (\<lambda>b. if a \<le> b \<and> b < a + n then word_of_nat (v div 256 ^ (b - a)) else m b)"

definition load_u32 :: "mem \<Rightarrow> nat \<Rightarrow> u32" where
  "load_u32 m a = word_of_nat (load_le 4 m a)"

definition store_u32 :: "mem \<Rightarrow> nat \<Rightarrow> u32 \<Rightarrow> mem" where
  "store_u32 m a v = store_le 4 m a (unat v)"

definition load_u64 :: "mem \<Rightarrow> nat \<Rightarrow> u64" where
  "load_u64 m a = word_of_nat (load_le 8 m a)"

definition store_u64 :: "mem \<Rightarrow> nat \<Rightarrow> u64 \<Rightarrow> mem" where
  "store_u64 m a v = store_le 8 m a (unat v)"

section \<open>C strings in received bytes\<close>

definition bytes_of :: "string \<Rightarrow> byte list" where
  "bytes_of s = map (\<lambda>c. word_of_nat (of_char c)) s"

definition string_of :: "byte list \<Rightarrow> string" where
  "string_of bs = map (\<lambda>b. char_of (unat b)) bs"

text \<open>\<open>strcpy\<close>: the characters and the NUL behind them.\<close>

definition strcpy :: "mem \<Rightarrow> nat \<Rightarrow> string \<Rightarrow> mem" where
  "strcpy m a s = memcpy m a (mem_of_list (bytes_of s @ [0])) 0 (length s + 1)"

text \<open>The C string and the 32-bit number at an offset of a received message. Bytes behind the end
  of the message have never been written.\<close>

definition cstr_at :: "byte list \<Rightarrow> nat \<Rightarrow> string res" where
  "cstr_at data off = (if 0 \<in> set (drop off data) then Inr (string_of (takeWhile (\<lambda>b. b \<noteq> 0) (drop off data)))
     else Inl Indeterminate)"

definition u32_at :: "byte list \<Rightarrow> nat \<Rightarrow> u32 res" where
  "u32_at data off = (if off + 4 \<le> length data then Inr (load_u32 (mem_of_list data) off) else Inl Indeterminate)"

section \<open>Broken-down time and text formatting\<close>

record tm =
  tm_sec :: int
  tm_min :: int
  tm_hour :: int
  tm_mday :: int
  tm_mon :: int
  tm_year :: int
  tm_wday :: int

definition digit_char :: "nat \<Rightarrow> char" where
  "digit_char d = char_of (48 + d)"

fun dec :: "nat \<Rightarrow> string" where
  "dec n = (if n < 10 then [digit_char n] else dec (n div 10) @ [digit_char (n mod 10)])"

declare dec.simps [simp del]

text \<open>\<open>%d\<close>, \<open>%4d\<close> (padded with blanks on the left) and \<open>%02d\<close> (padded with zeros
  after the sign) of \<open>printf\<close>.\<close>

definition fmt_d :: "int \<Rightarrow> string" where
  "fmt_d i = (if i < 0 then CHR ''-'' # dec (nat (- i)) else dec (nat i))"

definition fmt_wd :: "nat \<Rightarrow> int \<Rightarrow> string" where
  "fmt_wd w i = replicate (w - length (fmt_d i)) CHR '' '' @ fmt_d i"

definition fmt_0wd :: "nat \<Rightarrow> int \<Rightarrow> string" where
  "fmt_0wd w i =
     (let ds = dec (nat \<bar>i\<bar>); sgn = (if i < 0 then ''-'' else [])
      in sgn @ replicate (w - length sgn - length ds) CHR ''0'' @ ds)"

text \<open>\<open>snprintf (buf, n, ...)\<close> keeps at most \<open>n - 1\<close> characters and a NUL.\<close>

definition snprintf :: "nat \<Rightarrow> string \<Rightarrow> string" where
  "snprintf n s = take (n - 1) s"

section \<open>Laws of the result type and of memory\<close>

lemma ebind_Inr [simp]: "ebind (Inr a) f = f a"
  by (simp add: ebind_def)

lemma ebind_Inl [simp]: "ebind (Inl e) f = Inl e"
  by (simp add: ebind_def)

lemma ebind_eq_Inr: "ebind x f = Inr b \<longleftrightarrow> (\<exists>a. x = Inr a \<and> f a = Inr b)"
  by (cases x) auto

lemma ebind_eq_Inl: "ebind x f = Inl e \<longleftrightarrow> x = Inl e \<or> (\<exists>a. x = Inr a \<and> f a = Inl e)"
  by (cases x) auto

lemma abind_simps [simp]:
  "abind (Inl f) k = Inl f" "abind (Inr (Inl e)) k = Inr (Inl e)" "abind (Inr (Inr a)) k = k a"
  by (simp_all add: abind_def)

lemma abind_eq_Inr: "abind x k = Inr (Inr b) \<longleftrightarrow> (\<exists>a. x = Inr (Inr a) \<and> k a = Inr (Inr b))"
proof (cases x)
  case (Inr y)
  then show ?thesis by (cases y) auto
qed simp

lemma obind_simps [simp]:
  "obind (Inl f) k = Inl f" "obind (Inr None) k = Inr None" "obind (Inr (Some a)) k = k a"
  by (simp_all add: obind_def)

lemma obind_eq_Inr: "obind x k = Inr (Some b) \<longleftrightarrow> (\<exists>a. x = Inr (Some a) \<and> k a = Inr (Some b))"
proof (cases x)
  case (Inr y)
  then show ?thesis by (cases y) auto
qed simp

lemma guard_True [simp]: "guard True e = Inr ()"
  by (simp add: guard_def)

lemma guard_False [simp]: "guard False e = Inl e"
  by (simp add: guard_def)

lemma guard_Inr [simp]: "guard b e = Inr u \<longleftrightarrow> b"
  by (simp add: guard_def)

lemma unat_byte_less: "unat (b::byte) < 256"
proof -
  have "unat b < 2 ^ LENGTH(8)" by (rule unsigned_less)
  then show ?thesis by simp
qed

lemma unat_u32_less: "unat (w::u32) < 2 ^ 32"
proof -
  have "unat w < 2 ^ LENGTH(32)" by (rule unsigned_less)
  then show ?thesis by simp
qed

lemma u32_of_unat: "unat (w::u32) = n \<Longrightarrow> w = word_of_nat n"
  by (metis of_nat_unat ucast_id)

lemma unat_u32_of_int: "0 \<le> k \<Longrightarrow> k < 2 ^ 32 \<Longrightarrow> unat (word_of_int k :: u32) = nat k"
  by (simp add: unat_eq_nat_uint uint_word_of_int)

lemma memcpy_below [mem_simps]: "a < d \<Longrightarrow> memcpy dst d src s n a = dst a"
  by (simp add: memcpy_def)

lemma memcpy_above [mem_simps]: "d + n \<le> a \<Longrightarrow> memcpy dst d src s n a = dst a"
  by (simp add: memcpy_def)

lemma memcpy_inside [mem_simps]:
  "d \<le> a \<Longrightarrow> a < d + n \<Longrightarrow> memcpy dst d src s n a = src (s + (a - d))"
  by (simp add: memcpy_def)

lemma memset_below [mem_simps]: "a < d \<Longrightarrow> memset m d v n a = m a"
  by (simp add: memset_def)

lemma memset_above [mem_simps]: "d + n \<le> a \<Longrightarrow> memset m d v n a = m a"
  by (simp add: memset_def)

lemma memset_inside [mem_simps]: "d \<le> a \<Longrightarrow> a < d + n \<Longrightarrow> memset m d v n a = v"
  by (simp add: memset_def)

lemma store_u32_below [mem_simps]: "b < a \<Longrightarrow> store_u32 m a v b = m b"
  by (simp add: store_u32_def store_le_def)

lemma store_u32_above [mem_simps]: "a + 4 \<le> b \<Longrightarrow> store_u32 m a v b = m b"
  by (simp add: store_u32_def store_le_def)

lemma store_u64_below [mem_simps]: "b < a \<Longrightarrow> store_u64 m a v b = m b"
  by (simp add: store_u64_def store_le_def)

lemma store_u64_above [mem_simps]: "a + 8 \<le> b \<Longrightarrow> store_u64 m a v b = m b"
  by (simp add: store_u64_def store_le_def)

lemma mem_of_list_nth [simp]: "i < length xs \<Longrightarrow> mem_of_list xs i = xs ! i"
  by (simp add: mem_of_list_def)

lemma length_bytes_at [simp]: "length (bytes_at m a n) = n"
  by (simp add: bytes_at_def)

lemma nth_bytes_at [simp]: "i < n \<Longrightarrow> bytes_at m a n ! i = m (a + i)"
  by (simp add: bytes_at_def)

lemma bytes_at_eqI: "length xs = n \<Longrightarrow> (\<And>i. i < n \<Longrightarrow> m (a + i) = xs ! i) \<Longrightarrow> bytes_at m a n = xs"
  by (auto intro!: nth_equalityI)

lemma load_le_cong: "(\<And>i. i < n \<Longrightarrow> m (a + i) = m' (b + i)) \<Longrightarrow> load_le n m a = load_le n m' b"
proof (induction n arbitrary: a b)
  case (Suc n)
  have "m (Suc a + i) = m' (Suc b + i)" if "i < n" for i
    using Suc.prems [of "Suc i"] that by simp
  then have "load_le n m (Suc a) = load_le n m' (Suc b)" by (rule Suc.IH)
  with Suc.prems [of 0] show ?case by simp
qed simp

lemma load_u32_cong: "(\<And>i. i < 4 \<Longrightarrow> m (a + i) = m' (b + i)) \<Longrightarrow> load_u32 m a = load_u32 m' b"
  unfolding load_u32_def by (metis load_le_cong)

lemma load_u64_cong: "(\<And>i. i < 8 \<Longrightarrow> m (a + i) = m' (b + i)) \<Longrightarrow> load_u64 m a = load_u64 m' b"
  unfolding load_u64_def by (metis load_le_cong)

lemma load_le_bytes:
  "(\<And>i. i < n \<Longrightarrow> m (a + i) = word_of_nat (v div 256 ^ i)) \<Longrightarrow> load_le n m a = v mod 256 ^ n"
proof (induction n arbitrary: a v)
  case (Suc n)
  have "m (Suc a + i) = word_of_nat (v div 256 div 256 ^ i)" if "i < n" for i
    using Suc.prems [of "Suc i"] that by (simp add: div_mult2_eq)
  then have "load_le n m (Suc a) = v div 256 mod 256 ^ n" by (rule Suc.IH)
  moreover have "unat (m a) = v mod 256"
    using Suc.prems [of 0] by (simp add: unat_of_nat)
  ultimately show ?case by (simp add: mod_mult2_eq)
qed simp

lemma load_store_u32 [simp]: "load_u32 (store_u32 m a v) a = v"
proof -
  have "load_le 4 (store_u32 m a v) a = unat v mod 256 ^ 4"
    by (rule load_le_bytes) (simp add: store_u32_def store_le_def)
  moreover have "unat v < 256 ^ 4" using unsigned_less [of v] by simp
  ultimately show ?thesis by (simp add: load_u32_def)
qed

lemma load_store_u64 [simp]: "load_u64 (store_u64 m a v) a = v"
proof -
  have "load_le 8 (store_u64 m a v) a = unat v mod 256 ^ 8"
    by (rule load_le_bytes) (simp add: store_u64_def store_le_def)
  moreover have "unat v < 256 ^ 8" using unsigned_less [of v] by simp
  ultimately show ?thesis by (simp add: load_u64_def)
qed

lemma length_bytes_of [simp]: "length (bytes_of s) = length s"
  by (simp add: bytes_of_def)

lemma bytes_of_append [simp]: "bytes_of (s @ t) = bytes_of s @ bytes_of t"
  by (simp add: bytes_of_def)

lemma string_of_bytes_of [simp]: "string_of (bytes_of s) = s"
proof -
  have "char_of (unat (word_of_nat (of_char c) :: byte)) = c" for c
    using nat_of_char_less_256 [of c] by (simp add: unat_of_nat)
  then show ?thesis by (induction s) (simp_all add: string_of_def bytes_of_def)
qed

lemma bytes_of_nonzero: "CHR 0x00 \<notin> set s \<Longrightarrow> 0 \<notin> set (bytes_of s)"
proof
  assume n: "CHR 0x00 \<notin> set s" and "0 \<in> set (bytes_of s)"
  then obtain c where c: "c \<in> set s" and z: "(word_of_nat (of_char c) :: byte) = 0"
    by (auto simp: bytes_of_def)
  have "unat (word_of_nat (of_char c) :: byte) = of_char c"
    using nat_of_char_less_256 [of c] by (simp add: unat_of_nat)
  with z have "of_char c = (0::nat)" by simp
  then have "c = char_of (0::nat)" by (metis char_of_char)
  with n c show False by (simp add: char_of_def)
qed

lemma cstr_at_bytes_of:
  "drop off xs = bytes_of s @ 0 # ys \<Longrightarrow> CHR 0x00 \<notin> set s \<Longrightarrow> cstr_at xs off = Inr s"
proof -
  assume d: "drop off xs = bytes_of s @ 0 # ys" and "CHR 0x00 \<notin> set s"
  then have "takeWhile (\<lambda>b. b \<noteq> 0) (bytes_of s) = bytes_of s"
    using bytes_of_nonzero [of s] by (auto simp: takeWhile_eq_all_conv)
  with d show ?thesis by (simp add: cstr_at_def takeWhile_tail)
qed

end
