(* ===== verification/KeyFrame.thy ===== *)
theory KeyFrame
  imports Prelude
begin

text \<open>
  The H.264 key-frame test \<open>ParseKeyFrame\<close> of \<open>src/src/common.cpp\<close>, which decides
  where a recording may be cut. The function scans for Annex B start codes (three or four
  bytes) and returns 0 at the first unit whose type is 5 (an IDR slice). It has no
  \<open>return\<close> after its loop, so on the other path its value is whatever the return register
  holds: that value is the parameter \<open>undef\<close> of the model. The scan reads four bytes at
  every position below \<open>size\<close> and the header byte after a start code, that is up to
  five bytes from the last position; the memory block is total, so the model reads the
  same bytes the code does. Positions are natural numbers: the 32-bit counter \<open>total\<close> cannot wrap for the frames of a
  64 MiB buffer.
\<close>

section \<open>The routine\<close>

function ParseKeyFrame_loop :: "int \<Rightarrow> mem \<Rightarrow> nat \<Rightarrow> nat \<Rightarrow> nat \<Rightarrow> int" where
  "ParseKeyFrame_loop undef m data sz tot =
     (if tot < sz then
        (let seperator1 = load_u32 m data;
             seperator2 = seperator1 AND 0x00ffffff
         in if seperator1 \<noteq> 0x01000000 \<and> seperator2 \<noteq> 0x00010000
            then ParseKeyFrame_loop undef m (data + 1) sz (tot + 1)
            else (let off = (if seperator2 = 0x00010000 then 3 else 4)
                  in if m (data + off) AND 0x1f = 0x05 then 0
                     else ParseKeyFrame_loop undef m (data + (off + 1)) sz (tot + (off + 1))))
      else undef)"
  by pat_completeness auto
termination
  by (relation "measure (\<lambda>(undef, m, data, sz, tot). sz - tot)") auto

declare ParseKeyFrame_loop.simps [simp del]

definition ParseKeyFrame :: "int \<Rightarrow> (mem \<times> nat) option \<Rightarrow> nat \<Rightarrow> int" where
  "ParseKeyFrame undef data sz =
     (case data of None \<Rightarrow> -1
      | Some (m, p) \<Rightarrow> ParseKeyFrame_loop undef m p sz 0)"

section \<open>Start codes\<close>

definition start3 :: "mem \<Rightarrow> nat \<Rightarrow> bool" where
  "start3 m p \<longleftrightarrow> m p = 0 \<and> m (p + 1) = 0 \<and> m (p + 2) = 1"

definition start4 :: "mem \<Rightarrow> nat \<Rightarrow> bool" where
  "start4 m p \<longleftrightarrow> m p = 0 \<and> m (p + 1) = 0 \<and> m (p + 2) = 0 \<and> m (p + 3) = 1"

definition idr_at :: "mem \<Rightarrow> nat \<Rightarrow> bool" where
  "idr_at m p \<longleftrightarrow> (start3 m p \<and> m (p + 3) AND 0x1f = 5) \<or> (start4 m p \<and> m (p + 4) AND 0x1f = 5)"

text \<open>A unit header byte of 0 is not a legal NAL unit header; the scan steps over it
  without looking for a start code that begins there.\<close>

definition no_zero_header :: "mem \<Rightarrow> nat \<Rightarrow> nat \<Rightarrow> bool" where
  "no_zero_header m base sz \<longleftrightarrow>
     (\<forall>i < sz. (start3 m (base + i) \<longrightarrow> m (base + i + 3) \<noteq> 0) \<and>
               (start4 m (base + i) \<longrightarrow> m (base + i + 4) \<noteq> 0))"

lemma no_zero_header_code [code]:
  "no_zero_header m base sz = list_all (\<lambda>i. (start3 m (base + i) \<longrightarrow> m (base + i + 3) \<noteq> 0) \<and>
     (start4 m (base + i) \<longrightarrow> m (base + i + 4) \<noteq> 0)) [0..<sz]"
  by (auto simp: no_zero_header_def list_all_iff)

lemma load_le_4:
  "load_le 4 m p = unat (m p) + 256 * (unat (m (p + 1)) + 256 * (unat (m (p + 2)) + 256 * unat (m (p + 3))))"
proof -
  have "load_le (Suc (Suc (Suc (Suc 0)))) m p =
      unat (m p) + 256 * (unat (m (p + 1)) + 256 * (unat (m (p + 2)) + 256 * unat (m (p + 3))))"
    by (simp add: numeral_2_eq_2 numeral_3_eq_3)
  moreover have "Suc (Suc (Suc (Suc 0))) = 4" by simp
  ultimately show ?thesis by metis
qed

lemma load_le_4_bound: "load_le 4 m p < 2 ^ 32"
  using unat_byte_less [of "m p"] unat_byte_less [of "m (p + 1)"]
    unat_byte_less [of "m (p + 2)"] unat_byte_less [of "m (p + 3)"]
  unfolding load_le_4 by simp

lemma unat_load_u32: "unat (load_u32 m p) = load_le 4 m p"
  using load_le_4_bound [of m p] by (simp add: load_u32_def unat_of_nat)

lemma byte_eq_iff: "(b::byte) = c \<longleftrightarrow> unat b = unat c"
  by (rule word_unat_eq_iff)

lemma base256_eq:
  "a < 256 \<Longrightarrow> b < 256 \<Longrightarrow> a + 256 * x = b + 256 * y \<longleftrightarrow> a = b \<and> x = (y::nat)"
proof
  assume lt: "a < 256" "b < 256" and eq: "a + 256 * x = b + 256 * y"
  then have "(a + 256 * x) mod 256 = (b + 256 * y) mod 256" by simp
  with lt have "a = b" by simp
  with eq show "a = b \<and> x = y" by simp
qed simp

lemma low24:
  "a < 256 \<Longrightarrow> b < 256 \<Longrightarrow> c < 256 \<Longrightarrow>
   (a + 256 * (b + 256 * (c + 256 * d))) mod 2 ^ 24 = a + 256 * (b + 256 * (c::nat))"
proof -
  assume "a < 256" "b < 256" "c < 256"
  then have "a + 256 * (b + 256 * c) < 2 ^ 24" by simp
  moreover have "a + 256 * (b + 256 * (c + 256 * d)) = a + 256 * (b + 256 * c) + 2 ^ 24 * d"
    by simp
  ultimately show ?thesis by (simp only: mod_mult_self2 mod_less)
qed

lemma separator4_iff: "load_u32 m p = 0x01000000 \<longleftrightarrow> start4 m p"
proof -
  have c: "(0x01000000 :: nat) = 0 + 256 * (0 + 256 * (0 + 256 * 1))" by simp
  have "load_u32 m p = 0x01000000 \<longleftrightarrow> load_le 4 m p = 0x01000000"
    by (simp add: word_unat_eq_iff unat_load_u32)
  also have "\<dots> \<longleftrightarrow> unat (m p) = 0 \<and> unat (m (p + 1)) = 0 \<and> unat (m (p + 2)) = 0 \<and> unat (m (p + 3)) = 1"
    unfolding load_le_4 c by (simp only: base256_eq unat_byte_less zero_less_numeral)
  also have "\<dots> \<longleftrightarrow> start4 m p"
    by (simp add: start4_def byte_eq_iff)
  finally show ?thesis .
qed

lemma separator3_iff: "load_u32 m p AND 0x00ffffff = 0x00010000 \<longleftrightarrow> start3 m p"
proof -
  have c: "(0x00010000 :: nat) = 0 + 256 * (0 + 256 * 1)" by simp
  have mask: "(0x00ffffff :: u32) = mask 24" by (simp add: mask_eq_exp_minus_1)
  have "unat (load_u32 m p AND 0x00ffffff) = load_le 4 m p mod 2 ^ 24"
    by (simp add: mask flip: take_bit_eq_mask) (simp add: take_bit_eq_mod unat_mod unat_load_u32)
  then have "load_u32 m p AND 0x00ffffff = 0x00010000 \<longleftrightarrow> load_le 4 m p mod 2 ^ 24 = 0x00010000"
    by (simp add: word_unat_eq_iff)
  also have "\<dots> \<longleftrightarrow> unat (m p) = 0 \<and> unat (m (p + 1)) = 0 \<and> unat (m (p + 2)) = 1"
    unfolding load_le_4 low24 [OF unat_byte_less unat_byte_less unat_byte_less] c
    by (simp only: base256_eq unat_byte_less zero_less_numeral)
  also have "\<dots> \<longleftrightarrow> start3 m p"
    by (simp add: start3_def byte_eq_iff)
  finally show ?thesis .
qed

lemma start3_not_start4: "start3 m p \<Longrightarrow> \<not> start4 m p"
  by (simp add: start3_def start4_def)

text \<open>One turn of the loop in terms of start codes.\<close>

lemma ParseKeyFrame_loop_unfold:
  "ParseKeyFrame_loop undef m p sz tot =
     (if tot < sz then
        if start3 m p then
          if m (p + 3) AND 0x1f = 5 then 0 else ParseKeyFrame_loop undef m (p + 4) sz (tot + 4)
        else if start4 m p then
          if m (p + 4) AND 0x1f = 5 then 0 else ParseKeyFrame_loop undef m (p + 5) sz (tot + 5)
        else ParseKeyFrame_loop undef m (p + 1) sz (tot + 1)
      else undef)"
  by (subst ParseKeyFrame_loop.simps)
    (auto simp: Let_def separator3_iff separator4_iff dest: start3_not_start4)

text \<open>What a scan that steps over a unit can have missed: nothing, unless the header is 0.\<close>

lemma skip3:
  assumes "start3 m p" "m (p + 3) AND 0x1f \<noteq> 5" "m (p + 3) \<noteq> 0" "i < 4"
  shows "\<not> idr_at m (p + i)"
proof -
  from \<open>i < 4\<close> consider "i = 0" | "i = 1" | "i = 2" | "i = 3" by linarith
  then show ?thesis
    using assms by cases (auto simp: idr_at_def start3_def start4_def eval_nat_numeral)
qed

lemma skip4:
  assumes "start4 m p" "m (p + 4) AND 0x1f \<noteq> 5" "m (p + 4) \<noteq> 0" "i < 5"
  shows "\<not> idr_at m (p + i)"
proof -
  from \<open>i < 5\<close> consider "i = 0" | "i = 1" | "i = 2" | "i = 3" | "i = 4" by linarith
  then show ?thesis
    using assms by cases (auto simp: idr_at_def start3_def start4_def eval_nat_numeral)
qed

lemma ParseKeyFrame_loop_sound:
  "ParseKeyFrame_loop undef m (base + tot) sz tot = 0 \<Longrightarrow> undef \<noteq> 0 \<Longrightarrow>
   \<exists>i. tot \<le> i \<and> i < sz \<and> idr_at m (base + i)"
proof (induction "sz - tot" arbitrary: tot rule: less_induct)
  case less
  let ?p = "base + tot"
  have lt: "tot < sz"
    using less.prems by (auto simp: ParseKeyFrame_loop_unfold split: if_splits)
  have *: "\<exists>i. tot \<le> i \<and> i < sz \<and> idr_at m (base + i)"
    if "ParseKeyFrame_loop undef m (base + (tot + k)) sz (tot + k) = 0" "0 < k" for k
  proof -
    have "sz - (tot + k) < sz - tot" using lt that(2) by simp
    from less.hyps [OF this that(1) less.prems(2)]
    obtain i where "tot + k \<le> i" and i: "i < sz" "idr_at m (base + i)" by blast
    then have "tot \<le> i" by simp
    with i show ?thesis by blast
  qed
  show ?case
  proof (cases "idr_at m ?p")
    case True
    with lt show ?thesis by auto
  next
    case False
    then show ?thesis
      using less.prems lt * [of 4] * [of 5] * [of 1]
      by (subst (asm) ParseKeyFrame_loop_unfold)
        (auto simp: idr_at_def add.assoc split: if_splits)
  qed
qed

lemma ParseKeyFrame_loop_complete:
  "tot \<le> i \<Longrightarrow> i < sz \<Longrightarrow> idr_at m (base + i) \<Longrightarrow> no_zero_header m base sz \<Longrightarrow>
   ParseKeyFrame_loop undef m (base + tot) sz tot = 0"
proof (induction "sz - tot" arbitrary: tot rule: less_induct)
  case less
  let ?p = "base + tot"
  have lt: "tot < sz" using less.prems by simp
  have IH: "ParseKeyFrame_loop undef m (?p + k) sz (tot + k) = 0"
    if "0 < k" "\<And>j. j < k \<Longrightarrow> \<not> idr_at m (?p + j)" for k
  proof -
    have "tot + k \<le> i"
      using that(2) [of "i - tot"] less.prems(1,3) by (cases "i - tot < k") auto
    then show ?thesis
      using less.hyps [of "tot + k"] that(1) lt less.prems by (simp add: add.assoc)
  qed
  have hdr: "start3 m ?p \<Longrightarrow> m (?p + 3) \<noteq> 0" "start4 m ?p \<Longrightarrow> m (?p + 4) \<noteq> 0"
    using less.prems(4) lt by (auto simp: no_zero_header_def)
  consider "start3 m ?p" | "start4 m ?p" "\<not> start3 m ?p" | "\<not> start3 m ?p" "\<not> start4 m ?p" by blast
  then show ?case
  proof cases
    case 1
    then show ?thesis
      using lt IH [of 4] skip3 [OF 1] hdr by (subst ParseKeyFrame_loop_unfold) auto
  next
    case 2
    then show ?thesis
      using lt IH [of 5] skip4 [OF 2(1)] hdr by (subst ParseKeyFrame_loop_unfold) auto
  next
    case 3
    then have "\<not> idr_at m ?p" by (simp add: idr_at_def)
    then show ?thesis
      using 3 lt IH [of 1] by (subst ParseKeyFrame_loop_unfold) auto
  qed
qed

lemma ParseKeyFrame_loop_undef:
  "(\<And>i. tot \<le> i \<Longrightarrow> i < sz \<Longrightarrow> \<not> idr_at m (base + i)) \<Longrightarrow>
   ParseKeyFrame_loop undef m (base + tot) sz tot = undef"
proof (induction "sz - tot" arbitrary: tot rule: less_induct)
  case less
  have IH: "ParseKeyFrame_loop undef m (base + (tot + k)) sz (tot + k) = undef"
    if "0 < k" "tot < sz" for k
    using less.hyps [of "tot + k"] less.prems that by simp
  show ?case
    using less.prems [of tot] IH [of 1] IH [of 4] IH [of 5]
    by (subst ParseKeyFrame_loop_unfold) (auto simp: idr_at_def add.assoc)
qed

section \<open>Property\<close>

text \<open>
  (C7) The key-frame test is exact: the function returns 0 if and only if an Annex B start code at
  one of the first \<open>size\<close> positions is followed by a unit header of type 5. The value left in
  the return register when the loop ends must not be 0, and unit headers are not 0.
\<close>

theorem ParseKeyFrame_finds_idr:
  assumes "undef \<noteq> 0" "no_zero_header m p sz"
  shows "ParseKeyFrame undef (Some (m, p)) sz = 0 \<longleftrightarrow> (\<exists>i < sz. idr_at m (p + i))"
  using ParseKeyFrame_loop_sound [of undef m p 0 sz] ParseKeyFrame_loop_complete [of 0 _ sz m p undef] assms
  by (auto simp: ParseKeyFrame_def)

theorem ParseKeyFrame_finds_idr_witness:
  "ParseKeyFrame 1 (Some (mem_of_list [0, 0, 1, 0x67, 9, 0, 0, 0, 1, 0x65, 7], 0)) 11 = 0"
proof -
  let ?m = "mem_of_list [0, 0, 1, 0x67, 9, 0, 0, 0, 1, 0x65, 7]"
  have "no_zero_header ?m 0 11"
    by code_simp
  moreover have "idr_at ?m (0 + 5)" by (simp add: idr_at_def start3_def start4_def mem_of_list_def)
  ultimately show ?thesis using ParseKeyFrame_finds_idr [of 1 ?m 0 11] by force
qed

end
