(* ===== verification/ApiError.thy ===== *)
theory ApiError
  imports Prelude
begin

text \<open>
  The error numbers of \<open>src/src/common.h\<close> (the anonymous enum indexed by \<open>error_no\<close>)
  and the two global error variables that \<open>SetError\<close> and \<open>SetOtherError\<close> assign.
\<close>

datatype store_api_error =
    create_thread_fail
  | create_store_directory_fail
  | malloc_memory_fail
  | device_already_exist
  | schedule_days_not_enough
  | schedule_format_error
  | no_post_data
  | invalid_json_data
  | no_main_id_in_json
  | no_sub_id_in_json
  | no_start_time_in_json
  | no_end_time_in_json
  | no_type_id_in_json
  | no_event_id_in_json
  | no_file_name_in_json
  | no_operate_type_in_json
  | no_dev_name_in_json
  | no_schedule_in_json
  | no_url_in_json
  | invalid_schedule_type_in_json
  | invalid_date_format_in_json
  | invalid_event_type_in_json
  | invalid_file_operate_type
  | invalid_type_id_in_json
  | invalid_url_in_json
  | trans_to_mp4_fail
  | create_def_sche_fail
  | func_input_null_addr
  | do_not_find_camera
  | do_not_find_rec_files
  | cjson_called_error
  | delete_file_fail

end
