(* ===== verification/Store.thy ===== *)
theory Store
  imports KeyFrame ApiError
begin

text \<open>
  The recording buffers of \<open>src/src/store.cpp\<close>. Every recorded device owns two buffers
  of 64 MiB (\<open>pingStoreBuf\<close>, \<open>pongStoreBuf\<close>). Frames are appended from the bottom of
  the current buffer while their \<open>struct storeinfo\<close> records are stacked downwards from its
  top; a full buffer is handed to the file writer through \<open>pStoreBufWr\<close> and the other one
  becomes current. A finished buffer is written to disk as it is, so the same layout is read
  back by \<open>GetOneFrameByIndex\<close> when the file is played.

  The two pointers into the device are values of type \<open>bufptr\<close>. A buffer is a memory block
  of exactly \<open>STORE_BUF_MAX_SIZE\<close> bytes: the accesses of the code carry the bounds
  check that C++ leaves out, and a failing check is a fault. Loops that wait for the writer
  thread are resolved by running the writer on the device, the only code that clears
  \<open>pStoreBufWr\<close>; if the writer does not finish, the call never returns.
\<close>

section \<open>Data\<close>

definition STORE_FILE_MAX_SIZE :: nat where "STORE_FILE_MAX_SIZE = 64 * 1024 * 1024"
definition FILE_IO_BLOCK_SIZE :: nat where "FILE_IO_BLOCK_SIZE = 4 * 1024"
definition STORE_BUF_MAX_SIZE :: nat where "STORE_BUF_MAX_SIZE = STORE_FILE_MAX_SIZE"
definition WRITE_FILE_BLOCK_SIZE :: nat where "WRITE_FILE_BLOCK_SIZE = FILE_IO_BLOCK_SIZE"
definition STORE_INFO_HEAD :: u32 where "STORE_INFO_HEAD = 0x7a5d9e3b"

definition RECODE_TYPE_PLANNED :: string where "RECODE_TYPE_PLANNED = ''planned''"
definition RECODE_TYPE_MANUAL :: string where "RECODE_TYPE_MANUAL = ''manual''"
definition RECODE_TYPE_ALARM :: string where "RECODE_TYPE_ALARM = ''alarming''"

text \<open>
  \<open>struct storeinfo\<close> as the x86-64 ABI lays it out: \<open>head\<close> at 0, \<open>frame_start_time\<close> at
  8, \<open>frame_idx\<close> at 16, \<open>frame_offset\<close> at 20, \<open>frame_size\<close> at 24, 64 reserved zero
  bytes at 28, 96 bytes in all. The padding at 4 and at 92 is indeterminate in C++ and read
  by nobody; the model writes zeros there.
\<close>

record storeinfo =
  head :: u32
  frame_start_time :: u64
  frame_idx :: u32
  frame_offset :: u32
  frame_size :: u32

definition sizeof_storeinfo :: nat where "sizeof_storeinfo = 96"

definition get_storeinfo :: "mem \<Rightarrow> nat \<Rightarrow> storeinfo" where
  "get_storeinfo m a =
     \<lparr>head = load_u32 m a, frame_start_time = load_u64 m (a + 8), frame_idx = load_u32 m (a + 16),
      frame_offset = load_u32 m (a + 20), frame_size = load_u32 m (a + 24)\<rparr>"

definition put_storeinfo :: "mem \<Rightarrow> nat \<Rightarrow> storeinfo \<Rightarrow> mem" where
  "put_storeinfo m a si =
     store_u32 (store_u32 (store_u32 (store_u64 (store_u32 (memset m a 0 sizeof_storeinfo)
       a (head si)) (a + 8) (frame_start_time si)) (a + 16) (frame_idx si))
       (a + 20) (frame_offset si)) (a + 24) (frame_size si)"

record storebuf =
  store_buf :: "mem option"      \<comment> \<open>\<open>None\<close> is the null pointer\<close>
  store_size :: u32
  store_offset :: u32
  store_info_offset :: u32
  store_start_time :: int

datatype bufref = Ping | Pong

datatype bufptr = Null | Ref bufref | Uninit

record storedevice =
  store_path :: string
  pingStoreBuf :: storebuf
  pongStoreBuf :: storebuf
  pCurStoreBuf :: bufptr
  pStoreBufWr :: bufptr
  frame_index :: u32
  store_type :: string

text \<open>What the calls of one run see of the clock, the time zone, the file system and of the
  register \<open>ParseKeyFrame\<close> leaves its value in.\<close>

record store_env =
  undef_ret :: int                 \<comment> \<open>value of \<open>ParseKeyFrame\<close> when it falls off its end\<close>
  clock :: int                     \<comment> \<open>\<open>time(nullptr)\<close>\<close>
  tv_sec :: int                    \<comment> \<open>\<open>gettimeofday\<close>\<close>
  tv_usec :: int
  localtime_r :: "int \<Rightarrow> tm"
  open_ok :: "string \<Rightarrow> bool"
  write_results :: "int list"      \<comment> \<open>what the successive \<open>write\<close> calls return\<close>
  access_ok :: "string \<Rightarrow> bool"
  mkdir_ok :: "string \<Rightarrow> bool"
  malloc_ping :: "mem option"      \<comment> \<open>the two blocks \<open>malloc\<close> hands out, with their contents\<close>
  malloc_pong :: "mem option"
  storePath :: string

text \<open>A file is its contents and its length; a call of \<open>storeCallback\<close> is its arguments.\<close>

type_synonym file_image = "mem \<times> nat"

record store_state =
  storeDeviceList :: "string \<rightharpoonup> storedevice"
  storeManualList :: "string \<rightharpoonup> storedevice"
  storeAlarmList :: "string \<rightharpoonup> storedevice"
  disk :: "string \<rightharpoonup> file_image"
  stored :: "(string \<times> int \<times> string \<times> string) list"

section \<open>Buffer accesses\<close>

definition get_buf :: "storedevice \<Rightarrow> bufref \<Rightarrow> storebuf" where
  "get_buf d r = (case r of Ping \<Rightarrow> pingStoreBuf d | Pong \<Rightarrow> pongStoreBuf d)"

definition set_buf :: "storedevice \<Rightarrow> bufref \<Rightarrow> storebuf \<Rightarrow> storedevice" where
  "set_buf d r b = (case r of Ping \<Rightarrow> d\<lparr>pingStoreBuf := b\<rparr> | Pong \<Rightarrow> d\<lparr>pongStoreBuf := b\<rparr>)"

definition other :: "bufref \<Rightarrow> bufref" where
  "other r = (case r of Ping \<Rightarrow> Pong | Pong \<Rightarrow> Ping)"

definition deref :: "bufptr \<Rightarrow> bufref res" where
  "deref p = (case p of Null \<Rightarrow> Inl NullDeref | Uninit \<Rightarrow> Inl Indeterminate | Ref r \<Rightarrow> Inr r)"

definition buf_mem :: "storebuf \<Rightarrow> mem res" where
  "buf_mem b = (case store_buf b of None \<Rightarrow> Inl NullDeref | Some m \<Rightarrow> Inr m)"

definition buf_memset0 :: "storebuf \<Rightarrow> nat \<Rightarrow> nat \<Rightarrow> storebuf res" where
  "buf_memset0 b off n =
     ebind (buf_mem b) (\<lambda>m.
     ebind (guard (off + n \<le> STORE_BUF_MAX_SIZE) OutOfBounds) (\<lambda>_.
     Inr (b\<lparr>store_buf := Some (memset m off 0 n)\<rparr>)))"

definition buf_memcpy :: "storebuf \<Rightarrow> nat \<Rightarrow> byte list \<Rightarrow> storebuf res" where
  "buf_memcpy b off xs =
     ebind (buf_mem b) (\<lambda>m.
     ebind (guard (off + length xs \<le> STORE_BUF_MAX_SIZE) OutOfBounds) (\<lambda>_.
     Inr (b\<lparr>store_buf := Some (memcpy m off (mem_of_list xs) 0 (length xs))\<rparr>)))"

definition buf_put_storeinfo :: "storebuf \<Rightarrow> nat \<Rightarrow> storeinfo \<Rightarrow> storebuf res" where
  "buf_put_storeinfo b off si =
     ebind (buf_mem b) (\<lambda>m.
     ebind (guard (off + sizeof_storeinfo \<le> STORE_BUF_MAX_SIZE) OutOfBounds) (\<lambda>_.
     Inr (b\<lparr>store_buf := Some (put_storeinfo m off si)\<rparr>)))"

section \<open>Moving the last group of pictures to the other buffer\<close>

text \<open>
  First loop of \<open>MoveFramesToNextBuf\<close>: from the newest record upwards to the newest key
  frame. \<open>None\<close> as second component is \<open>ret_addr = nullptr\<close>. Reading a record head at or
  beyond the top of the buffer is a fault.
\<close>

function find_key_record :: "int \<Rightarrow> mem \<Rightarrow> nat \<Rightarrow> (nat \<times> nat option) res" where
  "find_key_record undef m a =
     (if a + sizeof_storeinfo \<le> STORE_BUF_MAX_SIZE then
        (let si = get_storeinfo m a
         in if head si = STORE_INFO_HEAD then
              if ParseKeyFrame undef (Some (m, unat (frame_offset si))) (unat (frame_size si)) \<noteq> 0
              then find_key_record undef m (a + sizeof_storeinfo)
              else Inr (a, Some a)
            else Inr (a, None))
      else Inl OutOfBounds)"
  by pat_completeness auto
termination
  by (relation "measure (\<lambda>(undef, m, a). STORE_BUF_MAX_SIZE - a)") (auto simp: sizeof_storeinfo_def)

declare find_key_record.simps [simp del]

text \<open>
  Second loop: copy frame data and record, from the record at \<open>a\<close> of the source down to the
  first one without the magic head. \<open>dstStoreInfo->frame_offset\<close> is read back from the
  destination, where the previous turn stored it. Stepping a record pointer below the start of
  a buffer and using it is a fault.
\<close>

function move_records :: "mem \<Rightarrow> nat \<Rightarrow> mem \<Rightarrow> nat \<Rightarrow> u32 \<Rightarrow> (mem \<times> nat \<times> u32) res" where
  "move_records sm a dm b off =
     (if head (get_storeinfo sm a) = STORE_INFO_HEAD then
        (let si = get_storeinfo sm a;
             dst_offset = frame_offset (get_storeinfo dm b);
             n = unat (frame_size si);
             dm1 = memcpy dm (unat dst_offset) sm (unat (frame_offset si)) n;
             dm2 = memcpy dm1 b sm a sizeof_storeinfo;
             dm3 = store_u32 dm2 (b + 20) dst_offset
         in if unat dst_offset + n \<le> STORE_BUF_MAX_SIZE \<and> unat (frame_offset si) + n \<le> STORE_BUF_MAX_SIZE
               \<and> sizeof_storeinfo \<le> a \<and> sizeof_storeinfo \<le> b
            then move_records sm (a - sizeof_storeinfo)
                   (store_u32 dm3 (b - sizeof_storeinfo + 20) (dst_offset + frame_size si))
                   (b - sizeof_storeinfo) (off + frame_size si)
            else Inl OutOfBounds)
      else Inr (dm, b, off))"
  by pat_completeness auto
termination
  by (relation "measure (\<lambda>(sm, a, dm, b, off). a)") (auto simp: sizeof_storeinfo_def)

declare move_records.simps [simp del]

definition MoveFramesToNextBuf ::
    "int \<Rightarrow> storebuf \<Rightarrow> storebuf \<Rightarrow> (storebuf \<times> nat option) res" where
  "MoveFramesToNextBuf undef src dst =
     ebind (buf_mem src) (\<lambda>sm.
     ebind (buf_mem dst) (\<lambda>dm.
     ebind (find_key_record undef sm (unat (store_info_offset src) + sizeof_storeinfo)) (\<lambda>(a, ret_addr).
     (let b = unat (store_info_offset dst); dm0 = store_u32 dm (b + 20) 0
      in ebind (guard (b + sizeof_storeinfo \<le> STORE_BUF_MAX_SIZE) OutOfBounds) (\<lambda>_.
         ebind (move_records sm a dm0 b (store_offset dst)) (\<lambda>(dm', b', off').
         Inr (dst\<lparr>store_buf := Some dm', store_offset := off', store_info_offset := word_of_nat b'\<rparr>,
              ret_addr)))))))"

section \<open>Writing one frame\<close>

text \<open>A fresh buffer: the three assignments at every place a buffer is reset.\<close>

definition reset_buf :: "storebuf \<Rightarrow> int \<Rightarrow> storebuf" where
  "reset_buf b t = b\<lparr>store_offset := 0,
     store_info_offset := word_of_nat (STORE_BUF_MAX_SIZE - sizeof_storeinfo), store_start_time := t\<rparr>"

definition remaining :: "storebuf \<Rightarrow> u32" where
  "remaining b = store_info_offset b - store_offset b"

text \<open>No room, and the new frame is no key frame: the last group of pictures moves along.\<close>

definition switch_moving :: "store_env \<Rightarrow> storedevice \<Rightarrow> bufref \<Rightarrow> storedevice res" where
  "switch_moving env d r =
     (let cpy = reset_buf (get_buf d (other r)) (clock env); cur = get_buf d r
      in ebind (MoveFramesToNextBuf (undef_ret env) cur cpy) (\<lambda>(cpy', ret_addr).
         (case ret_addr of
            None \<Rightarrow> Inl NullDeref
          | Some a \<Rightarrow>
              ebind (buf_mem cur) (\<lambda>m.
              (let pIFrame = unat (frame_offset (get_storeinfo m a))
               in ebind (guard (pIFrame \<le> a + sizeof_storeinfo) OutOfBounds) (\<lambda>_.
                  ebind (buf_memset0 cur pIFrame (a + sizeof_storeinfo - pIFrame)) (\<lambda>cur'.
                  Inr ((set_buf (set_buf d r cur') (other r) cpy')
                         \<lparr>pStoreBufWr := Ref r, pCurStoreBuf := Ref (other r)\<rparr>))))))))"

text \<open>No room, and the new frame is a key frame: the file ends here.\<close>

definition switch_cutting :: "store_env \<Rightarrow> storedevice \<Rightarrow> bufref \<Rightarrow> storedevice res" where
  "switch_cutting env d r =
     (let cur = get_buf d r
      in ebind (buf_memset0 cur (unat (store_offset cur)) (unat (remaining cur) + sizeof_storeinfo)) (\<lambda>cur'.
         Inr ((set_buf (set_buf d r cur') (other r) (reset_buf (get_buf d (other r)) (clock env)))
                \<lparr>pStoreBufWr := Ref r, pCurStoreBuf := Ref (other r)\<rparr>)))"

text \<open>Label \<open>store\<close>: the frame at the bottom, its record at the top.\<close>

definition append_frame :: "store_env \<Rightarrow> byte list \<Rightarrow> storebuf \<Rightarrow> u32 \<Rightarrow> storebuf res" where
  "append_frame env frame b idx =
     (let si = \<lparr>head = STORE_INFO_HEAD,
                frame_start_time = word_of_int (tv_sec env * 1000 + tv_usec env div 1000),
                frame_idx = idx, frame_offset = store_offset b,
                frame_size = word_of_nat (length frame)\<rparr>
      in ebind (buf_memcpy b (unat (store_offset b)) frame) (\<lambda>b1.
         (let b2 = b1\<lparr>store_offset := store_offset b1 + word_of_nat (length frame)\<rparr>
          in ebind (buf_put_storeinfo b2 (unat (store_info_offset b2)) si) (\<lambda>b3.
             Inr (b3\<lparr>store_info_offset := store_info_offset b3 - word_of_nat sizeof_storeinfo\<rparr>)))))"

definition store_frame :: "store_env \<Rightarrow> byte list \<Rightarrow> storedevice \<Rightarrow> storedevice res" where
  "store_frame env frame d =
     ebind (deref (pCurStoreBuf d)) (\<lambda>r.
     ebind (append_frame env frame (get_buf d r) (frame_index d)) (\<lambda>b.
     Inr ((set_buf d r b)\<lparr>frame_index := frame_index d + 1\<rparr>)))"

text \<open>A frame that does not end the recording (\<open>flag = 0\<close>).\<close>

definition write_running :: "store_env \<Rightarrow> byte list \<Rightarrow> storedevice \<Rightarrow> storedevice res" where
  "write_running env frame d =
     ebind (deref (pCurStoreBuf d)) (\<lambda>r.
     ebind (if unat (remaining (get_buf d r)) < length frame + sizeof_storeinfo then
              if ParseKeyFrame (undef_ret env) (Some (mem_of_list frame, 0)) (length frame) \<noteq> 0
              then switch_moving env d r
              else switch_cutting env d r
            else Inr d) (\<lambda>d1.
     ebind (deref (pCurStoreBuf d1)) (\<lambda>r1.
     (let b1 = get_buf d1 r1;
          d2 = (if store_start_time b1 = 0
                then set_buf d1 r1 (b1\<lparr>store_start_time := clock env\<rparr>) else d1)
      in store_frame env frame d2))))"

section \<open>The file writer\<close>

definition store_file_name :: "tm \<Rightarrow> string" where
  "store_file_name t = snprintf 128
     (fmt_wd 4 (tm_year t + 1900) @ ''-'' @ fmt_0wd 2 (tm_mon t + 1) @ ''-'' @ fmt_0wd 2 (tm_mday t) @ '' '' @
      fmt_0wd 2 (tm_hour t) @ '':'' @ fmt_0wd 2 (tm_min t) @ '':'' @ fmt_0wd 2 (tm_sec t) @ ''.store'')"

definition store_file_path :: "string \<Rightarrow> string \<Rightarrow> string" where
  "store_file_path dir name = snprintf 128 (dir @ ''/'' @ name)"

text \<open>
  The \<open>write\<close> loop. The file is opened without \<open>O_TRUNC\<close>, so bytes beyond those written
  keep their old values; \<open>tot\<close> is both \<open>total_wr_size\<close> and the file position. The second
  component of the result tells whether the loop reached the end (no \<open>write\<close> failed). Every call
  reads a whole block from the buffer. A list of results that ends before the loop does
  stands for a \<open>write\<close> that does not return.
\<close>

fun write_blocks :: "mem \<Rightarrow> nat \<Rightarrow> int list \<Rightarrow> file_image \<Rightarrow> (file_image \<times> bool) res" where
  "write_blocks m tot rs (c, n) =
     (if tot < STORE_BUF_MAX_SIZE then
        (case rs of
           [] \<Rightarrow> Inl NoReturn
         | r # rs' \<Rightarrow>
             if STORE_BUF_MAX_SIZE < tot + WRITE_FILE_BLOCK_SIZE then Inl OutOfBounds
             else if r < 0 then Inr ((c, n), False)
             else write_blocks m (tot + nat r) rs'
                    (memcpy c tot m tot (nat r), max n (tot + nat r)))
      else Inr ((c, n), True))"

declare write_blocks.simps [simp del]

text \<open>
  The body of \<open>WriteToFileProc\<close> for one device. A buffer whose first record has no magic head is
  dropped, and so is one whose file cannot be opened. After a failed \<open>write\<close> the
  callback runs all the same.
\<close>

definition WriteToFileProc_device ::
    "store_env \<Rightarrow> string \<Rightarrow> storedevice \<Rightarrow> store_state \<Rightarrow> (storedevice \<times> store_state) res" where
  "WriteToFileProc_device env devId d st =
     (case pStoreBufWr d of
        Null \<Rightarrow> Inr (d, st)
      | Uninit \<Rightarrow> Inl Indeterminate
      | Ref r \<Rightarrow>
          (let b = get_buf d r; d' = d\<lparr>pStoreBufWr := Null\<rparr>
           in ebind (buf_mem b) (\<lambda>m.
              if head (get_storeinfo m (unat (store_size b) - sizeof_storeinfo)) \<noteq> STORE_INFO_HEAD
              then Inr (d', st)
              else (let name = store_file_name (localtime_r env (store_start_time b));
                        path = store_file_path (store_path d) name
                    in if \<not> open_ok env path then Inr (d', st)
                       else ebind (write_blocks m 0 (write_results env)
                              (case disk st path of None \<Rightarrow> (\<lambda>_. 0, 0) | Some f \<Rightarrow> f)) (\<lambda>(f, _).
                            Inr (d', st\<lparr>disk := (disk st)(path \<mapsto> f),
                                        stored := stored st @ [(devId, store_start_time b, store_type d, name)]\<rparr>))))))"

section \<open>The device lists\<close>

text \<open>\<open>malloc\<close>ed buffers and uninitialised pointers of the local \<open>storeDevice\<close> that is
  copied into the map.\<close>

definition uninit_device :: "string \<Rightarrow> storedevice" where
  "uninit_device path =
     (let b = \<lparr>store_buf = None, store_size = 0, store_offset = 0, store_info_offset = 0, store_start_time = 0\<rparr>
      in \<lparr>store_path = path, pingStoreBuf = b, pongStoreBuf = b, pCurStoreBuf = Uninit, pStoreBufWr = Uninit,
          frame_index = 0, store_type = []\<rparr>)"

text \<open>The common tail of \<open>AddStoreDevice\<close> and \<open>AddStoreEvent\<close>: allocate and initialise.
  \<open>Inl\<close> is the device as the failing \<open>malloc\<close> leaves it in the map.\<close>

definition init_device :: "store_env \<Rightarrow> string \<Rightarrow> storedevice \<Rightarrow> storedevice + storedevice" where
  "init_device env type d =
     (case malloc_ping env of
        None \<Rightarrow> Inl (d\<lparr>pingStoreBuf := (pingStoreBuf d)\<lparr>store_buf := None\<rparr>\<rparr>)
      | Some m1 \<Rightarrow>
          (let d1 = d\<lparr>pingStoreBuf := (pingStoreBuf d)\<lparr>store_buf := Some m1\<rparr>\<rparr>
           in case malloc_pong env of
                None \<Rightarrow> Inl (d1\<lparr>pongStoreBuf := (pongStoreBuf d1)\<lparr>store_buf := None\<rparr>\<rparr>)
              | Some m2 \<Rightarrow>
                  (let ping = \<lparr>store_buf = Some m1, store_size = word_of_nat STORE_BUF_MAX_SIZE, store_offset = 0,
                               store_info_offset = word_of_nat (STORE_BUF_MAX_SIZE - sizeof_storeinfo),
                               store_start_time = 0\<rparr>;
                       pong = \<lparr>store_buf = Some m2, store_size = word_of_nat STORE_BUF_MAX_SIZE, store_offset = 0,
                               store_info_offset = word_of_nat (STORE_BUF_MAX_SIZE - sizeof_storeinfo),
                               store_start_time = store_start_time (pongStoreBuf d)\<rparr>
                   in Inr (d1\<lparr>pingStoreBuf := ping, pongStoreBuf := pong, pCurStoreBuf := Ref Ping,
                              pStoreBufWr := Null, store_type := type\<rparr>))))"

text \<open>The directory of the device: \<open>access\<close>, then \<open>mkdir\<close>.\<close>

definition ensure_directory :: "store_env \<Rightarrow> string \<Rightarrow> bool" where
  "ensure_directory env path \<longleftrightarrow> access_ok env path \<or> mkdir_ok env path"

text \<open>Operations return the new state, the value returned and the error number they set.\<close>

type_synonym 's api = "'s \<times> int \<times> store_api_error option"

text \<open>\<open>StoreInit\<close> on the value of \<open>pthread_create\<close>, with \<open>storeCallback\<close> before and after.\<close>

definition StoreInit :: "int \<Rightarrow> 'cb \<Rightarrow> 'cb option \<Rightarrow> 'cb option api" where
  "StoreInit nRet storeCB storeCallback =
     (if nRet < 0 then (storeCallback, -1, Some create_thread_fail) else (Some storeCB, 0, None))"

definition AddStoreDevice :: "store_env \<Rightarrow> string \<Rightarrow> string \<Rightarrow> store_state \<Rightarrow> store_state api" where
  "AddStoreDevice env devId type st =
     (if storeDeviceList st devId \<noteq> None then (st, -1, Some device_already_exist)
      else (let path = storePath env @ devId
            in if \<not> ensure_directory env path then (st, -1, Some create_store_directory_fail)
               else (case init_device env type (uninit_device path) of
                       Inl d \<Rightarrow> (st\<lparr>storeDeviceList := (storeDeviceList st)(devId \<mapsto> d)\<rparr>, -1, Some malloc_memory_fail)
                     | Inr d \<Rightarrow> (st\<lparr>storeDeviceList := (storeDeviceList st)(devId \<mapsto> d)\<rparr>, 0, None))))"

text \<open>\<open>insert\<close> keeps an entry that is already there, and \<open>operator[]\<close> then finds it.\<close>

definition insert_or_keep :: "('k \<rightharpoonup> 'v) \<Rightarrow> 'k \<Rightarrow> 'v \<Rightarrow> 'v" where
  "insert_or_keep m k v = (case m k of None \<Rightarrow> v | Some w \<Rightarrow> w)"

definition AddStoreEvent :: "store_env \<Rightarrow> string \<Rightarrow> string \<Rightarrow> store_state \<Rightarrow> store_state api" where
  "AddStoreEvent env devId type st =
     (let path = storePath env @ devId
      in if \<not> ensure_directory env path then (st, -1, Some create_store_directory_fail)
         else if type = RECODE_TYPE_MANUAL then
           (case init_device env type (insert_or_keep (storeManualList st) devId (uninit_device path)) of
              Inl d \<Rightarrow> (st\<lparr>storeManualList := (storeManualList st)(devId \<mapsto> d)\<rparr>, -1, Some malloc_memory_fail)
            | Inr d \<Rightarrow> (st\<lparr>storeManualList := (storeManualList st)(devId \<mapsto> d)\<rparr>, 0, None))
         else if type = RECODE_TYPE_ALARM then
           (case init_device env type (insert_or_keep (storeAlarmList st) devId (uninit_device path)) of
              Inl d \<Rightarrow> (st\<lparr>storeAlarmList := (storeAlarmList st)(devId \<mapsto> d)\<rparr>, -1, Some malloc_memory_fail)
            | Inr d \<Rightarrow> (st\<lparr>storeAlarmList := (storeAlarmList st)(devId \<mapsto> d)\<rparr>, 0, None))
         else (st, 0, None))"

text \<open>\<open>while (nullptr != p->pStoreBufWr) usleep(...)\<close>: the writer serves the device.\<close>

definition wait_writer ::
    "store_env \<Rightarrow> string \<Rightarrow> storedevice \<Rightarrow> store_state \<Rightarrow> (storedevice \<times> store_state) res" where
  "wait_writer env devId d st = WriteToFileProc_device env devId d st"

definition RemoveStoreDevice :: "store_env \<Rightarrow> string \<Rightarrow> store_state \<Rightarrow> store_state api res" where
  "RemoveStoreDevice env devId st =
     (case storeDeviceList st devId of
        None \<Rightarrow> Inr (st, -1, Some do_not_find_camera)
      | Some d \<Rightarrow>
          ebind (wait_writer env devId d st) (\<lambda>(d1, st1).
          ebind (wait_writer env devId (d1\<lparr>pStoreBufWr := pCurStoreBuf d1\<rparr>) st1) (\<lambda>(d2, st2).
          Inr (st2\<lparr>storeDeviceList := (storeDeviceList st2)(devId := None)\<rparr>, 0, None))))"

definition RemoveStoreEvent :: "string \<Rightarrow> string \<Rightarrow> store_state \<Rightarrow> store_state \<times> int" where
  "RemoveStoreEvent devId type st =
     (if type = RECODE_TYPE_MANUAL then
        if storeManualList st devId = None then (st, -1)
        else (st\<lparr>storeManualList := (storeManualList st)(devId := None)\<rparr>, 0)
      else
        if storeAlarmList st devId = None then (st, -1)
        else (st\<lparr>storeAlarmList := (storeAlarmList st)(devId := None)\<rparr>, 0))"

section \<open>WriteFrameToBuf\<close>

definition list_of_type :: "string \<Rightarrow> store_state \<Rightarrow> (string \<rightharpoonup> storedevice) option" where
  "list_of_type type st =
     (if type = RECODE_TYPE_PLANNED then Some (storeDeviceList st)
      else if type = RECODE_TYPE_MANUAL then Some (storeManualList st)
      else if type = RECODE_TYPE_ALARM then Some (storeAlarmList st)
      else None)"

definition set_device :: "string \<Rightarrow> string \<Rightarrow> storedevice \<Rightarrow> store_state \<Rightarrow> store_state" where
  "set_device type devId d st =
     (if type = RECODE_TYPE_PLANNED then st\<lparr>storeDeviceList := (storeDeviceList st)(devId \<mapsto> d)\<rparr>
      else if type = RECODE_TYPE_MANUAL then st\<lparr>storeManualList := (storeManualList st)(devId \<mapsto> d)\<rparr>
      else st\<lparr>storeAlarmList := (storeAlarmList st)(devId \<mapsto> d)\<rparr>)"

text \<open>The last frame of a recording (\<open>flag = 1\<close>), up to the hand-over to the writer.
  \<open>remain\<close> was computed before the frame was stored.\<close>

definition write_last :: "store_env \<Rightarrow> byte list \<Rightarrow> u32 \<Rightarrow> storedevice \<Rightarrow> storedevice res" where
  "write_last env frame remain d =
     ebind (if unat remain < length frame + sizeof_storeinfo then Inr d else store_frame env frame d) (\<lambda>d1.
     ebind (deref (pCurStoreBuf d1)) (\<lambda>r.
     (let b = get_buf d1 r
      in ebind (buf_memset0 b (unat (store_offset b)) (unat remain + sizeof_storeinfo)) (\<lambda>b'.
         Inr ((set_buf d1 r b')\<lparr>pStoreBufWr := pCurStoreBuf d1\<rparr>)))))"

definition WriteFrameToBuf ::
    "store_env \<Rightarrow> string \<Rightarrow> string \<Rightarrow> byte list \<Rightarrow> bool \<Rightarrow> store_state \<Rightarrow> (store_state \<times> int) res" where
  "WriteFrameToBuf env devId type frame flag st =
     (case list_of_type type st of
        None \<Rightarrow> Inr (st, -1)
      | Some l \<Rightarrow>
          (case l devId of
             None \<Rightarrow> Inl NullDeref   \<comment> \<open>\<open>operator[]\<close> inserts a zeroed device, whose \<open>pCurStoreBuf\<close> is null\<close>
           | Some d \<Rightarrow>
               ebind (deref (pCurStoreBuf d)) (\<lambda>r0.
               (let remain = remaining (get_buf d r0)
                in if \<not> flag then
                     ebind (write_running env frame d) (\<lambda>d'. Inr (set_device type devId d' st, 0))
                   else
                     ebind (wait_writer env devId d st) (\<lambda>(d1, st1).
                     ebind (write_last env frame remain d1) (\<lambda>d2.
                     ebind (wait_writer env devId d2 st1) (\<lambda>(d3, st2).
                     if type = RECODE_TYPE_PLANNED then
                       ebind (deref (pCurStoreBuf d3)) (\<lambda>r.
                       Inr (set_device type devId (set_buf d3 r (reset_buf (get_buf d3 r) 0)) st2, 0))
                     else Inl UseAfterFree)))))))"

text \<open>The last branch: \<open>RemoveStoreEvent\<close> frees both buffers and erases the map entry, and the
  check that follows the \<open>if\<close> reads \<open>pStoreDevice->pCurStoreBuf->store_info_offset\<close> from it.\<close>

section \<open>Reading a recording back\<close>

text \<open>
  \<open>read\<close> of a regular file returns the bytes up to the end of the file, at most a block. The
  loop lets \<open>read\<close> store before it compares the total with the size of the buffer. The
  function has no final \<open>return\<close>: on success its value is \<open>undef\<close>. The only caller has tested its buffers, so the tests
  for null pointers at the start of the two functions never apply and are left out; a \<open>read\<close> that fails (its -1 is added to an unsigned total) is
  not modelled.
\<close>

function read_blocks :: "file_image \<Rightarrow> nat \<Rightarrow> nat \<Rightarrow> mem \<Rightarrow> mem res" where
  "read_blocks f buf_size tot buf =
     (let k = min WRITE_FILE_BLOCK_SIZE (snd f - tot)
      in if k = 0 then Inr buf
         else if buf_size < tot + k then Inl OutOfBounds
         else read_blocks f buf_size (tot + k) (memcpy buf tot (fst f) tot k))"
  by pat_completeness auto
termination
  by (relation "measure (\<lambda>(f, buf_size, tot, buf). snd f - tot)") (auto simp: Let_def)

declare read_blocks.simps [simp del]

definition ReadStoreFileFrame ::
    "int \<Rightarrow> (string \<rightharpoonup> file_image) \<Rightarrow> string \<Rightarrow> mem \<Rightarrow> nat \<Rightarrow> (mem \<times> int) res" where
  "ReadStoreFileFrame undef files file_path frameBuf buf_size =
     (case files file_path of
        None \<Rightarrow> Inr (frameBuf, -1)
      | Some f \<Rightarrow> ebind (read_blocks f buf_size 0 frameBuf) (\<lambda>buf. Inr (buf, undef)))"

text \<open>\<open>GetOneFrameByIndex\<close>: the frame, its time stamp and the value returned.\<close>

definition GetOneFrameByIndex ::
    "nat \<Rightarrow> mem \<Rightarrow> nat \<Rightarrow> nat \<Rightarrow> ((byte list \<times> u64) option \<times> int) res" where
  "GetOneFrameByIndex idx frames frames_size out_size =
     (if frames_size < sizeof_storeinfo * (idx + 1) then Inl OutOfBounds
      else (let si = get_storeinfo frames (frames_size - sizeof_storeinfo * (idx + 1));
                n = unat (frame_size si); p = unat (frame_offset si)
            in if head si \<noteq> STORE_INFO_HEAD then Inr (None, -1)
               else if out_size < n then Inr (None, -1)
               else if frames_size < p + n then Inl OutOfBounds
               else Inr (Some (bytes_at frames p n, frame_start_time si), int n)))"

end
