(* ===== verification/StoreCorrect.thy ===== *)
theory StoreCorrect
  imports Store
begin

text \<open>
  Correctness of the recording buffers. The abstract view of a buffer is the list of
  the frames recorded in it, with their time stamps and indices; \<open>buf_repr\<close> relates a buffer
  to that list, byte by byte. Appending a frame, cutting a file at a key frame and moving
  the last group of pictures are list operations under this relation, and what the
  player reads from a written file is the list again.
\<close>

section \<open>Frame lists and their layout\<close>

record frame =
  fdata :: "byte list"
  ftime :: u64
  fidx :: u32

definition offs :: "frame list \<Rightarrow> nat \<Rightarrow> nat" where
  "offs fs i = sum_list (map (\<lambda>f. length (fdata f)) (take i fs))"

definition total_len :: "frame list \<Rightarrow> nat" where
  "total_len fs = offs fs (length fs)"

definition rec_addr :: "nat \<Rightarrow> nat" where
  "rec_addr i = STORE_BUF_MAX_SIZE - sizeof_storeinfo * (i + 1)"

definition info_of :: "frame list \<Rightarrow> nat \<Rightarrow> storeinfo" where
  "info_of fs i = \<lparr>head = STORE_INFO_HEAD, frame_start_time = ftime (fs ! i), frame_idx = fidx (fs ! i),
     frame_offset = word_of_nat (offs fs i), frame_size = word_of_nat (length (fdata (fs ! i)))\<rparr>"

definition mem_repr :: "mem \<Rightarrow> frame list \<Rightarrow> bool" where
  "mem_repr m fs \<longleftrightarrow>
     (\<forall>i<length fs. get_storeinfo m (rec_addr i) = info_of fs i \<and>
        bytes_at m (offs fs i) (length (fdata (fs ! i))) = fdata (fs ! i))"

text \<open>Room for the frames, their records and the free record below them.\<close>

definition fits :: "frame list \<Rightarrow> bool" where
  "fits fs \<longleftrightarrow> total_len fs + sizeof_storeinfo * (length fs + 1) \<le> STORE_BUF_MAX_SIZE"

definition buf_repr :: "storebuf \<Rightarrow> frame list \<Rightarrow> bool" where
  "buf_repr b fs \<longleftrightarrow>
     (\<exists>m. store_buf b = Some m \<and> mem_repr m fs) \<and> fits fs \<and>
     unat (store_offset b) = total_len fs \<and> unat (store_info_offset b) = rec_addr (length fs) \<and>
     store_size b = word_of_nat STORE_BUF_MAX_SIZE"

text \<open>A finished buffer: the record below the last one carries no magic head.\<close>

definition file_repr :: "mem \<Rightarrow> frame list \<Rightarrow> bool" where
  "file_repr m fs \<longleftrightarrow> fits fs \<and> mem_repr m fs \<and>
     head (get_storeinfo m (rec_addr (length fs))) \<noteq> STORE_INFO_HEAD"

lemmas sizes = STORE_BUF_MAX_SIZE_def STORE_FILE_MAX_SIZE_def sizeof_storeinfo_def

lemma offs_0 [simp]: "offs fs 0 = 0"
  by (simp add: offs_def)

lemma offs_Suc: "i < length fs \<Longrightarrow> offs fs (Suc i) = offs fs i + length (fdata (fs ! i))"
  by (simp add: offs_def take_Suc_conv_app_nth)

lemma offs_append1 [simp]: "i \<le> length fs \<Longrightarrow> offs (fs @ gs) i = offs fs i"
  by (simp add: offs_def)

lemma offs_append2: "offs (fs @ gs) (length fs + i) = total_len fs + offs gs i"
  by (simp add: offs_def total_len_def)

lemma total_len_Nil [simp]: "total_len [] = 0"
  by (simp add: total_len_def)

lemma total_len_append [simp]: "total_len (fs @ gs) = total_len fs + total_len gs"
  by (simp add: total_len_def offs_def)

lemma total_len_Cons [simp]: "total_len (f # fs) = length (fdata f) + total_len fs"
  by (simp add: total_len_def offs_def)

lemma offs_frame_le: "i < length fs \<Longrightarrow> offs fs i + length (fdata (fs ! i)) \<le> total_len fs"
proof -
  assume i: "i < length fs"
  have "total_len fs = total_len (take (Suc i) fs) + total_len (drop (Suc i) fs)"
    by (metis append_take_drop_id total_len_append)
  moreover have "total_len (take (Suc i) fs) = offs fs (Suc i)"
    using i by (simp add: total_len_def offs_def)
  ultimately show ?thesis using offs_Suc [OF i] by simp
qed

lemma offs_le: "i \<le> length fs \<Longrightarrow> offs fs i \<le> total_len fs"
  using offs_frame_le [of i fs] by (cases "i < length fs") (auto simp: total_len_def)

section \<open>Records in memory\<close>

lemma get_storeinfo_cong:
  assumes "\<And>i. i < 28 \<Longrightarrow> m (a + i) = m' (b + i)"
  shows "get_storeinfo m a = get_storeinfo m' b"
proof -
  have "load_u32 m (a + k) = load_u32 m' (b + k)" if "k \<le> 24" for k
    using assms that by (intro load_u32_cong) (simp add: add.assoc)
  moreover have "load_u64 m (a + 8) = load_u64 m' (b + 8)"
    using assms by (intro load_u64_cong) (simp add: add.assoc)
  ultimately show ?thesis
    using \<open>\<And>k. k \<le> 24 \<Longrightarrow> _\<close> [of 0] by (simp add: get_storeinfo_def)
qed

lemma get_put_storeinfo [simp]: "get_storeinfo (put_storeinfo m a si) a = si"
proof -
  let ?m = "put_storeinfo m a si"
  have "load_u32 ?m a = head si"
  proof -
    have "load_u32 ?m a = load_u32 (store_u32 (memset m a 0 sizeof_storeinfo) a (head si)) a"
      by (rule load_u32_cong) (simp add: put_storeinfo_def mem_simps)
    then show ?thesis by simp
  qed
  moreover have "load_u64 ?m (a + 8) = frame_start_time si"
  proof -
    have "load_u64 ?m (a + 8) = load_u64 (store_u64 (store_u32 (memset m a 0 sizeof_storeinfo)
        a (head si)) (a + 8) (frame_start_time si)) (a + 8)"
      by (rule load_u64_cong) (simp add: put_storeinfo_def mem_simps)
    then show ?thesis by simp
  qed
  moreover have "load_u32 ?m (a + 16) = frame_idx si"
  proof -
    have "load_u32 ?m (a + 16) = load_u32 (store_u32 (store_u64 (store_u32 (memset m a 0 sizeof_storeinfo)
        a (head si)) (a + 8) (frame_start_time si)) (a + 16) (frame_idx si)) (a + 16)"
      by (rule load_u32_cong) (simp add: put_storeinfo_def mem_simps)
    then show ?thesis by simp
  qed
  moreover have "load_u32 ?m (a + 20) = frame_offset si"
  proof -
    have "load_u32 ?m (a + 20) = load_u32 (store_u32 (store_u32 (store_u64 (store_u32 (memset m a 0
        sizeof_storeinfo) a (head si)) (a + 8) (frame_start_time si)) (a + 16) (frame_idx si))
        (a + 20) (frame_offset si)) (a + 20)"
      by (rule load_u32_cong) (simp add: put_storeinfo_def mem_simps)
    then show ?thesis by simp
  qed
  moreover have "load_u32 ?m (a + 24) = frame_size si"
    by (simp add: put_storeinfo_def)
  ultimately show ?thesis by (simp add: get_storeinfo_def)
qed

lemma put_storeinfo_below [mem_simps]: "b < a \<Longrightarrow> put_storeinfo m a si b = m b"
  by (simp add: put_storeinfo_def mem_simps)

lemma put_storeinfo_above [mem_simps]: "a + 96 \<le> b \<Longrightarrow> put_storeinfo m a si b = m b"
  by (simp add: put_storeinfo_def mem_simps sizeof_storeinfo_def)

text \<open>Only the frame bytes and the records matter to the abstract view.\<close>

lemma mem_repr_cong:
  assumes "mem_repr m fs" "sizeof_storeinfo * length fs \<le> STORE_BUF_MAX_SIZE"
    and "\<And>a. a < total_len fs \<Longrightarrow> m' a = m a"
    and "\<And>a. STORE_BUF_MAX_SIZE - sizeof_storeinfo * length fs \<le> a \<Longrightarrow> a < STORE_BUF_MAX_SIZE \<Longrightarrow> m' a = m a"
  shows "mem_repr m' fs"
  unfolding mem_repr_def
proof (intro allI impI conjI)
  fix i assume i: "i < length fs"
  have "get_storeinfo m' (rec_addr i) = get_storeinfo m (rec_addr i)"
    using i assms(2,4) by (intro get_storeinfo_cong) (auto simp: rec_addr_def sizes)
  then show "get_storeinfo m' (rec_addr i) = info_of fs i"
    using assms(1) i by (simp add: mem_repr_def)
  have "bytes_at m' (offs fs i) (length (fdata (fs ! i))) = bytes_at m (offs fs i) (length (fdata (fs ! i)))"
    using offs_frame_le [OF i] assms(3) by (intro bytes_at_eqI) auto
  then show "bytes_at m' (offs fs i) (length (fdata (fs ! i))) = fdata (fs ! i)"
    using assms(1) i by (simp add: mem_repr_def)
qed

lemma mem_repr_Nil [simp]: "mem_repr m []"
  by (simp add: mem_repr_def)

lemma mem_repr_snoc:
  assumes "mem_repr m fs" "get_storeinfo m (rec_addr (length fs)) =
      \<lparr>head = STORE_INFO_HEAD, frame_start_time = ftime f, frame_idx = fidx f,
       frame_offset = word_of_nat (total_len fs), frame_size = word_of_nat (length (fdata f))\<rparr>"
    and "bytes_at m (total_len fs) (length (fdata f)) = fdata f"
  shows "mem_repr m (fs @ [f])"
  unfolding mem_repr_def
proof (intro allI impI)
  fix i assume "i < length (fs @ [f])"
  then consider "i < length fs" | "i = length fs" by fastforce
  then show "get_storeinfo m (rec_addr i) = info_of (fs @ [f]) i \<and>
      bytes_at m (offs (fs @ [f]) i) (length (fdata ((fs @ [f]) ! i))) = fdata ((fs @ [f]) ! i)"
  proof cases
    case 1
    then show ?thesis using assms(1) by (simp add: mem_repr_def info_of_def nth_append)
  next
    case 2
    then show ?thesis using assms(2,3) by (simp add: info_of_def total_len_def)
  qed
qed

section \<open>Appending a frame\<close>

lemma rec_addr_eq: "sizeof_storeinfo * (n + 1) \<le> STORE_BUF_MAX_SIZE \<Longrightarrow>
    rec_addr n + sizeof_storeinfo * (n + 1) = STORE_BUF_MAX_SIZE"
  by (simp add: rec_addr_def)

lemma fits_bounds:
  assumes "fits fs"
  shows "total_len fs \<le> rec_addr (length fs)" "sizeof_storeinfo * (length fs + 1) \<le> STORE_BUF_MAX_SIZE"
    "rec_addr (length fs) < 2 ^ 32" "total_len fs < 2 ^ 32"
  using assms by (auto simp: fits_def rec_addr_def sizes)

lemma buf_repr_remaining:
  assumes "buf_repr b fs"
  shows "unat (remaining b) = rec_addr (length fs) - total_len fs"
proof -
  have "unat (store_offset b) \<le> unat (store_info_offset b)"
    using assms fits_bounds(1) by (auto simp: buf_repr_def)
  then have "unat (store_info_offset b - store_offset b) = unat (store_info_offset b) - unat (store_offset b)"
    by (simp add: unat_sub word_le_nat_alt)
  then show ?thesis using assms by (simp add: remaining_def buf_repr_def)
qed

text \<open>The test \<open>remain < frameSize + sizeof(struct storeinfo)\<close> is the test whether the
  longer list fits.\<close>

lemma no_room_iff:
  assumes "buf_repr b fs"
  shows "unat (remaining b) < length (fdata f) + sizeof_storeinfo \<longleftrightarrow> \<not> fits (fs @ [f])"
  using buf_repr_remaining [OF assms] assms
  by (auto simp: buf_repr_def fits_def rec_addr_def sizes)

definition stamp :: "store_env \<Rightarrow> u64" where
  "stamp env = word_of_int (tv_sec env * 1000 + tv_usec env div 1000)"

definition new_frame :: "store_env \<Rightarrow> byte list \<Rightarrow> u32 \<Rightarrow> frame" where
  "new_frame env xs idx = \<lparr>fdata = xs, ftime = stamp env, fidx = idx\<rparr>"

lemma fdata_new_frame [simp]: "fdata (new_frame env xs idx) = xs"
  by (simp add: new_frame_def)

lemma append_frame_repr:
  assumes b: "buf_repr b fs" and room: "fits (fs @ [new_frame env xs idx])"
  shows "\<exists>b'. append_frame env xs b idx = Inr b' \<and> buf_repr b' (fs @ [new_frame env xs idx]) \<and>
           store_start_time b' = store_start_time b"
proof -
  let ?f = "new_frame env xs idx" and ?n = "length fs"
  from b obtain m where m: "store_buf b = Some m" "mem_repr m fs" and f: "fits fs"
    and off: "unat (store_offset b) = total_len fs"
    and ioff: "unat (store_info_offset b) = rec_addr ?n"
    and sz: "store_size b = word_of_nat STORE_BUF_MAX_SIZE"
    by (auto simp: buf_repr_def)
  have bound: "total_len fs + length xs + sizeof_storeinfo * (?n + 2) \<le> STORE_BUF_MAX_SIZE"
    using room by (simp add: fits_def)
  define si where "si = \<lparr>head = STORE_INFO_HEAD, frame_start_time = stamp env, frame_idx = idx,
    frame_offset = store_offset b, frame_size = word_of_nat (length xs)\<rparr>"
  define m' where "m' = put_storeinfo (memcpy m (total_len fs) (mem_of_list xs) 0 (length xs)) (rec_addr ?n) si"
  define b' where "b' = b\<lparr>store_buf := Some m', store_offset := store_offset b + word_of_nat (length xs),
    store_info_offset := store_info_offset b - word_of_nat sizeof_storeinfo\<rparr>"
  have "append_frame env xs b idx = Inr b'"
    using m(1) off ioff bound
    by (simp add: append_frame_def Let_def buf_memcpy_def buf_put_storeinfo_def buf_mem_def
        b'_def m'_def si_def stamp_def rec_addr_def sizes)
  moreover have "mem_repr m' (fs @ [?f])"
  proof (rule mem_repr_snoc)
    show "mem_repr m' fs"
      using m(2) by (rule mem_repr_cong) (use bound in \<open>auto simp: m'_def mem_simps rec_addr_def sizes\<close>)
    have "store_offset b = word_of_nat (total_len fs)"
      using off by (rule u32_of_unat)
    then show "get_storeinfo m' (rec_addr ?n) = \<lparr>head = STORE_INFO_HEAD, frame_start_time = ftime ?f,
        frame_idx = fidx ?f, frame_offset = word_of_nat (total_len fs), frame_size = word_of_nat (length (fdata ?f))\<rparr>"
      by (simp add: m'_def si_def new_frame_def)
    show "bytes_at m' (total_len fs) (length (fdata ?f)) = fdata ?f"
      using bound by (intro bytes_at_eqI) (auto simp: m'_def mem_simps rec_addr_def sizes)
  qed
  moreover have "unat (store_offset b') = total_len (fs @ [?f])"
    using off bound by (simp add: b'_def unat_word_ariths unat_of_nat sizes)
  moreover have "unat (store_info_offset b') = rec_addr (length (fs @ [?f]))"
  proof -
    have "unat (word_of_nat sizeof_storeinfo :: u32) = sizeof_storeinfo" by (simp add: sizes)
    moreover have "sizeof_storeinfo \<le> unat (store_info_offset b)"
      using ioff bound by (simp add: rec_addr_def sizes)
    ultimately have "unat (store_info_offset b - word_of_nat sizeof_storeinfo) = rec_addr ?n - sizeof_storeinfo"
      using ioff by (simp add: unat_sub word_le_nat_alt)
    then show ?thesis by (simp add: b'_def rec_addr_def)
  qed
  ultimately show ?thesis using room sz by (auto simp: buf_repr_def b'_def)
qed

section \<open>Devices\<close>

lemma other_neq [simp]: "other r \<noteq> r" "r \<noteq> other r" "other (other r) = r"
  by (cases r; simp add: other_def)+

lemma get_set_buf [simp]: "get_buf (set_buf d r b) r = b"
  by (cases r) (simp_all add: get_buf_def set_buf_def)

lemma get_set_other [simp]: "q \<noteq> r \<Longrightarrow> get_buf (set_buf d r b) q = get_buf d q"
  by (cases r; cases q) (simp_all add: get_buf_def set_buf_def)

lemma set_buf_fields [simp]:
  "pCurStoreBuf (set_buf d r b) = pCurStoreBuf d" "pStoreBufWr (set_buf d r b) = pStoreBufWr d"
  "frame_index (set_buf d r b) = frame_index d" "store_path (set_buf d r b) = store_path d"
  "store_type (set_buf d r b) = store_type d"
  by (cases r; simp add: set_buf_def)+

lemma get_buf_update [simp]:
  "get_buf (d\<lparr>pCurStoreBuf := p\<rparr>) r = get_buf d r" "get_buf (d\<lparr>pStoreBufWr := p\<rparr>) r = get_buf d r"
  "get_buf (d\<lparr>frame_index := k\<rparr>) r = get_buf d r"
  by (cases r; simp add: get_buf_def)+

text \<open>The current buffer holds \<open>fs\<close>; the other one is allocated.\<close>

definition dev_repr :: "storedevice \<Rightarrow> bufref \<Rightarrow> frame list \<Rightarrow> bool" where
  "dev_repr d r fs \<longleftrightarrow> pCurStoreBuf d = Ref r \<and> buf_repr (get_buf d r) fs \<and>
     store_buf (get_buf d (other r)) \<noteq> None \<and>
     store_size (get_buf d (other r)) = word_of_nat STORE_BUF_MAX_SIZE"

lemma buf_repr_start_time [simp]: "buf_repr (b\<lparr>store_start_time := t\<rparr>) fs = buf_repr b fs"
  by (simp add: buf_repr_def)

lemma fits_Nil [simp]: "fits []"
  by (simp add: fits_def sizes)

lemma buf_repr_reset [simp]:
  "store_buf b \<noteq> None \<Longrightarrow> store_size b = word_of_nat STORE_BUF_MAX_SIZE \<Longrightarrow> buf_repr (reset_buf b t) []"
  by (auto simp: buf_repr_def reset_buf_def rec_addr_def sizes)

lemma buf_repr_size: "buf_repr b fs \<Longrightarrow> store_size b = word_of_nat STORE_BUF_MAX_SIZE"
  by (simp add: buf_repr_def)

lemma store_frame_repr:
  assumes "dev_repr d r fs" "fits (fs @ [new_frame env xs (frame_index d)])"
  shows "\<exists>d'. store_frame env xs d = Inr d' \<and> dev_repr d' r (fs @ [new_frame env xs (frame_index d)]) \<and>
     pStoreBufWr d' = pStoreBufWr d \<and> frame_index d' = frame_index d + 1 \<and>
     store_path d' = store_path d \<and> store_type d' = store_type d \<and>
     get_buf d' (other r) = get_buf d (other r) \<and>
     store_start_time (get_buf d' r) = store_start_time (get_buf d r)"
proof -
  from assms obtain b' where
    "append_frame env xs (get_buf d r) (frame_index d) = Inr b'"
    "buf_repr b' (fs @ [new_frame env xs (frame_index d)])"
    "store_start_time b' = store_start_time (get_buf d r)"
    using append_frame_repr [of "get_buf d r" fs env xs "frame_index d"]
    by (auto simp: dev_repr_def)
  with assms(1) show ?thesis
    by (auto simp: store_frame_def dev_repr_def deref_def)
qed

text \<open>The assignment of the start time leaves the frames alone.\<close>

definition touch :: "store_env \<Rightarrow> storedevice \<Rightarrow> bufref \<Rightarrow> storedevice" where
  "touch env d r = (if store_start_time (get_buf d r) = 0
     then set_buf d r ((get_buf d r)\<lparr>store_start_time := clock env\<rparr>) else d)"

lemma touch_repr [simp]:
  "dev_repr (touch env d r) r fs = dev_repr d r fs" "pStoreBufWr (touch env d r) = pStoreBufWr d"
  "frame_index (touch env d r) = frame_index d" "get_buf (touch env d r) (other r) = get_buf d (other r)"
  "store_path (touch env d r) = store_path d" "store_type (touch env d r) = store_type d"
  "pCurStoreBuf (touch env d r) = pCurStoreBuf d"
  by (auto simp: touch_def dev_repr_def)

definition is_key :: "store_env \<Rightarrow> byte list \<Rightarrow> bool" where
  "is_key env xs \<longleftrightarrow> ParseKeyFrame (undef_ret env) (Some (mem_of_list xs, 0)) (length xs) = 0"

text \<open>The three cases of a frame that does not end the recording.\<close>

lemma write_running_eq:
  assumes "dev_repr d r fs"
  shows "write_running env xs d =
    (if fits (fs @ [new_frame env xs (frame_index d)]) then store_frame env xs (touch env d r)
     else ebind (if is_key env xs then switch_cutting env d r else switch_moving env d r) (\<lambda>d1.
          ebind (deref (pCurStoreBuf d1)) (\<lambda>r1. store_frame env xs (touch env d1 r1))))"
proof -
  let ?f = "new_frame env xs (frame_index d)"
  have cur: "deref (pCurStoreBuf d) = Inr r" and b: "buf_repr (get_buf d r) fs"
    using assms by (auto simp: dev_repr_def deref_def)
  have "unat (remaining (get_buf d r)) < length xs + sizeof_storeinfo \<longleftrightarrow> \<not> fits (fs @ [?f])"
    using no_room_iff [OF b, of ?f] by simp
  then show ?thesis
    by (simp add: write_running_def cur touch_def is_key_def Let_def)
qed

section \<open>Cutting a file at a key frame\<close>

lemma switch_cutting_repr:
  assumes d: "dev_repr d r fs"
  shows "\<exists>d' m. switch_cutting env d r = Inr d' \<and> dev_repr d' (other r) [] \<and>
     pStoreBufWr d' = Ref r \<and> frame_index d' = frame_index d \<and>
     store_path d' = store_path d \<and> store_type d' = store_type d \<and>
     store_buf (get_buf d' r) = Some m \<and> file_repr m fs \<and>
     store_size (get_buf d' r) = store_size (get_buf d r) \<and>
     store_start_time (get_buf d' r) = store_start_time (get_buf d r)"
proof -
  let ?cur = "get_buf d r" and ?n = "length fs"
  from d obtain m where m: "store_buf ?cur = Some m" "mem_repr m fs" and f: "fits fs"
    and off: "unat (store_offset ?cur) = total_len fs" and b: "buf_repr ?cur fs"
    by (auto simp: dev_repr_def buf_repr_def)
  note rem = buf_repr_remaining [OF b]
  have len: "total_len fs + (rec_addr ?n - total_len fs + sizeof_storeinfo) = rec_addr ?n + sizeof_storeinfo"
    using fits_bounds(1) [OF f] by simp
  have top: "rec_addr ?n + sizeof_storeinfo \<le> STORE_BUF_MAX_SIZE"
    using fits_bounds(2) [OF f] by (simp add: rec_addr_def sizes)
  define m' where "m' = memset m (total_len fs) 0 (rec_addr ?n - total_len fs + sizeof_storeinfo)"
  have ms: "buf_memset0 ?cur (unat (store_offset ?cur)) (unat (remaining ?cur) + sizeof_storeinfo) =
      Inr (?cur\<lparr>store_buf := Some m'\<rparr>)"
    using top len by (simp add: buf_memset0_def buf_mem_def m(1) off rem m'_def)
  have repr: "mem_repr m' fs"
    using m(2) fits_bounds [OF f]
    by (rule_tac mem_repr_cong) (auto simp: m'_def mem_simps rec_addr_def sizes)
  have "load_u32 m' (rec_addr ?n) = load_u32 (\<lambda>_. 0) (rec_addr ?n)"
    using fits_bounds(1) [OF f] by (intro load_u32_cong) (auto simp: m'_def mem_simps sizes)
  also have "\<dots> = 0" by (simp add: load_u32_def numeral_eq_Suc)
  finally have "head (get_storeinfo m' (rec_addr ?n)) \<noteq> STORE_INFO_HEAD"
    by (simp add: get_storeinfo_def STORE_INFO_HEAD_def)
  then have "file_repr m' fs" using f repr by (simp add: file_repr_def)
  moreover have "dev_repr ((set_buf (set_buf d r (?cur\<lparr>store_buf := Some m'\<rparr>)) (other r)
      (reset_buf (get_buf d (other r)) (clock env)))\<lparr>pStoreBufWr := Ref r, pCurStoreBuf := Ref (other r)\<rparr>) (other r) []"
    using d by (auto simp: dev_repr_def dest: buf_repr_size)
  ultimately show ?thesis
    by (simp add: switch_cutting_def Let_def ms)
qed

section \<open>Moving the last group of pictures\<close>

lemma rec_addr_Suc: "sizeof_storeinfo * (n + 2) \<le> STORE_BUF_MAX_SIZE \<Longrightarrow> rec_addr n = rec_addr (Suc n) + sizeof_storeinfo"
  by (simp add: rec_addr_def sizes)

lemma fits_drop: "fits fs \<Longrightarrow> fits (drop k fs)"
proof -
  assume f: "fits fs"
  have "total_len fs = total_len (take k fs) + total_len (drop k fs)"
    by (metis append_take_drop_id total_len_append)
  with f show ?thesis by (simp add: fits_def sizes)
qed

lemma fits_take: "fits fs \<Longrightarrow> fits (take k fs)"
proof -
  assume f: "fits fs"
  have "total_len fs = total_len (take k fs) + total_len (drop k fs)"
    by (metis append_take_drop_id total_len_append)
  moreover have "length (take k fs) \<le> length fs" by simp
  ultimately show ?thesis using f by (simp add: fits_def sizes)
qed

lemma mem_repr_take: "mem_repr m fs \<Longrightarrow> mem_repr m (take k fs)"
  by (auto simp: mem_repr_def info_of_def offs_def min_def)

lemma repr_info:
  assumes "mem_repr m fs" "fits fs" "i < length fs"
  shows "head (get_storeinfo m (rec_addr i)) = STORE_INFO_HEAD"
    "unat (frame_offset (get_storeinfo m (rec_addr i))) = offs fs i"
    "unat (frame_size (get_storeinfo m (rec_addr i))) = length (fdata (fs ! i))"
proof -
  have "offs fs i + length (fdata (fs ! i)) < 2 ^ 32"
    using offs_frame_le [OF assms(3)] fits_bounds(4) [OF assms(2)] by simp
  then show "head (get_storeinfo m (rec_addr i)) = STORE_INFO_HEAD"
    "unat (frame_offset (get_storeinfo m (rec_addr i))) = offs fs i"
    "unat (frame_size (get_storeinfo m (rec_addr i))) = length (fdata (fs ! i))"
    using assms(1,3) by (auto simp: mem_repr_def info_of_def unat_of_nat)
qed

lemma rec_addr_top: "fits fs \<Longrightarrow> i < length fs \<Longrightarrow> rec_addr i + sizeof_storeinfo \<le> STORE_BUF_MAX_SIZE"
  by (simp add: fits_def rec_addr_def sizes)

text \<open>The key-frame test as the code performs it, on the frame's place in the buffer.\<close>

definition key_at :: "int \<Rightarrow> mem \<Rightarrow> frame list \<Rightarrow> nat \<Rightarrow> bool" where
  "key_at undef m fs i \<longleftrightarrow> ParseKeyFrame undef (Some (m, offs fs i)) (length (fdata (fs ! i))) = 0"

lemma find_key_record_step:
  assumes "mem_repr m fs" "fits fs" "i < length fs"
  shows "find_key_record undef m (rec_addr i) =
     (if key_at undef m fs i then Inr (rec_addr i, Some (rec_addr i))
      else find_key_record undef m (rec_addr i + sizeof_storeinfo))"
  using rec_addr_top [OF assms(2,3)]
  by (subst find_key_record.simps) (simp add: repr_info [OF assms] key_at_def)

lemma find_key_record_repr:
  assumes "mem_repr m fs" "fits fs" "k \<le> i" "i < length fs" "key_at undef m fs k"
    and "\<And>j. k < j \<Longrightarrow> j \<le> i \<Longrightarrow> \<not> key_at undef m fs j"
  shows "find_key_record undef m (rec_addr i) = Inr (rec_addr k, Some (rec_addr k))"
  using assms(3,4,6)
proof (induction "i - k" arbitrary: i)
  case 0
  then show ?case using assms(1,2,5) by (simp add: find_key_record_step)
next
  case (Suc x)
  then obtain i' where i': "i = Suc i'" by (cases i) auto
  have "rec_addr i + sizeof_storeinfo = rec_addr i'"
    using Suc.prems(2) assms(2) i' rec_addr_Suc [of i'] by (simp add: fits_def sizes)
  moreover have "find_key_record undef m (rec_addr i') = Inr (rec_addr k, Some (rec_addr k))"
    using Suc.hyps(1) [of i'] Suc.hyps(2) Suc.prems i' by simp
  moreover have "\<not> key_at undef m fs i" using Suc.prems Suc.hyps(2) by simp
  ultimately show ?case
    using find_key_record_step [OF assms(1,2) Suc.prems(2)] by simp
qed

lemma copy_record:
  "get_storeinfo (store_u32 (memcpy m b sm a sizeof_storeinfo) (b + 20) v) b =
     (get_storeinfo sm a)\<lparr>frame_offset := v\<rparr>"
proof -
  let ?m = "store_u32 (memcpy m b sm a sizeof_storeinfo) (b + 20) v"
  have "load_u32 ?m (b + k) = load_u32 sm (a + k)" if "k \<le> 16 \<or> k = 24" for k
    using that by (intro load_u32_cong) (auto simp: memcpy_def store_u32_def store_le_def sizeof_storeinfo_def add.assoc)
  from this [of 0] this [of 16] this [of 24]
  have "load_u32 ?m b = load_u32 sm a" "load_u32 ?m (b + 16) = load_u32 sm (a + 16)"
    "load_u32 ?m (b + 24) = load_u32 sm (a + 24)" by simp_all
  moreover have "load_u64 ?m (b + 8) = load_u64 sm (a + 8)"
    by (rule load_u64_cong) (auto simp: memcpy_def store_u32_def store_le_def sizeof_storeinfo_def add.assoc)
  ultimately show ?thesis by (simp add: get_storeinfo_def)
qed

text \<open>One turn of the copying loop extends the destination list by one frame.\<close>

definition moved :: "mem \<Rightarrow> nat \<Rightarrow> mem \<Rightarrow> nat \<Rightarrow> u32 \<Rightarrow> storeinfo \<Rightarrow> mem" where
  "moved sm a dm b v si = store_u32 (store_u32 (memcpy
     (memcpy dm (unat v) sm (unat (frame_offset si)) (unat (frame_size si)))
     b sm a sizeof_storeinfo) (b + 20) v) (b - sizeof_storeinfo + 20) (v + frame_size si)"

text \<open>
  The loop copies whatever the records say: the frame described by record slot \<open>i\<close> of a block, and whether it lies
  within the block. The slots from \<open>i\<close> up to \<open>n\<close> hold records and slot \<open>n\<close> holds none. Blocks
  are reused without being cleared, so records of an earlier fill may follow those of the current one.
\<close>

definition record_frame :: "mem \<Rightarrow> nat \<Rightarrow> frame" where
  "record_frame m i = (let si = get_storeinfo m (rec_addr i)
     in \<lparr>fdata = bytes_at m (unat (frame_offset si)) (unat (frame_size si)), ftime = frame_start_time si, fidx = frame_idx si\<rparr>)"

definition record_ok :: "mem \<Rightarrow> nat \<Rightarrow> bool" where
  "record_ok m i \<longleftrightarrow> (let si = get_storeinfo m (rec_addr i)
     in head si = STORE_INFO_HEAD \<and> unat (frame_offset si) + unat (frame_size si) \<le> STORE_BUF_MAX_SIZE)"

definition records_until :: "mem \<Rightarrow> nat \<Rightarrow> nat \<Rightarrow> bool" where
  "records_until m i n \<longleftrightarrow> i \<le> n \<and> sizeof_storeinfo * (n + 1) \<le> STORE_BUF_MAX_SIZE \<and>
     (\<forall>j. i \<le> j \<and> j < n \<longrightarrow> record_ok m j) \<and> head (get_storeinfo m (rec_addr n)) \<noteq> STORE_INFO_HEAD"

definition leftovers :: "mem \<Rightarrow> nat \<Rightarrow> nat \<Rightarrow> frame list" where
  "leftovers m i n = map (record_frame m) [i..<n]"

lemma leftovers_none [simp]: "leftovers m i i = []"
  by (simp add: leftovers_def)

lemma repr_record:
  assumes "mem_repr m fs" "fits fs" "i < length fs"
  shows "record_frame m i = fs ! i" "record_ok m i"
proof -
  show "record_frame m i = fs ! i"
    using repr_info [OF assms] assms(1,3) by (simp add: record_frame_def Let_def mem_repr_def) (simp add: info_of_def)
  show "record_ok m i"
    using repr_info [OF assms] offs_frame_le [OF assms(3)] assms(2) by (simp add: record_ok_def Let_def fits_def)
qed

lemma records_until_repr:
  assumes "mem_repr m fs" "fits fs" "k \<le> length fs" "records_until m (length fs) n"
  shows "records_until m k n" "leftovers m k n = drop k fs @ leftovers m (length fs) n"
proof -
  have "record_ok m j" if "k \<le> j" "j < n" for j
    using repr_record(2) [OF assms(1,2), of j] assms(4) that by (cases "j < length fs") (auto simp: records_until_def)
  then show "records_until m k n" using assms(3,4) by (auto simp: records_until_def)
  have "map (record_frame m) [k..<length fs] = drop k fs"
    using repr_record(1) [OF assms(1,2)] by (intro nth_equalityI) auto
  moreover have "[k..<n] = [k..<length fs] @ [length fs..<n]"
    using assms(3,4) upt_add_eq_append [of k "length fs" "n - length fs"] by (simp add: records_until_def)
  ultimately show "leftovers m k n = drop k fs @ leftovers m (length fs) n" by (simp add: leftovers_def)
qed

lemma moved_repr:
  assumes g: "fits g" "j < length g" "g ! j = record_frame sm (k + j)" "record_ok sm (k + j)"
    and dm: "mem_repr dm (take j g)" "unat v = offs g j"
    and si: "si = get_storeinfo sm (rec_addr (k + j))"
  shows "mem_repr (moved sm (rec_addr (k + j)) dm (rec_addr j) v si) (take (Suc j) g)"
proof -
  let ?m = "moved sm (rec_addr (k + j)) dm (rec_addr j) v si"
  have tl: "total_len (take j g) = offs g j" using g(2) by (simp add: total_len_def offs_def)
  have b: "rec_addr j = rec_addr (Suc j) + sizeof_storeinfo"
    using g by (intro rec_addr_Suc) (simp add: fits_def sizes)
  have low: "offs g j + length (fdata (g ! j)) \<le> rec_addr (Suc j)"
    using offs_frame_le [OF g(2)] g by (simp add: fits_def rec_addr_def sizes)
  have gj: "fdata (g ! j) = bytes_at sm (unat (frame_offset si)) (unat (frame_size si))" "ftime (g ! j) = frame_start_time si"
    "fidx (g ! j) = frame_idx si"
    using g(3) si by (simp_all add: record_frame_def Let_def)
  then have sz: "unat (frame_size si) = length (fdata (g ! j))" by simp
  have hd: "head si = STORE_INFO_HEAD" using g(4) si by (simp add: record_ok_def Let_def)
  have "take (Suc j) g = take j g @ [g ! j]" using g(2) by (rule take_Suc_conv_app_nth)
  moreover have "mem_repr ?m (take j g @ [g ! j])"
  proof (rule mem_repr_snoc)
    show "mem_repr ?m (take j g)"
      using dm(1) by (rule mem_repr_cong)
        (use low b g(1,2) in \<open>auto simp: moved_def mem_simps tl sz dm(2) rec_addr_def fits_def sizes\<close>)
    have "get_storeinfo ?m (rec_addr j) = si\<lparr>frame_offset := v\<rparr>"
    proof -
      have "get_storeinfo ?m (rec_addr j) = get_storeinfo (store_u32 (memcpy
          (memcpy dm (unat v) sm (unat (frame_offset si)) (unat (frame_size si)))
          (rec_addr j) sm (rec_addr (k + j)) sizeof_storeinfo) (rec_addr j + 20) v) (rec_addr j)"
        by (rule get_storeinfo_cong) (simp add: moved_def b mem_simps sizes)
      then show ?thesis by (simp only: copy_record si)
    qed
    moreover have "si\<lparr>frame_offset := w\<rparr> = \<lparr>head = STORE_INFO_HEAD, frame_start_time = ftime (g ! j), frame_idx = fidx (g ! j),
        frame_offset = w, frame_size = word_of_nat (length (fdata (g ! j)))\<rparr>" for w
      using hd gj(2,3) u32_of_unat [OF sz] by (cases si) simp
    moreover have "v = word_of_nat (offs g j)" using dm(2) by (rule u32_of_unat)
    moreover have "length (take j g) = j" using g(2) by simp
    ultimately show "get_storeinfo ?m (rec_addr (length (take j g))) = \<lparr>head = STORE_INFO_HEAD,
        frame_start_time = ftime (g ! j), frame_idx = fidx (g ! j),
        frame_offset = word_of_nat (total_len (take j g)), frame_size = word_of_nat (length (fdata (g ! j)))\<rparr>"
      by (simp only: tl)
    have eq: "bytes_at ?m (offs g j) (unat (frame_size si)) = bytes_at sm (unat (frame_offset si)) (unat (frame_size si))"
      using low b by (intro bytes_at_eqI) (auto simp: moved_def mem_simps dm(2) sz sizes)
    show "bytes_at ?m (total_len (take j g)) (length (fdata (g ! j))) = fdata (g ! j)"
      unfolding tl sz [symmetric] by (rule trans [OF eq gj(1) [symmetric]])
  qed
  ultimately show ?thesis by simp
qed

lemma move_records_repr:
  assumes s: "records_until sm k n" "g = leftovers sm k n" "fits g"
  shows "\<lbrakk>k + j \<le> n; mem_repr dm (take j g);
      unat (frame_offset (get_storeinfo dm (rec_addr j))) = offs g j; unat off = offs g j\<rbrakk> \<Longrightarrow>
    \<exists>dm' off'. move_records sm (rec_addr (k + j)) dm (rec_addr j) off = Inr (dm', rec_addr (length g), off') \<and>
      mem_repr dm' g \<and> unat off' = total_len g"
proof (induction "n - (k + j)" arbitrary: j dm off)
  case 0
  then have "n = k + j" "length g = j" using s(2) by (simp_all add: leftovers_def)
  with 0 s(1) show ?case
    by (subst move_records.simps) (auto simp: total_len_def records_until_def)
next
  case (Suc x)
  let ?si = "get_storeinfo sm (rec_addr (k + j))" and ?b = "rec_addr (Suc j)"
  let ?v = "frame_offset (get_storeinfo dm (rec_addr j))"
  let ?dm = "moved sm (rec_addr (k + j)) dm (rec_addr j) ?v ?si"
  have kj: "k + j < n" and j: "j < length g" using Suc.hyps(2) Suc.prems(1) s(2) by (simp_all add: leftovers_def)
  have gj: "g ! j = record_frame sm (k + j)" and ok: "record_ok sm (k + j)"
    using s(1,2) kj by (simp_all add: leftovers_def records_until_def)
  have info: "head ?si = STORE_INFO_HEAD" "unat (frame_offset ?si) + unat (frame_size ?si) \<le> STORE_BUF_MAX_SIZE"
    "unat (frame_size ?si) = length (fdata (g ! j))"
    using ok gj by (simp_all add: record_ok_def record_frame_def Let_def)
  have len: "offs g (Suc j) = offs g j + length (fdata (g ! j))" using j by (rule offs_Suc)
  have le: "offs g j + length (fdata (g ! j)) \<le> total_len g" using j by (rule offs_frame_le)
  have lt: "total_len g + sizeof_storeinfo * (length g + 1) \<le> STORE_BUF_MAX_SIZE"
    using s(3) by (simp add: fits_def)
  have bj: "rec_addr j = ?b + sizeof_storeinfo"
    using lt j by (intro rec_addr_Suc) (simp add: sizes)
  have akj: "rec_addr (k + j) = rec_addr (Suc (k + j)) + sizeof_storeinfo"
    using s(1) kj by (intro rec_addr_Suc) (simp add: records_until_def sizes)
  have sum: "unat (w + frame_size ?si) = offs g (Suc j)" if "unat w = offs g j" for w
    using that le lt len info(3) by (simp add: unat_word_ariths sizes)
  have "move_records sm (rec_addr (k + j)) dm (rec_addr j) off =
      move_records sm (rec_addr (k + Suc j)) ?dm ?b (off + frame_size ?si)"
    using le lt bj akj info Suc.prems(3)
    by (subst move_records.simps) (simp add: Let_def moved_def)
  moreover have "mem_repr ?dm (take (Suc j) g)"
    using moved_repr [OF s(3) j gj ok Suc.prems(2,3) refl] .
  moreover have "frame_offset (get_storeinfo ?dm ?b) = ?v + frame_size ?si"
    by (simp add: moved_def get_storeinfo_def bj)
  ultimately show ?case
    using Suc.hyps(1) [of "Suc j" ?dm "off + frame_size ?si"] Suc.hyps(2) kj sum Suc.prems(3,4)
    by simp
qed

lemma MoveFramesToNextBuf_repr:
  assumes src: "buf_repr src fs" "store_buf src = Some sm" "records_until sm (length fs) n"
    and dst: "buf_repr dst []"
    and key: "k < length fs" "key_at undef sm fs k" "\<And>j. k < j \<Longrightarrow> j < length fs \<Longrightarrow> \<not> key_at undef sm fs j"
    and room: "fits (drop k fs @ leftovers sm (length fs) n)"
  shows "\<exists>dst'. MoveFramesToNextBuf undef src dst = Inr (dst', Some (rec_addr k)) \<and>
     buf_repr dst' (drop k fs @ leftovers sm (length fs) n) \<and> store_start_time dst' = store_start_time dst"
proof -
  let ?g = "drop k fs @ leftovers sm (length fs) n"
  from src have r: "mem_repr sm fs" "fits fs" "unat (store_info_offset src) = rec_addr (length fs)"
    by (auto simp: buf_repr_def)
  note g = records_until_repr [OF r(1,2) less_imp_le [OF key(1)] src(3)]
  obtain l where l: "length fs = Suc l" using key(1) by (cases "length fs") auto
  from dst obtain dm where d: "store_buf dst = Some dm" "unat (store_offset dst) = 0"
    "unat (store_info_offset dst) = rec_addr 0" "store_size dst = word_of_nat STORE_BUF_MAX_SIZE"
    by (auto simp: buf_repr_def)
  have "rec_addr l = rec_addr (length fs) + sizeof_storeinfo"
    using r(2) l rec_addr_Suc [of l] by (simp add: fits_def sizes)
  then have find: "find_key_record undef sm (unat (store_info_offset src) + sizeof_storeinfo) =
      Inr (rec_addr k, Some (rec_addr k))"
    using find_key_record_repr [OF r(1,2), of k l undef] key l r(3) by simp
  have "frame_offset (get_storeinfo (store_u32 dm (rec_addr 0 + 20) 0) (rec_addr 0)) = 0"
    by (simp add: get_storeinfo_def)
  then obtain dm' off' where
    "move_records sm (rec_addr k) (store_u32 dm (rec_addr 0 + 20) 0) (rec_addr 0) (store_offset dst) =
        Inr (dm', rec_addr (length ?g), off')"
    "mem_repr dm' ?g" "unat off' = total_len ?g"
    using move_records_repr [OF g(1) g(2) [symmetric] room, of 0 "store_u32 dm (rec_addr 0 + 20) 0" "store_offset dst"]
      g(1) d(2) by (auto simp: records_until_def)
  moreover have "rec_addr 0 + sizeof_storeinfo \<le> STORE_BUF_MAX_SIZE" by (simp add: rec_addr_def sizes)
  moreover have "unat (word_of_nat (rec_addr (length ?g)) :: u32) = rec_addr (length ?g)"
    using fits_bounds(3) [OF room] by (simp add: unat_of_nat)
  ultimately show ?thesis
    using src(2) d find room
    by (auto simp: MoveFramesToNextBuf_def buf_mem_def Let_def buf_repr_def)
qed

lemma switch_moving_repr:
  assumes d: "dev_repr d r fs" and sm: "store_buf (get_buf d r) = Some sm"
    and tail: "records_until sm (length fs) n"
    and key: "k < length fs" "key_at (undef_ret env) sm fs k"
      "\<And>j. k < j \<Longrightarrow> j < length fs \<Longrightarrow> \<not> key_at (undef_ret env) sm fs j"
    and room: "fits (drop k fs @ leftovers sm (length fs) n)"
  shows "\<exists>d' m. switch_moving env d r = Inr d' \<and> dev_repr d' (other r) (drop k fs @ leftovers sm (length fs) n) \<and>
     pStoreBufWr d' = Ref r \<and> frame_index d' = frame_index d \<and>
     store_path d' = store_path d \<and> store_type d' = store_type d \<and>
     store_buf (get_buf d' r) = Some m \<and> file_repr m (take k fs) \<and>
     store_size (get_buf d' r) = store_size (get_buf d r) \<and>
     store_start_time (get_buf d' r) = store_start_time (get_buf d r)"
proof -
  let ?cur = "get_buf d r" and ?cpy = "reset_buf (get_buf d (other r)) (clock env)"
  have cur: "buf_repr ?cur fs" using d by (simp add: dev_repr_def)
  then have f: "fits fs" and mr: "mem_repr sm fs" using sm by (auto simp: buf_repr_def)
  have "buf_repr ?cpy []" using d by (auto simp: dev_repr_def)
  then obtain cpy' where mv: "MoveFramesToNextBuf (undef_ret env) ?cur ?cpy = Inr (cpy', Some (rec_addr k))"
      "buf_repr cpy' (drop k fs @ leftovers sm (length fs) n)"
    using MoveFramesToNextBuf_repr [OF cur sm tail _ key room] by blast
  have off: "unat (frame_offset (get_storeinfo sm (rec_addr k))) = offs fs k"
    using repr_info(2) [OF mr f key(1)] .
  have le: "offs fs k \<le> rec_addr k" "rec_addr k + sizeof_storeinfo \<le> STORE_BUF_MAX_SIZE"
    using offs_frame_le [OF key(1)] f key(1) by (auto simp: fits_def rec_addr_def sizes)
  define m where "m = memset sm (offs fs k) 0 (rec_addr k + sizeof_storeinfo - offs fs k)"
  have ms: "buf_memset0 ?cur (offs fs k) (rec_addr k + sizeof_storeinfo - offs fs k) = Inr (?cur\<lparr>store_buf := Some m\<rparr>)"
    using le by (simp add: buf_memset0_def buf_mem_def sm m_def)
  have tk: "total_len (take k fs) = offs fs k" "length (take k fs) = k"
    using key(1) by (simp_all add: total_len_def offs_def)
  have fk: "fits (take k fs)" using f by (rule fits_take)
  have repr: "mem_repr m (take k fs)"
    using mem_repr_take [OF mr, of k] by (rule mem_repr_cong)
      (use fk tk le in \<open>auto simp: m_def mem_simps fits_def rec_addr_def sizes\<close>)
  have "load_u32 m (rec_addr k) = load_u32 (\<lambda>_. 0) (rec_addr k)"
    using le by (intro load_u32_cong) (auto simp: m_def mem_simps sizes)
  also have "\<dots> = 0" by (simp add: load_u32_def numeral_eq_Suc)
  finally have "head (get_storeinfo m (rec_addr k)) \<noteq> STORE_INFO_HEAD"
    by (simp add: get_storeinfo_def STORE_INFO_HEAD_def)
  then have "file_repr m (take k fs)" using fk repr tk(2) by (simp add: file_repr_def)
  moreover have "dev_repr ((set_buf (set_buf d r (?cur\<lparr>store_buf := Some m\<rparr>)) (other r) cpy')
      \<lparr>pStoreBufWr := Ref r, pCurStoreBuf := Ref (other r)\<rparr>) (other r) (drop k fs @ leftovers sm (length fs) n)"
    using mv(2) buf_repr_size [OF cur] by (simp add: dev_repr_def)
  ultimately show ?thesis
    using le(1) by (simp add: switch_moving_def Let_def mv(1) buf_mem_def sm off ms)
qed

end
