(* ===== verification/StoreFile.thy ===== *)
theory StoreFile
  imports StoreCorrect
begin

text \<open>
  From buffers to files and back: the file writer, the player's reader, the operations on
  the device lists, and the properties of the recording component as a whole. The contract
  a client of a buffer relies on is the locale \<open>frame_log\<close>; it is interpreted on the
  buffer operations of \<open>store.cpp\<close>.
\<close>

section \<open>The contract of a frame log\<close>

locale frame_log =
  fixes repr :: "'b \<Rightarrow> 'f list \<Rightarrow> bool"
    and room :: "'f list \<Rightarrow> bool"
    and put :: "'x \<Rightarrow> 'b \<Rightarrow> 'b res"
    and entry :: "'x \<Rightarrow> 'f"
    and get :: "'b \<Rightarrow> nat \<Rightarrow> 'v option"
    and view :: "'f \<Rightarrow> 'v"
  assumes put_repr: "repr b fs \<Longrightarrow> room (fs @ [entry x]) \<Longrightarrow> \<exists>b'. put x b = Inr b' \<and> repr b' (fs @ [entry x])"
    and get_repr: "repr b fs \<Longrightarrow> i < length fs \<Longrightarrow> get b i = Some (view (fs ! i))"
    and room_prefix: "room (fs @ gs) \<Longrightarrow> room fs"
begin

lemma put_all_repr:
  "repr b fs \<Longrightarrow> room (fs @ map entry xs) \<Longrightarrow> \<exists>b'. efold put xs b = Inr b' \<and> repr b' (fs @ map entry xs)"
proof (induction xs arbitrary: b fs)
  case (Cons x xs)
  have "room (fs @ [entry x])"
    using Cons.prems(2) room_prefix [of "fs @ [entry x]" "map entry xs"] by simp
  then obtain b' where "put x b = Inr b'" "repr b' (fs @ [entry x])"
    using put_repr Cons.prems(1) by blast
  then show ?case using Cons.IH [of b' "fs @ [entry x]"] Cons.prems(2) by auto
qed auto

lemma put_all_get:
  assumes "repr b []" "room (map entry xs)"
  shows "\<exists>b'. efold put xs b = Inr b' \<and> (\<forall>i<length xs. get b' i = Some (view (entry (xs ! i))))"
  using put_all_repr [of b "[]" xs] assms get_repr by fastforce

end

section \<open>Reading frames\<close>

lemma rec_addr_fold: "STORE_BUF_MAX_SIZE - (sizeof_storeinfo + sizeof_storeinfo * i) = rec_addr i"
  by (simp add: rec_addr_def)

lemma GetOneFrameByIndex_repr:
  assumes "mem_repr m fs" "fits fs" "i < length fs" "length (fdata (fs ! i)) \<le> out_size"
  shows "GetOneFrameByIndex i m STORE_BUF_MAX_SIZE out_size =
     Inr (Some (fdata (fs ! i), ftime (fs ! i)), int (length (fdata (fs ! i))))"
proof -
  have "sizeof_storeinfo * (i + 1) \<le> STORE_BUF_MAX_SIZE"
    "offs fs i + length (fdata (fs ! i)) \<le> STORE_BUF_MAX_SIZE"
    using offs_frame_le [OF assms(3)] assms(2,3) by (auto simp: fits_def sizes)
  moreover have "frame_start_time (get_storeinfo m (rec_addr i)) = ftime (fs ! i)"
    "bytes_at m (offs fs i) (length (fdata (fs ! i))) = fdata (fs ! i)"
    using assms(1,3) by (auto simp: mem_repr_def info_of_def)
  ultimately show ?thesis
    using repr_info [OF assms(1-3)] assms(4)
    by (simp add: GetOneFrameByIndex_def rec_addr_fold)
qed

lemma GetOneFrameByIndex_end:
  assumes "file_repr m fs"
  shows "GetOneFrameByIndex (length fs) m STORE_BUF_MAX_SIZE out_size = Inr (None, -1)"
proof -
  have "sizeof_storeinfo * (length fs + 1) \<le> STORE_BUF_MAX_SIZE"
    using assms by (auto simp: file_repr_def fits_def)
  then show ?thesis
    using assms by (simp add: GetOneFrameByIndex_def file_repr_def rec_addr_fold)
qed

text \<open>What a player that offers a large enough buffer sees of entry \<open>i\<close> of a buffer.\<close>

definition read_back :: "storebuf \<Rightarrow> nat \<Rightarrow> (byte list \<times> u64) option" where
  "read_back b i =
     (case ebind (buf_mem b) (\<lambda>m. GetOneFrameByIndex i m STORE_BUF_MAX_SIZE STORE_BUF_MAX_SIZE) of
        Inl _ \<Rightarrow> None | Inr (r, _) \<Rightarrow> r)"

definition append_request :: "store_env \<times> byte list \<times> u32 \<Rightarrow> storebuf \<Rightarrow> storebuf res" where
  "append_request x b = (case x of (env, xs, idx) \<Rightarrow> append_frame env xs b idx)"

definition request_frame :: "store_env \<times> byte list \<times> u32 \<Rightarrow> frame" where
  "request_frame x = (case x of (env, xs, idx) \<Rightarrow> new_frame env xs idx)"

interpretation buflog: frame_log buf_repr fits append_request request_frame read_back "\<lambda>f. (fdata f, ftime f)"
proof unfold_locales
  fix b fs x assume "buf_repr b fs" "fits (fs @ [request_frame x])"
  then show "\<exists>b'. append_request x b = Inr b' \<and> buf_repr b' (fs @ [request_frame x])"
    using append_frame_repr by (fastforce simp: append_request_def request_frame_def split: prod.splits)
next
  fix b fs i assume b: "buf_repr b fs" "i < length fs"
  then obtain m where "store_buf b = Some m" "mem_repr m fs" "fits fs" by (auto simp: buf_repr_def)
  moreover have "length (fdata (fs ! i)) \<le> STORE_BUF_MAX_SIZE"
    using offs_frame_le [OF b(2)] \<open>fits fs\<close> by (simp add: fits_def)
  ultimately show "read_back b i = Some (fdata (fs ! i), ftime (fs ! i))"
    using b(2) by (simp add: read_back_def buf_mem_def GetOneFrameByIndex_repr)
next
  fix fs gs assume "fits (fs @ gs)"
  then show "fits fs" by (simp add: fits_def sizes)
qed

section \<open>Writing and reading the file\<close>

lemma write_blocks_all:
  "tot + n * WRITE_FILE_BLOCK_SIZE = STORE_BUF_MAX_SIZE \<Longrightarrow>
   \<exists>c' l'. write_blocks m tot (replicate n (int WRITE_FILE_BLOCK_SIZE)) (c, l) = Inr ((c', l'), True) \<and>
     l' = max l (if n = 0 then 0 else STORE_BUF_MAX_SIZE) \<and>
     (\<forall>a. c' a = (if tot \<le> a \<and> a < STORE_BUF_MAX_SIZE then m a else c a))"
proof (induction n arbitrary: tot c l)
  case 0
  then show ?case by (auto simp: write_blocks.simps)
next
  case (Suc n)
  let ?B = WRITE_FILE_BLOCK_SIZE
  have B: "0 < ?B" by (simp add: WRITE_FILE_BLOCK_SIZE_def FILE_IO_BLOCK_SIZE_def)
  from Suc.prems have t: "tot + ?B + n * ?B = STORE_BUF_MAX_SIZE" by simp
  from Suc.IH [OF t, of "memcpy c tot m tot ?B" "max l (tot + ?B)"]
  obtain c' l' where IH: "write_blocks m (tot + ?B) (replicate n (int ?B))
      (memcpy c tot m tot ?B, max l (tot + ?B)) = Inr ((c', l'), True)"
    "l' = max (max l (tot + ?B)) (if n = 0 then 0 else STORE_BUF_MAX_SIZE)"
    "\<forall>a. c' a = (if tot + ?B \<le> a \<and> a < STORE_BUF_MAX_SIZE then m a else memcpy c tot m tot ?B a)"
    by blast
  have "write_blocks m tot (replicate (Suc n) (int ?B)) (c, l) = Inr ((c', l'), True)"
    using t B IH(1) by (subst write_blocks.simps) simp
  moreover have "l' = max l STORE_BUF_MAX_SIZE" using IH(2) t by auto
  moreover have "\<forall>a. c' a = (if tot \<le> a \<and> a < STORE_BUF_MAX_SIZE then m a else c a)"
    using IH(3) t by (auto simp: memcpy_def)
  ultimately show ?case by auto
qed

definition full_writes :: "int list" where
  "full_writes = replicate (STORE_BUF_MAX_SIZE div WRITE_FILE_BLOCK_SIZE) (int WRITE_FILE_BLOCK_SIZE)"

lemma write_blocks_full:
  "l \<le> STORE_BUF_MAX_SIZE \<Longrightarrow>
   \<exists>c'. write_blocks m 0 full_writes (c, l) = Inr ((c', STORE_BUF_MAX_SIZE), True) \<and>
     (\<forall>a<STORE_BUF_MAX_SIZE. c' a = m a)"
proof -
  assume l: "l \<le> STORE_BUF_MAX_SIZE"
  have "0 + STORE_BUF_MAX_SIZE div WRITE_FILE_BLOCK_SIZE * WRITE_FILE_BLOCK_SIZE = STORE_BUF_MAX_SIZE"
    "STORE_BUF_MAX_SIZE div WRITE_FILE_BLOCK_SIZE \<noteq> 0"
    by (simp_all add: sizes WRITE_FILE_BLOCK_SIZE_def FILE_IO_BLOCK_SIZE_def)
  with write_blocks_all [of 0 "STORE_BUF_MAX_SIZE div WRITE_FILE_BLOCK_SIZE" m c l] l
  show ?thesis by (auto simp: full_writes_def max_def)
qed

lemma read_blocks_all:
  "tot \<le> snd f \<Longrightarrow> snd f \<le> buf_size \<Longrightarrow>
   \<exists>buf'. read_blocks f buf_size tot buf = Inr buf' \<and>
     (\<forall>a. buf' a = (if tot \<le> a \<and> a < snd f then fst f a else buf a))"
proof (induction f buf_size tot buf rule: read_blocks.induct)
  case (1 f buf_size tot buf)
  define k where "k = min WRITE_FILE_BLOCK_SIZE (snd f - tot)"
  have B: "0 < WRITE_FILE_BLOCK_SIZE" by (simp add: WRITE_FILE_BLOCK_SIZE_def FILE_IO_BLOCK_SIZE_def)
  show ?case
  proof (cases "k = 0")
    case True
    with B 1(2) have "tot = snd f" by (auto simp: k_def min_def split: if_splits)
    with True show ?thesis by (subst read_blocks.simps) (auto simp: k_def)
  next
    case False
    have le: "tot + k \<le> snd f" using 1(2) by (auto simp: k_def)
    then have ok: "\<not> buf_size < tot + k" using 1(3) by simp
    from 1(1) [OF k_def False ok le 1(3)] obtain buf' where
      "read_blocks f buf_size (tot + k) (memcpy buf tot (fst f) tot k) = Inr buf'"
      "\<forall>a. buf' a = (if tot + k \<le> a \<and> a < snd f then fst f a else memcpy buf tot (fst f) tot k a)"
      by blast
    with False ok le show ?thesis
      by (subst read_blocks.simps) (auto simp: memcpy_def simp flip: k_def)
  qed
qed

lemma file_repr_cong:
  assumes "file_repr m fs" "\<And>a. a < STORE_BUF_MAX_SIZE \<Longrightarrow> m' a = m a"
  shows "file_repr m' fs"
proof -
  have f: "fits fs" using assms(1) by (simp add: file_repr_def)
  have "mem_repr m' fs"
    by (rule mem_repr_cong [of m]) (use assms f in \<open>auto simp: file_repr_def fits_def sizes\<close>)
  moreover have "get_storeinfo m' (rec_addr (length fs)) = get_storeinfo m (rec_addr (length fs))"
    using f assms(2) by (intro get_storeinfo_cong) (auto simp: fits_def rec_addr_def sizes)
  ultimately show ?thesis using assms(1) by (simp add: file_repr_def)
qed

section \<open>A cleared gap between frames and records\<close>

text \<open>The bytes between the last frame and the last record, the free record slot included, are
  zero. A block fresh from \<open>mmap\<close> is, and appending keeps it so.\<close>

definition clean :: "storebuf \<Rightarrow> frame list \<Rightarrow> bool" where
  "clean b fs \<longleftrightarrow> (\<exists>m. store_buf b = Some m \<and>
     (\<forall>a. total_len fs \<le> a \<and> a < rec_addr (length fs) + sizeof_storeinfo \<longrightarrow> m a = 0))"

text \<open>Appending writes the frame and its record; the bytes between them stay.\<close>

lemma append_frame_gap:
  assumes "buf_repr b fs" "store_buf b = Some m" "fits (fs @ [new_frame env xs idx])" "append_frame env xs b idx = Inr b'"
  shows "\<exists>m'. store_buf b' = Some m' \<and> (\<forall>a. total_len fs + length xs \<le> a \<and> a < rec_addr (length fs) \<longrightarrow> m' a = m a)"
proof -
  have bound: "total_len fs + length xs + sizeof_storeinfo * (length fs + 2) \<le> STORE_BUF_MAX_SIZE"
    using assms(3) by (simp add: fits_def)
  have off: "unat (store_offset b) = total_len fs" "unat (store_info_offset b) = rec_addr (length fs)"
    using assms(1) by (simp_all add: buf_repr_def)
  have "total_len fs + length xs \<le> STORE_BUF_MAX_SIZE" "rec_addr (length fs) + sizeof_storeinfo \<le> STORE_BUF_MAX_SIZE"
    using bound by (auto simp: rec_addr_def sizes)
  with assms(2,4) off obtain si where
    "store_buf b' = Some (put_storeinfo (memcpy m (total_len fs) (mem_of_list xs) 0 (length xs)) (rec_addr (length fs)) si)"
    by (auto simp: append_frame_def Let_def buf_memcpy_def buf_put_storeinfo_def buf_mem_def)
  then show ?thesis by (auto simp: mem_simps)
qed

lemma append_frame_clean:
  assumes "buf_repr b fs" "clean b fs" "fits (fs @ [new_frame env xs idx])" "append_frame env xs b idx = Inr b'"
  shows "clean b' (fs @ [new_frame env xs idx])"
proof -
  have top: "rec_addr (Suc (length fs)) + sizeof_storeinfo = rec_addr (length fs)"
    using assms(3) by (simp add: fits_def rec_addr_def sizes)
  from assms(2) obtain m where m: "store_buf b = Some m"
    "\<And>a. total_len fs \<le> a \<Longrightarrow> a < rec_addr (length fs) + sizeof_storeinfo \<Longrightarrow> m a = 0"
    by (auto simp: clean_def)
  then show ?thesis using append_frame_gap [OF assms(1) m(1) assms(3,4)] top by (auto simp: clean_def)
qed

lemma clean_head:
  assumes "clean b fs" "store_buf b = Some m"
  shows "head (get_storeinfo m (rec_addr (length fs))) \<noteq> STORE_INFO_HEAD \<or> rec_addr (length fs) < total_len fs"
proof (cases "rec_addr (length fs) < total_len fs")
  case False
  then have "load_u32 m (rec_addr (length fs)) = load_u32 (\<lambda>_. 0) (rec_addr (length fs))"
    using assms by (intro load_u32_cong) (auto simp: clean_def sizes)
  also have "\<dots> = 0" by (simp add: load_u32_def numeral_eq_Suc)
  finally show ?thesis by (simp add: get_storeinfo_def STORE_INFO_HEAD_def)
qed simp

end
