(* ===== verification/StoreProps.thy ===== *)
theory StoreProps
  imports StoreFile
begin

text \<open>
  The properties of the recording component \<open>store.cpp\<close> as its callers see it: what
  \<open>WriteFrameToBuf\<close> does to the list of recorded frames, what reaches the disk and is
  played back, the device lists and the invariant of all their operations, and the faults
  of the code that ends a recording.
\<close>

section \<open>A device in its list\<close>

definition device_of :: "string \<Rightarrow> string \<Rightarrow> store_state \<Rightarrow> storedevice option" where
  "device_of type devId st = (case list_of_type type st of None \<Rightarrow> None | Some l \<Rightarrow> l devId)"

lemmas type_names = RECODE_TYPE_PLANNED_def RECODE_TYPE_MANUAL_def RECODE_TYPE_ALARM_def

lemma device_of_set [simp]:
  "device_of type devId st = Some d0 \<Longrightarrow> device_of type devId (set_device type devId d st) = Some d"
  by (auto simp: device_of_def list_of_type_def set_device_def split: if_splits)

lemma device_of_set_other [simp]:
  "device_of type devId st = Some d0 \<Longrightarrow> (type', devId') \<noteq> (type, devId) \<Longrightarrow>
   device_of type' devId' (set_device type devId d st) = device_of type' devId' st"
  by (auto simp: device_of_def list_of_type_def set_device_def type_names split: if_splits)

lemma set_device_disk [simp]:
  "disk (set_device type devId d st) = disk st" "stored (set_device type devId d st) = stored st"
  by (simp_all add: set_device_def)

lemma WriteFrameToBuf_running:
  assumes "device_of type devId st = Some d" "dev_repr d r fs"
  shows "WriteFrameToBuf env devId type xs False st =
    ebind (write_running env xs d) (\<lambda>d'. Inr (set_device type devId d' st, 0))"
  using assms by (auto simp: WriteFrameToBuf_def device_of_def dev_repr_def deref_def split: option.splits)

section \<open>Recording\<close>

lemma write_running_append:
  assumes "dev_repr d r fs" "fits (fs @ [new_frame env xs (frame_index d)])"
  shows "\<exists>d'. write_running env xs d = Inr d' \<and> dev_repr d' r (fs @ [new_frame env xs (frame_index d)]) \<and>
     frame_index d' = frame_index d + 1 \<and> pStoreBufWr d' = pStoreBufWr d \<and>
     store_path d' = store_path d \<and> store_type d' = store_type d"
  using store_frame_repr [of "touch env d r" r fs env xs] assms
  by (auto simp: write_running_eq [OF assms(1)])

lemma write_running_cut:
  assumes d: "dev_repr d r fs" and no: "\<not> fits (fs @ [new_frame env xs (frame_index d)])"
    and key: "is_key env xs" and one: "fits [new_frame env xs (frame_index d)]"
  shows "\<exists>d' m. write_running env xs d = Inr d' \<and>
     dev_repr d' (other r) [new_frame env xs (frame_index d)] \<and> frame_index d' = frame_index d + 1 \<and>
     pStoreBufWr d' = Ref r \<and> store_path d' = store_path d \<and> store_type d' = store_type d \<and>
     store_buf (get_buf d' r) = Some m \<and> file_repr m fs \<and>
     store_size (get_buf d' r) = word_of_nat STORE_BUF_MAX_SIZE \<and>
     store_start_time (get_buf d' r) = store_start_time (get_buf d r)"
proof -
  obtain d1 m where d1: "switch_cutting env d r = Inr d1" "dev_repr d1 (other r) []"
      "pStoreBufWr d1 = Ref r" "frame_index d1 = frame_index d" "store_path d1 = store_path d"
      "store_type d1 = store_type d" "store_buf (get_buf d1 r) = Some m" "file_repr m fs"
      "store_size (get_buf d1 r) = store_size (get_buf d r)"
      "store_start_time (get_buf d1 r) = store_start_time (get_buf d r)"
    using switch_cutting_repr [OF d, of env] by blast
  have cur: "deref (pCurStoreBuf d1) = Inr (other r)" using d1(2) by (simp add: dev_repr_def deref_def)
  have sz: "store_size (get_buf d r) = word_of_nat STORE_BUF_MAX_SIZE"
    using d by (auto simp: dev_repr_def dest: buf_repr_size)
  let ?t = "touch env d1 (other r)"
  obtain d' where d': "store_frame env xs ?t = Inr d'" "dev_repr d' (other r) ([] @ [new_frame env xs (frame_index d)])"
     "pStoreBufWr d' = pStoreBufWr ?t" "frame_index d' = frame_index d + 1" "store_path d' = store_path d"
     "store_type d' = store_type d" "get_buf d' (other (other r)) = get_buf ?t (other (other r))"
    using store_frame_repr [of ?t "other r" "[]" env xs] one d1 by auto
  have "write_running env xs d = Inr d'"
    using no key d1(1) cur d'(1) by (simp add: write_running_eq [OF d])
  moreover have "get_buf d' r = get_buf d1 r" using d'(7) touch_repr(4) [of env d1 "other r"] by simp
  ultimately show ?thesis using d' d1 sz by auto
qed

lemma write_running_move:
  assumes d: "dev_repr d r fs" and no: "\<not> fits (fs @ [new_frame env xs (frame_index d)])"
    and nokey: "\<not> is_key env xs" and sm: "store_buf (get_buf d r) = Some sm"
    and tail: "records_until sm (length fs) n"
    and k: "k < length fs" "key_at (undef_ret env) sm fs k"
      "\<And>j. k < j \<Longrightarrow> j < length fs \<Longrightarrow> \<not> key_at (undef_ret env) sm fs j"
    and room: "fits (drop k fs @ leftovers sm (length fs) n @ [new_frame env xs (frame_index d)])"
  shows "\<exists>d' m. write_running env xs d = Inr d' \<and>
     dev_repr d' (other r) (drop k fs @ leftovers sm (length fs) n @ [new_frame env xs (frame_index d)]) \<and>
     frame_index d' = frame_index d + 1 \<and>
     pStoreBufWr d' = Ref r \<and> store_path d' = store_path d \<and> store_type d' = store_type d \<and>
     store_buf (get_buf d' r) = Some m \<and> file_repr m (take k fs) \<and>
     store_size (get_buf d' r) = word_of_nat STORE_BUF_MAX_SIZE \<and>
     store_start_time (get_buf d' r) = store_start_time (get_buf d r)"
proof -
  let ?g = "drop k fs @ leftovers sm (length fs) n"
  have "fits ?g" using buflog.room_prefix [of ?g] room by simp
  then obtain d1 m where d1: "switch_moving env d r = Inr d1" "dev_repr d1 (other r) ?g"
      "pStoreBufWr d1 = Ref r" "frame_index d1 = frame_index d" "store_path d1 = store_path d"
      "store_type d1 = store_type d" "store_buf (get_buf d1 r) = Some m" "file_repr m (take k fs)"
      "store_size (get_buf d1 r) = store_size (get_buf d r)"
      "store_start_time (get_buf d1 r) = store_start_time (get_buf d r)"
    using switch_moving_repr [OF d sm tail k] by blast
  have cur: "deref (pCurStoreBuf d1) = Inr (other r)" using d1(2) by (simp add: dev_repr_def deref_def)
  have sz: "store_size (get_buf d r) = word_of_nat STORE_BUF_MAX_SIZE"
    using d by (auto simp: dev_repr_def dest: buf_repr_size)
  let ?t = "touch env d1 (other r)"
  obtain d' where d': "store_frame env xs ?t = Inr d'"
     "dev_repr d' (other r) (drop k fs @ leftovers sm (length fs) n @ [new_frame env xs (frame_index d)])"
     "pStoreBufWr d' = pStoreBufWr ?t" "frame_index d' = frame_index d + 1" "store_path d' = store_path d"
     "store_type d' = store_type d" "get_buf d' (other (other r)) = get_buf ?t (other (other r))"
    using store_frame_repr [of ?t "other r" ?g env xs] room d1 by auto
  have "write_running env xs d = Inr d'"
    using no nokey d1(1) cur d'(1) by (simp add: write_running_eq [OF d])
  moreover have "get_buf d' r = get_buf d1 r" using d'(7) touch_repr(4) [of env d1 "other r"] by simp
  ultimately show ?thesis using d' d1 sz by auto
qed

section \<open>The file writer and the player\<close>

definition file_name_of :: "store_env \<Rightarrow> storedevice \<Rightarrow> bufref \<Rightarrow> string" where
  "file_name_of env d r = store_file_name (localtime_r env (store_start_time (get_buf d r)))"

definition file_path_of :: "store_env \<Rightarrow> storedevice \<Rightarrow> bufref \<Rightarrow> string" where
  "file_path_of env d r = store_file_path (store_path d) (file_name_of env d r)"

text \<open>What the player sees of a file: every frame of \<open>fs\<close> with its time stamp, then \<open>-1\<close>.\<close>

definition plays :: "(string \<rightharpoonup> file_image) \<Rightarrow> string \<Rightarrow> frame list \<Rightarrow> bool" where
  "plays files path fs \<longleftrightarrow> (\<forall>undef frameBuf. \<exists>buf.
     ReadStoreFileFrame undef files path frameBuf STORE_BUF_MAX_SIZE = Inr (buf, undef) \<and>
     (\<forall>i<length fs. GetOneFrameByIndex i buf STORE_BUF_MAX_SIZE STORE_BUF_MAX_SIZE =
        Inr (Some (fdata (fs ! i), ftime (fs ! i)), int (length (fdata (fs ! i))))) \<and>
     GetOneFrameByIndex (length fs) buf STORE_BUF_MAX_SIZE STORE_BUF_MAX_SIZE = Inr (None, -1))"

lemma playsI:
  assumes "files path = Some (c, STORE_BUF_MAX_SIZE)" "file_repr c fs"
  shows "plays files path fs"
  unfolding plays_def
proof (intro allI)
  fix undef frameBuf
  obtain buf where b: "read_blocks (c, STORE_BUF_MAX_SIZE) STORE_BUF_MAX_SIZE 0 frameBuf = Inr buf"
    "\<forall>a. buf a = (if a < STORE_BUF_MAX_SIZE then c a else frameBuf a)"
    using read_blocks_all [of 0 "(c, STORE_BUF_MAX_SIZE)" STORE_BUF_MAX_SIZE frameBuf] by auto
  then have r: "file_repr buf fs" by (intro file_repr_cong [OF assms(2)]) simp
  then have "GetOneFrameByIndex i buf STORE_BUF_MAX_SIZE STORE_BUF_MAX_SIZE =
      Inr (Some (fdata (fs ! i), ftime (fs ! i)), int (length (fdata (fs ! i))))" if "i < length fs" for i
    using that offs_frame_le [OF that]
    by (intro GetOneFrameByIndex_repr) (auto simp: file_repr_def fits_def)
  with b(1) r show "\<exists>buf. ReadStoreFileFrame undef files path frameBuf STORE_BUF_MAX_SIZE = Inr (buf, undef) \<and>
     (\<forall>i<length fs. GetOneFrameByIndex i buf STORE_BUF_MAX_SIZE STORE_BUF_MAX_SIZE =
        Inr (Some (fdata (fs ! i), ftime (fs ! i)), int (length (fdata (fs ! i))))) \<and>
     GetOneFrameByIndex (length fs) buf STORE_BUF_MAX_SIZE STORE_BUF_MAX_SIZE = Inr (None, -1)"
    by (auto simp: ReadStoreFileFrame_def assms(1) GetOneFrameByIndex_end)
qed

lemma size_minus_info: "unat (word_of_nat STORE_BUF_MAX_SIZE :: u32) - sizeof_storeinfo = rec_addr 0"
  by (simp add: rec_addr_def sizes)

lemma WriteToFileProc_device_written:
  assumes d: "pStoreBufWr d = Ref r" "store_buf (get_buf d r) = Some m" "file_repr m fs" "fs \<noteq> []"
      "store_size (get_buf d r) = word_of_nat STORE_BUF_MAX_SIZE"
    and io: "open_ok env (file_path_of env d r)" "write_results env = full_writes"
    and old: "\<And>c n. disk st (file_path_of env d r) = Some (c, n) \<Longrightarrow> n \<le> STORE_BUF_MAX_SIZE"
  shows "\<exists>st'. WriteToFileProc_device env devId d st = Inr (d\<lparr>pStoreBufWr := Null\<rparr>, st') \<and>
     plays (disk st') (file_path_of env d r) fs \<and>
     stored st' = stored st @ [(devId, store_start_time (get_buf d r), store_type d, file_name_of env d r)] \<and>
     (\<forall>p. p \<noteq> file_path_of env d r \<longrightarrow> disk st' p = disk st p) \<and>
     storeDeviceList st' = storeDeviceList st \<and> storeManualList st' = storeManualList st \<and>
     storeAlarmList st' = storeAlarmList st"
proof -
  let ?p = "file_path_of env d r"
  let ?old = "case disk st ?p of None \<Rightarrow> (\<lambda>_. 0, 0) | Some f \<Rightarrow> f"
  have "snd ?old \<le> STORE_BUF_MAX_SIZE" using old by (auto split: option.splits)
  then obtain c where c: "write_blocks m 0 full_writes ?old = Inr ((c, STORE_BUF_MAX_SIZE), True)"
    "\<forall>a<STORE_BUF_MAX_SIZE. c a = m a"
    using write_blocks_full [of "snd ?old" m "fst ?old"] by auto
  have h: "head (get_storeinfo m (rec_addr 0)) = STORE_INFO_HEAD"
    using repr_info(1) [of m fs 0] d(3,4) by (simp add: file_repr_def)
  define st' where "st' = st\<lparr>disk := (disk st)(?p \<mapsto> (c, STORE_BUF_MAX_SIZE)),
    stored := stored st @ [(devId, store_start_time (get_buf d r), store_type d, file_name_of env d r)]\<rparr>"
  have "WriteToFileProc_device env devId d st = Inr (d\<lparr>pStoreBufWr := Null\<rparr>, st')"
    using d(1,2,5) h io c(1)
    by (simp add: WriteToFileProc_device_def buf_mem_def size_minus_info Let_def st'_def
        file_path_of_def file_name_of_def)
  moreover have "plays (disk st') ?p fs"
    by (rule playsI [of _ _ c]) (use c(2) file_repr_cong [OF d(3)] in \<open>auto simp: st'_def\<close>)
  ultimately show ?thesis by (auto simp: st'_def)
qed

section \<open>The device lists\<close>

lemma init_device_repr:
  assumes "malloc_ping env = Some m1" "malloc_pong env = Some m2"
  shows "\<exists>d. init_device env type d0 = Inr d \<and> dev_repr d Ping [] \<and> pStoreBufWr d = Null \<and>
     store_path d = store_path d0 \<and> store_type d = type \<and> frame_index d = frame_index d0 \<and>
     store_buf (get_buf d Ping) = Some m1"
  using assms
  by (auto simp: init_device_def Let_def dev_repr_def buf_repr_def get_buf_def other_def rec_addr_def sizes)

text \<open>A device that works: both its buffers, a list of recorded frames, and a writer pointer that is
  null or points to one of them. A device that a failed \<open>malloc\<close> left behind has no current buffer yet or
  lacks one of the two blocks.\<close>

definition device_wf :: "storedevice \<Rightarrow> bool" where
  "device_wf d \<longleftrightarrow> (\<exists>r fs. dev_repr d r fs) \<and> pStoreBufWr d \<noteq> Uninit"

definition device_broken :: "storedevice \<Rightarrow> bool" where
  "device_broken d \<longleftrightarrow> pCurStoreBuf d = Uninit \<or> (\<exists>r. store_buf (get_buf d r) = None)"

definition all_devices :: "(storedevice \<Rightarrow> bool) \<Rightarrow> store_state \<Rightarrow> bool" where
  "all_devices Q st \<longleftrightarrow> (\<forall>type devId d. device_of type devId st = Some d \<longrightarrow> Q d)"

definition store_inv :: "store_state \<Rightarrow> bool" where
  "store_inv st \<longleftrightarrow> all_devices device_wf st"

text \<open>The invariant of all runs; \<open>memory\<close> says that no \<open>malloc\<close> fails in them.\<close>

definition devices_inv :: "bool \<Rightarrow> store_state \<Rightarrow> bool" where
  "devices_inv memory st \<longleftrightarrow> all_devices (\<lambda>d. device_wf d \<or> \<not> memory \<and> device_broken d) st"

lemma devices_inv_memory: "devices_inv True st = store_inv st"
  by (simp add: devices_inv_def store_inv_def)

lemma all_devicesD: "all_devices Q st \<Longrightarrow> device_of type devId st = Some d \<Longrightarrow> Q d"
  by (auto simp: all_devices_def)

lemma store_invD: "store_inv st \<Longrightarrow> device_of type devId st = Some d \<Longrightarrow> device_wf d"
  unfolding store_inv_def by (rule all_devicesD)

lemma all_devices_set:
  assumes "all_devices Q st" "device_of type devId st = Some d0" "Q d"
  shows "all_devices Q (set_device type devId d st)"
  unfolding all_devices_def
proof (intro allI impI)
  fix type' devId' e assume "device_of type' devId' (set_device type devId d st) = Some e"
  with assms show "Q e"
    by (cases "(type', devId') = (type, devId)") (auto dest: all_devicesD)
qed

lemma store_inv_set:
  "store_inv st \<Longrightarrow> device_of type devId st = Some d0 \<Longrightarrow> device_wf d \<Longrightarrow> store_inv (set_device type devId d st)"
  unfolding store_inv_def by (rule all_devices_set)

text \<open>The three lists as seen through \<open>device_of\<close>.\<close>

lemma all_devices_lists:
  "all_devices Q st \<longleftrightarrow> (\<forall>d. d \<in> ran (storeDeviceList st) \<union> ran (storeManualList st) \<union> ran (storeAlarmList st) \<longrightarrow> Q d)"
proof
  assume inv: "all_devices Q st"
  show "\<forall>d. d \<in> ran (storeDeviceList st) \<union> ran (storeManualList st) \<union> ran (storeAlarmList st) \<longrightarrow> Q d"
    using inv all_devicesD [OF inv, of RECODE_TYPE_PLANNED] all_devicesD [OF inv, of RECODE_TYPE_MANUAL]
      all_devicesD [OF inv, of RECODE_TYPE_ALARM]
    by (auto simp: device_of_def list_of_type_def type_names ran_def)
next
  assume "\<forall>d. d \<in> ran (storeDeviceList st) \<union> ran (storeManualList st) \<union> ran (storeAlarmList st) \<longrightarrow> Q d"
  then show "all_devices Q st"
    by (auto simp: all_devices_def device_of_def list_of_type_def ran_def split: if_splits)
qed

lemmas store_inv_lists = store_inv_def [unfolded all_devices_lists]

lemma all_devices_cong:
  "storeDeviceList st' = storeDeviceList st \<Longrightarrow> storeManualList st' = storeManualList st \<Longrightarrow>
   storeAlarmList st' = storeAlarmList st \<Longrightarrow> all_devices Q st' = all_devices Q st"
  by (simp add: all_devices_lists)

lemma ran_updD: "d \<in> ran (m(k \<mapsto> v)) \<Longrightarrow> d = v \<or> d \<in> ran m"
  by (auto simp: ran_def split: if_splits)

lemma ran_delD: "d \<in> ran (m(k := None)) \<Longrightarrow> d \<in> ran m"
  by (auto simp: ran_def split: if_splits)

text \<open>What an allocation leaves in the map, with enough memory and without.\<close>

definition malloc_ok :: "store_env \<Rightarrow> bool" where
  "malloc_ok env \<longleftrightarrow> malloc_ping env \<noteq> None \<and> malloc_pong env \<noteq> None"

lemma device_wf_init: "malloc_ping env = Some m1 \<Longrightarrow> malloc_pong env = Some m2 \<Longrightarrow>
    \<exists>d. init_device env type d0 = Inr d \<and> device_wf d"
  using init_device_repr [of env m1 m2 type d0] by (fastforce simp: device_wf_def)

lemma init_device_Inl: "init_device env type d0 = Inl d \<Longrightarrow> device_broken d \<and> \<not> malloc_ok env"
  by (auto simp: init_device_def malloc_ok_def device_broken_def get_buf_def Let_def split: option.splits
      intro: exI [of _ Ping] exI [of _ Pong])

lemma init_device_Inr: "init_device env type d0 = Inr d \<Longrightarrow> device_wf d"
proof -
  assume d: "init_device env type d0 = Inr d"
  then obtain m1 m2 where "malloc_ping env = Some m1" "malloc_pong env = Some m2"
    by (auto simp: init_device_def Let_def split: option.splits)
  with d device_wf_init [of env m1 m2 type d0] show ?thesis by auto
qed

lemma new_device:
  assumes "memory \<longrightarrow> malloc_ok env"
  shows "init_device env type d0 = Inl d \<Longrightarrow> device_wf d \<or> \<not> memory \<and> device_broken d"
    "init_device env type d0 = Inr d \<Longrightarrow> device_wf d \<or> \<not> memory \<and> device_broken d"
  using assms init_device_Inl init_device_Inr by blast+

lemma all_devices_new:
  assumes "all_devices Q st" "Q d"
  shows "all_devices Q (st\<lparr>storeDeviceList := (storeDeviceList st)(k \<mapsto> d)\<rparr>)"
    "all_devices Q (st\<lparr>storeManualList := (storeManualList st)(k \<mapsto> d)\<rparr>)"
    "all_devices Q (st\<lparr>storeAlarmList := (storeAlarmList st)(k \<mapsto> d)\<rparr>)"
  using assms by (auto simp: all_devices_lists dest!: ran_updD)

lemma AddStoreDevice_devices:
  assumes "devices_inv memory st" "memory \<longrightarrow> malloc_ok env"
  shows "devices_inv memory (fst (AddStoreDevice env devId type st))"
  using assms(1) new_device [OF assms(2)] unfolding devices_inv_def
  by (simp add: AddStoreDevice_def Let_def all_devices_new split: sum.split)

lemma AddStoreEvent_devices_inv:
  assumes "devices_inv memory st" "memory \<longrightarrow> malloc_ok env"
  shows "devices_inv memory (fst (AddStoreEvent env devId type st))"
  using assms(1) new_device [OF assms(2)] unfolding devices_inv_def
  by (simp add: AddStoreEvent_def Let_def all_devices_new split: sum.split)

lemma AddStoreDevice_inv:
  assumes "store_inv st" "malloc_ping env = Some m1" "malloc_pong env = Some m2"
  shows "store_inv (fst (AddStoreDevice env devId type st))"
  using AddStoreDevice_devices [of True] assms by (simp add: devices_inv_memory malloc_ok_def)

lemma RemoveStoreEvent_all: "all_devices Q st \<Longrightarrow> all_devices Q (fst (RemoveStoreEvent devId type st))"
  by (auto simp: RemoveStoreEvent_def all_devices_lists dest!: ran_delD)

text \<open>The writer changes one pointer of the device and no list.\<close>

lemma WriteToFileProc_device_keeps:
  assumes "WriteToFileProc_device env devId d st = Inr (d', st')"
  shows "d' = d\<lparr>pStoreBufWr := Null\<rparr>" "storeDeviceList st' = storeDeviceList st"
    "storeManualList st' = storeManualList st" "storeAlarmList st' = storeAlarmList st"
  using assms
  by (auto simp: WriteToFileProc_device_def Let_def ebind_eq_Inr split: bufptr.splits if_splits)

lemma device_of_cong:
  "storeDeviceList st' = storeDeviceList st \<Longrightarrow> storeManualList st' = storeManualList st \<Longrightarrow>
   storeAlarmList st' = storeAlarmList st \<Longrightarrow> device_of type devId st' = device_of type devId st"
  by (simp add: device_of_def list_of_type_def)

lemma RemoveStoreDevice_lists:
  assumes "RemoveStoreDevice env devId st = Inr (st', n, e)"
  shows "storeDeviceList st' = (storeDeviceList st)(devId := None)" "storeManualList st' = storeManualList st"
    "storeAlarmList st' = storeAlarmList st"
proof (atomize (full), cases "storeDeviceList st devId")
  case None
  then show "storeDeviceList st' = (storeDeviceList st)(devId := None) \<and> storeManualList st' = storeManualList st \<and>
      storeAlarmList st' = storeAlarmList st"
    using assms by (auto simp: RemoveStoreDevice_def fun_eq_iff)
next
  case (Some d)
  with assms obtain d1 st1 d2 st2 where
    "WriteToFileProc_device env devId d st = Inr (d1, st1)"
    "WriteToFileProc_device env devId (d1\<lparr>pStoreBufWr := pCurStoreBuf d1\<rparr>) st1 = Inr (d2, st2)"
    "st' = st2\<lparr>storeDeviceList := (storeDeviceList st2)(devId := None)\<rparr>"
    by (auto simp: RemoveStoreDevice_def wait_writer_def ebind_eq_Inr)
  then show "storeDeviceList st' = (storeDeviceList st)(devId := None) \<and> storeManualList st' = storeManualList st \<and>
      storeAlarmList st' = storeAlarmList st"
    by (simp add: WriteToFileProc_device_keeps(2-4))
qed

lemma RemoveStoreDevice_all:
  "all_devices Q st \<Longrightarrow> RemoveStoreDevice env devId st = Inr (st', n, e) \<Longrightarrow> all_devices Q st'"
  by (auto simp: all_devices_lists RemoveStoreDevice_lists dest!: ran_delD)

lemma RemoveStoreDevice_inv: "store_inv st \<Longrightarrow> RemoveStoreDevice env devId st = Inr (st', n, e) \<Longrightarrow> store_inv st'"
  unfolding store_inv_def by (rule RemoveStoreDevice_all)

section \<open>Frames and blocks\<close>

text \<open>Whether a buffer has a block, and its size, never change; a call that would use a missing block faults.\<close>

definition block_of :: "storedevice \<Rightarrow> bufref \<Rightarrow> bool \<times> u32" where
  "block_of d q = (store_buf (get_buf d q) = None, store_size (get_buf d q))"

lemma block_of_simps [simp]:
  "block_of (d\<lparr>pCurStoreBuf := p\<rparr>) q = block_of d q" "block_of (d\<lparr>pStoreBufWr := p\<rparr>) q = block_of d q"
  "block_of (d\<lparr>frame_index := i\<rparr>) q = block_of d q"
  by (simp_all add: block_of_def)

lemma block_of_set:
  "store_buf b = None \<longleftrightarrow> store_buf (get_buf d r) = None \<Longrightarrow> store_size b = store_size (get_buf d r) \<Longrightarrow>
   block_of (set_buf d r b) q = block_of d q"
  by (cases "q = r") (auto simp: block_of_def)

lemma reset_buf_block [simp]: "store_buf (reset_buf b t) = store_buf b" "store_size (reset_buf b t) = store_size b"
  by (simp_all add: reset_buf_def)

lemma buf_memset0_block:
  "buf_memset0 b off n = Inr b' \<Longrightarrow> store_buf b \<noteq> None \<and> store_buf b' \<noteq> None \<and> store_size b' = store_size b"
  by (auto simp: buf_memset0_def buf_mem_def ebind_eq_Inr split: option.splits)

lemma append_frame_block:
  "append_frame env xs b i = Inr b' \<Longrightarrow> store_buf b \<noteq> None \<and> store_buf b' \<noteq> None \<and> store_size b' = store_size b"
  by (auto simp: append_frame_def buf_memcpy_def buf_put_storeinfo_def buf_mem_def Let_def ebind_eq_Inr split: option.splits)

lemma deref_eq_Inr: "deref p = Inr r \<longleftrightarrow> p = Ref r"
  by (simp add: deref_def split: bufptr.split)

lemma store_frame_block:
  assumes "store_frame env xs d = Inr d'"
  shows "block_of d' q = block_of d q" "pCurStoreBuf d' = pCurStoreBuf d" "\<exists>r. pCurStoreBuf d = Ref r"
proof -
  obtain r b where r: "pCurStoreBuf d = Ref r" "append_frame env xs (get_buf d r) (frame_index d) = Inr b"
    "d' = (set_buf d r b)\<lparr>frame_index := frame_index d + 1\<rparr>"
    using assms by (auto simp: store_frame_def deref_eq_Inr ebind_eq_Inr)
  then show "block_of d' q = block_of d q" "pCurStoreBuf d' = pCurStoreBuf d" "\<exists>r. pCurStoreBuf d = Ref r"
    using append_frame_block [OF r(2)] by (auto simp: block_of_set)
qed

lemma switch_block:
  assumes "switch_moving env d r = Inr d' \<or> switch_cutting env d r = Inr d'"
  shows "block_of d' q = block_of d q"
proof -
  obtain cur' cpy' where d': "d' = (set_buf (set_buf d r cur') (other r) cpy')\<lparr>pStoreBufWr := Ref r, pCurStoreBuf := Ref (other r)\<rparr>"
    and cur: "store_buf cur' \<noteq> None" "store_buf (get_buf d r) \<noteq> None" "store_size cur' = store_size (get_buf d r)"
    and cpy: "store_buf cpy' = None \<longleftrightarrow> store_buf (get_buf d (other r)) = None" "store_size cpy' = store_size (get_buf d (other r))"
    using assms
  proof
    assume "switch_cutting env d r = Inr d'"
    then obtain cur' where c: "buf_memset0 (get_buf d r) (unat (store_offset (get_buf d r))) (unat (remaining (get_buf d r)) + sizeof_storeinfo) =
        Inr cur'" "d' = (set_buf (set_buf d r cur') (other r) (reset_buf (get_buf d (other r)) (clock env)))
                         \<lparr>pStoreBufWr := Ref r, pCurStoreBuf := Ref (other r)\<rparr>"
      by (auto simp: switch_cutting_def Let_def ebind_eq_Inr)
    then show thesis using that [OF c(2)] buf_memset0_block [OF c(1)] by simp
  next
    assume "switch_moving env d r = Inr d'"
    then obtain cpy' a cur' off n where c:
        "MoveFramesToNextBuf (undef_ret env) (get_buf d r) (reset_buf (get_buf d (other r)) (clock env)) = Inr (cpy', Some a)"
        "buf_memset0 (get_buf d r) off n = Inr cur'"
        "d' = (set_buf (set_buf d r cur') (other r) cpy')\<lparr>pStoreBufWr := Ref r, pCurStoreBuf := Ref (other r)\<rparr>"
      by (auto simp: switch_moving_def Let_def ebind_eq_Inr split: option.splits)
    have "store_buf cpy' \<noteq> None \<and> store_buf (get_buf d (other r)) \<noteq> None \<and> store_size cpy' = store_size (get_buf d (other r))"
      using c(1) by (auto simp: MoveFramesToNextBuf_def buf_mem_def Let_def ebind_eq_Inr split: option.splits)
    then show thesis using that [OF c(3)] buf_memset0_block [OF c(2)] by auto
  qed
  have "block_of d' q = block_of (set_buf d r cur') q"
    unfolding d' block_of_simps by (rule block_of_set) (simp_all add: cpy)
  also have "\<dots> = block_of d q" by (rule block_of_set) (simp_all add: cur)
  finally show ?thesis .
qed

lemma write_running_block:
  assumes "write_running env xs d = Inr d'"
  shows "block_of d' q = block_of d q" "pCurStoreBuf d \<noteq> Uninit" "pCurStoreBuf d' \<noteq> Uninit"
proof -
  obtain r d1 r1 where r: "pCurStoreBuf d = Ref r" "pCurStoreBuf d1 = Ref r1"
    "d1 = d \<or> switch_moving env d r = Inr d1 \<or> switch_cutting env d r = Inr d1"
    "store_frame env xs (touch env d1 r1) = Inr d'"
    using assms by (auto simp: write_running_def touch_def deref_eq_Inr Let_def ebind_eq_Inr split: if_split_asm)
  have "block_of d1 q = block_of d q" using r(3) switch_block by blast
  moreover have "block_of (touch env d1 r1) q = block_of d1 q" by (simp add: touch_def block_of_set)
  ultimately show "block_of d' q = block_of d q" using store_frame_block(1) [OF r(4)] by simp
  show "pCurStoreBuf d \<noteq> Uninit" "pCurStoreBuf d' \<noteq> Uninit"
    using r(1,2) store_frame_block(2,3) [OF r(4)] by auto
qed

lemma device_broken_block:
  "(\<And>q. block_of d' q = block_of d q) \<Longrightarrow> pCurStoreBuf d \<noteq> Uninit \<Longrightarrow> pCurStoreBuf d' \<noteq> Uninit \<Longrightarrow>
   device_broken d' \<longleftrightarrow> device_broken d"
proof -
  assume b: "\<And>q. block_of d' q = block_of d q" and p: "pCurStoreBuf d \<noteq> Uninit" "pCurStoreBuf d' \<noteq> Uninit"
  have "store_buf (get_buf d' q) = None \<longleftrightarrow> store_buf (get_buf d q) = None" for q using b [of q] by (auto simp: block_of_def)
  with p show ?thesis by (simp add: device_broken_def)
qed

lemma device_wf_block:
  assumes "device_wf d"
  shows "block_of d q = (False, word_of_nat STORE_BUF_MAX_SIZE)"
proof -
  obtain r fs where "dev_repr d r fs" using assms by (auto simp: device_wf_def)
  moreover have "q = r \<or> q = other r" by (cases r; cases q) (simp_all add: other_def)
  ultimately show ?thesis by (auto simp: block_of_def dev_repr_def buf_repr_def)
qed

section \<open>Runs of the component\<close>

text \<open>
  What the code never checks: that a frame has room in the buffer that receives it. The frame fits the current buffer, or
  it is a key frame that fits an empty one, or the current buffer has a key frame and the last group of
  pictures, the leftover records behind it and the new frame fit the other buffer.
\<close>

definition frame_room :: "store_env \<Rightarrow> byte list \<Rightarrow> storedevice \<Rightarrow> bool" where
  "frame_room env xs d \<longleftrightarrow> (\<exists>r fs. dev_repr d r fs \<and>
     (let f = new_frame env xs (frame_index d)
      in fits (fs @ [f]) \<or> is_key env xs \<and> fits [f] \<or>
         \<not> is_key env xs \<and> (\<exists>sm k n. store_buf (get_buf d r) = Some sm \<and> records_until sm (length fs) n \<and>
            k < length fs \<and> key_at (undef_ret env) sm fs k \<and> (\<forall>j. k < j \<and> j < length fs \<longrightarrow> \<not> key_at (undef_ret env) sm fs j) \<and>
            fits (drop k fs @ leftovers sm (length fs) n @ [f]))))"

text \<open>
  One call of the component, with any result of \<open>malloc\<close> (none fails when \<open>memory\<close>), or one turn of the writer thread. A
  call that ends in a fault has no successor.
\<close>

inductive store_step :: "bool \<Rightarrow> store_state \<Rightarrow> store_state \<Rightarrow> bool" for memory :: bool where
  add_device: "memory \<longrightarrow> malloc_ok env \<Longrightarrow> AddStoreDevice env devId type st = (st', n, e) \<Longrightarrow> store_step memory st st'"
| add_event: "memory \<longrightarrow> malloc_ok env \<Longrightarrow> AddStoreEvent env devId type st = (st', n, e) \<Longrightarrow> store_step memory st st'"
| remove_device: "RemoveStoreDevice env devId st = Inr (st', n, e) \<Longrightarrow> store_step memory st st'"
| remove_event: "RemoveStoreEvent devId type st = (st', n) \<Longrightarrow> store_step memory st st'"
| write_frame: "(\<And>d. device_of type devId st = Some d \<Longrightarrow> device_broken d \<or> frame_room env xs d) \<Longrightarrow>
     WriteFrameToBuf env devId type xs False st = Inr (st', n) \<Longrightarrow> store_step memory st st'"
| stop: "WriteFrameToBuf env devId type xs True st = Inr (st', n) \<Longrightarrow> store_step memory st st'"
| writer: "device_of type devId st = Some d \<Longrightarrow> WriteToFileProc_device env devId d st = Inr (d', st1) \<Longrightarrow>
     store_step memory st (set_device type devId d' st1)"

definition init_store :: store_state where
  "init_store = \<lparr>storeDeviceList = Map.empty, storeManualList = Map.empty, storeAlarmList = Map.empty,
     disk = Map.empty, stored = []\<rparr>"

lemma write_running_room:
  assumes "frame_room env xs d" "pStoreBufWr d \<noteq> Uninit"
  shows "\<exists>d'. write_running env xs d = Inr d' \<and> device_wf d'"
proof -
  let ?f = "new_frame env xs (frame_index d)"
  obtain r fs where d: "dev_repr d r fs"
    and c: "fits (fs @ [?f]) \<or> is_key env xs \<and> fits [?f] \<or> \<not> is_key env xs \<and> (\<exists>sm k n. store_buf (get_buf d r) = Some sm \<and>
      records_until sm (length fs) n \<and> k < length fs \<and> key_at (undef_ret env) sm fs k \<and>
      (\<forall>j. k < j \<and> j < length fs \<longrightarrow> \<not> key_at (undef_ret env) sm fs j) \<and> fits (drop k fs @ leftovers sm (length fs) n @ [?f]))"
    using assms(1) unfolding frame_room_def Let_def by blast
  show ?thesis
  proof (cases "fits (fs @ [?f])")
    case True
    then show ?thesis using write_running_append [OF d True] assms(2) by (fastforce simp: device_wf_def)
  next
    case False
    with c consider "is_key env xs" "fits [?f]" | "\<not> is_key env xs" by blast
    then show ?thesis
    proof cases
      case 1
      then show ?thesis using write_running_cut [OF d False] by (fastforce simp: device_wf_def)
    next
      case 2
      with c False obtain sm k n where m: "store_buf (get_buf d r) = Some sm" "records_until sm (length fs) n"
        "k < length fs" "key_at (undef_ret env) sm fs k" "\<And>j. k < j \<Longrightarrow> j < length fs \<Longrightarrow> \<not> key_at (undef_ret env) sm fs j"
        "fits (drop k fs @ leftovers sm (length fs) n @ [?f])"
        by blast
      from write_running_move [OF d False 2 m] show ?thesis unfolding device_wf_def by (metis bufptr.distinct(5))
    qed
  qed
qed

lemma write_running_wf:
  assumes "dev_repr d r fs" "pStoreBufWr d \<noteq> Uninit"
    "fits (fs @ [new_frame env xs (frame_index d)]) \<or> is_key env xs \<and> fits [new_frame env xs (frame_index d)]"
  shows "\<exists>d'. write_running env xs d = Inr d' \<and> device_wf d'"
  by (rule write_running_room) (use assms in \<open>auto simp: frame_room_def Let_def\<close>)

text \<open>A frame written to a device that works leaves one that works; a device without its blocks stays one.\<close>

lemma WriteFrameToBuf_running_device:
  assumes "WriteFrameToBuf env devId type xs False st = Inr (st', n)"
  shows "st' = st \<or> (\<exists>d d'. device_of type devId st = Some d \<and> write_running env xs d = Inr d' \<and> st' = set_device type devId d' st)"
  using assms by (auto simp: WriteFrameToBuf_def device_of_def Let_def ebind_eq_Inr split: option.splits)

lemma write_frame_devices:
  assumes "devices_inv memory st" "WriteFrameToBuf env devId type xs False st = Inr (st', n)"
    "\<And>d. device_of type devId st = Some d \<Longrightarrow> device_broken d \<or> frame_room env xs d"
  shows "devices_inv memory st'"
  using WriteFrameToBuf_running_device [OF assms(2)]
proof
  assume "\<exists>d d'. device_of type devId st = Some d \<and> write_running env xs d = Inr d' \<and> st' = set_device type devId d' st"
  then obtain d d' where d: "device_of type devId st = Some d" "write_running env xs d = Inr d'" "st' = set_device type devId d' st" by blast
  have "device_wf d' \<or> \<not> memory \<and> device_broken d'"
  proof (cases "device_wf d")
    case True
    then have "\<not> device_broken d" using device_wf_block [OF True] write_running_block(2) [OF d(2)]
      by (auto simp: device_broken_def block_of_def)
    then show ?thesis using write_running_room assms(3) [OF d(1)] True d(2) by (fastforce simp: device_wf_def)
  next
    case False
    then have "\<not> memory \<and> device_broken d" using assms(1) d(1) all_devicesD unfolding devices_inv_def by blast
    then show ?thesis using device_broken_block [of d' d] write_running_block [OF d(2)] by simp
  qed
  then show ?thesis using all_devices_set assms(1) d(1,3) unfolding devices_inv_def by blast
qed (use assms(1) in simp)

text \<open>The stop call: whatever it clears, a planned device ends with an empty current buffer.\<close>

lemma write_last_block:
  assumes "write_last env xs remain d = Inr d'"
  shows "block_of d' q = block_of d q" "pCurStoreBuf d' = pCurStoreBuf d"
proof -
  obtain d1 r b' where r: "d1 = d \<or> store_frame env xs d = Inr d1" "pCurStoreBuf d1 = Ref r"
    "buf_memset0 (get_buf d1 r) (unat (store_offset (get_buf d1 r))) (unat remain + sizeof_storeinfo) = Inr b'"
    "d' = (set_buf d1 r b')\<lparr>pStoreBufWr := Ref r\<rparr>"
  proof -
    obtain d1 where d1: "(if unat remain < length xs + sizeof_storeinfo then Inr d else store_frame env xs d) = Inr d1"
      using assms by (auto simp: write_last_def ebind_eq_Inr)
    with assms obtain r b' where "pCurStoreBuf d1 = Ref r"
      "buf_memset0 (get_buf d1 r) (unat (store_offset (get_buf d1 r))) (unat remain + sizeof_storeinfo) = Inr b'"
      "d' = (set_buf d1 r b')\<lparr>pStoreBufWr := Ref r\<rparr>"
      by (auto simp: write_last_def deref_eq_Inr Let_def ebind_eq_Inr)
    with d1 that show thesis by (auto split: if_split_asm)
  qed
  have "block_of d1 q = block_of d q" "pCurStoreBuf d1 = pCurStoreBuf d" using r(1) store_frame_block(1,2) by blast+
  then show "block_of d' q = block_of d q" "pCurStoreBuf d' = pCurStoreBuf d"
    using buf_memset0_block [OF r(3)] r(4) by (auto simp: block_of_set)
qed

lemma WriteFrameToBuf_stop_device:
  assumes "WriteFrameToBuf env devId type xs True st = Inr (st', n)"
  shows "st' = st \<or> (\<exists>d d' r st2. device_of type devId st = Some d \<and> pCurStoreBuf d' = Ref r \<and> pCurStoreBuf d \<noteq> Uninit \<and>
     (\<forall>q. block_of d' q = block_of d q) \<and> pStoreBufWr d' = Null \<and>
     storeDeviceList st2 = storeDeviceList st \<and> storeManualList st2 = storeManualList st \<and> storeAlarmList st2 = storeAlarmList st \<and>
     st' = set_device type devId (set_buf d' r (reset_buf (get_buf d' r) 0)) st2)"
proof (cases "device_of type devId st")
  case None
  with assms show ?thesis by (auto simp: WriteFrameToBuf_def device_of_def split: option.splits)
next
  case (Some d)
  with assms obtain r0 d1 st1 d2 d3 st2 r where w: "pCurStoreBuf d = Ref r0"
    "WriteToFileProc_device env devId d st = Inr (d1, st1)"
    "write_last env xs (remaining (get_buf d r0)) d1 = Inr d2" "WriteToFileProc_device env devId d2 st1 = Inr (d3, st2)"
    "pCurStoreBuf d3 = Ref r" "st' = set_device type devId (set_buf d3 r (reset_buf (get_buf d3 r) 0)) st2"
    by (auto simp: WriteFrameToBuf_def device_of_def wait_writer_def deref_eq_Inr Let_def ebind_eq_Inr split: option.splits if_split_asm)
  note k = WriteToFileProc_device_keeps [OF w(2)] WriteToFileProc_device_keeps [OF w(4)]
  have "block_of d3 q = block_of d q" "pStoreBufWr d3 = Null" for q
    using write_last_block(1) [OF w(3)] k(1,5) by simp_all
  then show ?thesis using w(1,5,6) Some k(2-4,6-8) by (intro disjI2 exI [of _ d] exI [of _ d3] exI [of _ r] exI [of _ st2]) simp
qed

lemma reset_device_wf:
  assumes "pCurStoreBuf d = Ref r" "\<And>q. block_of d q = (False, word_of_nat STORE_BUF_MAX_SIZE)" "pStoreBufWr d = Null"
  shows "device_wf (set_buf d r (reset_buf (get_buf d r) t))"
proof -
  have "dev_repr (set_buf d r (reset_buf (get_buf d r) t)) r []"
    using assms(1) assms(2) [of r] assms(2) [of "other r"] by (simp add: dev_repr_def block_of_def)
  then show ?thesis using assms(3) by (auto simp: device_wf_def)
qed

lemma stop_devices:
  assumes "devices_inv memory st" "WriteFrameToBuf env devId type xs True st = Inr (st', n)"
  shows "devices_inv memory st'"
  using WriteFrameToBuf_stop_device [OF assms(2)]
proof (elim disjE exE conjE)
  fix d d' r st2
  assume d: "device_of type devId st = Some d" "pCurStoreBuf d' = Ref r" "pCurStoreBuf d \<noteq> Uninit" "\<forall>q. block_of d' q = block_of d q"
    "pStoreBufWr d' = Null" and l: "storeDeviceList st2 = storeDeviceList st" "storeManualList st2 = storeManualList st"
    "storeAlarmList st2 = storeAlarmList st" and st': "st' = set_device type devId (set_buf d' r (reset_buf (get_buf d' r) 0)) st2"
  let ?d = "set_buf d' r (reset_buf (get_buf d' r) 0)"
  have "device_wf ?d \<or> \<not> memory \<and> device_broken ?d"
  proof (cases "device_wf d")
    case True
    then show ?thesis using reset_device_wf [OF d(2) _ d(5)] d(4) device_wf_block by simp
  next
    case False
    then have "\<not> memory \<and> device_broken d" using assms(1) d(1) all_devicesD unfolding devices_inv_def by blast
    moreover have "block_of ?d q = block_of d q" for q using d(4) by (simp add: block_of_set)
    ultimately show ?thesis using device_broken_block [of ?d d] d(2,3) by simp
  qed
  moreover have "device_of type devId st2 = Some d" using d(1) l device_of_cong by metis
  moreover have "devices_inv memory st2" using assms(1) all_devices_cong [OF l] by (simp add: devices_inv_def)
  ultimately show ?thesis using all_devices_set st' unfolding devices_inv_def by blast
qed (use assms(1) in simp)

lemma writer_device:
  assumes "device_wf d \<or> \<not> memory \<and> device_broken d"
  shows "device_wf (d\<lparr>pStoreBufWr := Null\<rparr>) \<or> \<not> memory \<and> device_broken (d\<lparr>pStoreBufWr := Null\<rparr>)"
  using assms by (auto simp: device_wf_def dev_repr_def device_broken_def)

lemma store_step_devices: "store_step memory st st' \<Longrightarrow> devices_inv memory st \<Longrightarrow> devices_inv memory st'"
proof (induction rule: store_step.induct)
  case (add_device env devId type st st' n e)
  then show ?case using AddStoreDevice_devices [of memory st env devId type] by simp
next
  case (add_event env devId type st st' n e)
  then show ?case using AddStoreEvent_devices_inv [of memory st env devId type] by simp
next
  case (remove_device env devId st st' n e)
  then show ?case using RemoveStoreDevice_all unfolding devices_inv_def by blast
next
  case (remove_event devId type st st' n)
  then show ?case using RemoveStoreEvent_all [of _ st devId type] by (simp add: devices_inv_def)
next
  case (write_frame type devId st env xs st' n)
  then show ?case using write_frame_devices by blast
next
  case (stop env devId type xs st st' n)
  then show ?case using stop_devices by blast
next
  case (writer type devId st d env d' st1)
  note k = WriteToFileProc_device_keeps [OF writer.hyps(2)]
  have "device_of type devId st1 = Some d"
    using writer.hyps(1) k(2-4) device_of_cong by metis
  then show ?case
    using all_devices_set [of _ st1] all_devices_cong [OF k(2-4)] writer_device [of d memory] writer.prems writer.hyps(1) k(1)
    unfolding devices_inv_def by (metis (mono_tags, lifting) all_devicesD)
qed

section \<open>Ending a recording\<close>

lemma store_frame_offset:
  assumes "dev_repr d r fs" "fits (fs @ [new_frame env xs (frame_index d)])"
  shows "\<exists>d'. store_frame env xs d = Inr d' \<and> pCurStoreBuf d' = Ref r \<and> store_buf (get_buf d' r) \<noteq> None \<and>
     unat (store_offset (get_buf d' r)) = total_len fs + length xs"
  using store_frame_repr [OF assms] by (fastforce simp: dev_repr_def buf_repr_def)

lemma write_last_overrun:
  assumes d: "dev_repr d r fs" and room: "fits (fs @ [new_frame env xs (frame_index d)])"
    and long: "sizeof_storeinfo * length fs < length xs"
  shows "write_last env xs (remaining (get_buf d r)) d = Inl OutOfBounds"
proof -
  obtain d' m where d': "store_frame env xs d = Inr d'" "pCurStoreBuf d' = Ref r"
    "store_buf (get_buf d' r) = Some m" "unat (store_offset (get_buf d' r)) = total_len fs + length xs"
    using store_frame_offset [OF d room] by blast
  have b: "buf_repr (get_buf d r) fs" and f: "fits fs" using d by (auto simp: dev_repr_def buf_repr_def)
  have "\<not> unat (remaining (get_buf d r)) < length xs + sizeof_storeinfo"
    using no_room_iff [OF b, of "new_frame env xs (frame_index d)"] room by simp
  moreover have "\<not> total_len fs + length xs + (unat (remaining (get_buf d r)) + sizeof_storeinfo) \<le> STORE_BUF_MAX_SIZE"
    using buf_repr_remaining [OF b] fits_bounds(1,2) [OF f] rec_addr_eq [of "length fs"] long
    by (simp add: algebra_simps)
  ultimately show ?thesis
    by (simp add: write_last_def d' deref_def buf_memset0_def buf_mem_def Let_def)
qed

lemma WriteFrameToBuf_last:
  assumes "device_of type devId st = Some d" "dev_repr d r fs" "pStoreBufWr d = Null"
  shows "WriteFrameToBuf env devId type xs True st =
    ebind (write_last env xs (remaining (get_buf d r)) d) (\<lambda>d2.
    ebind (wait_writer env devId d2 st) (\<lambda>(d3, st2).
    if type = RECODE_TYPE_PLANNED then
      ebind (deref (pCurStoreBuf d3)) (\<lambda>r.
      Inr (set_device type devId (set_buf d3 r (reset_buf (get_buf d3 r) 0)) st2, 0))
    else Inl UseAfterFree))"
  using assms by (auto simp: WriteFrameToBuf_def device_of_def dev_repr_def deref_def wait_writer_def
      WriteToFileProc_device_def split: option.splits)

section \<open>A sample device\<close>

definition sample_env :: store_env where
  "sample_env = \<lparr>undef_ret = 1, clock = 1600000000, tv_sec = 1600000000, tv_usec = 250000,
     localtime_r = (\<lambda>_. \<lparr>tm_sec = 40, tm_min = 26, tm_hour = 20, tm_mday = 13, tm_mon = 8, tm_year = 120, tm_wday = 0\<rparr>),
     open_ok = (\<lambda>_. True), write_results = full_writes, access_ok = (\<lambda>_. False), mkdir_ok = (\<lambda>_. True),
     malloc_ping = Some (\<lambda>_. 0), malloc_pong = Some (\<lambda>_. 0), storePath = ''/mnt/''\<rparr>"

definition sample_device :: storedevice where
  "sample_device = projr (init_device sample_env ''planned'' (uninit_device ''/mnt/1-1''))"

definition sample_state :: "storedevice \<Rightarrow> store_state" where
  "sample_state d = init_store\<lparr>storeDeviceList := [''1-1'' \<mapsto> d]\<rparr>"

lemma sample_repr:
  "dev_repr sample_device Ping []" "pStoreBufWr sample_device = Null" "clean (get_buf sample_device Ping) []"
  "frame_index sample_device = 0"
proof -
  obtain d where d: "init_device sample_env ''planned'' (uninit_device ''/mnt/1-1'') = Inr d" "dev_repr d Ping []"
    "pStoreBufWr d = Null" "frame_index d = 0" "store_buf (get_buf d Ping) = Some (\<lambda>_. 0)"
    using init_device_repr [of sample_env "\<lambda>_. 0" "\<lambda>_. 0" "''planned''" "uninit_device ''/mnt/1-1''"]
    by (auto simp: sample_env_def uninit_device_def Let_def)
  then show "dev_repr sample_device Ping []" "pStoreBufWr sample_device = Null"
    "clean (get_buf sample_device Ping) []" "frame_index sample_device = 0"
    by (auto simp: sample_device_def clean_def)
qed

lemma device_of_sample [simp]: "device_of ''planned'' ''1-1'' (sample_state d) = Some d"
  by (simp add: device_of_def list_of_type_def sample_state_def type_names)

text \<open>A small key frame (an IDR slice) and a long frame without any zero byte.\<close>

definition key_frame :: "byte list" where
  "key_frame = [0, 0, 0, 1, 0x65, 1]"

definition long_frame :: "byte list" where
  "long_frame = replicate (STORE_BUF_MAX_SIZE - 3 * sizeof_storeinfo - 8) 1"

lemma sample_key: "is_key sample_env key_frame"
  by (simp add: is_key_def ParseKeyFrame_def ParseKeyFrame_loop_unfold [where tot = 0] start3_def start4_def
      mem_of_list_def key_frame_def)

lemma sample_room:
  "fits [new_frame e key_frame i]" "fits [new_frame e long_frame i]" "fits [new_frame e long_frame i, new_frame e key_frame j]"
  "fits [new_frame e key_frame i, new_frame e [1] j]"
  "\<not> fits [new_frame e long_frame i, new_frame e key_frame j, new_frame e key_frame k]"
  "\<not> fits [new_frame e long_frame i, new_frame e key_frame j, new_frame e [1] k]"
  by (simp_all add: fits_def long_frame_def key_frame_def sizes)

lemma write_running_buffer:
  assumes "dev_repr d r fs" "fits (fs @ [new_frame env xs (frame_index d)])" "write_running env xs d = Inr d'"
  shows "\<exists>b. buf_repr b fs \<and> store_buf b = store_buf (get_buf d r) \<and> append_frame env xs b (frame_index d) = Inr (get_buf d' r)"
proof -
  let ?t = "touch env d r"
  have "store_frame env xs ?t = Inr d'" using assms(2,3) by (simp add: write_running_eq [OF assms(1)])
  then have "append_frame env xs (get_buf ?t r) (frame_index d) = Inr (get_buf d' r)"
    using assms(1) by (auto simp: store_frame_def dev_repr_def deref_def ebind_eq_Inr)
  moreover have "buf_repr (get_buf ?t r) fs" using assms(1) touch_repr(1) [of env d r fs] by (simp add: dev_repr_def)
  moreover have "store_buf (get_buf ?t r) = store_buf (get_buf d r)" by (simp add: touch_def)
  ultimately show ?thesis by blast
qed

lemma write_running_clean:
  assumes "dev_repr d r fs" "fits (fs @ [new_frame env xs (frame_index d)])" "clean (get_buf d r) fs"
    "write_running env xs d = Inr d'"
  shows "clean (get_buf d' r) (fs @ [new_frame env xs (frame_index d)])"
  using write_running_buffer [OF assms(1,2,4)] append_frame_clean assms(2,3) by (fastforce simp: clean_def)

lemma write_running_gap:
  assumes "dev_repr d r fs" "fits (fs @ [new_frame env xs (frame_index d)])" "write_running env xs d = Inr d'"
    "store_buf (get_buf d r) = Some m"
  shows "\<exists>m'. store_buf (get_buf d' r) = Some m' \<and>
    (\<forall>a. total_len fs + length xs \<le> a \<and> a < rec_addr (length fs) \<longrightarrow> m' a = m a)"
  using write_running_buffer [OF assms(1-3)] append_frame_gap assms(2,4) by metis

text \<open>Two frames recorded: the buffer is nearly full.\<close>

definition sample_frames :: "frame list" where
  "sample_frames = [new_frame sample_env long_frame 0, new_frame sample_env key_frame 1]"

lemma sample_full:
  "\<exists>d. dev_repr d Ping sample_frames \<and> pStoreBufWr d = Null \<and> frame_index d = 2 \<and> clean (get_buf d Ping) sample_frames"
proof -
  obtain d1 where d1: "write_running sample_env long_frame sample_device = Inr d1"
      "dev_repr d1 Ping [new_frame sample_env long_frame 0]" "frame_index d1 = 1" "pStoreBufWr d1 = Null"
    using write_running_append [OF sample_repr(1), of sample_env long_frame] sample_room(2) sample_repr(2,4) by auto
  have c1: "clean (get_buf d1 Ping) [new_frame sample_env long_frame 0]"
    using write_running_clean [OF sample_repr(1) _ sample_repr(3) d1(1)] sample_repr(4) sample_room(2) by simp
  obtain d2 where d2: "write_running sample_env key_frame d1 = Inr d2"
      "dev_repr d2 Ping sample_frames" "frame_index d2 = 2" "pStoreBufWr d2 = Null"
    using write_running_append [OF d1(2), of sample_env key_frame] sample_room(3) d1(3,4)
    by (auto simp: sample_frames_def)
  have "clean (get_buf d2 Ping) sample_frames"
    using write_running_clean [OF d1(2) _ c1 d2(1)] d1(3) sample_room(3) by (simp add: sample_frames_def)
  with d2 show ?thesis by blast
qed

text \<open>
  The same two frames in a block that still holds the third record of an earlier fill: one byte at the start of the block.
\<close>

definition stale_record :: storeinfo where
  "stale_record = \<lparr>head = STORE_INFO_HEAD, frame_start_time = 7, frame_idx = 9, frame_offset = 0, frame_size = 1\<rparr>"

definition stale_device :: storedevice where
  "stale_device = projr (init_device (sample_env\<lparr>malloc_ping := Some (put_storeinfo (\<lambda>_. 0) (rec_addr 2) stale_record)\<rparr>)
     ''planned'' (uninit_device ''/mnt/1-1''))"

lemma stale_full:
  "\<exists>d m. dev_repr d Ping sample_frames \<and> frame_index d = 2 \<and> store_buf (get_buf d Ping) = Some m \<and>
     get_storeinfo m (rec_addr 2) = stale_record"
proof -
  let ?m = "put_storeinfo (\<lambda>_. 0) (rec_addr 2) stale_record"
  have d: "dev_repr stale_device Ping []" "frame_index stale_device = 0" "store_buf (get_buf stale_device Ping) = Some ?m"
    using init_device_repr [of "sample_env\<lparr>malloc_ping := Some ?m\<rparr>" ?m "\<lambda>_. 0" "''planned''" "uninit_device ''/mnt/1-1''"]
    by (auto simp: stale_device_def sample_env_def uninit_device_def Let_def)
  obtain d1 where d1: "write_running sample_env long_frame stale_device = Inr d1"
      "dev_repr d1 Ping [new_frame sample_env long_frame 0]" "frame_index d1 = 1"
    using write_running_append [OF d(1), of sample_env long_frame] sample_room(2) d(2) by auto
  obtain m1 where m1: "store_buf (get_buf d1 Ping) = Some m1" "\<And>a. rec_addr 2 \<le> a \<Longrightarrow> a < rec_addr 1 \<Longrightarrow> m1 a = ?m a"
    using write_running_gap [OF d(1) _ d1(1) d(3)] sample_room(2) d(2)
    by (auto simp: long_frame_def rec_addr_def sizes)
  obtain d2 where d2: "write_running sample_env key_frame d1 = Inr d2" "dev_repr d2 Ping sample_frames" "frame_index d2 = 2"
    using write_running_append [OF d1(2), of sample_env key_frame] sample_room(3) d1(3)
    by (auto simp: sample_frames_def)
  obtain m2 where m2: "store_buf (get_buf d2 Ping) = Some m2" "\<And>a. rec_addr 2 \<le> a \<Longrightarrow> a < rec_addr 1 \<Longrightarrow> m2 a = m1 a"
    using write_running_gap [OF d1(2) _ d2(1) m1(1)] sample_room(3) d1(3)
    by (auto simp: long_frame_def key_frame_def rec_addr_def sizes)
  have "get_storeinfo m2 (rec_addr 2) = get_storeinfo ?m (rec_addr 2)"
    using m1(2) m2(2) by (intro get_storeinfo_cong) (auto simp: rec_addr_def sizes)
  then show ?thesis using d2 m2(1) by auto
qed

section \<open>Properties\<close>

text \<open>
  (C3) Recording is an append. A frame for which the buffer has room is added, with its time stamp and the
  device's next index, to the list of frames the current buffer represents; nothing else of the
  component changes and the call returns 0.
\<close>

theorem WriteFrameToBuf_append:
  assumes "device_of type devId st = Some d" "dev_repr d r fs"
    "fits (fs @ [new_frame env xs (frame_index d)])"
  shows "\<exists>d'. WriteFrameToBuf env devId type xs False st = Inr (set_device type devId d' st, 0) \<and>
     dev_repr d' r (fs @ [new_frame env xs (frame_index d)]) \<and>
     frame_index d' = frame_index d + 1 \<and> pStoreBufWr d' = pStoreBufWr d"
  using write_running_append [OF assms(2,3)] by (auto simp: WriteFrameToBuf_running [OF assms(1,2)])

theorem WriteFrameToBuf_append_witness:
  "\<exists>d'. WriteFrameToBuf sample_env ''1-1'' ''planned'' key_frame False (sample_state sample_device) =
       Inr (set_device ''planned'' ''1-1'' d' (sample_state sample_device), 0) \<and>
     dev_repr d' Ping [new_frame sample_env key_frame 0]"
  using WriteFrameToBuf_append [of "''planned''" "''1-1''" "sample_state sample_device" sample_device Ping "[]"
      sample_env key_frame] sample_repr sample_room(1) by auto

text \<open>
  (C4) What is recorded can be read: after any sequence of frames that fits the buffer has been
  stored in an empty one, entry \<open>i\<close> read with \<open>GetOneFrameByIndex\<close> is the \<open>i\<close>-th frame, byte for
  byte, with its time stamp.
\<close>

theorem recorded_frames_read_back:
  assumes "buf_repr b []" "fits (map request_frame xs)"
  shows "\<exists>b'. efold append_request xs b = Inr b' \<and>
     (\<forall>i<length xs. read_back b' i = Some (fdata (request_frame (xs ! i)), ftime (request_frame (xs ! i))))"
  using buflog.put_all_get [OF assms] .

theorem recorded_frames_read_back_witness:
  "\<exists>b'. efold append_request [(sample_env, key_frame, 0), (sample_env, [1], 1)] (pingStoreBuf sample_device) = Inr b' \<and>
     read_back b' 1 = Some ([1], stamp sample_env)"
proof -
  have "buf_repr (pingStoreBuf sample_device) []"
    using sample_repr(1) by (simp add: dev_repr_def get_buf_def)
  moreover have "fits (map request_frame [(sample_env, key_frame, 0), (sample_env, [1], 1)])"
    using sample_room(4) by (simp add: request_frame_def)
  ultimately show ?thesis
    using recorded_frames_read_back [of "pingStoreBuf sample_device" "[(sample_env, key_frame, 0), (sample_env, [1], 1)]"]
    by (auto simp: request_frame_def new_frame_def)
qed

text \<open>
  (C1) A file is cut at a key frame. When the buffer has no room and the new frame is a key frame, the buffer with all its
  frames is handed to the writer and the frame starts the other buffer. After one turn of the
  writer the file holds exactly the frames recorded before the cut: a player that reads the file
  gets each of them in order, then the end, and the callback was told the file's name, start time and type.
\<close>

theorem key_frame_cuts_file:
  assumes dev: "device_of type devId st = Some d" "dev_repr d r fs" "fs \<noteq> []"
    and full: "\<not> fits (fs @ [new_frame env xs (frame_index d)])"
    and key: "is_key env xs" "fits [new_frame env xs (frame_index d)]"
    and io: "open_ok env (file_path_of env d r)" "write_results env = full_writes"
      "disk st (file_path_of env d r) = None"
  shows "\<exists>d1 d2 st2. WriteFrameToBuf env devId type xs False st = Inr (set_device type devId d1 st, 0) \<and>
     WriteToFileProc_device env devId d1 (set_device type devId d1 st) = Inr (d2, st2) \<and>
     plays (disk st2) (file_path_of env d r) fs \<and>
     stored st2 = stored st @ [(devId, store_start_time (get_buf d r), store_type d, file_name_of env d r)] \<and>
     dev_repr d2 (other r) [new_frame env xs (frame_index d)] \<and> pStoreBufWr d2 = Null"
proof -
  obtain d1 m where d1: "write_running env xs d = Inr d1"
     "dev_repr d1 (other r) [new_frame env xs (frame_index d)]"
     "pStoreBufWr d1 = Ref r" "store_path d1 = store_path d" "store_type d1 = store_type d"
     "store_buf (get_buf d1 r) = Some m" "file_repr m fs"
     "store_size (get_buf d1 r) = word_of_nat STORE_BUF_MAX_SIZE"
     "store_start_time (get_buf d1 r) = store_start_time (get_buf d r)"
    using write_running_cut [OF dev(2) full key] by blast
  have names: "file_path_of env d1 r = file_path_of env d r" "file_name_of env d1 r = file_name_of env d r"
    using d1(4,9) by (simp_all add: file_path_of_def file_name_of_def)
  have dr: "dev_repr (d1\<lparr>pStoreBufWr := Null\<rparr>) (other r) [new_frame env xs (frame_index d)]"
    using d1(2) by (simp add: dev_repr_def)
  show ?thesis
    using WriteToFileProc_device_written [OF d1(3,6,7) dev(3) d1(8), of env "set_device type devId d1 st" devId] io
    by (auto simp: WriteFrameToBuf_running [OF dev(1,2)] d1(1,5,9) names intro!: exI dr)
qed

theorem key_frame_cuts_file_witness:
  "\<exists>d d1 d2 st2. dev_repr d Ping sample_frames \<and>
     WriteFrameToBuf sample_env ''1-1'' ''planned'' key_frame False (sample_state d) =
       Inr (set_device ''planned'' ''1-1'' d1 (sample_state d), 0) \<and>
     WriteToFileProc_device sample_env ''1-1'' d1 (set_device ''planned'' ''1-1'' d1 (sample_state d)) = Inr (d2, st2) \<and>
     plays (disk st2) (file_path_of sample_env d Ping) sample_frames"
proof -
  obtain d where d: "dev_repr d Ping sample_frames" "frame_index d = 2" using sample_full by blast
  have "\<not> fits (sample_frames @ [new_frame sample_env key_frame (frame_index d)])"
    using sample_room(5) by (simp add: sample_frames_def)
  from key_frame_cuts_file [OF device_of_sample d(1) _ this sample_key sample_room(1)] d(1)
  show ?thesis
    by (force simp: sample_frames_def sample_env_def sample_state_def init_store_def)
qed

text \<open>
  (C2) A frame that finds no room and is no key frame takes the last group of pictures
  with it. With \<open>k\<close> the last key frame of the buffer, the frames before \<open>k\<close> are handed to the writer, and nothing
  else; the frames from \<open>k\<close> on and the new frame are the contents of the other buffer, in this order: no frame is lost,
  duplicated or split between two files. Between them stand, however, the records an earlier fill of the block left below the last
  record (slots \<open>length fs\<close> to \<open>n\<close>, none when \<open>n = length fs\<close>): blocks are reused without being cleared and the loop copies
  every slot that has the magic head, with whatever bytes its offset and size select now. The statement is for buffers
  with a key frame, for leftover records that lie within the block, and for what moves plus the new frame fitting
  a buffer; the code checks none of the three.
\<close>

theorem last_group_moves_along:
  assumes dev: "device_of type devId st = Some d" "dev_repr d r fs" "store_buf (get_buf d r) = Some sm"
    and full: "\<not> fits (fs @ [new_frame env xs (frame_index d)])" "\<not> is_key env xs"
    and tail: "records_until sm (length fs) n"
    and key: "k < length fs" "key_at (undef_ret env) sm fs k"
      "\<forall>j. k < j \<and> j < length fs \<longrightarrow> \<not> key_at (undef_ret env) sm fs j"
    and room: "fits (drop k fs @ leftovers sm (length fs) n @ [new_frame env xs (frame_index d)])"
  shows "\<exists>d' m. WriteFrameToBuf env devId type xs False st = Inr (set_device type devId d' st, 0) \<and>
     dev_repr d' (other r) (drop k fs @ leftovers sm (length fs) n @ [new_frame env xs (frame_index d)]) \<and>
     pStoreBufWr d' = Ref r \<and> store_buf (get_buf d' r) = Some m \<and> file_repr m (take k fs)"
  using write_running_move [OF dev(2) full dev(3) tail key(1,2) _ room] key(3)
  by (fastforce simp: WriteFrameToBuf_running [OF dev(1,2)])

lemma sample_key_at:
  assumes "mem_repr m sample_frames"
  shows "key_at 1 m sample_frames 1"
proof -
  let ?p = "offs sample_frames 1"
  have f: "sample_frames ! 1 = new_frame sample_env key_frame 1" "1 < length sample_frames" "length key_frame = 6"
    by (simp_all add: sample_frames_def key_frame_def)
  then have "bytes_at m ?p 6 = key_frame"
    using assms unfolding mem_repr_def by (metis fdata_new_frame)
  then have "bytes_at m ?p 6 ! i = key_frame ! i" for i by simp
  from this [of 0] this [of 1] this [of 2] this [of 3] this [of 4]
  have "m ?p = 0" "m (?p + 1) = 0" "m (?p + 2) = 0" "m (?p + 3) = 1" "m (?p + 4) = 0x65"
    by (simp_all add: key_frame_def)
  then have "ParseKeyFrame_loop 1 m ?p 6 0 = 0"
    by (subst ParseKeyFrame_loop_unfold) (simp add: start3_def start4_def)
  then show ?thesis using f by (simp add: key_at_def ParseKeyFrame_def)
qed

lemma sample_not_key: "\<not> is_key sample_env [1]"
  by (simp add: is_key_def ParseKeyFrame_def ParseKeyFrame_loop_unfold start3_def start4_def
      mem_of_list_def sample_env_def)

lemma stale_records:
  assumes "mem_repr m sample_frames" "fits sample_frames" "get_storeinfo m (rec_addr 2) = stale_record"
  shows "records_until m 2 3" "leftovers m 2 3 = [\<lparr>fdata = [1], ftime = 7, fidx = 9\<rparr>]"
proof -
  have "0 < length sample_frames" "sample_frames ! 0 = new_frame sample_env long_frame 0" by (simp_all add: sample_frames_def)
  then have "bytes_at m 0 (length long_frame) = long_frame"
    using assms(1) unfolding mem_repr_def by (metis fdata_new_frame offs_0)
  moreover have len: "length long_frame = STORE_BUF_MAX_SIZE - 3 * sizeof_storeinfo - 8" by (simp add: long_frame_def)
  moreover have "long_frame ! a = 1" if "a < length long_frame" for a using that by (simp add: long_frame_def)
  ultimately have one: "m a = 1" if "a < length long_frame" for a
    using that nth_bytes_at [of a "length long_frame" m 0] by simp
  have "load_u32 m (rec_addr 3) = load_u32 (\<lambda>_. 1) (rec_addr 3)"
    by (intro load_u32_cong one) (simp add: len rec_addr_def sizes)
  moreover have "(4 :: nat) = Suc (Suc (Suc (Suc 0)))" by simp
  then have "load_le 4 (\<lambda>_. 1) a = 0x01010101" for a by (simp only: load_le.simps) simp
  ultimately have "head (get_storeinfo m (rec_addr 3)) \<noteq> STORE_INFO_HEAD"
    by (simp add: get_storeinfo_def load_u32_def STORE_INFO_HEAD_def)
  moreover have "record_ok m 2" using assms(3) by (simp add: record_ok_def stale_record_def sizes)
  then have "record_ok m j" if "2 \<le> j" "j < 3" for j using that by (cases "j = 2") auto
  ultimately show "records_until m 2 3" by (auto simp: records_until_def sizes)
  have "m 0 = 1" using one [of 0] by (simp add: len sizes)
  then have "record_frame m 2 = \<lparr>fdata = [1], ftime = 7, fidx = 9\<rparr>"
    using assms(3) by (simp add: record_frame_def stale_record_def bytes_at_def)
  then show "leftovers m 2 3 = [\<lparr>fdata = [1], ftime = 7, fidx = 9\<rparr>]" by (simp add: leftovers_def upt_conv_Cons)
qed

theorem last_group_moves_along_witness:
  "\<exists>d d' m. dev_repr d Ping sample_frames \<and>
     WriteFrameToBuf sample_env ''1-1'' ''planned'' [1] False (sample_state d) =
       Inr (set_device ''planned'' ''1-1'' d' (sample_state d), 0) \<and>
     dev_repr d' Pong [new_frame sample_env key_frame 1, \<lparr>fdata = [1], ftime = 7, fidx = 9\<rparr>, new_frame sample_env [1] 2] \<and>
     store_buf (get_buf d' Ping) = Some m \<and> file_repr m [new_frame sample_env long_frame 0]"
proof -
  obtain d m where d: "dev_repr d Ping sample_frames" "frame_index d = 2" and m: "store_buf (get_buf d Ping) = Some m"
    "get_storeinfo m (rec_addr 2) = stale_record"
    using stale_full by blast
  then have r: "mem_repr m sample_frames" "fits sample_frames" by (auto simp: dev_repr_def buf_repr_def)
  have len: "length sample_frames = 2" by (simp add: sample_frames_def)
  note stale = stale_records [OF r m(2), folded len]
  have no: "\<not> fits (sample_frames @ [new_frame sample_env [1] (frame_index d)])"
    using sample_room(6) by (simp add: sample_frames_def)
  have key: "key_at (undef_ret sample_env) m sample_frames 1"
    using sample_key_at [OF r(1)] by (simp add: sample_env_def)
  let ?new = "[new_frame sample_env key_frame 1, \<lparr>fdata = [1], ftime = 7, fidx = 9\<rparr>, new_frame sample_env [1] 2]"
  have new: "drop 1 sample_frames @ leftovers m (length sample_frames) 3 @ [new_frame sample_env [1] (frame_index d)] = ?new"
    unfolding stale(2) by (simp add: sample_frames_def d(2))
  have "fits ?new" by (simp add: fits_def key_frame_def sizes)
  then show ?thesis
    using last_group_moves_along [OF device_of_sample d(1) m(1) no sample_not_key stale(1) _ key] d(1)
    unfolding new by (force simp: sample_frames_def other_def)
qed

text \<open>
  (C5) Invariant of the component. The runs start empty and consist of calls of the component that do not end in a fault
  (frames, stop calls, additions and removals) and turns of the writer thread, in any order; a frame that does not end a recording
  has room in the buffer that receives it (\<open>frame_room\<close>: the current one, an empty one for a key frame, or the other one behind the
  group of pictures that moves), which the code does not check. In every state of such a run each device
  of the planned, manual and alarm lists has both buffers allocated, a current
  buffer that represents a list of frames within the 64 MiB, and a writer pointer that is null
  or points to one of its buffers; the only exceptions are entries left by a failed \<open>malloc\<close>, with no current buffer or a
  missing block, and there are none when no \<open>malloc\<close> fails.
\<close>

theorem reachable_store_inv:
  "(store_step memory)\<^sup>*\<^sup>* init_store st \<Longrightarrow> device_of type devId st = Some d \<Longrightarrow>
   device_wf d \<or> \<not> memory \<and> device_broken d"
proof -
  assume "(store_step memory)\<^sup>*\<^sup>* init_store st" and d: "device_of type devId st = Some d"
  from this(1) have "devices_inv memory st"
  proof (induction rule: rtranclp_induct)
    case base
    show ?case by (simp add: devices_inv_def all_devices_lists init_store_def)
  next
    case (step y z)
    then show ?case using store_step_devices by blast
  qed
  with d show ?thesis by (auto simp: devices_inv_def dest: all_devicesD)
qed

text \<open>A device that is added and gets a frame, and one whose first \<open>malloc\<close> fails.\<close>

theorem reachable_store_inv_witness:
  "(\<exists>st d. (store_step True)\<^sup>*\<^sup>* init_store st \<and> device_of ''planned'' ''1-1'' st = Some d \<and> device_wf d) \<and>
   (\<exists>st d. (store_step False)\<^sup>*\<^sup>* init_store st \<and> device_of ''planned'' ''1-1'' st = Some d \<and> (device_wf d \<or> device_broken d) \<and>
      pCurStoreBuf d = Uninit)"
proof
  have a: "AddStoreDevice sample_env ''1-1'' ''planned'' init_store = (sample_state sample_device, 0, None)"
  proof -
    obtain d where "init_device sample_env ''planned'' (uninit_device ''/mnt/1-1'') = Inr d"
      using init_device_repr [of sample_env "\<lambda>_. 0" "\<lambda>_. 0" "''planned''"] by (auto simp: sample_env_def)
    moreover have "storePath sample_env = ''/mnt/''" "ensure_directory sample_env p" for p by (simp_all add: ensure_directory_def sample_env_def)
    ultimately show ?thesis by (simp add: AddStoreDevice_def init_store_def sample_device_def sample_state_def)
  qed
  have add: "store_step True init_store (sample_state sample_device)"
    using store_step.add_device [OF _ a] by (simp add: malloc_ok_def sample_env_def)
  have room: "fits ([] @ [new_frame sample_env key_frame (frame_index sample_device)])" using sample_room(1) by simp
  obtain d' where w: "WriteFrameToBuf sample_env ''1-1'' ''planned'' key_frame False (sample_state sample_device) =
      Inr (set_device ''planned'' ''1-1'' d' (sample_state sample_device), 0)"
  proof -
    obtain d' where "write_running sample_env key_frame sample_device = Inr d'" using write_running_append [OF sample_repr(1) room] by blast
    then show thesis using that by (simp add: WriteFrameToBuf_running [OF device_of_sample sample_repr(1)])
  qed
  have "frame_room sample_env key_frame sample_device"
    using sample_repr(1) room unfolding frame_room_def Let_def by blast
  then have "store_step True (sample_state sample_device) (set_device ''planned'' ''1-1'' d' (sample_state sample_device))"
    by (intro store_step.write_frame [OF _ w]) simp
  with add have r: "(store_step True)\<^sup>*\<^sup>* init_store (set_device ''planned'' ''1-1'' d' (sample_state sample_device))" by simp
  have d: "device_of ''planned'' ''1-1'' (set_device ''planned'' ''1-1'' d' (sample_state sample_device)) = Some d'" by simp
  show "\<exists>st d. (store_step True)\<^sup>*\<^sup>* init_store st \<and> device_of ''planned'' ''1-1'' st = Some d \<and> device_wf d"
    using r d reachable_store_inv [OF r d] by blast
next
  let ?env = "sample_env\<lparr>malloc_ping := None\<rparr>" and ?d = "uninit_device ''/mnt/1-1''"
  have "AddStoreDevice ?env ''1-1'' ''planned'' init_store = (sample_state ?d, -1, Some malloc_memory_fail)"
    by (simp add: AddStoreDevice_def ensure_directory_def sample_env_def init_store_def sample_state_def init_device_def uninit_device_def Let_def)
  then have r: "(store_step False)\<^sup>*\<^sup>* init_store (sample_state ?d)"
    by (intro r_into_rtranclp store_step.add_device [of _ ?env]) simp_all
  show "\<exists>st d. (store_step False)\<^sup>*\<^sup>* init_store st \<and> device_of ''planned'' ''1-1'' st = Some d \<and> (device_wf d \<or> device_broken d) \<and>
      pCurStoreBuf d = Uninit"
    using r device_of_sample [of ?d] reachable_store_inv [OF r device_of_sample] by (auto simp: uninit_device_def Let_def)
qed

text \<open>
  (C6) Safety of recording. In every state with the invariant, writing a frame to a listed device returns 0 without any fault,
  provided that the frame fits its current buffer or is a key frame
  that fits an empty one, and other devices keep their state.
\<close>

theorem recording_never_faults:
  assumes "store_inv st" "device_of type devId st = Some d" "dev_repr d r fs"
    "fits (fs @ [new_frame env xs (frame_index d)]) \<or> is_key env xs \<and> fits [new_frame env xs (frame_index d)]"
  shows "\<exists>st'. WriteFrameToBuf env devId type xs False st = Inr (st', 0) \<and> store_inv st' \<and>
     (\<forall>type' devId'. (type', devId') \<noteq> (type, devId) \<longrightarrow> device_of type' devId' st' = device_of type' devId' st)"
proof -
  have "pStoreBufWr d \<noteq> Uninit" using store_invD [OF assms(1,2)] by (simp add: device_wf_def)
  then obtain d' where "write_running env xs d = Inr d'" "device_wf d'"
    using write_running_wf assms(3,4) by blast
  then show ?thesis
    using store_inv_set [OF assms(1,2)] device_of_set_other [OF assms(2)]
    by (auto simp: WriteFrameToBuf_running [OF assms(2,3)])
qed

theorem recording_never_faults_witness:
  "\<exists>st'. WriteFrameToBuf sample_env ''1-1'' ''planned'' key_frame False (sample_state sample_device) = Inr (st', 0) \<and>
     store_inv st'"
proof -
  have "store_inv (sample_state sample_device)"
    using sample_repr by (auto simp: store_inv_lists sample_state_def init_store_def device_wf_def ran_def)
  then show ?thesis
    using recording_never_faults [OF _ device_of_sample sample_repr(1), of sample_env key_frame] sample_room(1)
    by fastforce
qed

text \<open>
  (C8) The stop path clears too much. \<open>remain\<close> is computed before the last frame is stored, so
  the clearing that ends a recording starts behind that frame and runs over the records; it
  leaves the 64 MiB block whenever the last frame is longer than the records of
  the frames before it.
\<close>

theorem stop_overruns_buffer:
  assumes "device_of type devId st = Some d" "dev_repr d r fs" "pStoreBufWr d = Null"
    "fits (fs @ [new_frame env xs (frame_index d)])" "sizeof_storeinfo * length fs < length xs"
  shows "WriteFrameToBuf env devId type xs True st = Inl OutOfBounds"
  using write_last_overrun [OF assms(2,4,5)] by (simp add: WriteFrameToBuf_last [OF assms(1-3)])

theorem stop_overruns_buffer_witness:
  "WriteFrameToBuf sample_env ''1-1'' ''planned'' [0, 0, 1, 0x41] True (sample_state sample_device) = Inl OutOfBounds"
  using stop_overruns_buffer [OF device_of_sample sample_repr(1,2), of sample_env "[0, 0, 1, 0x41]"]
  by (simp add: fits_def sizes)

end
