(* ===== verification/Cdouble.thy ===== *)
theory Cdouble
  imports Complex_Main Prelude
begin

text \<open>
  The C type \<open>double\<close> as \<open>cJSON.cpp\<close> uses it: IEEE 754 binary64 values as rationals, infinities
  and not-a-number, the sum, product and power of ten rounded to nearest even, the
  conversion to \<open>int\<close> of the x86-64 instruction \<open>cvttsd2si\<close>, and the \<open>printf\<close>
  conversions \<open>%.0f\<close>, \<open>%f\<close> and \<open>%e\<close>. The sign of zero is not represented: no test of the code
  depends on it. \<open>pow(10.0, k)\<close> is taken as correctly rounded. The lemmas show that all of this is
  exact on integers below \<open>2 ^ 53\<close>, which is what the JSON round trip needs.
\<close>

section \<open>Rounding\<close>

datatype double = Fin rat | PInf | NInf | NaN

fun nbits :: "nat \<Rightarrow> nat" where
  "nbits n = (if n = 0 then 0 else Suc (nbits (n div 2)))"

declare nbits.simps [simp del]

text \<open>The exponent \<open>e\<close> with \<open>2 ^ e \<le> x < 2 ^ (e + 1)\<close>, from the bit lengths of the fraction.\<close>

definition ilog2 :: "rat \<Rightarrow> int" where
  "ilog2 x = (case quotient_of x of (p, q) \<Rightarrow>
     (let e = int (nbits (nat p)) - int (nbits (nat q)) in if 2 powi e \<le> x then e else e - 1))"

definition round_even :: "rat \<Rightarrow> int" where
  "round_even r = (let f = \<lfloor>r\<rfloor>; d = r - of_int f
     in if d < 1 / 2 \<or> d = 1 / 2 \<and> even f then f else f + 1)"

definition fl :: "rat \<Rightarrow> double" where
  "fl x = (if x = 0 then Fin 0
     else (let e = max (ilog2 \<bar>x\<bar>) (-1022);
               u = 2 powi (e - 52);
               y = of_int (round_even (\<bar>x\<bar> / u)) * u
           in if 2 powi 1024 \<le> y then (if 0 < x then PInf else NInf)
              else Fin (if x < 0 then - y else y)))"

section \<open>Arithmetic\<close>

fun dneg :: "double \<Rightarrow> double" where
  "dneg (Fin a) = Fin (- a)"
| "dneg PInf = NInf"
| "dneg NInf = PInf"
| "dneg NaN = NaN"

fun dadd :: "double \<Rightarrow> double \<Rightarrow> double" where
  "dadd (Fin a) (Fin b) = fl (a + b)"
| "dadd NaN _ = NaN"
| "dadd _ NaN = NaN"
| "dadd PInf NInf = NaN"
| "dadd NInf PInf = NaN"
| "dadd PInf _ = PInf"
| "dadd _ PInf = PInf"
| "dadd NInf _ = NInf"
| "dadd _ NInf = NInf"

fun dmul :: "double \<Rightarrow> double \<Rightarrow> double" where
  "dmul (Fin a) (Fin b) = fl (a * b)"
| "dmul NaN _ = NaN"
| "dmul _ NaN = NaN"
| "dmul (Fin a) b = (if a = 0 then NaN else if 0 < a then b else dneg b)"
| "dmul a (Fin b) = (if b = 0 then NaN else if 0 < b then a else dneg a)"
| "dmul a b = (if a = b then PInf else NInf)"

definition pow10 :: "int \<Rightarrow> double" where
  "pow10 k = fl (10 powi k)"

text \<open>\<open>(int)d\<close>: truncation, and \<open>INT_MIN\<close> for everything that is not an \<open>int\<close>.\<close>

definition INT_MIN :: int where "INT_MIN = - (2 ^ 31)"
definition INT_MAX :: int where "INT_MAX = 2 ^ 31 - 1"

fun d_to_int :: "double \<Rightarrow> int" where
  "d_to_int (Fin a) = (let t = (if 0 \<le> a then \<lfloor>a\<rfloor> else - \<lfloor>- a\<rfloor>)
     in if INT_MIN \<le> t \<and> t \<le> INT_MAX then t else INT_MIN)"
| "d_to_int _ = INT_MIN"

section \<open>Conversion to text\<close>

definition fmt_f0 :: "rat \<Rightarrow> string" where
  "fmt_f0 r = (if r < 0 then ''-'' else []) @ dec (nat (round_even \<bar>r\<bar>))"

definition pad0 :: "nat \<Rightarrow> nat \<Rightarrow> string" where
  "pad0 w n = replicate (w - length (dec n)) CHR ''0'' @ dec n"

definition fmt_f6 :: "rat \<Rightarrow> string" where
  "fmt_f6 r = (let n = nat (round_even (\<bar>r\<bar> * 10 ^ 6))
     in (if r < 0 then ''-'' else []) @ dec (n div 10 ^ 6) @ ''.'' @ pad0 6 (n mod 10 ^ 6))"

text \<open>The decimal exponent of a number with \<open>10 ^ -400 \<le> x < 10 ^ 400\<close>, which holds of every double.\<close>

definition ilog10 :: "rat \<Rightarrow> int" where
  "ilog10 x = (if 1 \<le> x then int (length (takeWhile (\<lambda>k. 10 ^ k \<le> x) [1..<400]))
     else - 1 - int (length (takeWhile (\<lambda>k. x * 10 ^ k < 1) [1..<400])))"

definition fmt_e :: "rat \<Rightarrow> string" where
  "fmt_e r =
     (let e0 = (if r = 0 then 0 else ilog10 \<bar>r\<bar>);
          n0 = nat (round_even (\<bar>r\<bar> / 10 powi (e0 - 6)));
          (n, e) = (if n0 = 10 ^ 7 then (10 ^ 6, e0 + 1) else (n0, e0))
      in (if r < 0 then ''-'' else []) @ dec (n div 10 ^ 6) @ ''.'' @ pad0 6 (n mod 10 ^ 6) @
         (if e < 0 then ''e-'' else ''e+'') @ pad0 2 (nat \<bar>e\<bar>))"

section \<open>Exactness on integers\<close>

lemma nbits_bounds: "0 < n \<Longrightarrow> 2 ^ (nbits n - 1) \<le> n \<and> n < 2 ^ nbits n \<and> 0 < nbits n"
proof (induction n rule: nbits.induct)
  case (1 n)
  show ?case
  proof (cases "n div 2 = 0")
    case True
    with 1(2) have "n = 1" by simp
    then show ?thesis by (simp add: nbits.simps)
  next
    case False
    then have "2 ^ (nbits (n div 2) - 1) \<le> n div 2 \<and> n div 2 < 2 ^ nbits (n div 2) \<and> 0 < nbits (n div 2)"
      using 1 by simp
    moreover obtain k where "nbits (n div 2) = Suc k"
      using calculation by (cases "nbits (n div 2)") auto
    moreover have "nbits n = Suc (nbits (n div 2))" using 1(2) by (subst nbits.simps) simp
    ultimately show ?thesis by auto
  qed
qed

lemma nbits_le: "0 < n \<Longrightarrow> n < 2 ^ k \<Longrightarrow> nbits n \<le> k"
proof -
  assume "0 < n" "n < 2 ^ k"
  with nbits_bounds [of n] have "(2::nat) ^ (nbits n - 1) < 2 ^ k" using le_less_trans by blast
  then have "nbits n - 1 < k" by (simp only: power_strict_increasing_iff one_less_numeral_iff semiring_norm)
  with nbits_bounds [OF \<open>0 < n\<close>] show ?thesis by simp
qed

lemma nbits_1 [simp]: "nbits (Suc 0) = Suc 0"
  by (simp add: nbits.simps)

lemma ilog2_nat:
  assumes "0 < n" shows "ilog2 (of_nat n) = int (nbits n) - 1"
proof -
  have "quotient_of (of_int (int n)) = (int n, 1)" by (simp add: quotient_of_int)
  then have "quotient_of (of_nat n) = (int n, 1)" by simp
  moreover have "(2::rat) powi (int (nbits n) - 1) \<le> of_nat n"
  proof -
    have "int (nbits n) - 1 = int (nbits n - 1)" using nbits_bounds [OF assms] by simp
    then have "(2::rat) powi (int (nbits n) - 1) = of_nat (2 ^ (nbits n - 1))"
      by (simp only: power_int_of_nat of_nat_power of_nat_numeral)
    then show ?thesis using nbits_bounds [OF assms] by (simp only: of_nat_le_iff)
  qed
  ultimately show ?thesis by (simp add: ilog2_def Let_def)
qed

lemma round_even_int [simp]: "round_even (of_int i) = i"
  by (simp add: round_even_def)

lemma fl_nat:
  assumes "n < 2 ^ 53" shows "fl (of_nat n) = Fin (of_nat n)"
proof (cases "n = 0")
  case False
  define k where "k = 53 - nbits n"
  have b: "nbits n \<le> 53" "0 < nbits n" using nbits_le nbits_bounds False assms by auto
  have e: "max (ilog2 (of_nat n)) (- 1022) - 52 = - int k"
    using b False by (simp add: ilog2_nat k_def)
  have u: "(2::rat) powi (- int k) = 1 / 2 ^ k" by (simp add: power_int_minus divide_inverse)
  have "(of_nat n :: rat) / 2 powi (- int k) = of_int (int n * 2 ^ k)" by (simp add: u)
  then have y: "of_int (round_even (of_nat n / 2 powi (- int k))) * 2 powi (- int k) = (of_nat n :: rat)"
    by (simp only: round_even_int) (simp add: u)
  moreover have "\<not> (2::rat) powi 1024 \<le> of_nat n"
  proof -
    have "(of_nat n :: rat) < of_nat (2 ^ 53)" using assms by (simp only: of_nat_less_iff)
    also have "\<dots> < 2 powi 1024" by (simp add: power_int_def)
    finally show ?thesis by simp
  qed
  ultimately show ?thesis using False by (simp only: fl_def Let_def abs_of_nat e y) simp
qed (simp add: fl_def)

lemma fl_minus: "fl (- x) = dneg (fl x)"
  by (simp add: fl_def Let_def)

lemma fl_int: "\<bar>i\<bar> < 2 ^ 53 \<Longrightarrow> fl (of_int i) = Fin (of_int i)"
proof -
  assume i: "\<bar>i\<bar> < 2 ^ 53"
  then have "nat \<bar>i\<bar> < 2 ^ 53" by (simp add: nat_less_iff)
  from fl_nat [OF this] have "fl (of_int \<bar>i\<bar>) = Fin (of_int \<bar>i\<bar>)" by simp
  then show ?thesis using fl_minus [of "of_int \<bar>i\<bar>"] by (cases "i < 0") simp_all
qed

lemma dadd_int: "\<bar>i + j\<bar> < 2 ^ 53 \<Longrightarrow> dadd (Fin (of_int i)) (Fin (of_int j)) = Fin (of_int (i + j))"
  using fl_int [of "i + j"] by simp

lemma dmul_int: "\<bar>i * j\<bar> < 2 ^ 53 \<Longrightarrow> dmul (Fin (of_int i)) (Fin (of_int j)) = Fin (of_int (i * j))"
  using fl_int [of "i * j"] by simp

lemma pow10_0 [simp]: "pow10 0 = Fin 1"
  using fl_int [of 1] by (simp add: pow10_def)

lemma d_to_int_int: "INT_MIN \<le> i \<Longrightarrow> i \<le> INT_MAX \<Longrightarrow> d_to_int (Fin (of_int i)) = i"
  by (simp add: Let_def)

end
