(* ===== verification/CJSON.thy ===== *)
theory CJSON
  imports Cdouble
begin

text \<open>
  The JSON library \<open>src/src/cJSON.cpp\<close> through which the HTTP interface reads requests and
  writes replies. A \<open>cJSON\<close> node is a value of type \<open>cjson\<close>; the doubly linked chain of its children
  is a list. Text is the list of characters before the terminating NUL, and a \<open>const char *\<close>
  into it is the remaining suffix, so a pointer that has moved beyond the NUL has no
  representation: the model faults there. Functions that fill a buffer they have allocated fault when
  they write more than they allocated. \<open>malloc\<close> succeeds. The static \<open>ep\<close> is the argument of
  \<open>Fail\<close>. Printing is modelled here for the callers of this program, which pass no print buffer, and in
  \<open>CJSONBuffer\<close> with one. The links
  between nodes, and nodes with the flag \<open>cJSON_IsReference\<close>, which share children, are modelled in \<open>CJSONHeap\<close>.
\<close>

section \<open>Nodes\<close>

datatype cjson = CJSON
  (ctype: int)                      \<comment> \<open>\<open>type\<close>\<close>
  (valuestring: "string option")
  (valueint: int)
  (valuedouble: double)
  (jname: "string option")          \<comment> \<open>\<open>string\<close>, the name inside an object\<close>
  (child: "cjson list")

definition cJSON_False :: int where "cJSON_False = 0"
definition cJSON_True :: int where "cJSON_True = 1"
definition cJSON_NULL :: int where "cJSON_NULL = 2"
definition cJSON_Number :: int where "cJSON_Number = 3"
definition cJSON_String :: int where "cJSON_String = 4"
definition cJSON_Array :: int where "cJSON_Array = 5"
definition cJSON_Object :: int where "cJSON_Object = 6"
definition cJSON_StringIsConst :: int where "cJSON_StringIsConst = 512"

lemmas cJSON_types = cJSON_False_def cJSON_True_def cJSON_NULL_def cJSON_Number_def cJSON_String_def
  cJSON_Array_def cJSON_Object_def

definition cJSON_New_Item :: cjson where
  "cJSON_New_Item = CJSON 0 None 0 (Fin 0) None []"

fun set_type :: "int \<Rightarrow> cjson \<Rightarrow> cjson" where
  "set_type t (CJSON _ vs vi vd nm ch) = CJSON t vs vi vd nm ch"

fun set_valuestring :: "string option \<Rightarrow> cjson \<Rightarrow> cjson" where
  "set_valuestring vs (CJSON t _ vi vd nm ch) = CJSON t vs vi vd nm ch"

fun set_number :: "int \<Rightarrow> double \<Rightarrow> cjson \<Rightarrow> cjson" where
  "set_number vi vd (CJSON t vs _ _ nm ch) = CJSON t vs vi vd nm ch"

fun set_valueint :: "int \<Rightarrow> cjson \<Rightarrow> cjson" where
  "set_valueint vi (CJSON t vs _ vd nm ch) = CJSON t vs vi vd nm ch"

fun set_name :: "string option \<Rightarrow> cjson \<Rightarrow> cjson" where
  "set_name nm (CJSON t vs vi vd _ ch) = CJSON t vs vi vd nm ch"

fun set_child :: "cjson list \<Rightarrow> cjson \<Rightarrow> cjson" where
  "set_child ch (CJSON t vs vi vd nm _) = CJSON t vs vi vd nm ch"

section \<open>Characters\<close>

definition code_of :: "char \<Rightarrow> nat" where
  "code_of c = of_char c"

definition is_digit :: "char \<Rightarrow> bool" where
  "is_digit c \<longleftrightarrow> 48 \<le> code_of c \<and> code_of c \<le> 57"

definition digit_val :: "char \<Rightarrow> int" where
  "digit_val c = int (code_of c) - 48"

definition tolower :: "char \<Rightarrow> char" where
  "tolower c = (if 65 \<le> code_of c \<and> code_of c \<le> 90 then char_of (code_of c + 32) else c)"

text \<open>\<open>cJSON_strcasecmp\<close>; at the end of a string the character is NUL.\<close>

fun strcasecmp_loop :: "string \<Rightarrow> string \<Rightarrow> int" where
  "strcasecmp_loop [] [] = 0"
| "strcasecmp_loop [] (d # ds) = - int (code_of (tolower d))"
| "strcasecmp_loop (c # cs) [] = int (code_of (tolower c))"
| "strcasecmp_loop (c # cs) (d # ds) =
     (if tolower c = tolower d then strcasecmp_loop cs ds
      else int (code_of (tolower c)) - int (code_of (tolower d)))"

definition cJSON_strcasecmp :: "string option \<Rightarrow> string option \<Rightarrow> int" where
  "cJSON_strcasecmp s1 s2 = (case s1 of
      None \<Rightarrow> (if s2 = None then 0 else 1)
    | Some a \<Rightarrow> (case s2 of None \<Rightarrow> 1 | Some b \<Rightarrow> strcasecmp_loop a b))"

definition skip :: "string \<Rightarrow> string" where
  "skip s = dropWhile (\<lambda>c. code_of c \<le> 32) s"

section \<open>Parsing\<close>

datatype 'a presult = Crash fault | Fail string | Ok 'a string

fun pbind :: "'a presult \<Rightarrow> ('a \<Rightarrow> string \<Rightarrow> 'b presult) \<Rightarrow> 'b presult" where
  "pbind (Crash f) k = Crash f"
| "pbind (Fail ep) k = Fail ep"
| "pbind (Ok a r) k = k a r"

text \<open>\<open>parse_number\<close>: \<open>n = n * 10.0 + digit\<close> in \<open>double\<close>; the exponent is an \<open>int\<close>.\<close>

fun digits_loop :: "double \<Rightarrow> string \<Rightarrow> double \<times> nat \<times> string" where
  "digits_loop n [] = (n, 0, [])"
| "digits_loop n (c # cs) =
     (if is_digit c
      then (case digits_loop (dadd (dmul n (Fin 10)) (Fin (of_int (digit_val c)))) cs of (m, k, r) \<Rightarrow> (m, Suc k, r))
      else (n, 0, c # cs))"

fun exponent_loop :: "int \<Rightarrow> string \<Rightarrow> (int \<times> string) res" where
  "exponent_loop e [] = Inr (e, [])"
| "exponent_loop e (c # cs) =
     (if is_digit c
      then (let e' = e * 10 + digit_val c in if INT_MAX < e' then Inl SignedOverflow else exponent_loop e' cs)
      else Inr (e, c # cs))"

definition starts :: "(char \<Rightarrow> bool) \<Rightarrow> string \<Rightarrow> bool" where
  "starts P s = (case s of [] \<Rightarrow> False | c # _ \<Rightarrow> P c)"

text \<open>The integer part, the fraction (with the number of its digits) and the exponent.\<close>

definition parse_mantissa :: "string \<Rightarrow> double \<times> string" where
  "parse_mantissa num =
     (let num2 = (if starts (\<lambda>c. c = CHR ''0'') num then tl num else num)
      in if starts (\<lambda>c. is_digit c \<and> c \<noteq> CHR ''0'') num2
         then (case digits_loop (Fin 0) num2 of (n, _, r) \<Rightarrow> (n, r)) else (Fin 0, num2))"

definition parse_fraction :: "double \<Rightarrow> string \<Rightarrow> double \<times> nat \<times> string" where
  "parse_fraction n num =
     (if starts (\<lambda>c. c = CHR ''.'') num \<and> starts is_digit (tl num) then digits_loop n (tl num) else (n, 0, num))"

definition parse_exponent :: "string \<Rightarrow> (int \<times> string) res" where
  "parse_exponent num =
     (if starts (\<lambda>c. c = CHR ''e'' \<or> c = CHR ''E'') num then
        (let num1 = tl num
         in if starts (\<lambda>c. c = CHR ''+'') num1 then exponent_loop 0 (tl num1)
            else if starts (\<lambda>c. c = CHR ''-'') num1
            then ebind (exponent_loop 0 (tl num1)) (\<lambda>(subscale, r). Inr (- subscale, r))
            else exponent_loop 0 num1)
      else Inr (0, num))"

definition parse_number :: "cjson \<Rightarrow> string \<Rightarrow> cjson presult" where
  "parse_number item num =
     (let neg = starts (\<lambda>c. c = CHR ''-'') num;
          (n1, num1) = parse_mantissa (if neg then tl num else num);
          (n2, scale, num2) = parse_fraction n1 num1
      in case parse_exponent num2 of
           Inl f \<Rightarrow> Crash f
         | Inr (subscale, num3) \<Rightarrow>
             (let n = dmul (dmul (Fin (if neg then -1 else 1)) n2) (pow10 (subscale - int scale))
              in Ok (set_type cJSON_Number (set_number (d_to_int n) n item)) num3))"

definition hex_val :: "char \<Rightarrow> nat option" where
  "hex_val c = (let k = code_of c in
     if 48 \<le> k \<and> k \<le> 57 then Some (k - 48)
     else if 65 \<le> k \<and> k \<le> 70 then Some (k - 55)
     else if 97 \<le> k \<and> k \<le> 102 then Some (k - 87) else None)"

definition parse_hex4 :: "string \<Rightarrow> nat" where
  "parse_hex4 s =
     (case s of a # b # c # d # _ \<Rightarrow>
        (case (hex_val a, hex_val b, hex_val c, hex_val d) of
           (Some w, Some x, Some y, Some z) \<Rightarrow> ((w * 16 + x) * 16 + y) * 16 + z
         | _ \<Rightarrow> 0)
      | _ \<Rightarrow> 0)"

text \<open>UTF-8 as the \<open>switch (len)\<close> writes it, last byte first.\<close>

definition utf8 :: "nat \<Rightarrow> string" where
  "utf8 uc =
     (let cont = (\<lambda>u. char_of (128 + u mod 64))
      in if uc < 0x80 then [char_of uc]
         else if uc < 0x800 then [char_of (0xC0 + uc div 64), cont uc]
         else if uc < 0x10000 then [char_of (0xE0 + uc div 4096), cont (uc div 64), cont uc]
         else [char_of (0xF0 + uc div 262144), cont (uc div 4096), cont (uc div 64), cont uc])"

text \<open>First pass of \<open>parse_string\<close>: the length the buffer is allocated with.\<close>

fun string_len :: "string \<Rightarrow> nat res" where
  "string_len [] = Inr 0"
| "string_len (c # cs) =
     (if c = CHR 0x22 then Inr 0
      else if c = CHR 0x5C then
        (case cs of [] \<Rightarrow> Inl OutOfBounds | _ # cs' \<Rightarrow> ebind (string_len cs') (\<lambda>n. Inr (Suc n)))
      else ebind (string_len cs) (\<lambda>n. Inr (Suc n)))"

text \<open>
  A \<open>\u\<close> escape, given the text behind the \<open>u\<close>: what is written and where the scan continues.
  The pointer moves by four (or ten) characters whether or not they are there.
\<close>

definition hop :: "nat \<Rightarrow> string \<Rightarrow> string res" where
  "hop n s = (if n \<le> length s then Inr (drop n s) else Inl OutOfBounds)"

definition unescape_u :: "string \<Rightarrow> (string \<times> string) res" where
  "unescape_u s =
     (let uc = parse_hex4 s
      in if 0xDC00 \<le> uc \<and> uc \<le> 0xDFFF \<or> uc = 0 then ebind (hop 4 s) (\<lambda>r. Inr ([], r))
         else if 0xD800 \<le> uc \<and> uc \<le> 0xDBFF then
           (let s1 = drop 4 s
            in if take 2 s1 \<noteq> [CHR 0x5C, CHR ''u''] then ebind (hop 4 s) (\<lambda>r. Inr ([], r))
               else (let uc2 = parse_hex4 (drop 2 s1)
                     in ebind (hop 6 s1) (\<lambda>r.
                        Inr (if uc2 < 0xDC00 \<or> 0xDFFF < uc2 then []
                             else utf8 (0x10000 + (uc mod 1024) * 1024 + uc2 mod 1024), r))))
         else ebind (hop 4 s) (\<lambda>r. Inr (utf8 uc, r)))"

definition unescape_char :: "char \<Rightarrow> char" where
  "unescape_char c =
     (if c = CHR ''b'' then CHR 0x08 else if c = CHR ''f'' then CHR 0x0C else if c = CHR ''n'' then CHR 0x0A
      else if c = CHR ''r'' then CHR 0x0D else if c = CHR ''t'' then CHR 0x09 else c)"

text \<open>Second pass: the characters written and the rest of the text, at the closing quote or the NUL.\<close>

lemma hop_length: "hop n s = Inr r \<Longrightarrow> length r \<le> length s"
  by (auto simp: hop_def split: if_splits)

lemma unescape_u_length: "unescape_u s = Inr (out, r) \<Longrightarrow> length r \<le> length s"
  by (auto simp: unescape_u_def Let_def ebind_eq_Inr split: if_splits dest!: hop_length)

function unescape :: "string \<Rightarrow> (string \<times> string) res" where
  "unescape s =
     (case s of
        [] \<Rightarrow> Inr ([], [])
      | c # cs \<Rightarrow>
          if c = CHR 0x22 then Inr ([], s)
          else if c \<noteq> CHR 0x5C then ebind (unescape cs) (\<lambda>(out, r). Inr (c # out, r))
          else (case cs of
                  [] \<Rightarrow> Inl OutOfBounds
                | e # es \<Rightarrow>
                    if e = CHR ''u'' then
                      (case unescape_u es of
                         Inl f \<Rightarrow> Inl f
                       | Inr (w, es') \<Rightarrow> ebind (unescape es') (\<lambda>(out, r). Inr (w @ out, r)))
                    else ebind (unescape es) (\<lambda>(out, r). Inr (unescape_char e # out, r))))"
  by pat_completeness auto
termination
  by (relation "measure length") (auto dest: unescape_u_length)

declare unescape.simps [simp del]

lemma unescape_Nil [simp]: "unescape [] = Inr ([], [])"
  by (simp add: unescape.simps)

lemma unescape_Cons:
  "unescape (c # cs) =
     (if c = CHR 0x22 then Inr ([], c # cs)
      else if c \<noteq> CHR 0x5C then ebind (unescape cs) (\<lambda>(out, r). Inr (c # out, r))
      else (case cs of
              [] \<Rightarrow> Inl OutOfBounds
            | e # es \<Rightarrow>
                if e = CHR ''u'' then ebind (unescape_u es) (\<lambda>(w, es').
                  ebind (unescape es') (\<lambda>(out, r). Inr (w @ out, r)))
                else ebind (unescape es) (\<lambda>(out, r). Inr (unescape_char e # out, r))))"
  by (subst unescape.simps) (auto simp: ebind_def split: list.splits sum.splits)

definition parse_string :: "cjson \<Rightarrow> string \<Rightarrow> cjson presult" where
  "parse_string item s =
     (if \<not> starts (\<lambda>c. c = CHR 0x22) s then Fail s
      else (case ebind (string_len (tl s)) (\<lambda>len.
                 ebind (unescape (tl s)) (\<lambda>(out, r).
                 ebind (guard (length out \<le> len) OutOfBounds) (\<lambda>_. Inr (out, r)))) of
              Inl f \<Rightarrow> Crash f
            | Inr (out, r) \<Rightarrow>
                Ok (set_type cJSON_String (set_valuestring (Some out) item))
                   (if starts (\<lambda>c. c = CHR 0x22) r then tl r else r)))"

definition is_prefix :: "string \<Rightarrow> string \<Rightarrow> bool" where
  "is_prefix p s \<longleftrightarrow> take (length p) s = p"

text \<open>
  The recursive descent. The first argument is fuel; every call uses up one unit, and
  \<open>2 * length s + 2\<close> units are always enough.
\<close>

function (sequential) parse_value :: "nat \<Rightarrow> cjson \<Rightarrow> string \<Rightarrow> cjson presult"
  and parse_array :: "nat \<Rightarrow> cjson \<Rightarrow> string \<Rightarrow> cjson presult"
  and array_loop :: "nat \<Rightarrow> cjson list \<Rightarrow> string \<Rightarrow> cjson list presult"
  and parse_object :: "nat \<Rightarrow> cjson \<Rightarrow> string \<Rightarrow> cjson presult"
  and parse_member :: "nat \<Rightarrow> string \<Rightarrow> cjson presult"
  and object_loop :: "nat \<Rightarrow> cjson list \<Rightarrow> string \<Rightarrow> cjson list presult" where
  "parse_value 0 item v = Crash NoReturn"
| "parse_value (Suc n) item v =
     (if is_prefix ''null'' v then Ok (set_type cJSON_NULL item) (drop 4 v)
      else if is_prefix ''false'' v then Ok (set_type cJSON_False item) (drop 5 v)
      else if is_prefix ''true'' v then Ok (set_valueint 1 (set_type cJSON_True item)) (drop 4 v)
      else if starts (\<lambda>c. c = CHR 0x22) v then parse_string item v
      else if starts (\<lambda>c. c = CHR ''-'' \<or> is_digit c) v then parse_number item v
      else if starts (\<lambda>c. c = CHR ''['') v then parse_array n item v
      else if starts (\<lambda>c. c = CHR ''{'') v then parse_object n item v
      else Fail v)"
| "parse_array 0 item v = Crash NoReturn"
| "parse_array (Suc n) item v =
     (if \<not> starts (\<lambda>c. c = CHR ''['') v then Fail v
      else (let v1 = skip (tl v)
            in if starts (\<lambda>c. c = CHR '']'') v1 then Ok (set_type cJSON_Array item) (tl v1)
               else pbind (parse_value n cJSON_New_Item (skip v1)) (\<lambda>ch r.
                    pbind (array_loop n [ch] (skip r)) (\<lambda>chs r'.
                    Ok (set_child chs (set_type cJSON_Array item)) r'))))"
| "array_loop 0 chs v = Crash NoReturn"
| "array_loop (Suc n) chs v =
     (if starts (\<lambda>c. c = CHR '','') v then
        pbind (parse_value n cJSON_New_Item (skip (tl v))) (\<lambda>ch r. array_loop n (chs @ [ch]) (skip r))
      else if starts (\<lambda>c. c = CHR '']'') v then Ok chs (tl v)
      else Fail v)"
| "parse_object 0 item v = Crash NoReturn"
| "parse_object (Suc n) item v =
     (if \<not> starts (\<lambda>c. c = CHR ''{'') v then Fail v
      else (let v1 = skip (tl v)
            in if starts (\<lambda>c. c = CHR ''}'') v1 then Ok (set_type cJSON_Object item) (tl v1)
               else pbind (parse_member n (skip v1)) (\<lambda>ch r.
                    pbind (object_loop n [ch] (skip r)) (\<lambda>chs r'.
                    Ok (set_child chs (set_type cJSON_Object item)) r'))))"
| "parse_member 0 v = Crash NoReturn"
| "parse_member (Suc n) v =
     pbind (parse_string cJSON_New_Item v) (\<lambda>ch r.
     (let r1 = skip r
      in if \<not> starts (\<lambda>c. c = CHR '':'') r1 then Fail r1
         else parse_value n (set_valuestring None (set_name (valuestring ch) ch)) (skip (tl r1))))"
| "object_loop 0 chs v = Crash NoReturn"
| "object_loop (Suc n) chs v =
     (if starts (\<lambda>c. c = CHR '','') v then
        pbind (parse_member n (skip (tl v))) (\<lambda>ch r. object_loop n (chs @ [ch]) (skip r))
      else if starts (\<lambda>c. c = CHR ''}'') v then Ok chs (tl v)
      else Fail v)"
  by pat_completeness auto
termination
  by size_change

definition cJSON_ParseWithOpts :: "string \<Rightarrow> bool \<Rightarrow> cjson presult" where
  "cJSON_ParseWithOpts value require_null_terminated =
     pbind (parse_value (2 * length value + 2) cJSON_New_Item (skip value)) (\<lambda>c end_ptr.
     if require_null_terminated
     then (let e = skip end_ptr in if e \<noteq> [] then Fail e else Ok c e)
     else Ok c end_ptr)"

definition cJSON_Parse :: "string \<Rightarrow> cjson option res" where
  "cJSON_Parse value = (case cJSON_ParseWithOpts value False of
     Crash f \<Rightarrow> Inl f | Fail ep \<Rightarrow> Inr None | Ok c r \<Rightarrow> Inr (Some c))"

section \<open>Printing\<close>

definition DBL_EPSILON :: rat where "DBL_EPSILON = 1 / 2 ^ 52"

definition dlit :: "rat \<Rightarrow> rat" where
  "dlit r = (case fl r of Fin x \<Rightarrow> x | _ \<Rightarrow> 0)"

text \<open>\<open>fabs(a - b) <= DBL_EPSILON\<close>\<close>

definition near :: "rat \<Rightarrow> rat \<Rightarrow> bool" where
  "near a b = (case dadd (Fin a) (Fin (- b)) of Fin x \<Rightarrow> \<bar>x\<bar> \<le> DBL_EPSILON | _ \<Rightarrow> False)"

definition print_number :: "cjson \<Rightarrow> string" where
  "print_number item =
     (case valuedouble item of
        Fin d \<Rightarrow>
          if d = 0 then ''0''
          else if near (of_int (valueint item)) d \<and> d \<le> of_int INT_MAX \<and> of_int INT_MIN \<le> d
          then fmt_d (valueint item)
          else if near (of_int \<lfloor>d\<rfloor>) d \<and> \<bar>d\<bar> < dlit (10 ^ 60) then fmt_f0 d
          else if \<bar>d\<bar> < dlit (1 / 10 ^ 6) \<or> dlit (10 ^ 9) < \<bar>d\<bar> then fmt_e d
          else fmt_f6 d
      | PInf \<Rightarrow> ''inf'' | NInf \<Rightarrow> ''-inf'' | NaN \<Rightarrow> ''-nan'')"

definition needs_escape :: "char \<Rightarrow> bool" where
  "needs_escape c \<longleftrightarrow> code_of c < 32 \<or> c = CHR 0x22 \<or> c = CHR 0x5C"

definition hex_digit :: "nat \<Rightarrow> char" where
  "hex_digit k = (if k < 10 then char_of (48 + k) else char_of (87 + k))"

definition escape_char :: "char \<Rightarrow> string" where
  "escape_char c =
     (if \<not> needs_escape c then [c]
      else CHR 0x5C #
        (if c = CHR 0x5C then [CHR 0x5C] else if c = CHR 0x22 then [CHR 0x22]
         else if c = CHR 0x08 then ''b'' else if c = CHR 0x0C then ''f'' else if c = CHR 0x0A then ''n''
         else if c = CHR 0x0D then ''r'' else if c = CHR 0x09 then ''t''
         else [CHR ''u'', CHR ''0'', CHR ''0'', hex_digit (code_of c div 16), hex_digit (code_of c mod 16)]))"

text \<open>The length counted for the escaped text.\<close>

definition escape_len :: "char \<Rightarrow> nat" where
  "escape_len c =
     (if c \<in> set [CHR 0x22, CHR 0x5C, CHR 0x08, CHR 0x0C, CHR 0x0A, CHR 0x0D, CHR 0x09] then 2
      else if code_of c < 32 then 6 else 1)"

definition quoted :: "string \<Rightarrow> string" where
  "quoted s = CHR 0x22 # s @ [CHR 0x22]"

definition print_string_ptr :: "string option \<Rightarrow> string res" where
  "print_string_ptr str =
     (case str of
        None \<Rightarrow> Inl NullDeref   \<comment> \<open>the first loop reads \<open>*ptr\<close> before \<open>str\<close> is tested\<close>
      | Some s \<Rightarrow>
          if \<not> list_ex needs_escape s then Inr (quoted s)
          else (let out = quoted (concat (map escape_char s));
                    len = sum_list (map escape_len s)
                in ebind (guard (length out + 1 \<le> len + 3) OutOfBounds) (\<lambda>_. Inr out)))"

text \<open>Composition of the entries; \<open>i != numentries - 1\<close> decides about the comma.\<close>

fun join :: "string \<Rightarrow> string list \<Rightarrow> string" where
  "join sep [] = []"
| "join sep [e] = e"
| "join sep (e # es) = e @ sep @ join sep es"

definition compose_array :: "bool \<Rightarrow> string list \<Rightarrow> string res" where
  "compose_array fmt es =
     (let out = ''['' @ join (if fmt then '', '' else '','') es @ '']'';
          len = 5 + sum_list (map (\<lambda>e. length e + 2 + (if fmt then 1 else 0)) es)
      in ebind (guard (length out + 1 \<le> len) OutOfBounds) (\<lambda>_. Inr out))"

definition tabs :: "nat \<Rightarrow> string" where
  "tabs n = replicate n (CHR 0x09)"

definition compose_member :: "bool \<Rightarrow> nat \<Rightarrow> string \<times> string \<Rightarrow> string" where
  "compose_member fmt depth ne = (case ne of (name, entry) \<Rightarrow>
     (if fmt then tabs depth else []) @ name @ '':'' @ (if fmt then [CHR 0x09] else []) @ entry)"

definition compose_object :: "bool \<Rightarrow> nat \<Rightarrow> (string \<times> string) list \<Rightarrow> string res" where
  "compose_object fmt depth es =
     (let nl = (if fmt then [CHR 0x0A] else []);
          out = ''{'' @ nl @ join ('','' @ nl) (map (compose_member fmt depth) es) @ nl @
                (if fmt then tabs (depth - 1) else []) @ ''}'';
          len = 7 + (if fmt then depth else 0) +
                sum_list (map (\<lambda>(name, entry). length entry + length name + 2 + (if fmt then 2 + depth else 0)) es)
      in ebind (guard (length out + 1 \<le> len) OutOfBounds) (\<lambda>_. Inr out))"

definition empty_object :: "bool \<Rightarrow> nat \<Rightarrow> string" where
  "empty_object fmt depth = ''{'' @ (if fmt then CHR 0x0A # tabs (depth - 1) else []) @ ''}''"

text \<open>
  \<open>print_value\<close> returns \<open>None\<close> (a null pointer) for an unknown type. The array loop stops at the
  first entry that fails, the object loop prints every member. In \<open>print_members\<close> the depth is the one
  after \<open>depth++\<close>.
\<close>

fun print_value :: "nat \<Rightarrow> bool \<Rightarrow> cjson \<Rightarrow> string option res"
  and print_entries :: "nat \<Rightarrow> bool \<Rightarrow> cjson list \<Rightarrow> string list option res"
  and print_members :: "nat \<Rightarrow> bool \<Rightarrow> cjson list \<Rightarrow> (string \<times> string) list option res" where
  "print_value depth fmt (CJSON t vs vi vd nm ch) =
     (let k = t mod 256
      in if k = cJSON_NULL then Inr (Some ''null'')
         else if k = cJSON_False then Inr (Some ''false'')
         else if k = cJSON_True then Inr (Some ''true'')
         else if k = cJSON_Number then Inr (Some (print_number (CJSON t vs vi vd nm ch)))
         else if k = cJSON_String then ebind (print_string_ptr vs) (\<lambda>s. Inr (Some s))
         else if k = cJSON_Array then
           (if ch = [] then Inr (Some ''[]'')
            else ebind (print_entries (Suc depth) fmt ch) (\<lambda>es.
                 case es of None \<Rightarrow> Inr None | Some l \<Rightarrow> ebind (compose_array fmt l) (\<lambda>s. Inr (Some s))))
         else if k = cJSON_Object then
           (if ch = [] then Inr (Some (empty_object fmt depth))
            else ebind (print_members (Suc depth) fmt ch) (\<lambda>es.
                 case es of None \<Rightarrow> Inr None | Some l \<Rightarrow> ebind (compose_object fmt (Suc depth) l) (\<lambda>s. Inr (Some s))))
         else Inr None)"
| "print_entries depth fmt [] = Inr (Some [])"
| "print_entries depth fmt (c # cs) =
     ebind (print_value depth fmt c) (\<lambda>e.
     case e of None \<Rightarrow> Inr None
     | Some s \<Rightarrow> ebind (print_entries depth fmt cs) (\<lambda>es. Inr (map_option (Cons s) es)))"
| "print_members depth fmt [] = Inr (Some [])"
| "print_members depth fmt (c # cs) =
     ebind (print_string_ptr (jname c)) (\<lambda>name.
     ebind (print_value depth fmt c) (\<lambda>e.
     ebind (print_members depth fmt cs) (\<lambda>es.
     Inr (case e of None \<Rightarrow> None | Some s \<Rightarrow> map_option (Cons (name, s)) es))))"

definition cJSON_Print :: "cjson \<Rightarrow> string option res" where
  "cJSON_Print item = print_value 0 True item"

definition cJSON_PrintUnformatted :: "cjson \<Rightarrow> string option res" where
  "cJSON_PrintUnformatted item = print_value 0 False item"

section \<open>Access\<close>

definition cJSON_GetArraySize :: "cjson \<Rightarrow> nat" where
  "cJSON_GetArraySize array = length (child array)"

text \<open>A negative index reaches the first child: the loop tests \<open>item > 0\<close>.\<close>

definition cJSON_GetArrayItem :: "cjson \<Rightarrow> int \<Rightarrow> cjson option" where
  "cJSON_GetArrayItem array item =
     (if nat item < length (child array) then Some (child array ! nat item) else None)"

definition cJSON_GetObjectItem :: "cjson \<Rightarrow> string \<Rightarrow> cjson option" where
  "cJSON_GetObjectItem object name =
     find (\<lambda>c. cJSON_strcasecmp (jname c) (Some name) = 0) (child object)"

definition cJSON_AddItemToArray :: "cjson \<Rightarrow> cjson option \<Rightarrow> cjson" where
  "cJSON_AddItemToArray array item =
     (case item of None \<Rightarrow> array | Some i \<Rightarrow> set_child (child array @ [i]) array)"

definition cJSON_AddItemToObject :: "cjson \<Rightarrow> string \<Rightarrow> cjson option \<Rightarrow> cjson" where
  "cJSON_AddItemToObject object name item =
     (case item of None \<Rightarrow> object | Some i \<Rightarrow> cJSON_AddItemToArray object (Some (set_name (Some name) i)))"

text \<open>The name is not copied, and the flag says that it must not be freed.\<close>

definition cJSON_AddItemToObjectCS :: "cjson \<Rightarrow> string \<Rightarrow> cjson option \<Rightarrow> cjson" where
  "cJSON_AddItemToObjectCS object name item =
     (case item of None \<Rightarrow> object
      | Some i \<Rightarrow> cJSON_AddItemToArray object (Some (set_type (ctype i OR cJSON_StringIsConst) (set_name (Some name) i))))"

definition cJSON_DetachItemFromArray :: "cjson \<Rightarrow> int \<Rightarrow> cjson \<times> cjson option" where
  "cJSON_DetachItemFromArray array which =
     (let n = nat which; ch = child array
      in if n < length ch then (set_child (take n ch @ drop (Suc n) ch) array, Some (ch ! n))
         else (array, None))"

definition name_index :: "cjson \<Rightarrow> string \<Rightarrow> nat" where
  "name_index object name = length (takeWhile (\<lambda>c. cJSON_strcasecmp (jname c) (Some name) \<noteq> 0) (child object))"

definition cJSON_DetachItemFromObject :: "cjson \<Rightarrow> string \<Rightarrow> cjson \<times> cjson option" where
  "cJSON_DetachItemFromObject object name =
     (let i = name_index object name
      in if i < length (child object) then cJSON_DetachItemFromArray object (int i) else (object, None))"

definition cJSON_DeleteItemFromArray :: "cjson \<Rightarrow> int \<Rightarrow> cjson" where
  "cJSON_DeleteItemFromArray array which = fst (cJSON_DetachItemFromArray array which)"

definition cJSON_DeleteItemFromObject :: "cjson \<Rightarrow> string \<Rightarrow> cjson" where
  "cJSON_DeleteItemFromObject object name = fst (cJSON_DetachItemFromObject object name)"

definition cJSON_InsertItemInArray :: "cjson \<Rightarrow> int \<Rightarrow> cjson \<Rightarrow> cjson" where
  "cJSON_InsertItemInArray array which newitem =
     (let n = nat which; ch = child array
      in if n < length ch then set_child (take n ch @ newitem # drop n ch) array
         else cJSON_AddItemToArray array (Some newitem))"

definition cJSON_ReplaceItemInArray :: "cjson \<Rightarrow> int \<Rightarrow> cjson \<Rightarrow> cjson" where
  "cJSON_ReplaceItemInArray array which newitem =
     (let n = nat which; ch = child array
      in if n < length ch then set_child (ch[n := newitem]) array else array)"

definition cJSON_ReplaceItemInObject :: "cjson \<Rightarrow> string \<Rightarrow> cjson \<Rightarrow> cjson" where
  "cJSON_ReplaceItemInObject object name newitem =
     (let i = name_index object name
      in if i < length (child object)
         then cJSON_ReplaceItemInArray object (int i) (set_name (Some name) newitem) else object)"

section \<open>Construction\<close>

definition cJSON_CreateNull :: cjson where
  "cJSON_CreateNull = set_type cJSON_NULL cJSON_New_Item"

definition cJSON_CreateTrue :: cjson where
  "cJSON_CreateTrue = set_type cJSON_True cJSON_New_Item"

definition cJSON_CreateFalse :: cjson where
  "cJSON_CreateFalse = set_type cJSON_False cJSON_New_Item"

definition cJSON_CreateBool :: "bool \<Rightarrow> cjson" where
  "cJSON_CreateBool b = set_type (if b then cJSON_True else cJSON_False) cJSON_New_Item"

definition cJSON_CreateNumber :: "double \<Rightarrow> cjson" where
  "cJSON_CreateNumber num = set_type cJSON_Number (set_number (d_to_int num) num cJSON_New_Item)"

definition cJSON_CreateString :: "string \<Rightarrow> cjson" where
  "cJSON_CreateString s = set_type cJSON_String (set_valuestring (Some s) cJSON_New_Item)"

definition cJSON_CreateArray :: cjson where
  "cJSON_CreateArray = set_type cJSON_Array cJSON_New_Item"

definition cJSON_CreateObject :: cjson where
  "cJSON_CreateObject = set_type cJSON_Object cJSON_New_Item"

definition cJSON_CreateIntArray :: "int list \<Rightarrow> cjson" where
  "cJSON_CreateIntArray numbers =
     set_child (map (\<lambda>i. cJSON_CreateNumber (Fin (of_int i))) numbers) cJSON_CreateArray"

text \<open>The conversion from \<open>float\<close> to \<open>double\<close> is exact, so both take the numbers as \<open>double\<close>.\<close>

definition cJSON_CreateDoubleArray :: "double list \<Rightarrow> cjson" where
  "cJSON_CreateDoubleArray numbers = set_child (map cJSON_CreateNumber numbers) cJSON_CreateArray"

definition cJSON_CreateFloatArray :: "double list \<Rightarrow> cjson" where
  "cJSON_CreateFloatArray numbers = set_child (map cJSON_CreateNumber numbers) cJSON_CreateArray"

definition cJSON_CreateStringArray :: "string list \<Rightarrow> cjson" where
  "cJSON_CreateStringArray strings = set_child (map cJSON_CreateString strings) cJSON_CreateArray"

fun cJSON_Duplicate :: "bool \<Rightarrow> cjson \<Rightarrow> cjson" where
  "cJSON_Duplicate recurse (CJSON t vs vi vd nm ch) =
     CJSON (t - (if t div 256 mod 2 = 1 then 256 else 0)) vs vi vd nm
       (if recurse then map (cJSON_Duplicate True) ch else [])"

section \<open>Minify\<close>

text \<open>Copying a string literal, from behind its opening quote to behind its closing one. At a NUL the
  code copies the NUL and reads on behind it.\<close>

fun minify_string :: "string \<Rightarrow> (string \<times> string) res" where
  "minify_string [] = Inl OutOfBounds"
| "minify_string (c # cs) =
     (if c = CHR 0x22 then Inr ([c], cs)
      else if c = CHR 0x5C then
        (case cs of [] \<Rightarrow> Inl OutOfBounds
         | d # ds \<Rightarrow> ebind (minify_string ds) (\<lambda>(out, r). Inr (c # d # out, r)))
      else ebind (minify_string cs) (\<lambda>(out, r). Inr (c # out, r)))"

fun skip_block_comment :: "string \<Rightarrow> string res" where
  "skip_block_comment [] = Inl OutOfBounds"
| "skip_block_comment (c # cs) =
     (if c = CHR ''*'' \<and> starts (\<lambda>d. d = CHR ''/'') cs then Inr (tl cs) else skip_block_comment cs)"

lemma minify_string_length: "minify_string s = Inr (out, r) \<Longrightarrow> length r < length s"
  by (induction s arbitrary: out r rule: minify_string.induct)
    (auto simp: ebind_eq_Inr less_SucI split: if_splits list.splits)

lemma skip_block_comment_length: "skip_block_comment s = Inr r \<Longrightarrow> length r < length s"
  by (induction s) (auto simp: less_SucI split: if_splits)

function cJSON_Minify :: "string \<Rightarrow> string res" where
  "cJSON_Minify s =
     (case s of
        [] \<Rightarrow> Inr []
      | c # cs \<Rightarrow>
          if c \<in> set [CHR '' '', CHR 0x09, CHR 0x0D, CHR 0x0A] then cJSON_Minify cs
          else if c = CHR ''/'' \<and> starts (\<lambda>d. d = CHR ''/'') cs then cJSON_Minify (dropWhile (\<lambda>d. d \<noteq> CHR 0x0A) cs)
          else if c = CHR ''/'' \<and> starts (\<lambda>d. d = CHR ''*'') cs then
            (case skip_block_comment cs of Inl f \<Rightarrow> Inl f | Inr r \<Rightarrow> cJSON_Minify r)
          else if c = CHR 0x22 then
            (case minify_string cs of Inl f \<Rightarrow> Inl f
             | Inr (out, r) \<Rightarrow> ebind (cJSON_Minify r) (\<lambda>t. Inr (c # out @ t)))
          else ebind (cJSON_Minify cs) (\<lambda>t. Inr (c # t)))"
  by pat_completeness auto
termination
  by (relation "measure length")
    (auto simp: length_dropWhile_le le_imp_less_Suc dest: minify_string_length skip_block_comment_length intro: less_SucI)

declare cJSON_Minify.simps [simp del]

end
