(* ===== verification/CJSONCorrect.thy ===== *)
theory CJSONCorrect
  imports CJSON
begin

text \<open>
  Correctness of the JSON library: the parser always returns, printing never overruns
  its buffers, and parsing what was printed gives the same tree back, for trees of null, booleans, integers,
  strings without NUL, arrays and objects.
\<close>

section \<open>Characters and strings\<close>

lemma code_of_char_of [simp]: "n < 256 \<Longrightarrow> code_of (char_of n) = n"
  by (simp add: code_of_def)

lemma char_of_code_of [simp]: "char_of (code_of c) = c"
  by (simp add: code_of_def)

lemma code_of_less: "code_of c < 256"
  unfolding code_of_def by (metis nat_of_char_less_256)

lemma code_of_eq_iff: "code_of c = code_of d \<longleftrightarrow> c = d"
  by (metis char_of_code_of)

lemma starts_Cons [simp]: "starts P (c # cs) = P c"
  by (simp add: starts_def)

lemma starts_Nil [simp]: "\<not> starts P []"
  by (simp add: starts_def)

lemma skip_Cons [simp]: "32 < code_of c \<Longrightarrow> skip (c # cs) = c # cs"
  by (simp add: skip_def)

lemma skip_space [simp]: "code_of c \<le> 32 \<Longrightarrow> skip (c # cs) = skip cs"
  by (simp add: skip_def)

lemma skip_Nil [simp]: "skip [] = []"
  by (simp add: skip_def)

lemma skip_skip [simp]: "skip (skip s) = skip s"
  by (induction s) (auto simp: skip_def)

lemma length_skip: "length (skip s) \<le> length s"
  by (simp add: skip_def length_dropWhile_le)

lemma strcasecmp_loop_0: "strcasecmp_loop s t = 0 \<longleftrightarrow> map tolower s = map tolower t" if "CHR 0x00 \<notin> set s" "CHR 0x00 \<notin> set t"
  using that
proof (induction s t rule: strcasecmp_loop.induct)
  case (2 d ds)
  then have "code_of (tolower d) \<noteq> 0"
    using code_of_eq_iff [of d "CHR 0x00"] by (auto simp: tolower_def code_of_def)
  then show ?case by simp
next
  case (3 c cs)
  then have "code_of (tolower c) \<noteq> 0"
    using code_of_eq_iff [of c "CHR 0x00"] by (auto simp: tolower_def code_of_def)
  then show ?case by simp
next
  case (4 c cs d ds)
  then show ?case using code_of_eq_iff [of "tolower c" "tolower d"] by auto
qed simp

section \<open>Escaping\<close>

lemma hex_val_digit: "k < 16 \<Longrightarrow> hex_val (hex_digit k) = Some k"
  by (auto simp: hex_val_def hex_digit_def Let_def)

lemma parse_hex4_escape: "code_of c < 32 \<Longrightarrow>
    parse_hex4 (CHR ''0'' # CHR ''0'' # hex_digit (code_of c div 16) # hex_digit (code_of c mod 16) # t) = code_of c"
proof -
  assume c: "code_of c < 32"
  have z: "hex_val (CHR ''0'') = Some 0" by (simp add: hex_val_def code_of_def)
  have "code_of c div 16 < 16" "code_of c mod 16 < 16" using c by auto
  then show ?thesis by (simp add: parse_hex4_def z hex_val_digit)
qed

lemma unescape_escape:
  assumes "c \<noteq> CHR 0x00"
  shows "unescape (escape_char c @ t) = ebind (unescape t) (\<lambda>(out, r). Inr (c # out, r))"
proof -
  have nz: "code_of c \<noteq> 0" using assms code_of_eq_iff [of c "CHR 0x00"] by (simp add: code_of_def)
  have u: "unescape_u (CHR ''0'' # CHR ''0'' # hex_digit (code_of c div 16) # hex_digit (code_of c mod 16) # t) = Inr ([c], t)"
    if "code_of c < 32"
    using that nz by (simp add: unescape_u_def parse_hex4_escape Let_def hop_def utf8_def)
  show ?thesis
    using u by (auto simp: unescape_Cons escape_char_def needs_escape_def unescape_char_def code_of_def)
qed

lemma unescape_escapes:
  "CHR 0x00 \<notin> set s \<Longrightarrow> unescape (concat (map escape_char s) @ CHR 0x22 # t) = Inr (s, CHR 0x22 # t)"
proof (induction s)
  case Nil
  show ?case by (simp add: unescape_Cons)
next
  case (Cons c s)
  then have "unescape (escape_char c @ concat (map escape_char s) @ CHR 0x22 # t) = Inr (c # s, CHR 0x22 # t)"
    by (subst unescape_escape) auto
  then show ?case by simp
qed

lemma string_len_escape: "\<exists>k\<ge>1. \<forall>t. string_len (escape_char c @ t) = ebind (string_len t) (\<lambda>n. Inr (k + n))"
proof (cases "escape_char c = [CHR 0x5C, CHR ''u'', CHR ''0'', CHR ''0'', hex_digit (code_of c div 16), hex_digit (code_of c mod 16)]")
  case True
  have h: "hex_digit k \<noteq> CHR 0x22 \<and> hex_digit k \<noteq> CHR 0x5C" if "k < 16" for k
    using hex_val_digit [OF that] by (auto simp: hex_val_def code_of_def)
  have "code_of c div 16 < 16" "code_of c mod 16 < 16" using code_of_less [of c] by auto
  from h [OF this(1)] h [OF this(2)] True
  show ?thesis by (intro exI [of _ 5]) (auto simp: ebind_def split: sum.splits)
next
  case False
  then show ?thesis
    by (intro exI [of _ 1]) (auto simp: escape_char_def needs_escape_def ebind_def split: sum.splits if_splits)
qed

lemma string_len_escapes:
  "\<exists>n\<ge>length s. string_len (concat (map escape_char s) @ CHR 0x22 # t) = Inr n"
proof (induction s)
  case (Cons c s)
  then obtain n where "length s \<le> n" "string_len (concat (map escape_char s) @ CHR 0x22 # t) = Inr n" by blast
  moreover obtain k where "1 \<le> k" "\<And>t. string_len (escape_char c @ t) = ebind (string_len t) (\<lambda>n. Inr (k + n))"
    using string_len_escape by blast
  ultimately show ?case by (intro exI [of _ "k + n"]) simp
qed simp

definition literal :: "string \<Rightarrow> string" where
  "literal s = quoted (concat (map escape_char s))"

lemma parse_string_literal:
  assumes "CHR 0x00 \<notin> set s"
  shows "parse_string item (literal s @ rest) = Ok (set_type cJSON_String (set_valuestring (Some s) item)) rest"
proof -
  obtain n where "length s \<le> n" "string_len (concat (map escape_char s) @ CHR 0x22 # rest) = Inr n"
    using string_len_escapes by blast
  then show ?thesis
    using unescape_escapes [OF assms] by (simp add: parse_string_def literal_def quoted_def)
qed

lemma escape_len: "length (escape_char c) = escape_len c"
  by (auto simp: escape_char_def escape_len_def needs_escape_def code_of_def)

lemma print_string_ptr_literal: "print_string_ptr (Some s) = Inr (literal s)"
proof -
  have "length (concat (map escape_char s)) = sum_list (map escape_len s)"
    by (induction s) (simp_all add: escape_len)
  moreover have "concat (map escape_char s) = s" if "\<not> list_ex needs_escape s"
    using that by (induction s) (auto simp: escape_char_def)
  ultimately show ?thesis by (simp add: print_string_ptr_def literal_def quoted_def Let_def)
qed

section \<open>Integers\<close>

lemma is_digit_digit_char [simp]: "d < 10 \<Longrightarrow> is_digit (digit_char d)"
  by (simp add: is_digit_def digit_char_def)

lemma digit_val_digit_char [simp]: "d < 10 \<Longrightarrow> digit_val (digit_char d) = int d"
  by (simp add: digit_val_def digit_char_def)

lemma dec_0 [simp]: "dec 0 = ''0''"
proof -
  have "digit_char 0 = CHR ''0''" by code_simp
  then show ?thesis by (simp add: dec.simps)
qed

lemma dec_digits: "list_all is_digit (dec n)"
  by (induction n rule: dec.induct) (simp add: dec.simps)

lemma dec_first: "0 < n \<Longrightarrow> starts (\<lambda>c. is_digit c \<and> c \<noteq> CHR ''0'') (dec n @ t)"
proof (induction n arbitrary: t rule: dec.induct)
  case (1 n)
  show ?case
  proof (cases "n < 10")
    case True
    moreover have "digit_char n \<noteq> CHR ''0''"
      using True 1(2) code_of_eq_iff [of "digit_char n" "CHR ''0''"] by (simp add: digit_char_def) (simp add: code_of_def)
    ultimately show ?thesis by (simp add: dec.simps)
  next
    case False
    then show ?thesis using 1(1) [of "digit_char (n mod 10) # t"] by (simp add: dec.simps [of n])
  qed
qed

lemma length_dec: "n < 10 ^ Suc k \<Longrightarrow> length (dec n) \<le> Suc k"
proof (induction k arbitrary: n)
  case 0
  then show ?case by (simp add: dec.simps)
next
  case (Suc k)
  then have "n div 10 < 10 ^ Suc k" by simp
  from Suc.IH [OF this] show ?case by (simp add: dec.simps [of n])
qed

lemma dec_nonempty: "dec n \<noteq> []"
  by (simp add: dec.simps)

abbreviation dstep :: "double \<Rightarrow> char \<Rightarrow> double" where
  "dstep n c \<equiv> dadd (dmul n (Fin 10)) (Fin (of_int (digit_val c)))"

lemma digits_loop_foldl:
  "list_all is_digit ds \<Longrightarrow> \<not> starts is_digit rest \<Longrightarrow> digits_loop n (ds @ rest) = (foldl dstep n ds, length ds, rest)"
proof (induction ds arbitrary: n)
  case Nil
  then show ?case by (cases rest) auto
next
  case (Cons d ds)
  then show ?case by simp
qed

lemma foldl_dec: "n < 2 ^ 53 \<Longrightarrow> foldl dstep (Fin 0) (dec n) = Fin (of_nat n)"
proof (induction n rule: dec.induct)
  case (1 n)
  show ?case
  proof (cases "n < 10")
    case True
    have "dmul (Fin 0) (Fin 10) = Fin 0" by (simp add: fl_def)
    then show ?thesis
      using True fl_nat [OF 1(2)] by (simp add: dec.simps [of n] del: dmul.simps)
  next
    case False
    let ?q = "n div 10" and ?r = "n mod 10"
    have "foldl dstep (Fin 0) (dec ?q) = Fin (of_nat ?q)" using 1 False by simp
    moreover have "?q * 10 < 2 ^ 53" using 1(2) by simp
    then have "fl (of_nat (?q * 10)) = Fin (of_nat (?q * 10))" by (rule fl_nat)
    then have "dmul (Fin (of_nat ?q)) (Fin 10) = Fin (of_nat (?q * 10))" by simp
    moreover have "dadd (Fin (of_nat (?q * 10))) (Fin (of_nat ?r)) = Fin (of_nat n)"
    proof -
      have "(of_nat (?q * 10) + of_nat ?r :: rat) = of_nat (?q * 10 + ?r)" by (simp only: of_nat_add)
      then show ?thesis using fl_nat [OF 1(2)] by simp
    qed
    ultimately show ?thesis
      using False by (simp add: dec.simps [of n] del: dadd.simps dmul.simps of_nat_mult)
  qed
qed

text \<open>What may follow a number without being read as part of it.\<close>

definition delim :: "string \<Rightarrow> bool" where
  "delim rest \<longleftrightarrow> \<not> starts (\<lambda>c. is_digit c \<or> c = CHR ''.'' \<or> c = CHR ''e'' \<or> c = CHR ''E'') rest"

lemma delim_starts [simp]:
  assumes "delim rest"
  shows "\<not> starts is_digit rest" "\<not> starts (\<lambda>c. c = CHR ''.'') rest" "\<not> starts (\<lambda>c. c = CHR ''e'' \<or> c = CHR ''E'') rest"
    "\<not> starts (\<lambda>c. is_digit c \<and> c \<noteq> CHR ''0'') rest"
  using assms by (cases rest; simp add: delim_def)+

lemma not_digit_minus: "\<not> is_digit (CHR ''-'')"
  by (simp add: is_digit_def code_of_def)

lemma starts_dec:
  "\<not> starts (\<lambda>c. c = CHR ''-'') (dec n @ t)"
  "0 < n \<Longrightarrow> \<not> starts (\<lambda>c. c = CHR ''0'') (dec n @ t)"
proof -
  have ne: "dec n \<noteq> []" by (simp add: dec.simps)
  then show "\<not> starts (\<lambda>c. c = CHR ''-'') (dec n @ t)"
    using dec_digits [of n] not_digit_minus by (cases "dec n") auto
  show "0 < n \<Longrightarrow> \<not> starts (\<lambda>c. c = CHR ''0'') (dec n @ t)"
    using dec_first [of n t] ne by (cases "dec n") auto
qed

lemma parse_mantissa_dec:
  assumes "n < 2 ^ 53" "delim rest"
  shows "parse_mantissa (dec n @ rest) = (Fin (of_nat n), rest)"
proof (cases "n = 0")
  case True
  then show ?thesis using assms(2) by (simp add: parse_mantissa_def)
next
  case False
  then show ?thesis
    using starts_dec(2) [of n rest] dec_first [of n rest] digits_loop_foldl [OF dec_digits, of rest "Fin 0" n]
      foldl_dec [OF assms(1)] assms(2) by (simp add: parse_mantissa_def)
qed

lemma parse_number_int:
  assumes "INT_MIN \<le> i" "i \<le> INT_MAX" "delim rest"
  shows "parse_number item (fmt_d i @ rest) = Ok (set_type cJSON_Number (set_number i (Fin (of_int i)) item)) rest"
proof -
  let ?n = "nat \<bar>i\<bar>"
  have n: "?n < 2 ^ 53" using assms(1,2) by (simp add: INT_MIN_def INT_MAX_def)
  have p: "(if i < 0 then tl (fmt_d i @ rest) else fmt_d i @ rest) = dec ?n @ rest"
    "starts (\<lambda>c. c = CHR ''-'') (fmt_d i @ rest) = (i < 0)"
    using starts_dec(1) [of ?n rest] by (auto simp: fmt_d_def)
  define sg where "sg = (if i < 0 then -1 else 1 :: int)"
  have "dmul (Fin (of_int sg)) (Fin (of_int (int ?n))) = Fin (of_int (sg * int ?n))"
    using n by (intro dmul_int) (auto simp: sg_def nat_less_iff abs_mult)
  moreover have "sg * int ?n = i" by (simp add: sg_def)
  ultimately have sgn: "dmul (Fin (of_int sg)) (Fin (of_nat ?n)) = Fin (of_int i)"
    by (metis of_int_of_nat_eq)
  have one: "dmul (Fin (of_int i)) (Fin 1) = Fin (of_int i)"
    using fl_int [of i] n by (simp add: nat_less_iff)
  have if_sg: "(if i < 0 then - 1 else 1 :: rat) = of_int sg" by (simp add: sg_def)
  show ?thesis
    using parse_mantissa_dec [OF n assms(3)] assms(3) sgn one d_to_int_int [OF assms(1,2)]
    by (simp add: parse_number_def p parse_fraction_def parse_exponent_def if_sg del: dmul.simps d_to_int.simps)
qed

lemma print_number_int:
  "print_number (CJSON t vs i (Fin (of_int i)) nm ch) = fmt_d i" if "INT_MIN \<le> i" "i \<le> INT_MAX"
proof (cases "i = 0")
  case True
  then show ?thesis by (simp add: print_number_def fmt_d_def)
next
  case False
  have "near (of_int i) (of_int i)" by (simp add: near_def fl_def DBL_EPSILON_def)
  then show ?thesis using False that by (simp add: print_number_def)
qed

section \<open>The parser returns\<close>

lemma digits_loop_length: "digits_loop n s = (m, k, r) \<Longrightarrow> length r \<le> length s"
  by (induction n s arbitrary: m k r rule: digits_loop.induct) (auto split: if_splits prod.splits)

lemma digits_loop_shrinks: "starts is_digit s \<Longrightarrow> digits_loop n s = (m, k, r) \<Longrightarrow> length r < length s"
  by (cases s) (auto split: prod.splits dest!: digits_loop_length)

lemma exponent_loop_length: "exponent_loop e s = Inr (x, r) \<Longrightarrow> length r \<le> length s"
  by (induction e s rule: exponent_loop.induct) (auto simp: Let_def split: if_splits)

lemma exponent_loop_returns: "exponent_loop e s \<noteq> Inl NoReturn"
  by (induction e s rule: exponent_loop.induct) (auto simp: Let_def)

text \<open>Where the parser goes on is behind where it started, and running out of fuel is not among the
  outcomes.\<close>

definition advances :: "nat \<Rightarrow> 'a presult \<Rightarrow> bool" where
  "advances len p = (case p of Crash f \<Rightarrow> f \<noteq> NoReturn | Fail _ \<Rightarrow> True | Ok _ r \<Rightarrow> length r < len)"

lemma advances_simps [simp]:
  "advances len (Crash f) = (f \<noteq> NoReturn)" "advances len (Fail e)" "advances len (Ok a r) = (length r < len)"
  by (simp_all add: advances_def)

lemma advances_pbind:
  "advances len p \<Longrightarrow> (\<And>a r. p = Ok a r \<Longrightarrow> length r < len \<Longrightarrow> advances len' (k a r)) \<Longrightarrow> advances len' (pbind p k)"
  by (cases p) auto

lemma advances_mono: "advances len p \<Longrightarrow> len \<le> len' \<Longrightarrow> advances len' p"
  by (cases p) auto

text \<open>The same for the scanners that return a value and the rest of the text.\<close>

definition scans :: "nat \<Rightarrow> ('a \<times> string) res \<Rightarrow> bool" where
  "scans len p = (case p of Inl f \<Rightarrow> f \<noteq> NoReturn | Inr (_, r) \<Rightarrow> length r \<le> len)"

lemma scans_simps [simp]:
  "scans len (Inl f) = (f \<noteq> NoReturn)" "scans len (Inr (a, r)) = (length r \<le> len)"
  by (simp_all add: scans_def)

lemma scans_ebind:
  "scans len p \<Longrightarrow> (\<And>a r. length r \<le> len \<Longrightarrow> scans len' (k (a, r))) \<Longrightarrow> scans len' (ebind p k)"
  by (cases p) auto

lemma scans_map: "scans len p \<Longrightarrow> len \<le> len' \<Longrightarrow> scans len' (ebind p (\<lambda>(a, r). Inr (f a, r)))"
  by (erule scans_ebind) auto

lemma scans_hop: "scans (length s) (ebind (hop n s) (\<lambda>r. Inr (w, r)))"
  by (simp add: hop_def)

lemma scans_mono: "scans len p \<Longrightarrow> len \<le> len' \<Longrightarrow> scans len' p"
  by (cases p) auto

lemma scans_unescape_u: "scans (length s) (unescape_u s)"
  unfolding unescape_u_def Let_def
  by (auto intro: scans_hop scans_mono [OF scans_hop])

lemma scans_unescape: "scans (length s) (unescape s)"
proof (induction "length s" arbitrary: s rule: less_induct)
  case less
  show ?case
  proof (cases s)
    case (Cons c cs)
    have IH: "scans (length t) (unescape t)" if "length t \<le> length cs" for t
      using less [of t] that Cons by simp
    have u: "scans (Suc (length cs)) (ebind (unescape_u es) (\<lambda>(w, es').
        ebind (unescape es') (\<lambda>(out, r). Inr (w @ out, r))))" if "cs = e # es" for e es
      by (rule scans_ebind [OF scans_unescape_u]) (use that in \<open>auto intro!: scans_map [OF IH]\<close>)
    have n: "scans (Suc (length cs)) (ebind (unescape t) (\<lambda>(out, r). Inr (f out, r)))"
      if "length t \<le> length cs" for t and f :: "string \<Rightarrow> string"
      by (rule scans_map [OF IH [OF that]]) (use that in simp)
    show ?thesis
      using u n [of cs] n [of "tl cs"] Cons by (cases cs) (simp_all add: unescape_Cons)
  qed simp
qed

lemma string_len_returns: "string_len s \<noteq> Inl NoReturn"
  by (induction s rule: string_len.induct) (auto simp: ebind_eq_Inl split: list.splits)

lemma advances_parse_string: "advances (length s) (parse_string item s)"
proof (cases "starts (\<lambda>c. c = CHR 0x22) s")
  case True
  then obtain cs where s: "s = CHR 0x22 # cs" by (cases s) auto
  show ?thesis
  proof (cases "string_len cs")
    case (Inl f)
    then show ?thesis using string_len_returns [of cs] by (simp add: parse_string_def s)
  next
    case (Inr n)
    have "scans (length cs) (unescape cs)" by (rule scans_unescape)
    then show ?thesis
      using Inr by (auto simp: parse_string_def s guard_def ebind_def split: sum.splits)
  qed
qed (simp add: parse_string_def)

lemma parse_mantissa_length: "parse_mantissa num = (n, r) \<Longrightarrow> length r \<le> length num"
  by (auto simp: parse_mantissa_def Let_def split: if_splits prod.splits dest!: digits_loop_length)

lemma parse_mantissa_shrinks: "starts is_digit num \<Longrightarrow> parse_mantissa num = (n, r) \<Longrightarrow> length r < length num"
proof (cases "starts (\<lambda>c. c = CHR ''0'') num")
  case True
  assume "parse_mantissa num = (n, r)"
  with True show ?thesis
    by (cases num) (auto simp: parse_mantissa_def split: if_splits prod.splits dest!: digits_loop_length)
next
  case False
  assume "starts is_digit num" "parse_mantissa num = (n, r)"
  with False show ?thesis
    by (cases num) (auto simp: parse_mantissa_def split: if_splits prod.splits dest!: digits_loop_length)
qed

lemma parse_fraction_length: "parse_fraction n num = (m, k, r) \<Longrightarrow> length r \<le> length num"
  by (cases num) (auto simp: parse_fraction_def split: if_splits dest!: digits_loop_length)

lemma scans_exponent_loop: "scans (length s) (exponent_loop e s)"
  by (induction e s rule: exponent_loop.induct) (auto simp: Let_def intro: scans_mono)

lemma scans_parse_exponent: "scans (length s) (parse_exponent s)"
proof -
  have "scans (length s) (exponent_loop 0 t)" if "length t \<le> length s" for t
    using scans_mono [OF scans_exponent_loop that] .
  note this [of "tl s"] this [of "tl (tl s)"]
  then show ?thesis
    by (simp add: parse_exponent_def Let_def) (blast intro: scans_map [of "length s"])
qed

lemma advances_parse_number:
  assumes "starts (\<lambda>c. c = CHR ''-'' \<or> is_digit c) num"
  shows "advances (length num) (parse_number item num)"
proof -
  let ?neg = "starts (\<lambda>c. c = CHR ''-'') num"
  obtain n1 num1 where m: "parse_mantissa (if ?neg then tl num else num) = (n1, num1)" by fastforce
  obtain n2 scale num2 where f: "parse_fraction n1 num1 = (n2, scale, num2)" using prod_cases3 by blast
  have "length num1 < length num"
  proof (cases ?neg)
    case True
    then have "length (tl num) < length num" by (cases num) auto
    then show ?thesis using m True parse_mantissa_length by fastforce
  next
    case False
    then have "starts is_digit num" using assms by (cases num) auto
    then show ?thesis using m False parse_mantissa_shrinks by auto
  qed
  moreover have "length num2 \<le> length num1" using f parse_fraction_length by blast
  moreover have "scans (length num2) (parse_exponent num2)" by (rule scans_parse_exponent)
  ultimately show ?thesis
    by (auto simp: parse_number_def m f Let_def split: sum.splits prod.splits)
qed

lemma is_prefix_length: "is_prefix p s \<Longrightarrow> length p \<le> length s"
  unfolding is_prefix_def by (metis length_take min.cobounded1)

lemma length_tl_skip: "starts P s \<Longrightarrow> length (skip (tl s)) < length s"
  using length_skip [of "tl s"] by (cases s) auto

text \<open>Twice the length of the text, and a little, is enough fuel.\<close>

lemma parser_advances:
  "(2 * length v + 2 \<le> n \<longrightarrow> (\<forall>item. advances (length v) (parse_value n item v))) \<and>
   (2 * length v + 1 \<le> n \<longrightarrow> (\<forall>item. advances (length v) (parse_array n item v))) \<and>
   (2 * length v + 1 \<le> n \<longrightarrow> (\<forall>chs. advances (length v) (array_loop n chs v))) \<and>
   (2 * length v + 1 \<le> n \<longrightarrow> (\<forall>item. advances (length v) (parse_object n item v))) \<and>
   (2 * length v + 1 \<le> n \<longrightarrow> advances (length v) (parse_member n v)) \<and>
   (2 * length v + 1 \<le> n \<longrightarrow> (\<forall>chs. advances (length v) (object_loop n chs v)))"
proof (induction n arbitrary: v)
  case 0
  then show ?case by simp
next
  case (Suc n)
  have tl: "length (tl v) < length v" if "starts P v" for P using that by (cases v) auto
  have val: "advances (length v) (pbind (parse_value n item t) k)"
    if "length t < length v" "2 * length v \<le> n" "\<And>ch r. length r < length v \<Longrightarrow> advances (length v) (k ch r)"
    for t item and k :: "cjson \<Rightarrow> string \<Rightarrow> 'b presult"
    by (rule advances_pbind [of "length t"]) (use Suc.IH [of t] that in auto)
  have mem: "advances (length v) (pbind (parse_member n t) k)"
    if "length t < length v" "2 * length v \<le> n" "\<And>ch r. length r < length v \<Longrightarrow> advances (length v) (k ch r)"
    for t and k :: "cjson \<Rightarrow> string \<Rightarrow> 'b presult"
    by (rule advances_pbind [of "length t"]) (use Suc.IH [of t] that in auto)
  have loops: "advances (length v) (array_loop n chs (skip r))" "advances (length v) (object_loop n chs (skip r))"
    if "length r < length v" "2 * length v \<le> n" for r chs
    using Suc.IH [of "skip r"] length_skip [of r] that
    by (auto intro: advances_mono [of "length (skip r)"])
  have array_loop: "advances (length v) (array_loop (Suc n) chs v)" if "2 * length v \<le> n" for chs
    using that tl by (auto intro!: val loops length_tl_skip)
  have object_loop: "advances (length v) (object_loop (Suc n) chs v)" if "2 * length v \<le> n" for chs
    using that tl by (auto intro!: mem loops length_tl_skip)
  have inner: "length (tl (skip (tl v))) < length v" "length (skip (skip (tl v))) < length v" if "starts P v" for P
    using length_tl_skip [OF that] by auto
  have array: "advances (length v) (parse_array (Suc n) item v)" if "2 * length v \<le> n" for item
    using that inner
    by (auto simp: Let_def intro!: val advances_pbind [OF loops(1)])
  have obj: "advances (length v) (parse_object (Suc n) item v)" if "2 * length v \<le> n" for item
    using that inner
    by (auto simp: Let_def intro!: mem advances_pbind [OF loops(2)])
  have inval: "advances (length v) (parse_value n item (skip (tl (skip r))))"
    if "length r < length v" "2 * length v \<le> n" for r item
  proof (rule advances_mono)
    show le: "length (skip (tl (skip r))) \<le> length v"
      using that(1) length_skip [of "tl (skip r)"] length_skip [of r] by simp
    have "length (skip (tl (skip r))) < length v"
      using that(1) length_skip [of "tl (skip r)"] length_skip [of r] by simp
    then show "advances (length (skip (tl (skip r)))) (parse_value n item (skip (tl (skip r))))"
      using Suc.IH [of "skip (tl (skip r))"] that(2) by simp
  qed
  have member: "advances (length v) (parse_member (Suc n) v)" if "2 * length v \<le> n"
    using that by (auto simp: Let_def intro!: advances_pbind [OF advances_parse_string] inval)
  have "advances (length v) (parse_value (Suc n) item v)" if "2 * length v + 2 \<le> Suc n" for item
    using Suc.IH [of v] that is_prefix_length [of "''null''" v] is_prefix_length [of "''false''" v]
      is_prefix_length [of "''true''" v]
    by (auto simp: advances_parse_string advances_parse_number)
  then show ?case using array array_loop obj member object_loop by simp
qed

lemma parse_returns: "cJSON_ParseWithOpts s b \<noteq> Crash NoReturn"
proof -
  have "2 * length (skip s) + 2 \<le> 2 * length s + 2" using length_skip [of s] by simp
  then have "advances (length (skip s)) (parse_value (2 * length s + 2) cJSON_New_Item (skip s))"
    using parser_advances by blast
  then have "advances (Suc (length s)) (cJSON_ParseWithOpts s b)"
    unfolding cJSON_ParseWithOpts_def
  proof (rule advances_pbind)
    fix c and r :: string assume "length r < length (skip s)"
    then have "length r \<le> length s" using length_skip [of s] by simp
    then show "advances (Suc (length s)) (if b then let e = skip r in if e \<noteq> [] then Fail e else Ok c e else Ok c r)"
      by (simp add: Let_def)
  qed
  then show ?thesis by auto
qed

section \<open>Printing\<close>

lemma length_join: "es \<noteq> [] \<Longrightarrow> length (join sep es) + length sep = sum_list (map (\<lambda>e. length e + length sep) es)"
  by (induction sep es rule: join.induct) auto

lemma compose_array_ok:
  "es \<noteq> [] \<Longrightarrow> compose_array fmt es = Inr (''['' @ join (if fmt then '', '' else '','') es @ '']'')"
proof -
  assume "es \<noteq> []"
  have "sum_list (map (\<lambda>e. length e + k) es) \<le> sum_list (map (\<lambda>e. length e + 2 + j) es)" if "k \<le> 2 + j" for k j
    using that by (intro sum_list_mono) simp
  from this [of "length (if fmt then '', '' else '','')" "if fmt then 1 else 0"] length_join [OF \<open>es \<noteq> []\<close>, of "if fmt then '', '' else '',''"]
  show ?thesis by (auto simp: compose_array_def Let_def guard_def split: if_splits)
qed

lemma compose_object_ok:
  assumes "es \<noteq> []"
  shows "compose_object fmt (Suc depth) es =
    (let nl = (if fmt then [CHR 0x0A] else [])
     in Inr (''{'' @ nl @ join ('','' @ nl) (map (compose_member fmt (Suc depth)) es) @ nl @
          (if fmt then tabs depth else []) @ ''}''))"
proof -
  let ?sep = "'','' @ (if fmt then [CHR 0x0A] else [])"
  let ?m = "map (compose_member fmt (Suc depth)) es"
  have "length (compose_member fmt (Suc depth) e) + length ?sep \<le>
      (case e of (name, entry) \<Rightarrow> length entry + length name + 2 + (if fmt then 2 + Suc depth else 0))" for e
    by (auto simp: compose_member_def tabs_def split: prod.splits)
  then have "sum_list (map (\<lambda>e. length e + length ?sep) ?m) \<le>
      sum_list (map (\<lambda>(name, entry). length entry + length name + 2 + (if fmt then 2 + Suc depth else 0)) es)"
    by (simp only: map_map o_def) (rule sum_list_mono, blast)
  then show ?thesis
    using length_join [of ?m ?sep] assms
    by (auto simp: compose_object_def Let_def guard_def tabs_def)
qed

section \<open>The round trip\<close>

text \<open>The nodes the parser builds from text without fractions: integers in the range of \<open>int\<close>, strings
  without NUL, names exactly inside objects.\<close>

fun json_wf :: "cjson \<Rightarrow> bool" where
  "json_wf (CJSON t vs vi vd nm ch) \<longleftrightarrow>
     (t = cJSON_NULL \<or> t = cJSON_False) \<and> vs = None \<and> vi = 0 \<and> vd = Fin 0 \<and> ch = [] \<or>
     t = cJSON_True \<and> vs = None \<and> vi = 1 \<and> vd = Fin 0 \<and> ch = [] \<or>
     t = cJSON_Number \<and> vs = None \<and> INT_MIN \<le> vi \<and> vi \<le> INT_MAX \<and> vd = Fin (of_int vi) \<and> ch = [] \<or>
     t = cJSON_String \<and> (\<exists>s. vs = Some s \<and> CHR 0x00 \<notin> set s) \<and> vi = 0 \<and> vd = Fin 0 \<and> ch = [] \<or>
     t = cJSON_Array \<and> vs = None \<and> vi = 0 \<and> vd = Fin 0 \<and> (\<forall>c \<in> set ch. json_wf c \<and> jname c = None) \<or>
     t = cJSON_Object \<and> vs = None \<and> vi = 0 \<and> vd = Fin 0 \<and>
       (\<forall>c \<in> set ch. json_wf c \<and> (\<exists>s. jname c = Some s \<and> CHR 0x00 \<notin> set s))"

declare json_wf.simps [simp del]

definition blank :: "string option \<Rightarrow> int \<Rightarrow> cjson" where
  "blank nm t = CJSON t None 0 (Fin 0) nm []"

text \<open>The text \<open>e\<close> is read as the node \<open>c\<close>, whatever delimiter follows.\<close>

definition reads_as :: "string \<Rightarrow> cjson \<Rightarrow> bool" where
  "reads_as e c \<longleftrightarrow> starts (\<lambda>a. 32 < code_of a \<and> a \<noteq> CHR '']'') e \<and>
     (\<forall>n t rest. delim rest \<and> 2 * length (e @ rest) + 2 \<le> n \<longrightarrow> parse_value n (blank (jname c) t) (e @ rest) = Ok c rest)"

lemma reads_asD: "reads_as e c \<Longrightarrow> delim rest \<Longrightarrow> 2 * length (e @ rest) + 2 \<le> n \<Longrightarrow>
    parse_value n (blank (jname c) t) (e @ rest) = Ok c rest"
  by (simp add: reads_as_def)

lemma reads_as_starts: "reads_as e c \<Longrightarrow> \<exists>a as. e = a # as \<and> 32 < code_of a \<and> a \<noteq> CHR '']''"
  by (cases e) (auto simp: reads_as_def)

lemma reads_as_skip: "reads_as e c \<Longrightarrow> skip (e @ t) = e @ t"
  by (auto dest!: reads_as_starts)

lemma New_Item_blank: "cJSON_New_Item = blank None 0"
  by (simp add: cJSON_New_Item_def blank_def)

lemma delim_char [simp]: "delim (c # cs) \<longleftrightarrow> \<not> (is_digit c \<or> c = CHR ''.'' \<or> c = CHR ''e'' \<or> c = CHR ''E'')"
  by (simp add: delim_def)

lemma array_loop_reads:
  assumes "list_all2 reads_as es cs" "\<forall>c \<in> set cs. jname c = None" "sep = '','' \<or> sep = '', ''"
  shows "2 * length (concat (map (\<lambda>e. sep @ e) es) @ '']'' @ rest) + 1 \<le> n \<Longrightarrow>
    array_loop n acc (concat (map (\<lambda>e. sep @ e) es) @ '']'' @ rest) = Ok (acc @ cs) rest"
  using assms(1,2)
proof (induction es cs arbitrary: acc n rule: list_all2_induct)
  case Nil
  then show ?case by (cases n) auto
next
  case (Cons e es c cs)
  let ?t = "concat (map (\<lambda>e. sep @ e) es) @ '']'' @ rest"
  obtain m where n: "n = Suc m" using Cons.prems(1) by (cases n) auto
  have "delim ?t" using assms(3) by (cases es) (auto simp: is_digit_def code_of_def)
  moreover have "skip (tl (sep @ e @ ?t)) = e @ ?t"
    using assms(3) reads_as_skip [OF Cons.hyps(1), of ?t] by (auto simp: code_of_def)
  moreover have "skip ?t = ?t" using assms(3) by (cases es) (auto simp: code_of_def)
  moreover have "starts (\<lambda>c. c = CHR '','') (sep @ e @ ?t)" using assms(3) by auto
  moreover have "2 * length (e @ ?t) + 2 \<le> m" using Cons.prems(1) n assms(3) by auto
  ultimately show ?case
    using reads_asD [OF Cons.hyps(1), of ?t m 0] Cons.prems Cons.IH [of m "acc @ [c]"] n
    by (simp add: New_Item_blank)
qed

lemma join_Cons: "join sep (e # es) = e @ concat (map (\<lambda>e. sep @ e) es)"
  by (induction es arbitrary: e) auto

lemma parse_array_reads:
  assumes "list_all2 reads_as es cs" "\<forall>c \<in> set cs. jname c = None" "sep = '','' \<or> sep = '', ''" "es \<noteq> []"
    and "2 * length (''['' @ join sep es @ '']'' @ rest) + 1 \<le> n"
  shows "parse_array n (blank nm t) (''['' @ join sep es @ '']'' @ rest) =
    Ok (CJSON cJSON_Array None 0 (Fin 0) nm cs) rest"
proof -
  from assms(1,4) obtain e es' c cs' where es: "es = e # es'" "cs = c # cs'" "reads_as e c" "list_all2 reads_as es' cs'"
    by (cases es; cases cs) auto
  let ?t = "concat (map (\<lambda>e. sep @ e) es') @ '']'' @ rest"
  obtain m where n: "n = Suc m" using assms(5) by (cases n) auto
  have tx: "''['' @ join sep es @ '']'' @ rest = CHR ''['' # e @ ?t" by (simp add: es(1) join_Cons)
  have len: "2 * length (e @ ?t) + 2 \<le> m" using assms(5) n unfolding tx by simp
  have d: "delim ?t" "skip ?t = ?t" using assms(3) by (cases es'; auto simp: is_digit_def code_of_def)+
  have "parse_value m (blank None 0) (e @ ?t) = Ok c ?t"
    using reads_asD [OF es(3) d(1) len, of 0] assms(2) es(2) by simp
  moreover have "array_loop m [c] ?t = Ok (c # cs') rest"
    using array_loop_reads [OF es(4) _ assms(3), of rest m "[c]"] assms(2) es(2) len by simp
  moreover have "\<not> starts (\<lambda>c. c = CHR '']'') (e @ ?t)" using reads_as_starts [OF es(3)] by auto
  ultimately show ?thesis
    using reads_as_skip [OF es(3), of ?t] d(2) es(2)
    by (simp only: tx n parse_array.simps) (simp add: New_Item_blank blank_def)
qed

text \<open>The same for the members of an object; the text of a member includes its name.\<close>

definition member_text :: "bool \<Rightarrow> nat \<Rightarrow> cjson \<Rightarrow> string \<Rightarrow> bool" where
  "member_text fmt depth c e \<longleftrightarrow>
     (\<exists>s v. jname c = Some s \<and> CHR 0x00 \<notin> set s \<and> e = compose_member fmt depth (literal s, v) \<and> reads_as v c)"

lemma skip_tabs [simp]: "skip (tabs n @ s) = skip s"
  by (induction n) (auto simp: tabs_def code_of_def)

lemma skip_quote [simp]: "skip (literal s @ t) = literal s @ t"
  by (simp add: literal_def quoted_def code_of_def)

lemma parse_member_reads:
  assumes "member_text fmt depth c e" "delim rest" "2 * length (e @ rest) + 1 \<le> n"
  shows "parse_member n (skip (e @ rest)) = Ok c rest"
proof -
  from assms(1) obtain s v where c: "jname c = Some s" "CHR 0x00 \<notin> set s" "reads_as v c"
    "e = compose_member fmt depth (literal s, v)" by (auto simp: member_text_def)
  let ?ws = "if fmt then [CHR 0x09] else []"
  obtain m where n: "n = Suc m" using assms(3) by (cases n) auto
  have sk: "skip (e @ rest) = literal s @ CHR '':'' # ?ws @ v @ rest"
    by (simp add: c(4) compose_member_def)
  have "skip (?ws @ v @ rest) = v @ rest"
    using reads_as_skip [OF c(3), of rest] by (auto simp: code_of_def)
  moreover have "skip (CHR '':'' # ?ws @ v @ rest) = CHR '':'' # ?ws @ v @ rest"
    by (simp add: code_of_def)
  moreover have "parse_value m (blank (Some s) cJSON_String) (v @ rest) = Ok c rest"
    using reads_asD [OF c(3) assms(2), of m cJSON_String] assms(3) c(1) n
    by (simp add: c(4) compose_member_def)
  ultimately show ?thesis
    by (simp add: n sk parse_string_literal [OF c(2)]) (simp add: cJSON_New_Item_def blank_def)
qed

lemma object_loop_reads:
  assumes "list_all2 (\<lambda>e c. member_text fmt depth c e) es cs"
    and sep: "sep = '','' @ (if fmt then [CHR 0x0A] else [])"
    and close: "starts (\<lambda>c. c = CHR ''}'') close'" "skip close = close'" "delim close"
  shows "2 * length (concat (map (\<lambda>e. sep @ e) es) @ close) + 1 \<le> n \<Longrightarrow>
    object_loop n acc (skip (concat (map (\<lambda>e. sep @ e) es) @ close)) = Ok (acc @ cs) (tl close')"
  using assms(1)
proof (induction es cs arbitrary: acc n rule: list_all2_induct)
  case Nil
  then show ?case using close by (cases n; cases close') auto
next
  case (Cons e es c cs)
  let ?t = "concat (map (\<lambda>e. sep @ e) es) @ close"
  obtain m where n: "n = Suc m" using Cons.prems(1) by (cases n) auto
  have d: "delim ?t" using close(3) sep by (cases es) (auto simp: is_digit_def code_of_def)
  have sk: "skip (sep @ e @ ?t) = sep @ e @ ?t" "skip (tl (sep @ e @ ?t)) = skip (e @ ?t)"
    "starts (\<lambda>c. c = CHR '','') (sep @ e @ ?t)"
    by (auto simp: sep code_of_def)
  have "parse_member m (skip (e @ ?t)) = Ok c ?t"
    using parse_member_reads [OF Cons.hyps(1) d, of m] Cons.prems n sep by simp
  moreover have "object_loop m (acc @ [c]) (skip ?t) = Ok ((acc @ [c]) @ cs) (tl close')"
    using Cons.IH [of m] Cons.prems n sep by simp
  ultimately show ?case using sk by (simp add: n)
qed

lemma parse_object_reads:
  fixes fmt depth rest
  defines "nl \<equiv> if fmt then [CHR 0x0A] else []"
  defines "close \<equiv> nl @ (if fmt then tabs depth else []) @ ''}'' @ rest"
  assumes es: "list_all2 (\<lambda>e c. member_text fmt (Suc depth) c e) es cs" "es \<noteq> []"
    and n: "2 * length (''{'' @ nl @ join ('','' @ nl) es @ close) + 1 \<le> n"
  shows "parse_object n (blank nm t) (''{'' @ nl @ join ('','' @ nl) es @ close) =
    Ok (CJSON cJSON_Object None 0 (Fin 0) nm cs) rest"
proof -
  from es obtain e es' c cs' where e: "es = e # es'" "cs = c # cs'" "member_text fmt (Suc depth) c e"
      "list_all2 (\<lambda>e c. member_text fmt (Suc depth) c e) es' cs'"
    by (cases es; cases cs) auto
  define u where "u = concat (map (\<lambda>e. ('','' @ nl) @ e) es') @ close"
  obtain m where m: "n = Suc m" using n by (cases n) auto
  have tx: "''{'' @ nl @ join ('','' @ nl) es @ close = CHR ''{'' # nl @ e @ u"
    by (simp add: e(1) join_Cons u_def)
  have len: "2 * length (e @ u) + 1 \<le> m" using n m unfolding tx length_append length_Cons by simp
  have cl: "starts (\<lambda>c. c = CHR ''}'') (CHR ''}'' # rest)" "skip close = CHR ''}'' # rest" "delim close"
    by (auto simp: close_def nl_def code_of_def is_digit_def)
  have d: "delim u" using cl(3) by (cases es') (auto simp: u_def is_digit_def code_of_def)
  have mem: "parse_member m (skip (e @ u)) = Ok c u"
    using parse_member_reads [OF e(3) d len] .
  have "2 * length u + 1 \<le> m" using len by simp
  then have "object_loop m [c] (skip u) = Ok ([c] @ cs') (tl (CHR ''}'' # rest))"
    unfolding u_def by (intro object_loop_reads [OF e(4) _ cl]) (simp_all only: nl_def)
  then have loop: "object_loop m [c] (skip u) = Ok (c # cs') rest" by simp
  have sk: "skip (nl @ e @ u) = skip (e @ u)" by (simp add: nl_def code_of_def)
  obtain s v where "e = compose_member fmt (Suc depth) (literal s, v)"
    using e(3) by (auto simp: member_text_def)
  then have "skip (e @ u) = literal s @ '':'' @ (if fmt then [CHR 0x09] else []) @ v @ u"
    by (simp add: compose_member_def)
  then obtain w where "skip (e @ u) = CHR 0x22 # w"
    by (simp add: literal_def quoted_def)
  then have "\<not> starts (\<lambda>c. c = CHR ''}'') (skip (e @ u))" by simp
  then show ?thesis
    using mem loop sk e(2) by (simp only: tx m parse_object.simps) (simp add: blank_def)
qed

lemma starts_append [simp]: "starts P s \<Longrightarrow> starts P (s @ t)"
  by (cases s) auto

lemma fmt_d_starts: "starts (\<lambda>a. a = CHR ''-'' \<or> is_digit a) (fmt_d i @ t)"
proof -
  have "dec (nat i) \<noteq> []" by (simp add: dec.simps)
  then obtain a as where "dec (nat i) = a # as" by (cases "dec (nat i)") auto
  moreover have "is_digit a" if "dec (nat i) = a # as" for a as using dec_digits [of "nat i"] that by simp
  ultimately show ?thesis by (simp add: fmt_d_def)
qed

lemma is_prefix_Cons [simp]: "is_prefix (p # ps) (c # cs) \<longleftrightarrow> p = c \<and> is_prefix ps cs"
  by (auto simp: is_prefix_def)

lemma is_prefix_append [simp]: "is_prefix p (p @ s)"
  by (simp add: is_prefix_def)

lemma reads_asI:
  assumes "starts (\<lambda>a. 32 < code_of a \<and> a \<noteq> CHR '']'') e"
    "\<And>m t rest. delim rest \<Longrightarrow> parse_value (Suc (Suc m)) (blank (jname c) t) (e @ rest) = Ok c rest"
  shows "reads_as e c"
proof -
  have "parse_value n (blank (jname c) t) (e @ rest) = Ok c rest" if d: "delim rest" and n: "2 * length (e @ rest) + 2 \<le> n" for n t rest
  proof -
    obtain m where "n = Suc (Suc m)" using n by (cases n; cases "n - 1") auto
    then show ?thesis using assms(2) d by simp
  qed
  then show ?thesis using assms(1) by (simp add: reads_as_def)
qed

lemma reads_as_number:
  assumes "INT_MIN \<le> i" "i \<le> INT_MAX"
  shows "reads_as (fmt_d i) (CJSON cJSON_Number None i (Fin (of_int i)) nm [])"
proof -
  have st: "starts (\<lambda>a. a = CHR ''-'' \<or> is_digit a) (fmt_d i @ t)" for t by (rule fmt_d_starts)
  from this [of "[]"] obtain a as where a: "fmt_d i = a # as" "a = CHR ''-'' \<or> is_digit a"
    by (cases "fmt_d i") auto
  have "32 < code_of a \<and> a \<noteq> CHR '']'' \<and> a \<noteq> CHR ''n'' \<and> a \<noteq> CHR ''f'' \<and> a \<noteq> CHR ''t'' \<and> a \<noteq> CHR 0x22"
    using a(2) by (auto simp: is_digit_def code_of_def)
  then have first: "starts (\<lambda>a. 32 < code_of a \<and> a \<noteq> CHR '']'') (fmt_d i)"
    and no: "\<not> is_prefix ''null'' (fmt_d i @ t)" "\<not> is_prefix ''false'' (fmt_d i @ t)" "\<not> is_prefix ''true'' (fmt_d i @ t)"
      "\<not> starts (\<lambda>c. c = CHR 0x22) (fmt_d i @ t)" for t
    using a(1) by auto
  have "parse_value (Suc n) (blank nm t) (fmt_d i @ rest) = Ok (CJSON cJSON_Number None i (Fin (of_int i)) nm []) rest"
    if "delim rest" for n t rest
    using st [of rest] no [of rest] parse_number_int [OF assms that] by (simp add: blank_def)
  then show ?thesis using first by (auto intro: reads_asI)
qed

lemma reads_as_word:
  "reads_as ''null'' (CJSON cJSON_NULL None 0 (Fin 0) nm [])"
  "reads_as ''false'' (CJSON cJSON_False None 0 (Fin 0) nm [])"
  "reads_as ''true'' (CJSON cJSON_True None 1 (Fin 0) nm [])"
  by (rule reads_asI; simp add: blank_def code_of_def is_prefix_def)+

lemma reads_as_string:
  assumes "CHR 0x00 \<notin> set s"
  shows "reads_as (literal s) (CJSON cJSON_String (Some s) 0 (Fin 0) nm [])"
proof -
  have "parse_value (Suc n) (blank nm t) (literal s @ rest) = Ok (CJSON cJSON_String (Some s) 0 (Fin 0) nm []) rest"
    for n t rest
  proof -
    have "parse_value (Suc n) (blank nm t) (literal s @ rest) = parse_string (blank nm t) (literal s @ rest)"
      by (simp add: literal_def quoted_def)
    then show ?thesis using parse_string_literal [OF assms] by (simp add: blank_def)
  qed
  moreover have "starts (\<lambda>a. 32 < code_of a \<and> a \<noteq> CHR '']'') (literal s)"
    by (simp add: literal_def quoted_def code_of_def)
  ultimately show ?thesis by (auto intro: reads_asI)
qed

lemma reads_as_array:
  assumes "list_all2 reads_as es cs" "\<forall>c \<in> set cs. jname c = None" "sep = '','' \<or> sep = '', ''" "es \<noteq> []"
  shows "reads_as (''['' @ join sep es @ '']'') (CJSON cJSON_Array None 0 (Fin 0) nm cs)"
proof -
  have "parse_value n (blank nm t) ((''['' @ join sep es @ '']'') @ rest) = Ok (CJSON cJSON_Array None 0 (Fin 0) nm cs) rest"
    if n: "2 * length ((''['' @ join sep es @ '']'') @ rest) + 2 \<le> n" for n t rest
  proof -
    obtain m where m: "n = Suc m" using n by (cases n) auto
    have "parse_value n (blank nm t) (''['' @ join sep es @ '']'' @ rest) = parse_array m (blank nm t) (''['' @ join sep es @ '']'' @ rest)"
      by (simp add: m is_digit_def code_of_def)
    then show ?thesis using parse_array_reads [OF assms, of rest m nm t] n m by simp
  qed
  then show ?thesis by (simp add: reads_as_def code_of_def)
qed

lemma reads_as_object:
  fixes fmt
  defines "nl \<equiv> if fmt then [CHR 0x0A] else []"
  assumes es: "list_all2 (\<lambda>e c. member_text fmt (Suc depth) c e) es cs" "es \<noteq> []"
  shows "reads_as (''{'' @ nl @ join ('','' @ nl) es @ nl @ (if fmt then tabs depth else []) @ ''}'')
    (CJSON cJSON_Object None 0 (Fin 0) nm cs)"
proof -
  define w where "w = nl @ join ('','' @ nl) es @ nl @ (if fmt then tabs depth else []) @ ''}''"
  have "parse_value n (blank nm t) (CHR ''{'' # w @ rest) = Ok (CJSON cJSON_Object None 0 (Fin 0) nm cs) rest"
    if n: "2 * length (CHR ''{'' # w @ rest) + 2 \<le> n" for n t rest
  proof -
    obtain m where m: "n = Suc m" using n by (cases n) auto
    have "parse_value n (blank nm t) (CHR ''{'' # w @ rest) = parse_object m (blank nm t) (CHR ''{'' # w @ rest)"
      by (simp add: m is_digit_def code_of_def)
    then show ?thesis
      using parse_object_reads [OF es, of rest m nm t] n m by (simp add: w_def nl_def)
  qed
  moreover have "''{'' @ nl @ join ('','' @ nl) es @ nl @ (if fmt then tabs depth else []) @ ''}'' = CHR ''{'' # w"
    by (simp add: w_def)
  ultimately show ?thesis by (simp only: reads_as_def) (simp add: code_of_def)
qed

lemma empty_reads:
  "reads_as ''[]'' (CJSON cJSON_Array None 0 (Fin 0) nm [])"
  "reads_as (empty_object fmt depth) (CJSON cJSON_Object None 0 (Fin 0) nm [])"
proof -
  show "reads_as ''[]'' (CJSON cJSON_Array None 0 (Fin 0) nm [])"
    by (rule reads_asI; simp add: blank_def is_digit_def code_of_def)
  have sk: "skip (CHR 0x0A # tabs (depth - 1) @ CHR ''}'' # rest) = CHR ''}'' # rest" for rest
    by (simp add: code_of_def)
  show "reads_as (empty_object fmt depth) (CJSON cJSON_Object None 0 (Fin 0) nm [])"
    by (rule reads_asI; cases fmt; simp add: empty_object_def blank_def is_digit_def code_of_def sk)
qed

lemma json_wf_induct_print:
  "json_wf c \<Longrightarrow> \<exists>s. print_value depth fmt c = Inr (Some s) \<and> reads_as s c"
  "\<forall>c \<in> set cs. json_wf c \<Longrightarrow> \<exists>es. print_entries depth fmt cs = Inr (Some es) \<and> list_all2 reads_as es cs"
  "\<forall>c \<in> set cs. json_wf c \<and> (\<exists>s. jname c = Some s \<and> CHR 0x00 \<notin> set s) \<Longrightarrow>
     \<exists>es. print_members depth fmt cs = Inr (Some es) \<and>
       list_all2 (\<lambda>e c. member_text fmt depth c e) (map (compose_member fmt depth) es) cs"
proof (induction depth fmt c and depth fmt cs and depth fmt cs rule: print_value_print_entries_print_members.induct)
  case (1 depth fmt t vs vi vd nm ch)
  consider "t = cJSON_NULL" | "t = cJSON_False" | "t = cJSON_True" | "t = cJSON_Number" | "t = cJSON_String"
    | "t = cJSON_Array" "ch = []" | "t = cJSON_Array" "ch \<noteq> []" | "t = cJSON_Object" "ch = []" | "t = cJSON_Object" "ch \<noteq> []"
    using 1(3) by (auto simp: json_wf.simps)
  then show ?case
  proof cases
    case 7
    then obtain es where es: "print_entries (Suc depth) fmt ch = Inr (Some es)" "list_all2 reads_as es ch" "es \<noteq> []"
      using 1(1,3) by (auto simp: json_wf.simps cJSON_types)
    then show ?thesis
      using 7 1(3) reads_as_array [OF es(2) _ _ es(3), of "if fmt then '', '' else '',''" nm]
      by (auto simp: compose_array_ok json_wf.simps cJSON_types split: if_splits)
  next
    case 9
    then obtain es where es: "print_members (Suc depth) fmt ch = Inr (Some es)"
        "list_all2 (\<lambda>e c. member_text fmt (Suc depth) c e) (map (compose_member fmt (Suc depth)) es) ch"
      using 1(2,3) by (auto simp: json_wf.simps cJSON_types)
    then have "es \<noteq> []" using 9(2) by auto
    then show ?thesis
      using es(1) 9 1(3) reads_as_object [OF es(2), of nm]
      by (auto simp: compose_object_ok Let_def json_wf.simps cJSON_types)
  qed (use 1(3) in \<open>auto simp: json_wf.simps cJSON_types print_string_ptr_literal print_number_int
         reads_as_word [unfolded cJSON_types] reads_as_string [unfolded cJSON_types] reads_as_number [unfolded cJSON_types]
         empty_reads [unfolded cJSON_types]\<close>)
next
  case (2 depth fmt)
  then show ?case by simp
next
  case (3 depth fmt c cs)
  then obtain s es where "print_value depth fmt c = Inr (Some s)" "reads_as s c"
    "print_entries depth fmt cs = Inr (Some es)" "list_all2 reads_as es cs" by fastforce
  then show ?case by simp
next
  case (4 depth fmt)
  then show ?case by simp
next
  case (5 depth fmt c cs)
  then obtain n where n: "jname c = Some n" "CHR 0x00 \<notin> set n" by auto
  with 5 obtain s es where "print_value depth fmt c = Inr (Some s)" "reads_as s c"
    "print_members depth fmt cs = Inr (Some es)"
    "list_all2 (\<lambda>e c. member_text fmt depth c e) (map (compose_member fmt depth) es) cs"
    by (fastforce simp: print_string_ptr_literal)
  then show ?case using n by (auto simp: print_string_ptr_literal member_text_def)
qed

lemma reads_as_Parse:
  assumes "reads_as s c" "jname c = None"
  shows "cJSON_Parse s = Inr (Some c)"
proof -
  have "skip s = s" using reads_as_skip [OF assms(1), of "[]"] by simp
  moreover have "parse_value (2 * length s + 2) (blank None 0) s = Ok c []"
    using reads_asD [OF assms(1), of "[]" "2 * length s + 2" 0] assms(2) by (simp add: delim_def del: parse_value.simps)
  ultimately show ?thesis
    by (simp add: cJSON_Parse_def cJSON_ParseWithOpts_def New_Item_blank del: parse_value.simps)
qed

section \<open>Properties\<close>

text \<open>
  (C9) Parsing undoes printing. A tree of null, booleans, integers, strings without NUL, arrays and
  objects is printed without fault, formatted or not, and \<open>cJSON_Parse\<close> of the text
  returns exactly that tree.
\<close>

theorem json_print_parse:
  assumes "json_wf c" "jname c = None"
  shows "\<exists>s s'. cJSON_Print c = Inr (Some s) \<and> cJSON_Parse s = Inr (Some c) \<and>
    cJSON_PrintUnformatted c = Inr (Some s') \<and> cJSON_Parse s' = Inr (Some c)"
  using json_wf_induct_print(1) [OF assms(1), of 0 True] json_wf_induct_print(1) [OF assms(1), of 0 False]
    reads_as_Parse [OF _ assms(2)]
  by (auto simp: cJSON_Print_def cJSON_PrintUnformatted_def)

definition sample_json :: cjson where
  "sample_json = CJSON 6 None 0 (Fin 0) None
     [CJSON 4 (Some [CHR ''a'', CHR 0x22, CHR 0x01]) 0 (Fin 0) (Some ''type'') [],
      CJSON 5 None 0 (Fin 0) (Some ''list'') [CJSON 3 None (-12) (Fin (-12)) None [], CJSON 1 None 1 (Fin 0) None []],
      CJSON 6 None 0 (Fin 0) (Some ''none'') []]"

theorem json_print_parse_witness:
  "\<exists>s s'. cJSON_Print sample_json = Inr (Some s) \<and> cJSON_Parse s = Inr (Some sample_json) \<and>
    cJSON_PrintUnformatted sample_json = Inr (Some s') \<and> cJSON_Parse s' = Inr (Some sample_json)"
proof -
  have "json_wf sample_json"
    by (simp add: sample_json_def json_wf.simps cJSON_types INT_MIN_def INT_MAX_def)
  then show ?thesis using json_print_parse [of sample_json] by (simp add: sample_json_def)
qed

text \<open>
  (C14) Parsing always returns. Whatever the text, \<open>cJSON_Parse\<close> ends, with a tree, with an error
  position or with a fault; the fuel of the model is never used up.
\<close>

theorem json_parse_returns: "cJSON_ParseWithOpts s require_null_terminated \<noteq> Crash NoReturn"
  by (rule parse_returns)

text \<open>
  A truncated \<open>\u\<close> escape breaks \<open>parse_string\<close>. The scan that copies the string jumps over four
  characters even when they are not there, so for a \<open>\u\<close> that fewer than four characters
  follow it reads behind the end of the text, whatever valid text precedes it.
\<close>

theorem truncated_escape_overruns:
  assumes "CHR 0x00 \<notin> set s" "length t < 4"
  shows "\<exists>f. parse_string item (CHR 0x22 # concat (map escape_char s) @ CHR 0x5C # CHR ''u'' # t) = Crash f"
proof -
  let ?tail = "CHR 0x5C # CHR ''u'' # t"
  have z: "parse_hex4 t = 0" using assms(2) by (auto simp: parse_hex4_def split: list.splits)
  have "unescape ?tail = Inl OutOfBounds"
    using assms(2) z by (simp add: unescape_Cons unescape_u_def hop_def)
  then have "unescape (concat (map escape_char s) @ ?tail) = Inl OutOfBounds"
    using assms(1) by (induction s) (auto simp: unescape_escape)
  then show ?thesis by (auto simp: parse_string_def ebind_def split: sum.splits)
qed

theorem truncated_escape_overruns_witness:
  "\<exists>f. parse_string cJSON_New_Item (CHR 0x22 # concat (map escape_char ''id'') @ CHR 0x5C # CHR ''u'' # ''1'' @ [CHR 0x22]) = Crash f"
  using truncated_escape_overruns [of "''id''" "''1'' @ [CHR 0x22]" cJSON_New_Item] by simp

end
