(* ===== verification/CJSONTypes.thy ===== *)
theory CJSONTypes
  imports CJSONCorrect
begin

text \<open>
  The trees of the JSON library as a typed language. The tag of a node says which of
  its fields carry a value: a string has text, an array has unnamed children, an object
  has named ones, and nothing else has either. The parser only builds typed trees, whatever
  the text, and the printer never gets stuck on a typed tree. This holds for every number,
  also for those outside the fragment for which printing and parsing are inverse.
\<close>

section \<open>Typed trees\<close>

inductive jtyped :: "cjson \<Rightarrow> bool" where
  word: "t \<in> {cJSON_False, cJSON_True, cJSON_NULL, cJSON_Number} \<Longrightarrow> jtyped (CJSON t None vi vd nm [])"
| str: "jtyped (CJSON cJSON_String (Some s) vi vd nm [])"
| arr: "\<forall>c \<in> set ch. jtyped c \<and> jname c = None \<Longrightarrow> jtyped (CJSON cJSON_Array None vi vd nm ch)"
| obj: "\<forall>c \<in> set ch. jtyped c \<and> jname c \<noteq> None \<Longrightarrow> jtyped (CJSON cJSON_Object None vi vd nm ch)"

inductive_cases jtypedE: "jtyped (CJSON t vs vi vd nm ch)"

text \<open>A node before its value is read: it may have a name, but neither text nor children.\<close>

fun vacant :: "cjson \<Rightarrow> bool" where
  "vacant (CJSON t vs vi vd nm ch) \<longleftrightarrow> vs = None \<and> ch = []"

lemma vacant_New_Item [simp]: "vacant cJSON_New_Item" "jname cJSON_New_Item = None"
  by (simp_all add: cJSON_New_Item_def)

lemma jname_set [simp]:
  "jname (set_type t c) = jname c" "jname (set_valueint vi c) = jname c" "jname (set_number vi vd c) = jname c"
  "jname (set_valuestring vs c) = jname c" "jname (set_child ch c) = jname c" "jname (set_name nm c) = nm"
  by (cases c; simp)+

lemma jtyped_leaf:
  assumes "vacant c"
  shows "t \<in> {cJSON_False, cJSON_True, cJSON_NULL, cJSON_Number} \<Longrightarrow> jtyped (set_type t c)"
    "jtyped (set_valueint 1 (set_type cJSON_True c))"
    "jtyped (set_type cJSON_Number (set_number vi vd c))"
    "jtyped (set_type cJSON_String (set_valuestring (Some s) c))"
    "jtyped (set_type cJSON_Array c)" "jtyped (set_type cJSON_Object c)"
  using assms by (cases c; auto intro: jtyped.intros)+

lemma jtyped_node:
  assumes "vacant c"
  shows "\<forall>d \<in> set ch. jtyped d \<and> jname d = None \<Longrightarrow> jtyped (set_child ch (set_type cJSON_Array c))"
    "\<forall>d \<in> set ch. jtyped d \<and> jname d \<noteq> None \<Longrightarrow> jtyped (set_child ch (set_type cJSON_Object c))"
  using assms by (cases c; auto intro: jtyped.intros)+

section \<open>The parser builds typed trees\<close>

definition yields :: "('a \<Rightarrow> bool) \<Rightarrow> 'a presult \<Rightarrow> bool" where
  "yields P p = (case p of Ok a r \<Rightarrow> P a | _ \<Rightarrow> True)"

lemma yields_simps [simp]: "yields P (Crash f)" "yields P (Fail e)" "yields P (Ok a r) = P a"
  by (simp_all add: yields_def)

lemma yields_pbind: "yields P p \<Longrightarrow> (\<And>a r. P a \<Longrightarrow> yields Q (k a r)) \<Longrightarrow> yields Q (pbind p k)"
  by (cases p) auto

lemma yields_mono: "yields P p \<Longrightarrow> (\<And>a. P a \<Longrightarrow> Q a) \<Longrightarrow> yields Q p"
  by (cases p) auto

lemma parse_string_yields: "vacant item \<Longrightarrow> yields (\<lambda>c. jtyped c \<and> jname c = jname item) (parse_string item s)"
  by (auto simp: parse_string_def jtyped_leaf split: sum.splits prod.splits)

lemma parse_number_yields: "vacant item \<Longrightarrow> yields (\<lambda>c. jtyped c \<and> jname c = jname item) (parse_number item s)"
  by (auto simp: parse_number_def jtyped_leaf Let_def split: sum.splits prod.splits)

lemma parse_name_yields:
  "yields (\<lambda>c. vacant (set_valuestring None (set_name (valuestring c) c)) \<and> valuestring c \<noteq> None) (parse_string cJSON_New_Item s)"
  by (auto simp: parse_string_def cJSON_New_Item_def split: sum.splits prod.splits)

lemma parse_yields:
  "vacant item \<Longrightarrow> yields (\<lambda>c. jtyped c \<and> jname c = jname item) (parse_value n item v)"
  "vacant item \<Longrightarrow> yields (\<lambda>c. jtyped c \<and> jname c = jname item) (parse_array n item v)"
  "\<forall>c \<in> set chs. jtyped c \<and> jname c = None \<Longrightarrow> yields (\<lambda>cs. \<forall>c \<in> set cs. jtyped c \<and> jname c = None) (array_loop n chs v)"
  "vacant item \<Longrightarrow> yields (\<lambda>c. jtyped c \<and> jname c = jname item) (parse_object n item v)"
  "yields (\<lambda>c. jtyped c \<and> jname c \<noteq> None) (parse_member n v)"
  "\<forall>c \<in> set chs. jtyped c \<and> jname c \<noteq> None \<Longrightarrow> yields (\<lambda>cs. \<forall>c \<in> set cs. jtyped c \<and> jname c \<noteq> None) (object_loop n chs v)"
proof (induction n item v and n item v and n chs v and n item v and n v and n chs v
    rule: parse_value_parse_array_array_loop_parse_object_parse_member_object_loop.induct)
  case (2 n item v)
  then show ?case
    by (simp add: jtyped_leaf parse_string_yields parse_number_yields)
next
  case (4 n item v)
  then show ?case
    by (auto simp: Let_def jtyped_leaf jtyped_node intro!: yields_pbind)
next
  case (6 n chs v)
  then show ?case
    by (auto intro!: yields_pbind)
next
  case (8 n item v)
  have "yields (\<lambda>c. jtyped c \<and> jname c = jname item) (pbind (parse_member n (skip v1)) (\<lambda>ch r.
      pbind (object_loop n [ch] (skip r)) (\<lambda>chs r'. Ok (set_child chs (set_type cJSON_Object item)) r')))"
    if "starts (\<lambda>c. c = CHR ''{'') v" "v1 = skip (tl v)" "\<not> starts (\<lambda>c. c = CHR ''}'') v1" for v1
    using that 8(3) by (intro yields_pbind [OF 8(1)] yields_pbind [OF 8(2)]) (simp_all add: jtyped_node)
  then show ?case using 8(3) by (simp add: Let_def jtyped_leaf)
next
  case (10 n v)
  have "yields (\<lambda>c. jtyped c \<and> jname c \<noteq> None)
      (parse_value n (set_valuestring None (set_name (valuestring ch) ch)) (skip (tl (skip r))))"
    if "starts (\<lambda>c. c = CHR '':'') (skip r)" "vacant (set_valuestring None (set_name (valuestring ch) ch))"
      "valuestring ch \<noteq> None" for ch r
    by (rule yields_mono [OF 10 [OF refl, of r ch]]) (use that in auto)
  then show ?case
    by (simp add: Let_def yields_pbind [OF parse_name_yields] del: not_None_eq)
next
  case (12 n chs v)
  then show ?case
    by (auto intro!: yields_pbind)
qed simp_all

section \<open>The printer does not get stuck\<close>

lemma print_typed:
  "jtyped c \<Longrightarrow> \<exists>s. print_value depth fmt c = Inr (Some s)"
  "\<forall>c \<in> set cs. jtyped c \<Longrightarrow> \<exists>es. print_entries depth fmt cs = Inr (Some es) \<and> length es = length cs"
  "\<forall>c \<in> set cs. jtyped c \<and> jname c \<noteq> None \<Longrightarrow> \<exists>es. print_members depth fmt cs = Inr (Some es) \<and> length es = length cs"
proof (induction depth fmt c and depth fmt cs and depth fmt cs rule: print_value_print_entries_print_members.induct)
  case (1 depth fmt t vs vi vd nm ch)
  from 1(3) show ?case
  proof (rule jtypedE, goal_cases)
    case 3
    then show ?case
      using 1(1) compose_array_ok [of _ fmt] by (fastforce simp: cJSON_types simp flip: length_greater_0_conv)
  next
    case 4
    then show ?case
      using 1(2) compose_object_ok [of _ fmt depth] by (fastforce simp: cJSON_types Let_def simp flip: length_greater_0_conv)
  qed (auto simp: cJSON_types print_string_ptr_literal)
next
  case (3 depth fmt c cs)
  then show ?case by fastforce
next
  case (5 depth fmt c cs)
  then show ?case by (fastforce simp: print_string_ptr_literal)
qed simp_all

section \<open>Editing keeps trees typed\<close>

lemma jtyped_array: "jtyped a \<Longrightarrow> ctype a = cJSON_Array \<Longrightarrow> (\<forall>c \<in> set (child a). jtyped c \<and> jname c = None)"
  by (cases a) (auto simp: cJSON_types elim: jtypedE)

lemma jtyped_object: "jtyped a \<Longrightarrow> ctype a = cJSON_Object \<Longrightarrow> (\<forall>c \<in> set (child a). jtyped c \<and> jname c \<noteq> None)"
  by (cases a) (auto simp: cJSON_types elim: jtypedE)

lemma jtyped_set_child:
  assumes "jtyped a"
  shows "ctype a = cJSON_Array \<Longrightarrow> \<forall>c \<in> set ch. jtyped c \<and> jname c = None \<Longrightarrow> jtyped (set_child ch a)"
    "ctype a = cJSON_Object \<Longrightarrow> \<forall>c \<in> set ch. jtyped c \<and> jname c \<noteq> None \<Longrightarrow> jtyped (set_child ch a)"
  using assms by (cases a; auto simp: cJSON_types elim!: jtypedE intro: jtyped.intros [unfolded cJSON_types])+

lemma jtyped_set_name: "jtyped c \<Longrightarrow> jtyped (set_name nm c)"
  by (cases c) (auto elim!: jtypedE intro: jtyped.intros)

lemma create_typed:
  "jtyped cJSON_CreateNull" "jtyped (cJSON_CreateBool b)" "jtyped (cJSON_CreateNumber d)" "jtyped (cJSON_CreateString s)"
  "jtyped (cJSON_CreateIntArray is)" "jtyped (cJSON_CreateDoubleArray ds)" "jtyped (cJSON_CreateStringArray ss)" "jtyped cJSON_CreateObject"
  by (auto simp: cJSON_CreateNull_def cJSON_CreateBool_def cJSON_CreateNumber_def cJSON_CreateString_def cJSON_CreateArray_def
      cJSON_CreateIntArray_def cJSON_CreateDoubleArray_def cJSON_CreateStringArray_def cJSON_CreateObject_def cJSON_New_Item_def
      intro!: jtyped.intros)

lemma jtyped_edit:
  assumes "jtyped a" "set ch \<subseteq> insert c (set (child a))" "jtyped c"
  shows "ctype a = cJSON_Array \<Longrightarrow> jname c = None \<Longrightarrow> jtyped (set_child ch a)"
    "ctype a = cJSON_Object \<Longrightarrow> jname c \<noteq> None \<Longrightarrow> jtyped (set_child ch a)"
  using assms jtyped_array [OF assms(1)] jtyped_object [OF assms(1)]
  by (auto simp: subset_iff intro: jtyped_set_child(1) [OF assms(1)] jtyped_set_child(2) [OF assms(1)])

lemma edited_children:
  "set (take n ch @ c # drop n ch) \<subseteq> insert c (set ch)" "set (ch[n := c]) \<subseteq> insert c (set ch)"
  "set (take n ch @ drop (Suc n) ch) \<subseteq> insert c (set ch)" "set (ch @ [c]) \<subseteq> insert c (set ch)"
  using set_take_subset [of n ch] set_drop_subset [of n ch] set_drop_subset [of "Suc n" ch] set_update_subset_insert [of ch n c]
  by auto

lemma edit_array_typed:
  assumes "jtyped a" "ctype a = cJSON_Array" "jtyped c" "jname c = None"
  shows "jtyped (cJSON_AddItemToArray a (Some c))" "jtyped (cJSON_InsertItemInArray a which c)"
    "jtyped (cJSON_ReplaceItemInArray a which c)" "jtyped (cJSON_DeleteItemFromArray a which)"
  using assms(1) edited_children [THEN jtyped_edit(1) [OF assms(1) _ assms(3,2,4)]]
  by (simp_all add: cJSON_AddItemToArray_def cJSON_InsertItemInArray_def cJSON_ReplaceItemInArray_def cJSON_DeleteItemFromArray_def
      cJSON_DetachItemFromArray_def Let_def)

lemma edit_object_typed:
  assumes "jtyped a" "ctype a = cJSON_Object" "jtyped c"
  shows "jtyped (cJSON_AddItemToObject a name (Some c))" "jtyped (cJSON_ReplaceItemInObject a name c)"
    "jtyped (cJSON_DeleteItemFromObject a name)"
  using assms(1) edited_children [THEN jtyped_edit(2) [OF assms(1) _ jtyped_set_name [OF assms(3)] assms(2)], of "Some name"]
  by (simp_all add: cJSON_AddItemToObject_def cJSON_AddItemToArray_def cJSON_ReplaceItemInObject_def cJSON_ReplaceItemInArray_def
      cJSON_DeleteItemFromObject_def cJSON_DetachItemFromObject_def cJSON_DetachItemFromArray_def Let_def)

text \<open>What was added under a new name is found under it, and inserting is undone by detaching.\<close>

lemma strcasecmp_refl: "cJSON_strcasecmp (Some s) (Some s) = 0"
proof -
  have "strcasecmp_loop s s = 0" by (induction s) auto
  then show ?thesis by (simp add: cJSON_strcasecmp_def)
qed

lemma child_set_child [simp]: "child (set_child ch a) = ch" "set_child (child a) (set_child ch a) = a"
  by (cases a; simp)+

lemma find_snoc: "find P xs = None \<Longrightarrow> find P (xs @ [x]) = (if P x then Some x else None)"
  by (induction xs) (auto split: if_splits)

lemma GetObjectItem_added:
  assumes "cJSON_GetObjectItem object name = None"
  shows "cJSON_GetObjectItem (cJSON_AddItemToObject object name (Some c)) name = Some (set_name (Some name) c)"
  using assms strcasecmp_refl [of name]
  by (simp add: cJSON_GetObjectItem_def cJSON_AddItemToObject_def cJSON_AddItemToArray_def find_snoc)

lemma Detach_Insert:
  assumes "nat which \<le> length (child a)"
  shows "cJSON_DetachItemFromArray (cJSON_InsertItemInArray a which c) which = (a, Some c)"
  using assms
  by (auto simp: cJSON_DetachItemFromArray_def cJSON_InsertItemInArray_def cJSON_AddItemToArray_def Let_def nth_append)

section \<open>Property\<close>

text \<open>
  (C15) Parsed trees are typed, and typed trees can be printed. Whatever the text, a tree
  that \<open>cJSON_Parse\<close> returns has the type tag of one of the seven kinds, text exactly
  in strings, unnamed children in arrays and named ones in objects, at every
  depth; its root has no name; and both \<open>cJSON_Print\<close> and \<open>cJSON_PrintUnformatted\<close> return a text
  for it, without a fault and without a null pointer.
\<close>

theorem parsed_trees_typed:
  assumes "cJSON_Parse s = Inr (Some c)"
  shows "jtyped c \<and> jname c = None \<and>
    (\<exists>t. cJSON_Print c = Inr (Some t)) \<and> (\<exists>t. cJSON_PrintUnformatted c = Inr (Some t))"
proof -
  have "yields (\<lambda>c. jtyped c \<and> jname c = None) (parse_value (2 * length s + 2) cJSON_New_Item (skip s))"
    using parse_yields(1) [of cJSON_New_Item] by (simp del: parse_value.simps)
  then have "jtyped c \<and> jname c = None"
    using assms by (cases "parse_value (2 * length s + 2) cJSON_New_Item (skip s)")
      (auto simp: cJSON_Parse_def cJSON_ParseWithOpts_def simp del: parse_value.simps)
  then show ?thesis
    by (simp add: cJSON_Print_def cJSON_PrintUnformatted_def print_typed(1))
qed

theorem parsed_trees_typed_witness:
  "\<exists>c. cJSON_Parse ''[null,{}]'' = Inr (Some c) \<and> jtyped c"
proof -
  have "case cJSON_Parse ''[null,{}]'' of Inr (Some c) \<Rightarrow> True | _ \<Rightarrow> False" by code_simp
  then obtain c where "cJSON_Parse ''[null,{}]'' = Inr (Some c)" by (auto split: sum.splits option.splits)
  then show ?thesis using parsed_trees_typed by blast
qed

end
