(* ===== verification/CJSONHeap.thy ===== *)
theory CJSONHeap
  imports CJSONTypes
begin

text \<open>
  The nodes of \<open>src/src/cJSON.cpp\<close> as they lie in memory: \<open>struct cJSON\<close> with its links
  \<open>next\<close>, \<open>prev\<close> and \<open>child\<close>, in a heap of nodes and of texts. The functions that change links are
  modelled assignment by assignment, with \<open>cJSON_Delete\<close>, with items added by reference, which share children and
  text with the item they refer to, and with names that are not copied. An access to a node that
  is not allocated is a fault, and so is freeing a block twice. The \<open>n\<close>-th call of
  \<open>cJSON_malloc\<close> succeeds iff \<open>ok n\<close>, and then the block has address \<open>n\<close>; it is never an address that was
  used before. A walk along a chain of siblings gets as much fuel as there are addresses; a
  chain that is longer is a cycle, in which the code does not return.
\<close>

section \<open>Heap\<close>

type_synonym addr = nat

record cnode =
  nxt :: "addr option"        \<comment> \<open>\<open>next\<close>\<close>
  prv :: "addr option"        \<comment> \<open>\<open>prev\<close>\<close>
  chd :: "addr option"        \<comment> \<open>\<open>child\<close>\<close>
  ntype :: int                \<comment> \<open>\<open>type\<close>\<close>
  ntext :: "addr option"      \<comment> \<open>\<open>valuestring\<close>\<close>
  nint :: int
  ndouble :: double
  nname :: "addr option"      \<comment> \<open>\<open>string\<close>\<close>

record heap =
  nodes :: "addr \<rightharpoonup> cnode"
  texts :: "addr \<rightharpoonup> string"
  brk :: addr                 \<comment> \<open>the address of the next block\<close>

definition cJSON_IsReference :: int where "cJSON_IsReference = 256"

definition is_ref :: "cnode \<Rightarrow> bool" where
  "is_ref nd \<longleftrightarrow> ntype nd AND cJSON_IsReference \<noteq> 0"

definition is_const :: "cnode \<Rightarrow> bool" where
  "is_const nd \<longleftrightarrow> ntype nd AND cJSON_StringIsConst \<noteq> 0"

definition rd :: "addr option \<Rightarrow> heap \<Rightarrow> cnode res" where
  "rd p h = (case p of None \<Rightarrow> Inl NullDeref
     | Some a \<Rightarrow> (case nodes h a of None \<Rightarrow> Inl UseAfterFree | Some nd \<Rightarrow> Inr nd))"

definition put_node :: "addr \<Rightarrow> (cnode \<Rightarrow> cnode) \<Rightarrow> heap \<Rightarrow> heap" where
  "put_node a f h = h\<lparr>nodes := (nodes h)(a := map_option f (nodes h a))\<rparr>"

definition wr :: "addr option \<Rightarrow> (cnode \<Rightarrow> cnode) \<Rightarrow> heap \<Rightarrow> heap res" where
  "wr p f h = ebind (rd p h) (\<lambda>_. Inr (put_node (the p) f h))"

definition free_node :: "addr \<Rightarrow> heap \<Rightarrow> heap res" where
  "free_node a h = (if nodes h a = None then Inl UseAfterFree else Inr (h\<lparr>nodes := (nodes h)(a := None)\<rparr>))"

text \<open>\<open>if (p) cJSON_free(p)\<close>\<close>

definition free_text :: "addr option \<Rightarrow> heap \<Rightarrow> heap res" where
  "free_text p h = (case p of None \<Rightarrow> Inr h
     | Some a \<Rightarrow> if texts h a = None then Inl UseAfterFree else Inr (h\<lparr>texts := (texts h)(a := None)\<rparr>))"

definition text_at :: "heap \<Rightarrow> addr option \<Rightarrow> string option" where
  "text_at h p = (case p of None \<Rightarrow> None | Some a \<Rightarrow> texts h a)"

section \<open>Allocation\<close>

text \<open>\<open>cJSON_InitHooks\<close>: the functions for allocating and freeing; the arguments are the standard ones.\<close>

definition cJSON_InitHooks :: "'m \<Rightarrow> 'f \<Rightarrow> ('m option \<times> 'f option) option \<Rightarrow> 'm \<times> 'f" where
  "cJSON_InitHooks malloc free hooks =
     (case hooks of
        None \<Rightarrow> (malloc, free)
      | Some (malloc_fn, free_fn) \<Rightarrow>
          (case malloc_fn of None \<Rightarrow> malloc | Some m \<Rightarrow> m, case free_fn of None \<Rightarrow> free | Some f \<Rightarrow> f))"

definition blank_node :: cnode where
  "blank_node = \<lparr>nxt = None, prv = None, chd = None, ntype = 0, ntext = None, nint = 0, ndouble = Fin 0, nname = None\<rparr>"

definition cJSON_New_Item_h :: "(nat \<Rightarrow> bool) \<Rightarrow> heap \<Rightarrow> addr option \<times> heap" where
  "cJSON_New_Item_h ok h =
     (let h1 = h\<lparr>brk := Suc (brk h)\<rparr>
      in if ok (brk h) then (Some (brk h), h1\<lparr>nodes := (nodes h)(brk h \<mapsto> blank_node)\<rparr>) else (None, h1))"

definition cJSON_strdup :: "(nat \<Rightarrow> bool) \<Rightarrow> string \<Rightarrow> heap \<Rightarrow> addr option \<times> heap" where
  "cJSON_strdup ok str h =
     (let h1 = h\<lparr>brk := Suc (brk h)\<rparr>
      in if ok (brk h) then (Some (brk h), h1\<lparr>texts := (texts h)(brk h \<mapsto> str)\<rparr>) else (None, h1))"

section \<open>Deleting\<close>

fun delete_loop :: "nat \<Rightarrow> addr option \<Rightarrow> heap \<Rightarrow> heap res" where
  "delete_loop 0 c h = Inl NoReturn"
| "delete_loop (Suc k) None h = Inr h"
| "delete_loop (Suc k) (Some a) h =
     ebind (rd (Some a) h) (\<lambda>nd.
     ebind (if \<not> is_ref nd \<and> chd nd \<noteq> None then delete_loop k (chd nd) h else Inr h) (\<lambda>h1.
     ebind (rd (Some a) h1) (\<lambda>nd1.
     ebind (if \<not> is_ref nd1 then free_text (ntext nd1) h1 else Inr h1) (\<lambda>h2.
     ebind (if \<not> is_const nd1 then free_text (nname nd1) h2 else Inr h2) (\<lambda>h3.
     ebind (free_node a h3) (\<lambda>h4.
     delete_loop k (nxt nd) h4))))))"

definition cJSON_Delete :: "addr option \<Rightarrow> heap \<Rightarrow> heap res" where
  "cJSON_Delete c h = delete_loop (Suc (brk h)) c h"

section \<open>Links\<close>

text \<open>\<open>while (c && which > 0) c = c->next, which--\<close>, the walk to the last sibling, and the walk to a name with the
  number of steps.\<close>

fun walk :: "nat \<Rightarrow> int \<Rightarrow> addr option \<Rightarrow> heap \<Rightarrow> addr option res" where
  "walk 0 which c h = Inl NoReturn"
| "walk (Suc k) which c h =
     (if c \<noteq> None \<and> 0 < which then ebind (rd c h) (\<lambda>nd. walk k (which - 1) (nxt nd) h) else Inr c)"

fun walk_last :: "nat \<Rightarrow> addr option \<Rightarrow> heap \<Rightarrow> addr option res" where
  "walk_last 0 c h = Inl NoReturn"
| "walk_last (Suc k) c h = ebind (rd c h) (\<lambda>nd. if nxt nd \<noteq> None then walk_last k (nxt nd) h else Inr c)"

fun walk_name :: "nat \<Rightarrow> string \<Rightarrow> int \<Rightarrow> addr option \<Rightarrow> heap \<Rightarrow> (int \<times> addr option) res" where
  "walk_name 0 name i c h = Inl NoReturn"
| "walk_name (Suc k) name i c h =
     (if c = None then Inr (i, c)
      else ebind (rd c h) (\<lambda>nd.
           if cJSON_strcasecmp (text_at h (nname nd)) (Some name) \<noteq> 0 then walk_name k name (i + 1) (nxt nd) h
           else Inr (i, c)))"

definition suffix_object :: "addr option \<Rightarrow> addr option \<Rightarrow> heap \<Rightarrow> heap res" where
  "suffix_object prev item h =
     ebind (wr prev (nxt_update (\<lambda>_. item)) h) (\<lambda>h1. wr item (prv_update (\<lambda>_. prev)) h1)"

definition create_reference :: "(nat \<Rightarrow> bool) \<Rightarrow> addr option \<Rightarrow> heap \<Rightarrow> (addr option \<times> heap) res" where
  "create_reference ok item h =
     (case cJSON_New_Item_h ok h of
        (None, h1) \<Rightarrow> Inr (None, h1)
      | (ref, h1) \<Rightarrow>
          ebind (rd item h1) (\<lambda>nd.
          ebind (wr ref (\<lambda>_. nd\<lparr>nname := None, ntype := ntype nd OR cJSON_IsReference, nxt := None, prv := None\<rparr>) h1) (\<lambda>h2.
          Inr (ref, h2))))"

definition cJSON_AddItemToArray_h :: "addr option \<Rightarrow> addr option \<Rightarrow> heap \<Rightarrow> heap res" where
  "cJSON_AddItemToArray_h array item h =
     ebind (rd array h) (\<lambda>arr.
     if item = None then Inr h
     else if chd arr = None then wr array (chd_update (\<lambda>_. item)) h
     else ebind (walk_last (Suc (brk h)) (chd arr) h) (\<lambda>c. suffix_object c item h))"

definition cJSON_AddItemToObject_h :: "(nat \<Rightarrow> bool) \<Rightarrow> addr option \<Rightarrow> string \<Rightarrow> addr option \<Rightarrow> heap \<Rightarrow> heap res" where
  "cJSON_AddItemToObject_h ok object name item h =
     (if item = None then Inr h
      else ebind (rd item h) (\<lambda>nd.
           ebind (free_text (nname nd) h) (\<lambda>h1.
           case cJSON_strdup ok name h1 of (s, h2) \<Rightarrow>
           ebind (wr item (nname_update (\<lambda>_. s)) h2) (cJSON_AddItemToArray_h object item))))"

text \<open>The name is the caller's own text, at address \<open>name\<close>.\<close>

definition cJSON_AddItemToObjectCS_h :: "addr option \<Rightarrow> addr option \<Rightarrow> addr option \<Rightarrow> heap \<Rightarrow> heap res" where
  "cJSON_AddItemToObjectCS_h object name item h =
     (if item = None then Inr h
      else ebind (rd item h) (\<lambda>nd.
           ebind (if \<not> is_const nd then free_text (nname nd) h else Inr h) (\<lambda>h1.
           ebind (wr item (\<lambda>n. n\<lparr>nname := name, ntype := ntype n OR cJSON_StringIsConst\<rparr>) h1)
             (cJSON_AddItemToArray_h object item))))"

definition cJSON_AddItemReferenceToArray :: "(nat \<Rightarrow> bool) \<Rightarrow> addr option \<Rightarrow> addr option \<Rightarrow> heap \<Rightarrow> heap res" where
  "cJSON_AddItemReferenceToArray ok array item h =
     ebind (create_reference ok item h) (\<lambda>(ref, h1). cJSON_AddItemToArray_h array ref h1)"

definition cJSON_AddItemReferenceToObject :: "(nat \<Rightarrow> bool) \<Rightarrow> addr option \<Rightarrow> string \<Rightarrow> addr option \<Rightarrow> heap \<Rightarrow> heap res" where
  "cJSON_AddItemReferenceToObject ok object name item h =
     ebind (create_reference ok item h) (\<lambda>(ref, h1). cJSON_AddItemToObject_h ok object name ref h1)"

definition when_ptr :: "addr option \<Rightarrow> (heap \<Rightarrow> heap res) \<Rightarrow> heap \<Rightarrow> heap res" where
  "when_ptr p f h = (if p = None then Inr h else f h)"

definition cJSON_DetachItemFromArray_h :: "addr option \<Rightarrow> int \<Rightarrow> heap \<Rightarrow> (addr option \<times> heap) res" where
  "cJSON_DetachItemFromArray_h array which h =
     ebind (rd array h) (\<lambda>arr.
     ebind (walk (Suc (brk h)) which (chd arr) h) (\<lambda>c.
     if c = None then Inr (None, h)
     else ebind (rd c h) (\<lambda>nd.
          ebind (when_ptr (prv nd) (wr (prv nd) (nxt_update (\<lambda>_. nxt nd))) h) (\<lambda>h1.
          ebind (when_ptr (nxt nd) (wr (nxt nd) (prv_update (\<lambda>_. prv nd))) h1) (\<lambda>h2.
          ebind (rd array h2) (\<lambda>arr2.
          ebind (if c = chd arr2 then wr array (chd_update (\<lambda>_. nxt nd)) h2 else Inr h2) (\<lambda>h3.
          ebind (wr c (\<lambda>n. n\<lparr>prv := None, nxt := None\<rparr>) h3) (\<lambda>h4.
          Inr (c, h4)))))))))"

definition cJSON_DeleteItemFromArray_h :: "addr option \<Rightarrow> int \<Rightarrow> heap \<Rightarrow> heap res" where
  "cJSON_DeleteItemFromArray_h array which h =
     ebind (cJSON_DetachItemFromArray_h array which h) (\<lambda>(c, h1). cJSON_Delete c h1)"

definition cJSON_DetachItemFromObject_h :: "addr option \<Rightarrow> string \<Rightarrow> heap \<Rightarrow> (addr option \<times> heap) res" where
  "cJSON_DetachItemFromObject_h object name h =
     ebind (rd object h) (\<lambda>obj.
     ebind (walk_name (Suc (brk h)) name 0 (chd obj) h) (\<lambda>(i, c).
     if c = None then Inr (None, h) else cJSON_DetachItemFromArray_h object i h))"

definition cJSON_DeleteItemFromObject_h :: "addr option \<Rightarrow> string \<Rightarrow> heap \<Rightarrow> heap res" where
  "cJSON_DeleteItemFromObject_h object name h =
     ebind (cJSON_DetachItemFromObject_h object name h) (\<lambda>(c, h1). cJSON_Delete c h1)"

definition cJSON_InsertItemInArray_h :: "addr option \<Rightarrow> int \<Rightarrow> addr option \<Rightarrow> heap \<Rightarrow> heap res" where
  "cJSON_InsertItemInArray_h array which newitem h =
     ebind (rd array h) (\<lambda>arr.
     ebind (walk (Suc (brk h)) which (chd arr) h) (\<lambda>c.
     if c = None then cJSON_AddItemToArray_h array newitem h
     else ebind (rd c h) (\<lambda>nd.
          ebind (wr newitem (\<lambda>n. n\<lparr>nxt := c, prv := prv nd\<rparr>) h) (\<lambda>h1.
          ebind (wr c (prv_update (\<lambda>_. newitem)) h1) (\<lambda>h2.
          ebind (rd array h2) (\<lambda>arr2.
          if c = chd arr2 then wr array (chd_update (\<lambda>_. newitem)) h2
          else ebind (rd newitem h2) (\<lambda>n2. wr (prv n2) (nxt_update (\<lambda>_. newitem)) h2)))))))"

definition cJSON_ReplaceItemInArray_h :: "addr option \<Rightarrow> int \<Rightarrow> addr option \<Rightarrow> heap \<Rightarrow> heap res" where
  "cJSON_ReplaceItemInArray_h array which newitem h =
     ebind (rd array h) (\<lambda>arr.
     ebind (walk (Suc (brk h)) which (chd arr) h) (\<lambda>c.
     if c = None then Inr h
     else ebind (rd c h) (\<lambda>nd.
          ebind (wr newitem (\<lambda>n. n\<lparr>nxt := nxt nd, prv := prv nd\<rparr>) h) (\<lambda>h1.
          ebind (when_ptr (nxt nd) (wr (nxt nd) (prv_update (\<lambda>_. newitem))) h1) (\<lambda>h2.
          ebind (rd array h2) (\<lambda>arr2.
          ebind (if c = chd arr2 then wr array (chd_update (\<lambda>_. newitem)) h2
                 else ebind (rd newitem h2) (\<lambda>n2. wr (prv n2) (nxt_update (\<lambda>_. newitem)) h2)) (\<lambda>h3.
          ebind (wr c (\<lambda>n. n\<lparr>nxt := None, prv := None\<rparr>) h3) (\<lambda>h4.
          cJSON_Delete c h4))))))))"

definition cJSON_ReplaceItemInObject_h :: "(nat \<Rightarrow> bool) \<Rightarrow> addr option \<Rightarrow> string \<Rightarrow> addr option \<Rightarrow> heap \<Rightarrow> heap res" where
  "cJSON_ReplaceItemInObject_h ok object name newitem h =
     ebind (rd object h) (\<lambda>obj.
     ebind (walk_name (Suc (brk h)) name 0 (chd obj) h) (\<lambda>(i, c).
     if c = None then Inr h
     else (case cJSON_strdup ok name h of (s, h1) \<Rightarrow>
           ebind (wr newitem (nname_update (\<lambda>_. s)) h1) (cJSON_ReplaceItemInArray_h object i newitem))))"

end
