(* ===== verification/CJSONHeapCorrect.thy ===== *)
theory CJSONHeapCorrect
  imports CJSONHeap
begin

text \<open>
  The heap of theory \<open>CJSONHeap\<close> related to the trees of theory \<open>CJSON\<close>: on a chain that is
  properly linked in both directions the pointer operations do what the list operations say
  and leave it properly linked, \<open>cJSON_Delete\<close> frees what a tree owns, all of it and nothing
  else, and a reference that is added to an array and deleted with it leaves the item it refers to as it was.
\<close>

section \<open>Properly linked trees\<close>

text \<open>
  A tree with the addresses of its nodes. The links in \<open>pf\<close> are not used, except the child of a reference,
  which belongs to another tree: a reference has no children of its own.
\<close>

datatype pnode = PN (pa: addr) (pf: cnode) (pc: "pnode list")

definition firstn :: "pnode list \<Rightarrow> addr option \<Rightarrow> addr option" where
  "firstn xs n = (case xs of [] \<Rightarrow> n | x # _ \<Rightarrow> Some (pa x))"

definition lastp :: "addr option \<Rightarrow> pnode list \<Rightarrow> addr option" where
  "lastp p xs = (if xs = [] then p else Some (pa (last xs)))"

text \<open>\<open>holds h p n x\<close>: the tree \<open>x\<close> is in the heap, its root linked to \<open>p\<close> and \<open>n\<close>;
  \<open>seg h p xs n\<close>: the trees \<open>xs\<close> are in the heap and their roots form a chain that comes after \<open>p\<close> and ends before \<open>n\<close>.\<close>

fun holds :: "heap \<Rightarrow> addr option \<Rightarrow> addr option \<Rightarrow> pnode \<Rightarrow> bool"
  and seg :: "heap \<Rightarrow> addr option \<Rightarrow> pnode list \<Rightarrow> addr option \<Rightarrow> bool" where
  "holds h p n (PN a f ch) \<longleftrightarrow>
     nodes h a = Some (f\<lparr>nxt := n, prv := p, chd := if is_ref f then chd f else firstn ch None\<rparr>) \<and>
     (is_ref f \<longrightarrow> ch = []) \<and> seg h None ch None"
| "seg h p [] n \<longleftrightarrow> True"
| "seg h p (x # xs) n \<longleftrightarrow> holds h p (firstn xs n) x \<and> seg h (Some (pa x)) xs n"

text \<open>The nodes of a tree and the texts it owns: its strings unless it is a reference, its name unless that is constant.\<close>

fun pnodes :: "pnode \<Rightarrow> addr list" where
  "pnodes (PN a f ch) = a # concat (map pnodes ch)"

definition root_texts :: "cnode \<Rightarrow> addr list" where
  "root_texts f = (if is_ref f then [] else case_option [] (\<lambda>t. [t]) (ntext f)) @
     (if is_const f then [] else case_option [] (\<lambda>t. [t]) (nname f))"

fun ptexts :: "pnode \<Rightarrow> addr list" where
  "ptexts (PN a f ch) = root_texts f @ concat (map ptexts ch)"

abbreviation own_nodes :: "pnode list \<Rightarrow> addr list" where "own_nodes xs \<equiv> concat (map pnodes xs)"

abbreviation own_texts :: "pnode list \<Rightarrow> addr list" where "own_texts xs \<equiv> concat (map ptexts xs)"

text \<open>What the tree is as a value of theory \<open>CJSON\<close>.\<close>

fun tree_of :: "heap \<Rightarrow> pnode \<Rightarrow> cjson" where
  "tree_of h (PN a f ch) =
     CJSON (ntype f) (text_at h (ntext f)) (nint f) (ndouble f) (text_at h (nname f)) (map (tree_of h) ch)"

definition heap_ok :: "heap \<Rightarrow> bool" where
  "heap_ok h \<longleftrightarrow> dom (nodes h) \<subseteq> {..<brk h} \<and> dom (texts h) \<subseteq> {..<brk h}"

lemma firstn_simps [simp]: "firstn [] n = n" "firstn (x # xs) n = Some (pa x)"
  by (simp_all add: firstn_def)

lemma firstn_append [simp]: "firstn (xs @ ys) n = firstn xs (firstn ys n)"
  by (cases xs) simp_all

lemma lastp_simps [simp]: "lastp p [] = p" "lastp p (xs @ [x]) = Some (pa x)" "lastp p (x # xs) = lastp (Some (pa x)) xs"
  by (simp_all add: lastp_def)

lemma seg_append [simp]: "seg h p (xs @ ys) n \<longleftrightarrow> seg h p xs (firstn ys n) \<and> seg h (lastp p xs) ys n"
  by (induction xs arbitrary: p) auto

lemma pa_in_pnodes [simp]: "pa x \<in> set (pnodes x)"
  by (cases x) simp

lemma holds_frame:
  "(\<And>a. a \<in> set (pnodes x) \<Longrightarrow> nodes h' a = nodes h a) \<Longrightarrow> holds h' p n x = holds h p n x"
  "(\<And>a. a \<in> set (own_nodes xs) \<Longrightarrow> nodes h' a = nodes h a) \<Longrightarrow> seg h' p xs n = seg h p xs n"
  by (induction h p n x and h p xs n rule: holds_seg.induct) auto

lemma nodes_put_node [simp]:
  "nodes (put_node a g h) b = (if b = a then map_option g (nodes h a) else nodes h b)"
  "texts (put_node a g h) = texts h" "brk (put_node a g h) = brk h"
  by (simp_all add: put_node_def)

lemma holds_put_other [simp]:
  "a \<notin> set (pnodes x) \<Longrightarrow> holds (put_node a g h) p n x = holds h p n x"
  "a \<notin> set (own_nodes xs) \<Longrightarrow> seg (put_node a g h) p xs n = seg h p xs n"
  by (auto intro!: holds_frame)

lemma holds_node:
  "holds h p n x \<Longrightarrow> \<exists>nd. nodes h (pa x) = Some nd \<and> nxt nd = n \<and> prv nd = p"
  by (cases x) auto

lemma holds_live:
  "holds h p n x \<Longrightarrow> a \<in> set (pnodes x) \<Longrightarrow> nodes h a \<noteq> None"
  "seg h p xs n \<Longrightarrow> a \<in> set (own_nodes xs) \<Longrightarrow> nodes h a \<noteq> None"
  by (induction h p n x and h p xs n rule: holds_seg.induct) auto

lemma length_own_nodes:
  assumes "heap_ok h" "seg h p xs n" "distinct (own_nodes xs)"
  shows "length (own_nodes xs) \<le> brk h"
proof -
  have "set (own_nodes xs) \<subseteq> {..<brk h}"
    using assms(1) holds_live(2) [OF assms(2)] by (auto simp: heap_ok_def)
  then show ?thesis using card_mono [of "{..<brk h}" "set (own_nodes xs)"] assms(3)
    by (simp add: distinct_card [symmetric])
qed

lemma length_le_own_nodes: "length xs \<le> length (own_nodes xs)"
proof (induction xs)
  case (Cons x xs) then show ?case by (cases x) simp
qed simp


section \<open>Deleting\<close>

definition free_all :: "addr set \<Rightarrow> addr set \<Rightarrow> heap \<Rightarrow> heap" where
  "free_all N T h = h\<lparr>nodes := nodes h |` (- N), texts := texts h |` (- T)\<rparr>"

text \<open>A chain that owns its nodes and its texts, no block twice.\<close>

definition owned :: "heap \<Rightarrow> addr option \<Rightarrow> pnode list \<Rightarrow> addr option \<Rightarrow> bool" where
  "owned h p xs n \<longleftrightarrow>
     seg h p xs n \<and> distinct (own_nodes xs) \<and> distinct (own_texts xs) \<and> set (own_texts xs) \<subseteq> dom (texts h)"

lemma free_all_sel [simp]:
  "nodes (free_all N T h) = nodes h |` (- N)" "texts (free_all N T h) = texts h |` (- T)" "brk (free_all N T h) = brk h"
  by (simp_all add: free_all_def)

lemma free_all_free_all [simp]: "free_all N T (free_all N' T' h) = free_all (N' \<union> N) (T' \<union> T) h"
  by (simp add: free_all_def)

lemma free_all_empty [simp]: "free_all {} {} h = h"
  by (simp add: free_all_def restrict_map_def)

lemma free_node_all: "nodes h a \<noteq> None \<Longrightarrow> free_node a h = Inr (free_all {a} {} h)"
  by (auto simp: free_node_def free_all_def restrict_map_def fun_eq_iff intro!: heap.equality)

lemma free_text_all:
  "set_option p \<subseteq> dom (texts h) \<Longrightarrow> free_text p h = Inr (free_all {} (set_option p) h)"
  by (cases p) (auto simp: free_text_def free_all_def restrict_map_def fun_eq_iff intro!: heap.equality)

lemma seg_free_all: "N \<inter> set (own_nodes xs) = {} \<Longrightarrow> seg (free_all N T h) p xs n = seg h p xs n"
  by (rule holds_frame(2)) (auto simp: restrict_map_def)

lemma owned_free_all:
  "owned h p xs n \<Longrightarrow> N \<inter> set (own_nodes xs) = {} \<Longrightarrow> T \<inter> set (own_texts xs) = {} \<Longrightarrow> owned (free_all N T h) p xs n"
  unfolding owned_def by (auto simp: seg_free_all simp del: set_concat)

text \<open>What the loop does with a node once its children are gone.\<close>

lemma free_root:
  assumes "nodes h a = Some nd" "distinct (root_texts nd)" "set (root_texts nd) \<subseteq> dom (texts h)"
  shows "ebind (if \<not> is_ref nd then free_text (ntext nd) h else Inr h) (\<lambda>h2.
         ebind (if \<not> is_const nd then free_text (nname nd) h2 else Inr h2) (\<lambda>h3.
         ebind (free_node a h3) k)) = k (free_all {a} (set (root_texts nd)) h)"
proof -
  let ?T1 = "if is_ref nd then {} else set_option (ntext nd)"
  let ?T2 = "if is_const nd then {} else set_option (nname nd)"
  have T: "set (root_texts nd) = ?T1 \<union> ?T2" "?T1 \<inter> ?T2 = {}"
    using assms(2) by (auto simp: root_texts_def split: option.splits)
  have "(if \<not> is_ref nd then free_text (ntext nd) h else Inr h) = Inr (free_all {} ?T1 h)"
    using assms(3) T by (auto simp: free_text_all)
  moreover have "(if \<not> is_const nd then free_text (nname nd) (free_all {} ?T1 h) else Inr (free_all {} ?T1 h))
      = Inr (free_all {} (?T1 \<union> ?T2) h)"
  proof (cases "is_const nd")
    case False
    then show ?thesis using assms(3) T by (subst free_text_all) auto
  qed simp
  moreover have "free_node a (free_all {} (?T1 \<union> ?T2) h) = Inr (free_all {a} (?T1 \<union> ?T2) h)"
    using assms(1) by (subst free_node_all) auto
  ultimately show ?thesis by (simp only: ebind_Inr T(1))
qed

lemma delete_loop_frees:
  "owned h p xs None \<Longrightarrow> length (own_nodes xs) < k \<Longrightarrow>
   delete_loop k (firstn xs None) h = Inr (free_all (set (own_nodes xs)) (set (own_texts xs)) h)"
proof (induction k arbitrary: xs p h)
  case (Suc k)
  show ?case
  proof (cases xs)
    case (Cons x ys)
    obtain a f ch where x: "x = PN a f ch" by (cases x)
    let ?nd = "f\<lparr>nxt := firstn ys None, prv := p, chd := if is_ref f then chd f else firstn ch None\<rparr>"
    let ?h1 = "free_all (set (own_nodes ch)) (set (own_texts ch)) h"
    let ?h2 = "free_all (set (pnodes x)) (set (ptexts x)) h"
    have own: "owned h None ch None" "owned h (Some a) ys None" and nd: "nodes h a = Some ?nd"
      and ref: "is_ref f \<Longrightarrow> ch = []"
      and dis: "a \<notin> set (own_nodes ch)" "set (pnodes x) \<inter> set (own_nodes ys) = {}"
      using Suc.prems(1) by (auto simp: Cons x owned_def)
    have tx: "distinct (root_texts f)" "set (root_texts f) \<subseteq> dom (texts h) - set (own_texts ch)"
      "set (ptexts x) \<inter> set (own_texts ys) = {}"
      using Suc.prems(1) by (auto simp: Cons x owned_def)
    have len: "length (own_nodes ch) < k" "length (own_nodes ys) < k"
      using Suc.prems(2) by (simp_all add: Cons x)
    have kids: "(if \<not> is_ref ?nd \<and> chd ?nd \<noteq> None then delete_loop k (chd ?nd) h else Inr h) = Inr ?h1"
      using ref Suc.IH [OF own(1) len(1)] by (cases "ch = [] \<or> is_ref f"; cases ch) (auto simp: is_ref_def)
    have rd: "rd (Some a) h = Inr ?nd" "rd (Some a) ?h1 = Inr ?nd" and nd1: "nodes ?h1 a = Some ?nd"
      using dis(1) nd by (simp_all add: rd_def)
    have rt: "root_texts ?nd = root_texts f"
      by (simp add: root_texts_def is_ref_def is_const_def)
    have h2: "free_all {a} (set (root_texts ?nd)) ?h1 = ?h2"
      unfolding rt by (simp add: x Un_ac)
    have "owned ?h2 (Some a) ys None"
      using dis(2) tx(3) by (intro owned_free_all own(2)) auto
    then have rest: "delete_loop k (nxt ?nd) ?h2 = Inr (free_all (set (own_nodes ys)) (set (own_texts ys)) ?h2)"
      using Suc.IH len(2) by simp
    have root: "distinct (root_texts ?nd)" "set (root_texts ?nd) \<subseteq> dom (texts ?h1)"
      unfolding rt using tx by auto
    show ?thesis
      unfolding Cons x firstn_simps pnode.sel delete_loop.simps rd ebind_Inr kids free_root [OF nd1 root] h2 [unfolded x]
        rest [unfolded x]
      by (simp add: Un_ac)
  qed simp
qed simp

lemma cJSON_Delete_owned:
  assumes "heap_ok h" "owned h p xs None"
  shows "cJSON_Delete (firstn xs None) h = Inr (free_all (set (own_nodes xs)) (set (own_texts xs)) h)"
  unfolding cJSON_Delete_def
  using assms length_own_nodes [OF assms(1), of p xs None]
  by (intro delete_loop_frees [OF assms(2)]) (simp add: owned_def less_Suc_eq_le)

section \<open>Links\<close>

text \<open>A change of links: outside \<open>S\<close> the nodes are as before, the texts are, and the same nodes are allocated.\<close>

definition same_but :: "addr set \<Rightarrow> heap \<Rightarrow> heap \<Rightarrow> bool" where
  "same_but S h h' \<longleftrightarrow>
     (\<forall>b. b \<notin> S \<longrightarrow> nodes h' b = nodes h b) \<and> dom (nodes h') = dom (nodes h) \<and> texts h' = texts h \<and> brk h' = brk h"

lemma same_but_refl [simp]: "same_but S h h"
  by (simp add: same_but_def)

lemma dom_put_node [simp]: "dom (nodes (put_node a g h)) = dom (nodes h)"
  by (auto simp: dom_def)

lemma same_but_put [simp]: "a \<in> S \<Longrightarrow> same_but S h (put_node a g h') = same_but S h h'"
  by (auto simp: same_but_def)

lemma tree_of_texts: "texts h' = texts h \<Longrightarrow> tree_of h' x = tree_of h x"
  by (induction x) (auto simp: text_at_def split: option.splits)

lemma wr_live: "nodes h a \<noteq> None \<Longrightarrow> wr (Some a) g h = Inr (put_node a g h)"
  by (auto simp: wr_def rd_def)

lemma holds_put_links:
  assumes "holds h p n x" "distinct (pnodes x)" "\<And>nd. g (nd\<lparr>nxt := n, prv := p\<rparr>) = nd\<lparr>nxt := n', prv := p'\<rparr>"
  shows "holds (put_node (pa x) g h) p' n' x"
proof (cases x)
  case (PN a f ch)
  have "g (f\<lparr>nxt := n, prv := p, chd := c\<rparr>) = f\<lparr>nxt := n', prv := p', chd := c\<rparr>" for c
    using assms(3) [of "f\<lparr>chd := c\<rparr>"] by (cases f) simp
  then show ?thesis using assms(1,2) by (auto simp: PN)
qed

lemma seg_put_next:
  assumes "seg h p (xs @ [x]) n" "distinct (own_nodes (xs @ [x]))"
  shows "seg (put_node (pa x) (nxt_update (\<lambda>_. m)) h) p (xs @ [x]) m"
proof -
  have "pa x \<notin> set (own_nodes xs)" using assms(2) pa_in_pnodes [of x] by (auto simp del: pa_in_pnodes)
  then show ?thesis using assms by (auto intro!: holds_put_links)
qed

lemma seg_put_prev:
  assumes "seg h p (x # xs) n" "distinct (own_nodes (x # xs))"
  shows "seg (put_node (pa x) (prv_update (\<lambda>_. q)) h) q (x # xs) n"
proof -
  have "pa x \<notin> set (own_nodes xs)" using assms(2) pa_in_pnodes [of x] by (auto simp del: pa_in_pnodes)
  then show ?thesis using assms by (auto intro!: holds_put_links)
qed

lemma walk_seg:
  "seg h p xs None \<Longrightarrow> length xs < k \<Longrightarrow> walk k w (firstn xs None) h = Inr (firstn (drop (nat w) xs) None)"
proof (induction xs arbitrary: p k w)
  case Nil then show ?case by (cases k) auto
next
  case (Cons x xs)
  obtain j where k: "k = Suc j" using Cons.prems(2) by (cases k) auto
  obtain nd where "nodes h (pa x) = Some nd" "nxt nd = firstn xs None"
    using Cons.prems(1) holds_node by fastforce
  moreover have "nat w = Suc (nat (w - 1))" if "0 < w" using that by simp
  ultimately show ?case
    using Cons.prems Cons.IH [of "Some (pa x)" j "w - 1"] by (auto simp: k rd_def)
qed

lemma walk_last_seg:
  "seg h p (xs @ [x]) None \<Longrightarrow> length xs < k \<Longrightarrow> walk_last k (firstn (xs @ [x]) None) h = Inr (Some (pa x))"
proof (induction xs arbitrary: p k)
  case Nil
  then obtain j where k: "k = Suc j" by (cases k) auto
  obtain nd where "nodes h (pa x) = Some nd" "nxt nd = None"
    using Nil.prems(1) holds_node by fastforce
  then show ?case by (simp add: k rd_def)
next
  case (Cons y xs)
  then obtain j where k: "k = Suc j" by (cases k) auto
  obtain nd where nd: "nodes h (pa y) = Some nd" "nxt nd = firstn (xs @ [x]) None"
    using Cons.prems(1) holds_node by fastforce
  moreover have "nxt nd \<noteq> None" using nd(2) by (cases xs) auto
  ultimately show ?case
    using Cons.prems Cons.IH [of "Some (pa y)" j] by (simp add: k rd_def del: firstn_append)
qed

section \<open>Arrays\<close>

text \<open>A node with its chain of children, and a node that is linked to nothing and is not part of it.\<close>

definition array_at :: "heap \<Rightarrow> addr option \<Rightarrow> addr option \<Rightarrow> pnode \<Rightarrow> bool" where
  "array_at h p n t \<longleftrightarrow> heap_ok h \<and> holds h p n t \<and> \<not> is_ref (pf t) \<and> distinct (pnodes t)"

definition loose :: "heap \<Rightarrow> pnode \<Rightarrow> pnode \<Rightarrow> bool" where
  "loose h t x \<longleftrightarrow> holds h None None x \<and> distinct (pnodes x) \<and> set (pnodes t) \<inter> set (pnodes x) = {}"

lemma array_atD:
  assumes "array_at h p n (PN a f xs)"
  shows "nodes h a = Some (f\<lparr>nxt := n, prv := p, chd := firstn xs None\<rparr>)" "seg h None xs None"
    "\<not> is_ref f" "a \<notin> set (own_nodes xs)" "distinct (own_nodes xs)" "length xs \<le> brk h" "heap_ok h"
proof -
  show "nodes h a = Some (f\<lparr>nxt := n, prv := p, chd := firstn xs None\<rparr>)" "seg h None xs None"
    "\<not> is_ref f" "a \<notin> set (own_nodes xs)" "distinct (own_nodes xs)" "heap_ok h"
    using assms by (auto simp: array_at_def)
  then show "length xs \<le> brk h"
    using length_own_nodes [of h None xs None] length_le_own_nodes [of xs] by simp
qed

lemma array_atI:
  "array_at h p n (PN a f xs) \<Longrightarrow> same_but S h h' \<Longrightarrow> seg h' None ys None \<Longrightarrow> distinct (a # own_nodes ys) \<Longrightarrow>
   nodes h' a = Some (f\<lparr>nxt := n, prv := p, chd := firstn ys None\<rparr>) \<Longrightarrow> array_at h' p n (PN a f ys)"
  by (simp add: array_at_def same_but_def heap_ok_def)

lemma looseD:
  assumes "loose h (PN a f xs) x"
  shows "holds h None None x" "distinct (pnodes x)" "a \<noteq> pa x" "pa x \<notin> set (own_nodes xs)" "a \<notin> set (pnodes x)"
    "set (own_nodes xs) \<inter> set (pnodes x) = {}" "nodes h (pa x) \<noteq> None"
  using assms holds_node [of h None None x] by (auto simp: loose_def disjoint_iff intro: pa_in_pnodes)

lemma add_item:
  assumes arr: "array_at h p n (PN a f xs)" and new: "loose h (PN a f xs) x"
  shows "\<exists>h'. cJSON_AddItemToArray_h (Some a) (Some (pa x)) h = Inr h' \<and> array_at h' p n (PN a f (xs @ [x])) \<and>
    same_but (set (pnodes (PN a f (xs @ [x])))) h h'"
proof (cases xs rule: rev_cases)
  case Nil
  let ?h = "put_node a (chd_update (\<lambda>_. Some (pa x))) h"
  have "cJSON_AddItemToArray_h (Some a) (Some (pa x)) h = Inr ?h"
    using array_atD(1) [OF arr] by (simp add: cJSON_AddItemToArray_h_def rd_def wr_def Nil)
  moreover have "array_at ?h p n (PN a f (xs @ [x]))"
    using array_atD [OF arr] looseD [OF new]
    by (intro array_atI [OF arr, of "{a}"]) (auto simp: Nil)
  ultimately show ?thesis by simp
next
  case (snoc ys y)
  let ?h1 = "put_node (pa y) (nxt_update (\<lambda>_. Some (pa x))) h"
  let ?h = "put_node (pa x) (prv_update (\<lambda>_. Some (pa y))) ?h1"
  note ar = array_atD [OF arr, unfolded snoc] and lo = looseD [OF new, unfolded snoc]
  have ne: "pa x \<noteq> pa y" "a \<noteq> pa y" "pa y \<notin> set (pnodes x)"
    using ar(4) lo(4,6) by (auto simp: disjoint_iff)
  have y: "nodes h (pa y) \<noteq> None"
    using ar(2) holds_node [of h _ _ y] by auto
  have "walk_last (Suc (brk h)) (firstn (ys @ [y]) None) h = Inr (Some (pa y))"
    using ar(6) by (intro walk_last_seg [OF ar(2)]) simp
  moreover have "firstn (ys @ [y]) None \<noteq> None" by (cases ys) auto
  ultimately have "cJSON_AddItemToArray_h (Some a) (Some (pa x)) h = Inr ?h"
    using ar(1) y lo(7) ne
    by (auto simp: cJSON_AddItemToArray_h_def rd_def suffix_object_def wr_live snoc simp del: firstn_append walk_last.simps)
  moreover have "seg ?h None (ys @ [y]) (Some (pa x))"
    by (subst holds_put_other(2) [OF lo(4)]) (rule seg_put_next [OF ar(2,5)])
  moreover have "holds ?h (Some (pa y)) None x"
    using lo(1,2) ne by (intro holds_put_links [where n = None and p = None]) auto
  moreover have "array_at ?h p n (PN a f (xs @ [x]))" if "seg ?h None (ys @ [y]) (Some (pa x))" "holds ?h (Some (pa y)) None x"
    using ar(1,4,5) lo ne that
    by (intro array_atI [OF arr, of "{pa x, pa y}"]) (auto simp: snoc)
  ultimately show ?thesis by (auto simp: snoc)
qed

text \<open>The heap after the links around a position have been set: \<open>put_next\<close> in the last node of the part before it,
  \<open>put_prev\<close> in the first node of the part after it.\<close>

definition put_next :: "pnode list \<Rightarrow> addr option \<Rightarrow> heap \<Rightarrow> heap" where
  "put_next ys m h = (if ys = [] then h else put_node (pa (last ys)) (nxt_update (\<lambda>_. m)) h)"

definition put_prev :: "pnode list \<Rightarrow> addr option \<Rightarrow> heap \<Rightarrow> heap" where
  "put_prev zs q h = (if zs = [] then h else put_node (pa (hd zs)) (prv_update (\<lambda>_. q)) h)"

lemma pa_last_own: "ys \<noteq> [] \<Longrightarrow> pa (last ys) \<in> set (own_nodes ys)" "ys \<noteq> [] \<Longrightarrow> pa (hd ys) \<in> set (own_nodes ys)"
  using last_in_set [of ys] hd_in_set [of ys] pa_in_pnodes by (fastforce simp del: pa_in_pnodes)+

lemma put_sel [simp]:
  "texts (put_next ys m h) = texts h" "brk (put_next ys m h) = brk h"
  "texts (put_prev zs q h) = texts h" "brk (put_prev zs q h) = brk h"
  by (simp_all add: put_next_def put_prev_def)

lemma put_next_node [simp]:
  "a \<notin> set (own_nodes ys) \<Longrightarrow> nodes (put_next ys m h) a = nodes h a"
  "a \<notin> set (own_nodes zs) \<Longrightarrow> nodes (put_prev zs q h) a = nodes h a"
  using pa_last_own [of ys] pa_last_own [of zs] by (auto simp: put_next_def put_prev_def)

lemma put_same_but [simp]:
  "set (own_nodes ys) \<subseteq> S \<Longrightarrow> same_but S h (put_next ys m h') = same_but S h h'"
  "set (own_nodes zs) \<subseteq> S \<Longrightarrow> same_but S h (put_prev zs q h') = same_but S h h'"
  using pa_last_own [of ys] pa_last_own [of zs]
  by (auto simp: put_next_def put_prev_def simp del: set_concat intro!: same_but_put)

lemma seg_put_next_same:
  "seg h p ys n \<Longrightarrow> distinct (own_nodes ys) \<Longrightarrow> seg (put_next ys m h) p ys m"
  using seg_put_next [of h p "butlast ys" "last ys" n m] by (cases ys rule: rev_cases) (simp_all add: put_next_def)

lemma seg_put_prev_same:
  "seg h p zs n \<Longrightarrow> distinct (own_nodes zs) \<Longrightarrow> seg (put_prev zs q h) q zs n"
  using seg_put_prev [of h p "hd zs" "tl zs" n q] by (cases zs) (simp_all add: put_prev_def)

lemma seg_put_next_other [simp]:
  "set (own_nodes ys) \<inter> set (own_nodes xs) = {} \<Longrightarrow> seg (put_next ys m h) p xs n = seg h p xs n"
  "set (own_nodes ys) \<inter> set (own_nodes xs) = {} \<Longrightarrow> seg (put_prev ys q h) p xs n = seg h p xs n"
  using pa_last_own [of ys] by (auto simp: put_next_def put_prev_def simp del: set_concat intro!: holds_put_other(2))

lemma holds_put_next_other [simp]:
  "set (own_nodes ys) \<inter> set (pnodes x) = {} \<Longrightarrow> holds (put_next ys m h) p n x = holds h p n x"
  "set (own_nodes ys) \<inter> set (pnodes x) = {} \<Longrightarrow> holds (put_prev ys q h) p n x = holds h p n x"
  using pa_last_own [of ys] by (auto simp: put_next_def put_prev_def simp del: set_concat intro!: holds_put_other(1))

lemma when_put_next:
  "seg h None ys n \<Longrightarrow> when_ptr (lastp None ys) (wr (lastp None ys) (nxt_update (\<lambda>_. m))) h = Inr (put_next ys m h)"
  by (cases ys rule: rev_cases) (auto simp: when_ptr_def put_next_def wr_live dest!: holds_node)

lemma when_put_prev:
  "seg h p zs None \<Longrightarrow> when_ptr (firstn zs None) (wr (firstn zs None) (prv_update (\<lambda>_. q))) h = Inr (put_prev zs q h)"
  by (cases zs) (auto simp: when_ptr_def put_prev_def wr_live dest!: holds_node)

text \<open>An array taken apart at the position that a walk reaches.\<close>

lemma array_split:
  assumes arr: "array_at h p n (PN a f (ys @ x # zs))"
  shows "seg h None ys (Some (pa x))" "holds h (lastp None ys) (firstn zs None) x" "seg h (Some (pa x)) zs None"
    "set (own_nodes ys) \<inter> set (own_nodes zs) = {}" "set (own_nodes ys) \<inter> set (pnodes x) = {}"
    "set (own_nodes zs) \<inter> set (pnodes x) = {}" "set (own_nodes zs) \<inter> set (own_nodes ys) = {}"
    "distinct (own_nodes ys)" "distinct (pnodes x)" "distinct (own_nodes zs)"
    "a \<notin> set (own_nodes ys)" "a \<notin> set (pnodes x)" "a \<notin> set (own_nodes zs)"
    "pa x \<notin> set (own_nodes ys)" "pa x \<notin> set (own_nodes zs)" "a \<noteq> pa x"
  using array_atD [OF arr] pa_in_pnodes [of x] by (auto simp del: pa_in_pnodes)

lemma array_walk:
  assumes arr: "array_at h p n (PN a f (ys @ x # zs))"
  shows "rd (Some a) h = Inr (f\<lparr>nxt := n, prv := p, chd := firstn (ys @ x # zs) None\<rparr>)"
    "nat w = length ys \<Longrightarrow> walk (Suc (brk h)) w (firstn (ys @ x # zs) None) h = Inr (Some (pa x))"
    "Some (pa x) = firstn (ys @ x # zs) None \<longleftrightarrow> ys = []"
    "\<exists>nd. rd (Some (pa x)) h = Inr nd \<and> nxt nd = firstn zs None \<and> prv nd = lastp None ys"
proof -
  show "rd (Some a) h = Inr (f\<lparr>nxt := n, prv := p, chd := firstn (ys @ x # zs) None\<rparr>)"
    using array_atD(1) [OF arr] by (simp add: rd_def)
  show "walk (Suc (brk h)) w (firstn (ys @ x # zs) None) h = Inr (Some (pa x))" if "nat w = length ys"
    using array_atD(6) [OF arr] that by (subst walk_seg [OF array_atD(2) [OF arr]]) simp_all
  show "Some (pa x) = firstn (ys @ x # zs) None \<longleftrightarrow> ys = []"
    using array_split(14) [OF arr] pa_last_own(2) [of ys] by (cases ys) auto
  show "\<exists>nd. rd (Some (pa x)) h = Inr nd \<and> nxt nd = firstn zs None \<and> prv nd = lastp None ys"
    using holds_node [OF array_split(2) [OF arr]] by (auto simp: rd_def)
qed

text \<open>\<open>if (c == array->child) array->child = m\<close>\<close>

definition put_child :: "bool \<Rightarrow> addr \<Rightarrow> addr option \<Rightarrow> heap \<Rightarrow> heap" where
  "put_child b a m h = (if b then put_node a (chd_update (\<lambda>_. m)) h else h)"

lemma put_child_simps [simp]:
  "texts (put_child b a m h) = texts h" "brk (put_child b a m h) = brk h"
  "c \<noteq> a \<Longrightarrow> nodes (put_child b a m h) c = nodes h c"
  "a \<in> S \<Longrightarrow> same_but S g (put_child b a m h) = same_but S g h"
  "a \<notin> set (own_nodes xs) \<Longrightarrow> seg (put_child b a m h) q xs r = seg h q xs r"
  "a \<notin> set (pnodes x) \<Longrightarrow> holds (put_child b a m h) q r x = holds h q r x"
  by (simp_all add: put_child_def)

lemma wr_child:
  "nodes h a \<noteq> None \<Longrightarrow> (if b then wr (Some a) (chd_update (\<lambda>_. m)) h else Inr h) = Inr (put_child b a m h)"
  by (simp add: put_child_def wr_live)

lemma rd_cong: "nodes h' a = nodes h a \<Longrightarrow> rd (Some a) h' = rd (Some a) h"
  by (simp add: rd_def)

lemma detach_item:
  assumes arr: "array_at h p n (PN a f (ys @ x # zs))" and w: "nat w = length ys"
  shows "\<exists>h'. cJSON_DetachItemFromArray_h (Some a) w h = Inr (Some (pa x), h') \<and> array_at h' p n (PN a f (ys @ zs)) \<and>
    loose h' (PN a f (ys @ zs)) x \<and> same_but (set (pnodes (PN a f (ys @ x # zs)))) h h'"
proof -
  note sp = array_split [OF arr]
  let ?S = "set (pnodes (PN a f (ys @ x # zs)))"
  let ?h1 = "put_next ys (firstn zs None) h"
  let ?h2 = "put_prev zs (lastp None ys) ?h1"
  let ?h3 = "put_child (ys = []) a (firstn zs None) ?h2"
  let ?h4 = "put_node (pa x) (\<lambda>n. n\<lparr>prv := None, nxt := None\<rparr>) ?h3"
  obtain nd where nd: "rd (Some (pa x)) h = Inr nd" "nxt nd = firstn zs None" "prv nd = lastp None ys"
    using array_walk(4) [OF arr] by blast
  have a2: "nodes ?h2 a = nodes h a" "nodes ?h2 (pa x) = nodes h (pa x)"
    using sp by simp_all
  have live: "nodes h a \<noteq> None" "nodes h (pa x) \<noteq> None"
    using array_atD(1) [OF arr] nd(1) by (auto simp: rd_def split: option.splits)
  have ptr: "when_ptr (lastp None ys) (wr (lastp None ys) (nxt_update (\<lambda>_. firstn zs None))) h = Inr ?h1"
    "when_ptr (firstn zs None) (wr (firstn zs None) (prv_update (\<lambda>_. lastp None ys))) ?h1 = Inr ?h2"
    using sp by (simp_all add: when_put_next when_put_prev)
  have "cJSON_DetachItemFromArray_h (Some a) w h = Inr (Some (pa x), ?h4)"
    using ptr array_walk(1,3) [OF arr] array_walk(2) [OF arr w] nd rd_cong [OF a2(1)] wr_child [of ?h2 a] wr_live [of ?h3 "pa x"]
      live sp(16)
    by (simp add: cJSON_DetachItemFromArray_h_def a2 del: walk.simps firstn_append)
  moreover have sbS: "same_but S h ?h4" if "set (own_nodes ys) \<subseteq> S" "set (own_nodes zs) \<subseteq> S" "a \<in> S" "pa x \<in> S" for S
    using that by (simp del: set_concat)
  have sb: "same_but ?S h ?h4" by (rule sbS) auto
  moreover have "array_at ?h4 p n (PN a f (ys @ zs))"
  proof (rule array_atI [OF arr sb])
    show "seg ?h4 None (ys @ zs) None"
      using sp seg_put_next_same [OF sp(1,8), of "firstn zs None"] seg_put_prev_same [of ?h1 "Some (pa x)" zs None "lastp None ys"]
      by simp
    show "distinct (a # own_nodes (ys @ zs))" using sp by auto
    show "nodes ?h4 a = Some (f\<lparr>nxt := n, prv := p, chd := firstn (ys @ zs) None\<rparr>)"
      using a2(1) array_atD(1) [OF arr] sp(16) by (cases ys) (simp_all add: put_child_def)
  qed
  moreover have "loose ?h4 (PN a f (ys @ zs)) x"
    using sp by (auto simp: loose_def intro!: holds_put_links [where n = "firstn zs None" and p = "lastp None ys"])
  ultimately show ?thesis by blast
qed

text \<open>\<open>if (c == array->child) array->child = newitem; else newitem->prev->next = newitem\<close>\<close>

lemma link_before:
  assumes "nodes h a \<noteq> None" "nodes h b = Some nd" "prv nd = lastp None ys" "seg h None ys r"
  shows "(if ys = [] then wr (Some a) (chd_update (\<lambda>_. m)) h
      else ebind (rd (Some b) h) (\<lambda>n2. wr (prv n2) (nxt_update (\<lambda>_. m)) h)) =
    Inr (put_next ys m (put_child (ys = []) a m h))"
  using assms when_put_next [OF assms(4), of m]
  by (cases ys rule: rev_cases) (auto simp: put_next_def put_child_def wr_live rd_def when_ptr_def)

lemma loose_split:
  assumes "loose h (PN a f (ys @ c # zs)) x"
  shows "pa x \<noteq> pa c" "pa x \<notin> set (own_nodes ys)" "pa x \<notin> set (own_nodes zs)" "pa x \<notin> set (pnodes c)"
    "pa c \<notin> set (pnodes x)" "set (own_nodes ys) \<inter> set (pnodes x) = {}" "set (own_nodes zs) \<inter> set (pnodes x) = {}"
    "set (pnodes c) \<inter> set (pnodes x) = {}"
  using looseD(4,6) [OF assms] pa_in_pnodes [of c] by (auto simp del: pa_in_pnodes)

lemma insert_item:
  assumes arr: "array_at h p n (PN a f (ys @ c # zs))" and w: "nat w = length ys"
    and new: "loose h (PN a f (ys @ c # zs)) x"
  shows "\<exists>h'. cJSON_InsertItemInArray_h (Some a) w (Some (pa x)) h = Inr h' \<and> array_at h' p n (PN a f (ys @ x # c # zs)) \<and>
    same_but (set (pnodes (PN a f (ys @ x # c # zs)))) h h'"
proof -
  note sp = array_split [OF arr] and lo = looseD [OF new] and ne = loose_split [OF new]
  obtain nd where nd: "rd (Some (pa c)) h = Inr nd" "nxt nd = firstn zs None" "prv nd = lastp None ys"
    using array_walk(4) [OF arr] by blast
  let ?S = "set (pnodes (PN a f (ys @ x # c # zs)))"
  let ?h1 = "put_node (pa x) (\<lambda>n. n\<lparr>nxt := Some (pa c), prv := prv nd\<rparr>) h"
  let ?h2 = "put_node (pa c) (prv_update (\<lambda>_. Some (pa x))) ?h1"
  let ?h3 = "put_next ys (Some (pa x)) (put_child (ys = []) a (Some (pa x)) ?h2)"
  have live: "nodes h a \<noteq> None" "nodes h (pa c) \<noteq> None"
    using array_atD(1) [OF arr] nd(1) by (auto simp: rd_def split: option.splits)
  obtain nx where nx: "nodes ?h2 (pa x) = Some nx" "prv nx = lastp None ys"
    using lo(7) ne(1) nd(3) by auto
  have a2: "nodes ?h2 a = nodes h a" "seg ?h2 None ys (Some (pa c))"
    using sp lo(3) ne by simp_all
  have "cJSON_InsertItemInArray_h (Some a) w (Some (pa x)) h = Inr ?h3"
    using array_walk(1,3) [OF arr] array_walk(2) [OF arr w] nd rd_cong [OF a2(1)] link_before [OF _ nx a2(2), of a "Some (pa x)"]
      live lo(7) ne(1) a2(1)
    by (simp add: cJSON_InsertItemInArray_h_def wr_live del: walk.simps firstn_append split del: if_split)
  moreover have sbS: "same_but S h ?h3" if "set (own_nodes ys) \<subseteq> S" "a \<in> S" "pa x \<in> S" "pa c \<in> S" for S
    using that by (simp del: set_concat)
  have sb: "same_but ?S h ?h3" by (rule sbS) auto
  moreover have "array_at ?h3 p n (PN a f (ys @ x # c # zs))"
  proof (rule array_atI [OF arr sb])
    have "seg ?h3 None ys (Some (pa x))"
      using sp ne lo by (intro seg_put_next_same [where n = "Some (pa c)"]) simp_all
    moreover have "holds ?h3 (lastp None ys) (Some (pa c)) x"
      using sp ne lo nd(3) by (simp add: holds_put_links [where n = None and p = None])
    moreover have "holds ?h3 (Some (pa x)) (firstn zs None) c" "seg ?h3 (Some (pa c)) zs None"
      using sp ne lo by (simp_all add: holds_put_links [where n = "firstn zs None" and p = "lastp None ys"])
    ultimately show "seg ?h3 None (ys @ x # c # zs) None" by simp
    show "distinct (a # own_nodes (ys @ x # c # zs))" using sp ne lo by auto
    show "nodes ?h3 a = Some (f\<lparr>nxt := n, prv := p, chd := firstn (ys @ x # c # zs) None\<rparr>)"
      using a2(1) array_atD(1) [OF arr] sp(11) by (cases ys) (simp_all add: put_child_def)
  qed
  ultimately show ?thesis by blast
qed

text \<open>A loose item is deleted; an array that shares nothing with it stays.\<close>

lemma delete_loose:
  assumes "heap_ok h" "loose h t x" "distinct (ptexts x)" "set (ptexts x) \<subseteq> dom (texts h)"
  shows "cJSON_Delete (Some (pa x)) h = Inr (free_all (set (pnodes x)) (set (ptexts x)) h)"
  using cJSON_Delete_owned [OF assms(1), of None "[x]"] assms(2-4) by (simp add: owned_def loose_def)

lemma array_at_free_all:
  assumes "array_at h p n t" "N \<inter> set (pnodes t) = {}"
  shows "array_at (free_all N T h) p n t"
proof -
  have "holds (free_all N T h) p n t = holds h p n t"
    using assms(2) by (intro holds_frame(1)) (auto simp: restrict_map_def)
  then show ?thesis using assms(1) by (auto simp: array_at_def heap_ok_def)
qed

lemma same_but_heap_ok: "same_but S h h' \<Longrightarrow> heap_ok h \<Longrightarrow> heap_ok h'"
  by (simp add: same_but_def heap_ok_def)

text \<open>The heap in which \<open>x\<close> has taken the place of \<open>c\<close>, before \<open>c\<close> is deleted.\<close>

definition replaced :: "addr \<Rightarrow> pnode list \<Rightarrow> pnode \<Rightarrow> pnode list \<Rightarrow> pnode \<Rightarrow> heap \<Rightarrow> heap" where
  "replaced a ys c zs x h =
     put_node (pa c) (\<lambda>n. n\<lparr>nxt := None, prv := None\<rparr>) (put_next ys (Some (pa x)) (put_child (ys = []) a (Some (pa x))
       (put_prev zs (Some (pa x)) (put_node (pa x) (\<lambda>n. n\<lparr>nxt := firstn zs None, prv := lastp None ys\<rparr>) h))))"

lemma replaced_call:
  assumes arr: "array_at h p n (PN a f (ys @ c # zs))" and w: "nat w = length ys"
    and new: "loose h (PN a f (ys @ c # zs)) x"
  shows "cJSON_ReplaceItemInArray_h (Some a) w (Some (pa x)) h = cJSON_Delete (Some (pa c)) (replaced a ys c zs x h)"
proof -
  note sp = array_split [OF arr] and lo = looseD [OF new] and ne = loose_split [OF new]
  obtain nd where nd: "rd (Some (pa c)) h = Inr nd" "nxt nd = firstn zs None" "prv nd = lastp None ys"
    using array_walk(4) [OF arr] by blast
  let ?h1 = "put_node (pa x) (\<lambda>n. n\<lparr>nxt := nxt nd, prv := prv nd\<rparr>) h"
  let ?h2 = "put_prev zs (Some (pa x)) ?h1"
  let ?h3 = "put_next ys (Some (pa x)) (put_child (ys = []) a (Some (pa x)) ?h2)"
  have live: "nodes h a \<noteq> None" "nodes h (pa c) \<noteq> None"
    using array_atD(1) [OF arr] nd(1) by (auto simp: rd_def split: option.splits)
  have nx: "nodes ?h2 (pa x) \<noteq> None" "prv (the (nodes ?h2 (pa x))) = lastp None ys"
    using lo(7) ne(3) nd(3) by auto
  have a2: "nodes ?h2 a = nodes h a" "seg ?h2 None ys (Some (pa c))" "nodes ?h3 (pa c) = nodes h (pa c)"
    using sp lo(3) ne by simp_all
  have "when_ptr (nxt nd) (wr (nxt nd) (prv_update (\<lambda>_. Some (pa x)))) ?h1 = Inr ?h2"
    unfolding nd(2) using sp(3) ne(3) by (intro when_put_prev) simp
  then have "cJSON_ReplaceItemInArray_h (Some a) w (Some (pa x)) h =
      cJSON_Delete (Some (pa c)) (put_node (pa c) (\<lambda>n. n\<lparr>nxt := None, prv := None\<rparr>) ?h3)"
    using array_walk(1,3) [OF arr] array_walk(2) [OF arr w] nd(1) rd_cong [OF a2(1)]
      link_before [of ?h2 a "pa x" _ ys, OF _ _ nx(2) a2(2)]
      live lo(7) ne(1) a2 nx(1) wr_live [of ?h3 "pa c"]
    by (simp add: cJSON_ReplaceItemInArray_h_def wr_live del: walk.simps firstn_append split del: if_split)
  then show ?thesis by (simp add: replaced_def nd)
qed

lemma replaced_links:
  assumes arr: "array_at h p n (PN a f (ys @ c # zs))" and new: "loose h (PN a f (ys @ c # zs)) x"
  shows "same_but (set (pnodes (PN a f (ys @ x # c # zs)))) h (replaced a ys c zs x h)"
    "array_at (replaced a ys c zs x h) p n (PN a f (ys @ x # zs))" "loose (replaced a ys c zs x h) (PN a f (ys @ x # zs)) c"
proof -
  note sp = array_split [OF arr] and lo = looseD [OF new] and ne = loose_split [OF new]
  let ?h = "replaced a ys c zs x h"
  have sbS: "same_but S h ?h" if "set (own_nodes ys) \<subseteq> S" "set (own_nodes zs) \<subseteq> S" "{a, pa x, pa c} \<subseteq> S" for S
    using that by (simp add: replaced_def del: set_concat)
  show sb: "same_but (set (pnodes (PN a f (ys @ x # c # zs)))) h ?h" by (rule sbS) auto
  show "array_at ?h p n (PN a f (ys @ x # zs))"
  proof (rule array_atI [OF arr sb])
    have "seg ?h None ys (Some (pa x))"
      using sp ne lo unfolding replaced_def by (simp add: seg_put_next_same [where n = "Some (pa c)"])
    moreover have "holds ?h (lastp None ys) (firstn zs None) x"
      using sp ne lo by (simp add: replaced_def holds_put_links [where n = None and p = None])
    moreover have "seg ?h (Some (pa x)) zs None"
      using sp ne lo by (simp add: replaced_def seg_put_prev_same [where p = "Some (pa c)"])
    ultimately show "seg ?h None (ys @ x # zs) None" by simp
    show "distinct (a # own_nodes (ys @ x # zs))" using sp ne lo by auto
    show "nodes ?h a = Some (f\<lparr>nxt := n, prv := p, chd := firstn (ys @ x # zs) None\<rparr>)"
      using array_atD(1) [OF arr] sp lo(3) by (cases ys) (simp_all add: replaced_def put_child_def)
  qed
  show "loose ?h (PN a f (ys @ x # zs)) c"
    using sp ne by (auto simp: replaced_def loose_def intro!: holds_put_links [where n = "firstn zs None" and p = "lastp None ys"])
qed

lemma replace_item:
  assumes arr: "array_at h p n (PN a f (ys @ c # zs))" and w: "nat w = length ys"
    and new: "loose h (PN a f (ys @ c # zs)) x"
    and tx: "distinct (ptexts c)" "set (ptexts c) \<subseteq> dom (texts h)"
  shows "cJSON_ReplaceItemInArray_h (Some a) w (Some (pa x)) h =
      Inr (free_all (set (pnodes c)) (set (ptexts c)) (replaced a ys c zs x h))"
    "array_at (free_all (set (pnodes c)) (set (ptexts c)) (replaced a ys c zs x h)) p n (PN a f (ys @ x # zs))"
proof -
  note rl = replaced_links [OF arr new]
  have ok: "heap_ok (replaced a ys c zs x h)" "texts (replaced a ys c zs x h) = texts h"
    using rl(1,2) by (auto simp: array_at_def same_but_def)
  show "cJSON_ReplaceItemInArray_h (Some a) w (Some (pa x)) h =
      Inr (free_all (set (pnodes c)) (set (ptexts c)) (replaced a ys c zs x h))"
    unfolding replaced_call [OF arr w new] using tx ok(2) by (intro delete_loose [OF ok(1) rl(3)]) simp_all
  show "array_at (free_all (set (pnodes c)) (set (ptexts c)) (replaced a ys c zs x h)) p n (PN a f (ys @ x # zs))"
    using rl(3) by (intro array_at_free_all [OF rl(2)]) (auto simp: loose_def)
qed

section \<open>Editing refines the tree operations\<close>

text \<open>The texts a tree uses without owning them: what a reference points to, and constant names.\<close>

fun borrowed :: "pnode \<Rightarrow> addr set" where
  "borrowed (PN a f ch) = (if is_ref f then set_option (ntext f) else {}) \<union>
     (if is_const f then set_option (nname f) else {}) \<union> \<Union> (set (map borrowed ch))"

definition texts_ok :: "heap \<Rightarrow> pnode \<Rightarrow> bool" where
  "texts_ok h t \<longleftrightarrow> distinct (ptexts t) \<and> set (ptexts t) \<subseteq> dom (texts h) \<and> borrowed t \<inter> set (ptexts t) = {}"

lemma texts_ok_split:
  assumes "texts_ok h (PN a f (us @ x # vs))"
  shows "distinct (ptexts x)" "set (ptexts x) \<subseteq> dom (texts h)" "texts_ok h (PN a f (us @ vs))"
    "set (ptexts x) \<inter> (set (ptexts (PN a f (us @ vs))) \<union> borrowed (PN a f (us @ vs))) = {}"
proof -
  let ?t = "PN a f (us @ vs)"
  have eq: "set (ptexts (PN a f (us @ x # vs))) = set (ptexts ?t) \<union> set (ptexts x)" "borrowed (PN a f (us @ x # vs)) = borrowed ?t \<union> borrowed x"
    by auto
  have dis: "distinct (ptexts ?t)" "distinct (ptexts x)" "set (ptexts x) \<inter> set (ptexts ?t) = {}"
    using assms by (auto simp: texts_ok_def)
  show "distinct (ptexts x)" by fact
  show "set (ptexts x) \<subseteq> dom (texts h)" "texts_ok h ?t" "set (ptexts x) \<inter> (set (ptexts ?t) \<union> borrowed ?t) = {}"
    using assms dis unfolding texts_ok_def eq by blast+
qed

lemma tree_of_free_all:
  "T \<inter> (set (ptexts x) \<union> borrowed x) = {} \<Longrightarrow> tree_of (free_all N T h) x = tree_of h x"
proof (induction x)
  case (PN a f ch)
  have "set_option (ntext f) \<union> set_option (nname f) \<subseteq> set (root_texts f) \<union> borrowed (PN a f [])"
    by (auto simp: root_texts_def)
  then have "T \<inter> (set_option (ntext f) \<union> set_option (nname f)) = {}"
    using PN.prems by auto
  then have "text_at (free_all N T h) (ntext f) = text_at h (ntext f)" "text_at (free_all N T h) (nname f) = text_at h (nname f)"
    by (auto simp: text_at_def split: option.splits)
  moreover have "tree_of (free_all N T h) c = tree_of h c" if "c \<in> set ch" for c
    using that PN.prems by (intro PN.IH) auto
  ultimately show ?case by simp
qed

lemma tree_of_same_but: "same_but S h h' \<Longrightarrow> tree_of h' x = tree_of h x"
  by (rule tree_of_texts) (simp add: same_but_def)

lemma array_walk_end:
  assumes "array_at h p n (PN a f xs)" "length xs \<le> nat w"
  shows "rd (Some a) h = Inr (f\<lparr>nxt := n, prv := p, chd := firstn xs None\<rparr>)" "walk (Suc (brk h)) w (firstn xs None) h = Inr None"
  using array_atD(1,6) [OF assms(1)] walk_seg [OF array_atD(2) [OF assms(1)], of "Suc (brk h)" w] assms(2)
  by (simp_all add: rd_def del: walk.simps)

lemma split_at:
  assumes "i < length xs" shows "\<exists>ys x zs. xs = ys @ x # zs \<and> length ys = i"
proof -
  have "length (take i xs) = i" using assms by simp
  then show ?thesis using id_take_nth_drop [OF assms] by blast
qed

text \<open>A heap with an object, whose members are a string and a null, and a string that stands alone.\<close>

definition demo_root :: cnode where "demo_root = blank_node\<lparr>ntype := cJSON_Object\<rparr>"

definition demo_kids :: "pnode list" where
  "demo_kids = [PN 1 (blank_node\<lparr>ntype := cJSON_String, ntext := Some 3, nname := Some 6\<rparr>) [],
     PN 2 (blank_node\<lparr>ntype := cJSON_NULL, nname := Some 7\<rparr>) []]"

definition demo_item :: pnode where
  "demo_item = PN 4 (blank_node\<lparr>ntype := cJSON_String, ntext := Some 5\<rparr>) []"

definition demo_heap :: heap where
  "demo_heap = \<lparr>nodes = [0 \<mapsto> blank_node\<lparr>ntype := cJSON_Object, chd := Some 1\<rparr>,
       1 \<mapsto> blank_node\<lparr>ntype := cJSON_String, ntext := Some 3, nname := Some 6, nxt := Some 2\<rparr>,
       2 \<mapsto> blank_node\<lparr>ntype := cJSON_NULL, nname := Some 7, prv := Some 1\<rparr>,
       4 \<mapsto> blank_node\<lparr>ntype := cJSON_String, ntext := Some 5\<rparr>],
     texts = [3 \<mapsto> ''one'', 5 \<mapsto> ''two'', 6 \<mapsto> ''a'', 7 \<mapsto> ''b''], brk = 8\<rparr>"

lemmas demo_defs = demo_root_def demo_kids_def demo_item_def demo_heap_def blank_node_def cJSON_types

lemma demo_array_at: "array_at demo_heap None None (PN 0 demo_root demo_kids)"
  by (simp add: array_at_def heap_ok_def demo_defs is_ref_def cJSON_IsReference_def)

lemma demo_loose: "loose demo_heap (PN 0 demo_root demo_kids) demo_item"
  by (simp add: loose_def demo_defs is_ref_def cJSON_IsReference_def)

lemma demo_texts_ok: "texts_ok demo_heap (PN 0 demo_root demo_kids)"
  by (simp add: texts_ok_def demo_defs root_texts_def is_ref_def is_const_def cJSON_IsReference_def cJSON_StringIsConst_def)

text \<open>(C18) Inserting an item into an array, at any position, as the pointer assignments of the code do it, refines
  the insertion in the list of children: when the chain of children is properly linked, forwards and backwards,
  and the item is a separate tree, the operation returns, the chain is properly linked again, it represents the array with
  the item inserted, and nothing but the nodes of the two trees has been touched.\<close>

theorem insert_links_refine:
  assumes "array_at h p n (PN a f xs)" "loose h (PN a f xs) x"
  shows "\<exists>h' ys. cJSON_InsertItemInArray_h (Some a) which (Some (pa x)) h = Inr h' \<and> array_at h' p n (PN a f ys) \<and>
    tree_of h' (PN a f ys) = cJSON_InsertItemInArray (tree_of h (PN a f xs)) which (tree_of h x) \<and>
    set (pnodes (PN a f ys)) = set (pnodes (PN a f xs)) \<union> set (pnodes x) \<and> same_but (set (pnodes (PN a f ys))) h h'"
proof (cases "nat which < length xs")
  case True
  then obtain us c vs where xs: "xs = us @ c # vs" "nat which = length us" using split_at by metis
  let ?t = "PN a f (us @ x # c # vs)"
  obtain h' where h': "cJSON_InsertItemInArray_h (Some a) which (Some (pa x)) h = Inr h'"
    "array_at h' p n ?t" "same_but (set (pnodes ?t)) h h'"
    using insert_item [of h p n a f us c vs which x] assms xs by blast
  moreover have "tree_of h' ?t = cJSON_InsertItemInArray (tree_of h (PN a f xs)) which (tree_of h x)"
    unfolding tree_of_same_but [OF h'(3)] by (simp add: cJSON_InsertItemInArray_def xs)
  moreover have "set (pnodes ?t) = set (pnodes (PN a f xs)) \<union> set (pnodes x)" by (auto simp: xs)
  ultimately show ?thesis by blast
next
  case False
  let ?t = "PN a f (xs @ [x])"
  obtain h' where h': "cJSON_AddItemToArray_h (Some a) (Some (pa x)) h = Inr h'"
    "array_at h' p n ?t" "same_but (set (pnodes ?t)) h h'"
    using add_item [OF assms] by blast
  moreover have "cJSON_InsertItemInArray_h (Some a) which (Some (pa x)) h = cJSON_AddItemToArray_h (Some a) (Some (pa x)) h"
    using False array_walk_end [OF assms(1), of which] by (simp add: cJSON_InsertItemInArray_h_def del: walk.simps)
  moreover have "tree_of h' ?t = cJSON_InsertItemInArray (tree_of h (PN a f xs)) which (tree_of h x)"
    unfolding tree_of_same_but [OF h'(3)] using False by (simp add: cJSON_InsertItemInArray_def cJSON_AddItemToArray_def)
  moreover have "set (pnodes ?t) = set (pnodes (PN a f xs)) \<union> set (pnodes x)" by auto
  ultimately show ?thesis by metis
qed


theorem insert_links_refine_witness:
  "array_at demo_heap None None (PN 0 demo_root demo_kids) \<and> loose demo_heap (PN 0 demo_root demo_kids) demo_item \<and>
   (\<exists>h' ys. cJSON_InsertItemInArray_h (Some 0) 1 (Some (pa demo_item)) demo_heap = Inr h' \<and>
      map valuestring (child (tree_of h' (PN 0 demo_root ys))) = [Some ''one'', Some ''two'', None])"
proof -
  obtain h' ys where "cJSON_InsertItemInArray_h (Some 0) 1 (Some (pa demo_item)) demo_heap = Inr h'"
    "tree_of h' (PN 0 demo_root ys) =
      cJSON_InsertItemInArray (tree_of demo_heap (PN 0 demo_root demo_kids)) 1 (tree_of demo_heap demo_item)"
    using insert_links_refine [OF demo_array_at demo_loose, of 1] by blast
  moreover have "map valuestring (child (cJSON_InsertItemInArray (tree_of demo_heap (PN 0 demo_root demo_kids)) 1
      (tree_of demo_heap demo_item))) = [Some ''one'', Some ''two'', None]"
    by (simp add: cJSON_InsertItemInArray_def demo_defs text_at_def)
  ultimately show ?thesis using demo_array_at demo_loose by metis
qed

text \<open>Deleting the item at a position; beyond the end nothing happens.\<close>

lemma delete_item_refines:
  assumes "array_at h p n (PN a f xs)" "texts_ok h (PN a f xs)"
  shows "\<exists>h' ys. cJSON_DeleteItemFromArray_h (Some a) which h = Inr h' \<and> array_at h' p n (PN a f ys) \<and> texts_ok h' (PN a f ys) \<and>
    tree_of h' (PN a f ys) = cJSON_DeleteItemFromArray (tree_of h (PN a f xs)) which \<and>
    dom (nodes h') = dom (nodes h) - (set (pnodes (PN a f xs)) - set (pnodes (PN a f ys))) \<and>
    dom (texts h') = dom (texts h) - (set (ptexts (PN a f xs)) - set (ptexts (PN a f ys)))"
proof (cases "nat which < length xs")
  case True
  then obtain us x vs where xs: "xs = us @ x # vs" "nat which = length us" using split_at by metis
  let ?t = "PN a f (us @ vs)"
  obtain h1 where h1: "cJSON_DetachItemFromArray_h (Some a) which h = Inr (Some (pa x), h1)"
    "array_at h1 p n ?t" "loose h1 ?t x" "same_but (set (pnodes (PN a f xs))) h h1"
    using detach_item [of h p n a f us x vs which] assms(1) xs by blast
  let ?h = "free_all (set (pnodes x)) (set (ptexts x)) h1"
  have ok: "heap_ok h1" "texts h1 = texts h" "dom (nodes h1) = dom (nodes h)"
    using h1(2,4) by (auto simp: array_at_def same_but_def)
  have tx: "distinct (ptexts x)" "set (ptexts x) \<subseteq> dom (texts h)" "set (ptexts x) \<inter> (set (ptexts ?t) \<union> borrowed ?t) = {}"
    "texts_ok h ?t"
    using texts_ok_split [OF assms(2) [unfolded xs]] by blast+
  have "cJSON_DeleteItemFromArray_h (Some a) which h = Inr ?h"
    using delete_loose [OF ok(1) h1(3)] tx ok(2) by (simp add: cJSON_DeleteItemFromArray_h_def h1(1))
  moreover have "array_at ?h p n ?t" using h1(3) by (intro array_at_free_all [OF h1(2)]) (auto simp: loose_def)
  moreover have "texts_ok ?h ?t" using tx(3,4) ok(2) unfolding texts_ok_def by auto
  moreover have "tree_of ?h ?t = cJSON_DeleteItemFromArray (tree_of h (PN a f xs)) which"
    unfolding tree_of_free_all [OF tx(3)] tree_of_same_but [OF h1(4)]
    by (simp add: cJSON_DeleteItemFromArray_def cJSON_DetachItemFromArray_def xs)
  moreover have "set (pnodes (PN a f xs)) - set (pnodes ?t) = set (pnodes x)"
    "set (ptexts (PN a f xs)) - set (ptexts ?t) = set (ptexts x)"
    using h1(3) tx(3) by (auto simp: xs loose_def)
  ultimately show ?thesis using ok by (intro exI [of _ ?h] exI [of _ "us @ vs"]) (simp add: Diff_eq Int_commute)
next
  case False
  then have "cJSON_DeleteItemFromArray_h (Some a) which h = Inr h"
    using array_walk_end [OF assms(1), of which]
    by (simp add: cJSON_DeleteItemFromArray_h_def cJSON_DetachItemFromArray_h_def cJSON_Delete_def del: walk.simps)
  moreover have "tree_of h (PN a f xs) = cJSON_DeleteItemFromArray (tree_of h (PN a f xs)) which"
    using False by (simp add: cJSON_DeleteItemFromArray_def cJSON_DetachItemFromArray_def)
  ultimately show ?thesis using assms by (intro exI [of _ h] exI [of _ xs]) simp
qed

text \<open>The walk to a name in the chain.\<close>

lemma walk_name_seg:
  "seg h p xs None \<Longrightarrow> length xs < k \<Longrightarrow>
   walk_name k name i (firstn xs None) h =
     (let ws = takeWhile (\<lambda>x. cJSON_strcasecmp (jname (tree_of h x)) (Some name) \<noteq> 0) xs
      in Inr (i + int (length ws), firstn (drop (length ws) xs) None))"
proof (induction xs arbitrary: p k i)
  case Nil then show ?case by (cases k) auto
next
  case (Cons x xs)
  obtain j where k: "k = Suc j" using Cons.prems(2) by (cases k) auto
  obtain nd where "nodes h (pa x) = Some nd" "nxt nd = firstn xs None" "text_at h (nname nd) = jname (tree_of h x)"
    using Cons.prems(1) by (cases x) auto
  then show ?case
    using Cons.prems Cons.IH [of "Some (pa x)" j "i + 1"] by (auto simp: k rd_def Let_def)
qed

lemma detach_name_call:
  assumes "array_at h p n (PN a f xs)"
  shows "cJSON_DetachItemFromObject_h (Some a) name h =
    (let i = name_index (tree_of h (PN a f xs)) name
     in if i < length xs then cJSON_DetachItemFromArray_h (Some a) (int i) h else Inr (None, h))"
proof -
  have "walk_name (Suc (brk h)) name 0 (firstn xs None) h =
      Inr (int (name_index (tree_of h (PN a f xs)) name), firstn (drop (name_index (tree_of h (PN a f xs)) name) xs) None)"
    using walk_name_seg [OF array_atD(2) [OF assms], of "Suc (brk h)" name 0] array_atD(6) [OF assms]
    by (simp add: name_index_def takeWhile_map Let_def comp_def del: walk_name.simps)
  moreover have "firstn (drop i xs) None = None \<longleftrightarrow> \<not> i < length xs" for i
    by (cases "i < length xs") (simp_all add: Cons_nth_drop_Suc [symmetric])
  ultimately show ?thesis
    using array_atD(1) [OF assms] by (simp add: cJSON_DetachItemFromObject_h_def rd_def Let_def del: walk_name.simps)
qed

text \<open>(C17) Deleting a member of an object by its name frees the nodes and the texts of the first member with that
  name, each block once and no other block; the chain of the other members is properly linked again and represents the
  object without the member. When no member has the name nothing happens.\<close>

theorem delete_member_refines:
  assumes "array_at h p n (PN a f xs)" "texts_ok h (PN a f xs)"
  shows "\<exists>h' ys. cJSON_DeleteItemFromObject_h (Some a) name h = Inr h' \<and> array_at h' p n (PN a f ys) \<and> texts_ok h' (PN a f ys) \<and>
    tree_of h' (PN a f ys) = cJSON_DeleteItemFromObject (tree_of h (PN a f xs)) name \<and>
    dom (nodes h') = dom (nodes h) - (set (pnodes (PN a f xs)) - set (pnodes (PN a f ys))) \<and>
    dom (texts h') = dom (texts h) - (set (ptexts (PN a f xs)) - set (ptexts (PN a f ys)))"
proof -
  define i where "i = name_index (tree_of h (PN a f xs)) name"
  show ?thesis
  proof (cases "i < length xs")
    case True
    then have "cJSON_DeleteItemFromObject_h (Some a) name h = cJSON_DeleteItemFromArray_h (Some a) (int i) h"
      "cJSON_DeleteItemFromObject (tree_of h (PN a f xs)) name = cJSON_DeleteItemFromArray (tree_of h (PN a f xs)) (int i)"
      using detach_name_call [OF assms(1), of name]
      by (simp_all add: cJSON_DeleteItemFromObject_h_def cJSON_DeleteItemFromArray_h_def cJSON_DeleteItemFromObject_def
          cJSON_DeleteItemFromArray_def cJSON_DetachItemFromObject_def i_def Let_def)
    then show ?thesis using delete_item_refines [OF assms, of "int i"] by simp
  next
    case False
    then have "cJSON_DeleteItemFromObject_h (Some a) name h = Inr h"
      "tree_of h (PN a f xs) = cJSON_DeleteItemFromObject (tree_of h (PN a f xs)) name"
      using detach_name_call [OF assms(1), of name]
      by (simp_all add: cJSON_DeleteItemFromObject_h_def cJSON_Delete_def cJSON_DeleteItemFromObject_def
          cJSON_DetachItemFromObject_def i_def Let_def)
    then show ?thesis using assms by (intro exI [of _ h] exI [of _ xs]) simp
  qed
qed

theorem delete_member_refines_witness:
  "texts_ok demo_heap (PN 0 demo_root demo_kids) \<and>
   (\<exists>h' ys. cJSON_DeleteItemFromObject_h (Some 0) ''B'' demo_heap = Inr h' \<and>
      map valuestring (child (tree_of h' (PN 0 demo_root ys))) = [Some ''one''])"
proof -
  obtain h' ys where "cJSON_DeleteItemFromObject_h (Some 0) ''B'' demo_heap = Inr h'"
    "tree_of h' (PN 0 demo_root ys) = cJSON_DeleteItemFromObject (tree_of demo_heap (PN 0 demo_root demo_kids)) ''B''"
    using delete_member_refines [OF demo_array_at demo_texts_ok, of "''B''"] by blast
  moreover have "tree_of demo_heap (PN 0 demo_root demo_kids) = CJSON 6 None 0 (Fin 0) None
      [CJSON 4 (Some ''one'') 0 (Fin 0) (Some ''a'') [], CJSON 2 None 0 (Fin 0) (Some ''b'') []]"
    by (simp add: demo_defs text_at_def)
  moreover have "map valuestring (child (cJSON_DeleteItemFromObject (CJSON 6 None 0 (Fin 0) None
      [CJSON 4 (Some ''one'') 0 (Fin 0) (Some ''a'') [], CJSON 2 None 0 (Fin 0) (Some ''b'') []]) ''B'')) = [Some ''one'']"
    by code_simp
  ultimately show ?thesis using demo_texts_ok by metis
qed

text \<open>Adding a member under a name: the old name of the item is freed whether or not the item owns it, so the text that
  a caller has passed to \<open>cJSON_AddItemToObjectCS\<close> is gone after the item has been moved to another object.\<close>

lemma add_member:
  assumes arr: "array_at h p n (PN a f xs)" and new: "loose h (PN a f xs) (PN i g ch)"
    and ok: "ok (brk h)" and nm: "set_option (nname g) \<subseteq> dom (texts h)"
  shows "\<exists>h'. cJSON_AddItemToObject_h ok (Some a) name (Some i) h = Inr h' \<and>
    array_at h' p n (PN a f (xs @ [PN i (g\<lparr>nname := Some (brk h)\<rparr>) ch])) \<and>
    texts h' = (texts h |` (- set_option (nname g)))(brk h \<mapsto> name)"
proof -
  let ?t = "PN a f xs" and ?x = "PN i (g\<lparr>nname := Some (brk h)\<rparr>) ch"
  let ?h1 = "free_all {} (set_option (nname g)) h"
  let ?h2 = "?h1\<lparr>brk := Suc (brk h), texts := (texts ?h1)(brk h \<mapsto> name)\<rparr>"
  let ?h3 = "put_node i (nname_update (\<lambda>_. Some (brk h))) ?h2"
  note lo = looseD [OF new]
  obtain nd where nd: "nodes h i = Some nd" "nname nd = nname g" using lo(1) by auto
  have n3: "nodes ?h3 b = nodes h b" if "b \<noteq> i" for b using that by (simp add: restrict_map_def)
  have call: "cJSON_AddItemToObject_h ok (Some a) name (Some i) h = cJSON_AddItemToArray_h (Some a) (Some i) ?h3"
    using nd ok free_text_all [OF nm] by (simp add: cJSON_AddItemToObject_h_def rd_def wr_def cJSON_strdup_def restrict_map_def)
  have "holds ?h3 p n ?t = holds h p n ?t"
    using lo(3,4) by (intro holds_frame(1)) (metis n3 list.set_intros(1) new looseD(3,4) pnode.sel(1) pnodes.simps set_ConsD)
  moreover have "heap_ok ?h3" "texts ?h3 = (texts h |` (- set_option (nname g)))(brk h \<mapsto> name)"
    using array_atD(7) [OF arr] nd by (fastforce simp: heap_ok_def restrict_map_def subset_iff less_Suc_eq split: if_splits)+
  ultimately have arr3: "array_at ?h3 p n ?t" using arr by (simp add: array_at_def del: holds.simps)
  have "seg ?h3 None ch None = seg h None ch None"
    using lo(2) by (intro holds_frame(2)) (auto simp: restrict_map_def)
  then have lo3: "loose ?h3 ?t ?x"
    using new by (auto simp: loose_def is_ref_def)
  obtain h' where "cJSON_AddItemToArray_h (Some a) (Some i) ?h3 = Inr h'" "array_at h' p n (PN a f (xs @ [?x]))"
    "same_but (set (pnodes (PN a f (xs @ [?x])))) ?h3 h'"
    using add_item [OF arr3 lo3] unfolding pnode.sel by blast
  then show ?thesis using call by (auto simp: same_but_def)
qed

section \<open>References\<close>

lemma or_flag: "(t OR 256) AND 256 \<noteq> (0::int)"
proof -
  have "bit ((t OR 256) AND 256) 8" by (simp add: bit_simps)
  then show ?thesis by auto
qed

text \<open>The node that refers to another node, and the heap with it.\<close>

definition reference_to :: "cnode \<Rightarrow> cnode" where
  "reference_to nd = nd\<lparr>nname := None, ntype := ntype nd OR cJSON_IsReference, nxt := None, prv := None\<rparr>"

definition with_reference :: "cnode \<Rightarrow> heap \<Rightarrow> heap" where
  "with_reference nd h = h\<lparr>nodes := (nodes h)(brk h \<mapsto> reference_to nd), brk := Suc (brk h)\<rparr>"

lemma reference_to_simps [simp]:
  "is_ref (reference_to nd)" "root_texts (reference_to nd) = []" "chd (reference_to nd) = chd nd"
  by (simp_all add: reference_to_def is_ref_def root_texts_def cJSON_IsReference_def or_flag)

lemma heap_ok_fresh: "heap_ok h \<Longrightarrow> nodes h (brk h) = None"
  by (auto simp: heap_ok_def)

lemma create_reference_heap:
  assumes "heap_ok h" "nodes h b = Some nd" "ok (brk h)"
  shows "create_reference ok (Some b) h = Inr (Some (brk h), with_reference nd h)"
proof -
  have "b \<noteq> brk h" using heap_ok_fresh [OF assms(1)] assms(2) by auto
  then show ?thesis using assms(2,3)
    by (simp add: create_reference_def cJSON_New_Item_h_def rd_def wr_def put_node_def with_reference_def reference_to_def)
qed

lemma with_reference_keeps:
  assumes "array_at h p n t"
  shows "array_at (with_reference nd h) p n t" "loose (with_reference nd h) t (PN (brk h) (reference_to nd) [])"
proof -
  have live: "nodes h b \<noteq> None" if "b \<in> set (pnodes t)" for b
    using holds_live(1) that assms by (auto simp: array_at_def)
  have fresh: "brk h \<notin> set (pnodes t)"
    using heap_ok_fresh [of h] live [of "brk h"] assms by (auto simp: array_at_def)
  then have "holds (with_reference nd h) p n t = holds h p n t"
    by (intro holds_frame(1)) (auto simp: with_reference_def)
  then show "array_at (with_reference nd h) p n t"
    using assms by (auto simp: array_at_def heap_ok_def with_reference_def less_Suc_eq)
  have "f\<lparr>nxt := None, prv := None, chd := chd f\<rparr> = f" if "f = reference_to nd" for f
    using that by (simp add: reference_to_def)
  then show "loose (with_reference nd h) t (PN (brk h) (reference_to nd) [])"
    using fresh by (simp add: loose_def with_reference_def)
qed


text \<open>(C19) An item that is added to an array by reference is neither copied nor owned by it: the array gets a node that has
  the children and the text of the item, and when the array is deleted afterwards, exactly the blocks that it had before are freed,
  together with the new node. No block is freed twice and none is lost, and the item with everything below it is as it was.\<close>

theorem reference_deleted_item_stays:
  assumes "array_at h None None (PN a f xs)" "texts_ok h (PN a f xs)" "ok (brk h)" "holds h q r y"
    "set (pnodes (PN a f xs)) \<inter> set (pnodes y) = {}" "set (ptexts (PN a f xs)) \<inter> (set (ptexts y) \<union> borrowed y) = {}"
  shows "\<exists>nd h1 h2. nodes h (pa y) = Some nd \<and> cJSON_AddItemReferenceToArray ok (Some a) (Some (pa y)) h = Inr h1 \<and>
    array_at h1 None None (PN a f (xs @ [PN (brk h) (reference_to nd) []])) \<and> cJSON_Delete (Some a) h1 = Inr h2 \<and>
    nodes h2 = nodes h |` (- set (pnodes (PN a f xs))) \<and> texts h2 = texts h |` (- set (ptexts (PN a f xs))) \<and>
    holds h2 q r y \<and> tree_of h2 y = tree_of h y"
proof -
  let ?t = "PN a f xs"
  obtain nd where nd: "nodes h (pa y) = Some nd" using holds_node [OF assms(4)] by blast
  let ?r = "PN (brk h) (reference_to nd) []"
  let ?t1 = "PN a f (xs @ [?r])"
  let ?g = "with_reference nd h"
  have ok: "heap_ok h" using assms(1) by (simp add: array_at_def)
  obtain h1 where h1: "cJSON_AddItemToArray_h (Some a) (Some (brk h)) ?g = Inr h1" "array_at h1 None None ?t1"
    "same_but (set (pnodes ?t1)) ?g h1"
    using add_item [OF with_reference_keeps [OF assms(1), of nd]] by auto
  let ?h2 = "free_all (set (pnodes ?t1)) (set (ptexts ?t)) h1"
  have tx: "ptexts ?t1 = ptexts ?t" "texts h1 = texts h"
    using h1(3) by (simp_all add: same_but_def with_reference_def)
  have add: "cJSON_AddItemReferenceToArray ok (Some a) (Some (pa y)) h = Inr h1"
    using create_reference_heap [where ok = ok, OF ok nd assms(3)] h1(1) by (simp add: cJSON_AddItemReferenceToArray_def)
  have "owned h1 None [?t1] None"
    using h1(2) assms(2) tx by (simp add: owned_def array_at_def texts_ok_def del: holds.simps pnodes.simps ptexts.simps)
  then have del: "cJSON_Delete (Some a) h1 = Inr ?h2"
    using cJSON_Delete_owned [of h1 None "[?t1]"] h1(2) tx(1) by (simp add: array_at_def del: holds.simps pnodes.simps ptexts.simps)
  have nodes2: "nodes ?h2 = nodes h |` (- set (pnodes ?t))"
    using h1(3) heap_ok_fresh [OF ok] by (auto simp: same_but_def with_reference_def restrict_map_def fun_eq_iff)
  have texts2: "texts ?h2 = texts h |` (- set (ptexts ?t))" by (simp add: tx)
  have "holds ?h2 q r y"
    using assms(4,5) nodes2 by (subst holds_frame(1) [where h = h]) (auto simp: restrict_map_def)
  moreover have "tree_of ?h2 y = tree_of h y"
    using tree_of_free_all [OF assms(6)] tree_of_texts [OF tx(2)] by simp
  ultimately show ?thesis using nd add h1(2) del nodes2 texts2 by blast
qed

theorem reference_deleted_item_stays_witness:
  "\<exists>h1 h2. cJSON_AddItemReferenceToArray (\<lambda>_. True) (Some 0) (Some (pa demo_item)) demo_heap = Inr h1 \<and>
     cJSON_Delete (Some 0) h1 = Inr h2 \<and> dom (nodes h2) = {4} \<and> dom (texts h2) = {5} \<and>
     tree_of h2 demo_item = tree_of demo_heap demo_item"
proof -
  have "set (pnodes (PN 0 demo_root demo_kids)) \<inter> set (pnodes demo_item) = {}"
    "set (ptexts (PN 0 demo_root demo_kids)) \<inter> (set (ptexts demo_item) \<union> borrowed demo_item) = {}"
    "holds demo_heap None None demo_item"
    using demo_loose
    by (simp_all add: loose_def demo_defs root_texts_def is_ref_def is_const_def cJSON_IsReference_def cJSON_StringIsConst_def)
  then obtain h1 h2 where "cJSON_AddItemReferenceToArray (\<lambda>_. True) (Some 0) (Some (pa demo_item)) demo_heap = Inr h1"
    "cJSON_Delete (Some 0) h1 = Inr h2" and
    h2: "nodes h2 = nodes demo_heap |` (- set (pnodes (PN 0 demo_root demo_kids)))"
    "texts h2 = texts demo_heap |` (- set (ptexts (PN 0 demo_root demo_kids)))" "tree_of h2 demo_item = tree_of demo_heap demo_item"
    using reference_deleted_item_stays [OF demo_array_at demo_texts_ok, of "\<lambda>_. True" None None demo_item] by blast
  moreover have "dom (nodes h2) = {4}" "dom (texts h2) = {5}"
    unfolding h2 by (auto simp: demo_defs root_texts_def is_ref_def is_const_def cJSON_IsReference_def cJSON_StringIsConst_def)
  ultimately show ?thesis by blast
qed

end
