(* ===== verification/CJSONBuffer.thy ===== *)
theory CJSONBuffer
  imports CJSONCorrect
begin

text \<open>
  Printing into one growing buffer: \<open>cJSON_PrintBuffered\<close> of \<open>src/src/cJSON.cpp\<close> with the branches
  \<open>if (p)\<close> of the print functions. The buffer is a function from offsets to characters, where
  \<open>None\<close> is a byte that was never written; \<open>strlen\<close> over such a byte is a fault, and so is
  every access behind \<open>length\<close>. The \<open>n\<close>-th call of \<open>cJSON_malloc\<close> with a size \<open>k\<close> succeeds iff \<open>ok n k\<close>,
  so running out of memory is a behaviour of the model. A pointer a function returns is an offset into
  the buffer, or \<open>None\<close>. The theorem is that the buffered printer is equivalent to the
  unbuffered one, for every size of the first buffer.
\<close>

section \<open>The buffer\<close>

record printbuffer =
  buffer :: "(nat \<Rightarrow> char option) option"   \<comment> \<open>\<open>None\<close> is the null pointer\<close>
  plength :: int                            \<comment> \<open>\<open>length\<close>\<close>
  poffset :: nat                            \<comment> \<open>\<open>offset\<close>\<close>
  mallocs :: nat                            \<comment> \<open>how often \<open>cJSON_malloc\<close> was called\<close>

text \<open>\<open>x |= x >> n\<close>\<close>

definition smear :: "nat \<Rightarrow> int \<Rightarrow> int" where
  "smear n x = x OR drop_bit n x"

definition pow2gt :: "int \<Rightarrow> int res" where
  "pow2gt x =
     (let y = smear 16 (smear 8 (smear 4 (smear 2 (smear 1 (x - 1)))))
      in if x - 1 < INT_MIN \<or> INT_MAX < y + 1 then Inl SignedOverflow else Inr (y + 1))"

definition ensure :: "(nat \<Rightarrow> int \<Rightarrow> bool) \<Rightarrow> nat \<Rightarrow> printbuffer \<Rightarrow> (nat option \<times> printbuffer) res" where
  "ensure ok needed p =
     (case buffer p of
        None \<Rightarrow> Inr (None, p)
      | Some b \<Rightarrow>
          (let needed' = int needed + int (poffset p)
           in if INT_MAX < needed' then Inl SignedOverflow
              else if needed' \<le> plength p then Inr (Some (poffset p), p)
              else ebind (pow2gt needed') (\<lambda>newsize.
                   if ok (mallocs p) newsize
                   then Inr (Some (poffset p), p\<lparr>buffer := Some (\<lambda>a. if int a < plength p then b a else None),
                                plength := newsize, mallocs := Suc (mallocs p)\<rparr>)
                   else Inr (None, p\<lparr>buffer := None, plength := 0, mallocs := Suc (mallocs p)\<rparr>))))"

text \<open>The characters from an offset up to the next NUL, as \<open>strlen\<close> and the caller read them.\<close>

function chars_at :: "(nat \<Rightarrow> char option) \<Rightarrow> nat \<Rightarrow> nat \<Rightarrow> string res" where
  "chars_at b len a =
     (if len \<le> a then Inl OutOfBounds
      else (case b a of
              None \<Rightarrow> Inl Indeterminate
            | Some c \<Rightarrow> if c = CHR 0x00 then Inr [] else ebind (chars_at b len (Suc a)) (\<lambda>s. Inr (c # s))))"
  by pat_completeness auto
termination
  by (relation "measure (\<lambda>(b, len, a). len - a)") auto

declare chars_at.simps [simp del]

definition update :: "printbuffer \<Rightarrow> nat res" where
  "update p =
     (case buffer p of
        None \<Rightarrow> Inr 0
      | Some b \<Rightarrow> ebind (chars_at b (nat (plength p)) (poffset p)) (\<lambda>s. Inr (poffset p + length s)))"

text \<open>Writing characters at an offset; \<open>emit\<close> is the \<open>ensure\<close> that precedes them, the test of its result
  and the writes. The text includes the NUL where the code writes one.\<close>

definition put :: "nat \<Rightarrow> string \<Rightarrow> printbuffer \<Rightarrow> printbuffer res" where
  "put a s p =
     (case buffer p of
        None \<Rightarrow> Inl NullDeref
      | Some b \<Rightarrow>
          if int (a + length s) \<le> plength p
          then Inr (p\<lparr>buffer := Some (\<lambda>x. if a \<le> x \<and> x < a + length s then Some (s ! (x - a)) else b x)\<rparr>)
          else Inl OutOfBounds)"

definition emit :: "(nat \<Rightarrow> int \<Rightarrow> bool) \<Rightarrow> nat \<Rightarrow> string \<Rightarrow> printbuffer \<Rightarrow> (nat option \<times> printbuffer) res" where
  "emit ok needed s p = ebind (ensure ok needed p) (\<lambda>(out, p1).
     case out of None \<Rightarrow> Inr (None, p1) | Some a \<Rightarrow> ebind (put a s p1) (\<lambda>p2. Inr (Some a, p2)))"

text \<open>\<open>if (!ptr) return 0;\<close> and \<open>p->offset += k\<close>\<close>

definition proceed :: "(nat option \<times> printbuffer) res \<Rightarrow> (nat \<Rightarrow> printbuffer \<Rightarrow> (nat option \<times> printbuffer) res) \<Rightarrow>
    (nat option \<times> printbuffer) res" where
  "proceed x k = ebind x (\<lambda>(out, p). case out of None \<Rightarrow> Inr (None, p) | Some a \<Rightarrow> k a p)"

definition emit_past :: "(nat \<Rightarrow> int \<Rightarrow> bool) \<Rightarrow> nat \<Rightarrow> string \<Rightarrow> nat \<Rightarrow> printbuffer \<Rightarrow> (nat option \<times> printbuffer) res" where
  "emit_past ok needed s k p =
     proceed (emit ok needed s p) (\<lambda>a p1. Inr (Some a, p1\<lparr>poffset := poffset p1 + k\<rparr>))"

text \<open>A nested print call whose result is ignored, then \<open>p->offset = update(p)\<close>\<close>

definition settle :: "(nat option \<times> printbuffer) res \<Rightarrow> (printbuffer \<Rightarrow> (nat option \<times> printbuffer) res) \<Rightarrow>
    (nat option \<times> printbuffer) res" where
  "settle x k = ebind x (\<lambda>(_, p). ebind (update p) (\<lambda>off. k (p\<lparr>poffset := off\<rparr>)))"

section \<open>The print functions with a buffer\<close>

definition number_room :: "cjson \<Rightarrow> nat" where
  "number_room item =
     (case valuedouble item of
        Fin d \<Rightarrow> if d = 0 then 2
                 else if near (of_int (valueint item)) d \<and> d \<le> of_int INT_MAX \<and> of_int INT_MIN \<le> d then 21 else 64
      | _ \<Rightarrow> 64)"

definition print_number_buf :: "(nat \<Rightarrow> int \<Rightarrow> bool) \<Rightarrow> cjson \<Rightarrow> printbuffer \<Rightarrow> (nat option \<times> printbuffer) res" where
  "print_number_buf ok item p = emit ok (number_room item) (print_number item @ [CHR 0x00]) p"

definition print_string_buf :: "(nat \<Rightarrow> int \<Rightarrow> bool) \<Rightarrow> string option \<Rightarrow> printbuffer \<Rightarrow> (nat option \<times> printbuffer) res" where
  "print_string_buf ok str p =
     (case str of
        None \<Rightarrow> Inl NullDeref
      | Some s \<Rightarrow>
          if \<not> list_ex needs_escape s then emit ok (length s + 3) (quoted s @ [CHR 0x00]) p
          else emit ok (sum_list (map escape_len s) + 3) (quoted (concat (map escape_char s)) @ [CHR 0x00]) p)"

text \<open>The comma inside arrays, and what follows an object member; the offset moves to the NUL.\<close>

definition array_sep :: "bool \<Rightarrow> string" where
  "array_sep fmt = (if fmt then '', '' else '','')"

definition object_sep :: "bool \<Rightarrow> bool \<Rightarrow> string" where
  "object_sep fmt next = (if next then '','' else []) @ (if fmt then [CHR 0x0A] else [])"

text \<open>
  In \<open>print_object\<close> the variable \<open>i\<close> keeps the offset the object starts at, but the loop that indents the
  closing brace counts with the same variable, so a formatted object returns a pointer to offset
  \<open>depth\<close>; only the outermost call uses the pointer.
\<close>

fun print_value_buf :: "(nat \<Rightarrow> int \<Rightarrow> bool) \<Rightarrow> nat \<Rightarrow> bool \<Rightarrow> cjson \<Rightarrow> printbuffer \<Rightarrow> (nat option \<times> printbuffer) res"
  and array_items_buf :: "(nat \<Rightarrow> int \<Rightarrow> bool) \<Rightarrow> nat \<Rightarrow> bool \<Rightarrow> cjson list \<Rightarrow> printbuffer \<Rightarrow> (nat option \<times> printbuffer) res"
  and object_items_buf :: "(nat \<Rightarrow> int \<Rightarrow> bool) \<Rightarrow> nat \<Rightarrow> bool \<Rightarrow> cjson list \<Rightarrow> printbuffer \<Rightarrow> (nat option \<times> printbuffer) res" where
  "print_value_buf ok depth fmt (CJSON t vs vi vd nm ch) p =
     (let k = t mod 256
      in if k = cJSON_NULL then emit ok 5 (''null'' @ [CHR 0x00]) p
         else if k = cJSON_False then emit ok 6 (''false'' @ [CHR 0x00]) p
         else if k = cJSON_True then emit ok 5 (''true'' @ [CHR 0x00]) p
         else if k = cJSON_Number then print_number_buf ok (CJSON t vs vi vd nm ch) p
         else if k = cJSON_String then print_string_buf ok vs p
         else if k = cJSON_Array then
           (if ch = [] then emit ok 3 (''[]'' @ [CHR 0x00]) p
            else proceed (emit_past ok 1 ''['' 1 p) (\<lambda>_ p1.
                 proceed (array_items_buf ok (Suc depth) fmt ch p1) (\<lambda>_ p2.
                 proceed (emit ok 2 ('']'' @ [CHR 0x00]) p2) (\<lambda>_ p3.
                 Inr (Some (poffset p), p3)))))
         else if k = cJSON_Object then
           (if ch = [] then emit ok (if fmt then depth + 4 else 3) (empty_object fmt depth @ [CHR 0x00]) p
            else (let brace = ''{'' @ (if fmt then [CHR 0x0A] else [])
                  in proceed (emit_past ok (length brace + 1) (brace @ [CHR 0x00]) (length brace) p) (\<lambda>_ p1.
                     proceed (object_items_buf ok (Suc depth) fmt ch p1) (\<lambda>_ p2.
                     proceed (emit ok (if fmt then depth + 2 else 2)
                                ((if fmt then tabs depth else []) @ ''}'' @ [CHR 0x00]) p2) (\<lambda>_ p3.
                     Inr (Some (if fmt then depth else poffset p), p3))))))
         else Inr (None, p))"
| "array_items_buf ok depth fmt [] p = Inr (Some (poffset p), p)"
| "array_items_buf ok depth fmt (c # cs) p =
     settle (print_value_buf ok depth fmt c p) (\<lambda>p1.
     if cs = [] then Inr (Some (poffset p1), p1)
     else proceed (emit_past ok (length (array_sep fmt) + 1) (array_sep fmt @ [CHR 0x00]) (length (array_sep fmt)) p1)
            (\<lambda>_ p2. array_items_buf ok depth fmt cs p2))"
| "object_items_buf ok depth fmt [] p = Inr (Some (poffset p), p)"
| "object_items_buf ok depth fmt (c # cs) p =
     proceed (if fmt then emit_past ok depth (tabs depth) depth p else Inr (Some (poffset p), p)) (\<lambda>_ p1.
     settle (print_string_buf ok (jname c) p1) (\<lambda>p2.
     (let colon = '':'' @ (if fmt then [CHR 0x09] else []);
          sep = object_sep fmt (cs \<noteq> [])
      in proceed (emit_past ok (length colon) colon (length colon) p2) (\<lambda>_ p3.
         settle (print_value_buf ok depth fmt c p3) (\<lambda>p4.
         proceed (emit_past ok (length sep + 1) (sep @ [CHR 0x00]) (length sep) p4) (\<lambda>_ p5.
         object_items_buf ok depth fmt cs p5))))))"

text \<open>The text the caller reads through the pointer it gets. A negative size makes \<open>malloc\<close> fail.\<close>

definition cJSON_PrintBuffered :: "(nat \<Rightarrow> int \<Rightarrow> bool) \<Rightarrow> cjson \<Rightarrow> int \<Rightarrow> bool \<Rightarrow> string option res" where
  "cJSON_PrintBuffered ok item prebuffer fmt =
     (let p = \<lparr>buffer = (if 0 \<le> prebuffer \<and> ok 0 prebuffer then Some (\<lambda>_. None) else None),
               plength = prebuffer, poffset = 0, mallocs = 1\<rparr>
      in ebind (print_value_buf ok 0 fmt item p) (\<lambda>(out, p1).
         case out of None \<Rightarrow> Inr None
         | Some a \<Rightarrow> (case buffer p1 of
                        None \<Rightarrow> Inl UseAfterFree
                      | Some b \<Rightarrow> ebind (chars_at b (nat (plength p1)) a) (\<lambda>s. Inr (Some s)))))"

section \<open>The buffer as a list\<close>

text \<open>What the buffer shows is known up to the end of \<open>u\<close>; \<open>fits\<close> leaves room for what the code
  requests beyond the text.\<close>

definition shows_text :: "printbuffer \<Rightarrow> string \<Rightarrow> bool" where
  "shows_text p u \<longleftrightarrow> (\<exists>b. buffer p = Some b \<and> int (length u) \<le> plength p \<and> (\<forall>i < length u. b i = Some (u ! i)))"

definition fits :: "string \<Rightarrow> bool" where
  "fits u \<longleftrightarrow> length u + 64 \<le> 2 ^ 30"

definition ends_at :: "printbuffer \<Rightarrow> string \<Rightarrow> bool" where
  "ends_at p u \<longleftrightarrow> shows_text p u \<and> poffset p = length u"

text \<open>Either memory ran out, the buffer is gone and the call says so, or the text is there.\<close>

definition writes :: "(nat \<Rightarrow> int \<Rightarrow> bool) \<Rightarrow> (nat \<Rightarrow> printbuffer \<Rightarrow> bool) \<Rightarrow> (nat option \<times> printbuffer) res \<Rightarrow> bool" where
  "writes ok Q x = (case x of
      Inl f \<Rightarrow> False
    | Inr (out, p) \<Rightarrow> (case out of None \<Rightarrow> buffer p = None \<and> (\<exists>n k. \<not> ok n k) | Some a \<Rightarrow> Q a p))"

lemma writes_simps [simp]:
  "\<not> writes ok Q (Inl f)"
  "writes ok Q (Inr (None, p)) \<longleftrightarrow> buffer p = None \<and> (\<exists>n k. \<not> ok n k)"
  "writes ok Q (Inr (Some a, p)) = Q a p"
  by (simp_all add: writes_def)

lemma writesE:
  assumes "writes ok Q x"
  obtains p where "x = Inr (None, p)" "buffer p = None" "\<exists>n k. \<not> ok n k" | a p where "x = Inr (Some a, p)" "Q a p"
  using assms by (auto simp: writes_def split: sum.splits prod.splits option.splits)

lemma smear_bounds:
  assumes "0 \<le> x" "x < 2 ^ 30"
  shows "x \<le> smear n x \<and> 0 \<le> smear n x \<and> smear n x < 2 ^ 30"
proof -
  have "0 \<le> drop_bit n x" "drop_bit n x < 2 ^ 30"
    using assms zdiv_mono2 [of x 1 "2 ^ n"] by (auto simp: drop_bit_eq_div pos_imp_zdiv_nonneg_iff)
  then show ?thesis
    using assms OR_upper [of x 30 "drop_bit n x"] or_greater_eq [of "drop_bit n x" x] by (auto simp: smear_def)
qed

lemma pow2gt_ok:
  assumes "1 \<le> x" "x \<le> 2 ^ 30"
  shows "\<exists>y \<ge> x. pow2gt x = Inr y"
proof -
  define y where "y = smear 16 (smear 8 (smear 4 (smear 2 (smear 1 (x - 1)))))"
  have step: "x - 1 \<le> smear n z \<and> 0 \<le> smear n z \<and> smear n z < 2 ^ 30" if "x - 1 \<le> z \<and> 0 \<le> z \<and> z < 2 ^ 30" for n z
    using smear_bounds [of z n] that by auto
  have "x - 1 \<le> y \<and> 0 \<le> y \<and> y < 2 ^ 30"
    unfolding y_def by (intro step) (use assms in auto)
  then have "x \<le> y + 1" "pow2gt x = Inr (y + 1)"
    using assms(1) unfolding pow2gt_def y_def [symmetric] by (simp_all add: INT_MIN_def INT_MAX_def)
  then show ?thesis by blast
qed

lemma ensure_ok:
  assumes "ends_at p u" "length u + needed \<le> 2 ^ 30"
  shows "writes ok (\<lambda>a p'. a = length u \<and> ends_at p' u \<and> int (length u + needed) \<le> plength p') (ensure ok needed p)"
proof -
  obtain b where b: "buffer p = Some b" "int (length u) \<le> plength p" "\<forall>i < length u. b i = Some (u ! i)" "poffset p = length u"
    using assms(1) by (auto simp: ends_at_def shows_text_def)
  have "\<exists>y \<ge> int needed + int (length u). pow2gt (int needed + int (length u)) = Inr y"
    if "\<not> int needed + int (length u) \<le> plength p"
    using that assms(2) b(2) by (intro pow2gt_ok) auto
  then show ?thesis
    using b assms by (fastforce simp: ensure_def ends_at_def shows_text_def INT_MAX_def Let_def)
qed

lemma put_ok:
  assumes "ends_at p u" "int (length u + length s) \<le> plength p"
  shows "\<exists>p'. put (length u) s p = Inr p' \<and> shows_text p' (u @ s) \<and> poffset p' = length u"
  using assms by (auto simp: put_def ends_at_def shows_text_def nth_append)

lemma emit_ok:
  assumes "ends_at p u" "length u + needed \<le> 2 ^ 30" "length s \<le> needed"
  shows "writes ok (\<lambda>a p'. a = length u \<and> shows_text p' (u @ s) \<and> poffset p' = length u) (emit ok needed s p)"
  using ensure_ok [OF assms(1,2), of ok]
proof (cases rule: writesE)
  case (2 a p1)
  then have "ends_at p1 u" "int (length u + length s) \<le> plength p1" "a = length u" using assms(3) by auto
  from put_ok [OF this(1,2)] this(3) show ?thesis using 2(1) by (auto simp: emit_def)
qed (simp add: emit_def)

lemma writes_proceed:
  "writes ok Q x \<Longrightarrow> (\<And>a p. Q a p \<Longrightarrow> writes ok R (k a p)) \<Longrightarrow> writes ok R (proceed x k)"
  by (erule writesE) (simp_all add: proceed_def)

lemma writes_mono: "writes ok Q x \<Longrightarrow> (\<And>a p. Q a p \<Longrightarrow> R a p) \<Longrightarrow> writes ok R x"
  by (erule writesE) simp_all

lemma shows_text_prefix: "shows_text p (u @ v) \<Longrightarrow> shows_text p u"
  by (auto simp: shows_text_def nth_append split: if_splits)

lemma shows_text_offset [simp]: "shows_text (p\<lparr>poffset := n\<rparr>) u = shows_text p u"
  by (simp add: shows_text_def)

lemma emit_past_ok:
  assumes "ends_at p u" "length u + needed \<le> 2 ^ 30" "length (s @ z) \<le> needed"
  shows "writes ok (\<lambda>a p'. ends_at p' (u @ s)) (emit_past ok needed (s @ z) (length s) p)"
  unfolding emit_past_def
  by (rule writes_proceed [OF emit_ok [OF assms]])
    (auto simp: ends_at_def intro: shows_text_prefix simp flip: append_assoc)

text \<open>A continuation that finds the buffer gone returns a null pointer.\<close>

definition gives_up :: "(printbuffer \<Rightarrow> (nat option \<times> printbuffer) res) \<Rightarrow> bool" where
  "gives_up k \<longleftrightarrow> (\<forall>p. buffer p = None \<longrightarrow> (\<exists>p'. k p = Inr (None, p') \<and> buffer p' = None))"

lemma gives_up_emit: "gives_up (\<lambda>p. proceed (emit ok needed s p) k)"
  by (simp add: gives_up_def proceed_def emit_def ensure_def)

lemma gives_up_emit_past: "gives_up (\<lambda>p. proceed (emit_past ok needed s n p) k)"
  by (simp add: gives_up_def proceed_def emit_past_def emit_def ensure_def)

text \<open>A value was printed at the end of \<open>u\<close>; the offset is somewhere inside it.\<close>

definition valued :: "string \<Rightarrow> string \<Rightarrow> printbuffer \<Rightarrow> bool" where
  "valued u t p \<longleftrightarrow> shows_text p (u @ t @ [CHR 0x00]) \<and> length u \<le> poffset p \<and> poffset p \<le> length (u @ t)"

lemma chars_at_text:
  "\<forall>i < length s. b (a + i) = Some (s ! i) \<Longrightarrow> b (a + length s) = Some (CHR 0x00) \<Longrightarrow> CHR 0x00 \<notin> set s \<Longrightarrow>
    a + length s < len \<Longrightarrow> chars_at b len a = Inr s"
proof (induction s arbitrary: a)
  case Nil
  then show ?case by (simp add: chars_at.simps)
next
  case (Cons c s)
  have "b (Suc a + i) = Some (s ! i)" if "i < length s" for i
    using Cons.prems(1) that by (auto dest!: spec [of _ "Suc i"])
  then have "chars_at b len (Suc a) = Inr s" using Cons by (intro Cons.IH) auto
  moreover have "b a = Some c" using Cons.prems(1) by (auto dest: spec [of _ 0])
  ultimately show ?case using Cons.prems by (auto simp: chars_at.simps [of b len a])
qed

lemma valued_chars:
  assumes "valued u t p" "CHR 0x00 \<notin> set t" "length u \<le> a" "a \<le> length (u @ t)"
  shows "\<exists>b. buffer p = Some b \<and> chars_at b (nat (plength p)) a = Inr (drop (a - length u) t)"
proof -
  obtain b where b: "buffer p = Some b" "int (length (u @ t @ [CHR 0x00])) \<le> plength p"
    "\<forall>i < length (u @ t @ [CHR 0x00]). b i = Some ((u @ t @ [CHR 0x00]) ! i)"
    using assms(1) unfolding valued_def shows_text_def by blast
  have "chars_at b (nat (plength p)) a = Inr (drop (a - length u) t)"
    using b(2,3) assms(2-4) by (intro chars_at_text) (auto simp: nth_append dest: in_set_dropD)
  then show ?thesis using b(1) by blast
qed

lemma settle_ok:
  assumes "writes ok (\<lambda>a. valued u t) x" "CHR 0x00 \<notin> set t"
    and k: "\<And>p. ends_at p (u @ t) \<Longrightarrow> writes ok R (k p)" and up: "gives_up k"
  shows "writes ok R (settle x k)"
  using assms(1)
proof (cases rule: writesE)
  case (1 p)
  then obtain p' where "k (p\<lparr>poffset := 0\<rparr>) = Inr (None, p')" "buffer p' = None"
    using up [unfolded gives_up_def, rule_format, of "p\<lparr>poffset := 0\<rparr>"] by auto
  then show ?thesis using 1 by (simp add: settle_def update_def)
next
  case (2 a p)
  then have "update p = Inr (length (u @ t))"
    using valued_chars [OF 2(2) assms(2), of "poffset p"] by (auto simp: update_def valued_def)
  moreover have "ends_at (p\<lparr>poffset := length (u @ t)\<rparr>) (u @ t)"
    using 2(2) shows_text_prefix [of p "u @ t" "[CHR 0x00]"] by (simp add: ends_at_def valued_def)
  ultimately show ?thesis using 2(1) k by (simp add: settle_def)
qed

section \<open>Printing values\<close>

lemma length_literal: "length (literal s) = sum_list (map escape_len s) + 2"
  by (induction s) (simp_all add: literal_def quoted_def escape_len)

lemma literal_plain: "\<not> list_ex needs_escape s \<Longrightarrow> literal s = quoted s"
  by (induction s) (auto simp: literal_def quoted_def escape_char_def)

lemma print_string_buf_literal:
  "print_string_buf ok (Some s) p = emit ok (length (literal s) + 1) (literal s @ [CHR 0x00]) p"
  using literal_plain [of s] length_literal [of s]
  by (auto simp: print_string_buf_def numeral_3_eq_3) (simp_all add: literal_def quoted_def)

lemma hex_digit_not_NUL: "k < 16 \<Longrightarrow> hex_digit k \<noteq> CHR 0x00"
  using hex_val_digit [of k] by (auto simp: hex_val_def code_of_def)

lemma literal_no_NUL: "CHR 0x00 \<notin> set s \<Longrightarrow> CHR 0x00 \<notin> set (literal s)"
proof (induction s)
  case (Cons c s)
  have "code_of c div 16 < 16" "code_of c mod 16 < 16" using code_of_less [of c] by auto
  then have "CHR 0x00 \<notin> set (escape_char c)"
    using Cons.prems hex_digit_not_NUL [of "code_of c div 16"] hex_digit_not_NUL [of "code_of c mod 16"]
    by (auto simp: escape_char_def)
  then show ?case using Cons by (simp add: literal_def quoted_def)
qed (simp add: literal_def quoted_def)

lemma digit_not_NUL: "list_all is_digit ds \<Longrightarrow> CHR 0x00 \<notin> set ds"
  by (auto simp: list_all_iff is_digit_def code_of_def)

lemma fmt_d_int:
  assumes "INT_MIN \<le> i" "i \<le> INT_MAX"
  shows "CHR 0x00 \<notin> set (fmt_d i)" "length (fmt_d i) \<le> 11"
  using assms digit_not_NUL [OF dec_digits] length_dec [of "nat i" 9] length_dec [of "nat (- i)" 9]
  by (auto simp: fmt_d_def INT_MIN_def INT_MAX_def nat_less_iff)

text \<open>The pointer returned is right for the outermost value.\<close>

definition out_at :: "nat \<Rightarrow> string \<Rightarrow> nat \<Rightarrow> bool" where
  "out_at depth u a \<longleftrightarrow> (depth = 0 \<and> u = [] \<longrightarrow> a = 0)"

lemma out_at_simps [simp]: "out_at depth u (length u)" "out_at depth u depth"
  by (simp_all add: out_at_def)

definition prints :: "(nat \<Rightarrow> int \<Rightarrow> bool) \<Rightarrow> nat \<Rightarrow> bool \<Rightarrow> string \<Rightarrow> cjson \<Rightarrow> bool" where
  "prints ok depth fmt t c \<longleftrightarrow> CHR 0x00 \<notin> set t \<and>
     (\<forall>p u. ends_at p u \<and> fits (u @ t) \<longrightarrow>
        writes ok (\<lambda>a p'. out_at depth u a \<and> valued u t p') (print_value_buf ok depth fmt c p))"

lemma printsD: "prints ok depth fmt t c \<Longrightarrow> ends_at p u \<Longrightarrow> fits (u @ t) \<Longrightarrow>
    writes ok (\<lambda>a p'. out_at depth u a \<and> valued u t p') (print_value_buf ok depth fmt c p)"
  by (simp add: prints_def)

lemma emit_valued:
  assumes "ends_at p u" "length u + needed \<le> 2 ^ 30" "Suc (length t) \<le> needed"
  shows "writes ok (\<lambda>a p'. out_at depth u a \<and> valued u t p') (emit ok needed (t @ [CHR 0x00]) p)"
  by (rule writes_mono [OF emit_ok [OF assms(1,2)]]) (use assms(3) in \<open>auto simp: valued_def\<close>)

text \<open>The loop over the entries of an array, together with what follows it.\<close>

lemma array_items_ok:
  assumes "list_all2 (prints ok depth fmt) es cs" "cs \<noteq> []" "ends_at p u" "fits (u @ join (array_sep fmt) es)"
    and "\<And>p. ends_at p (u @ join (array_sep fmt) es) \<Longrightarrow> writes ok R (k p)" "gives_up k"
  shows "writes ok R (proceed (array_items_buf ok depth fmt cs p) (\<lambda>_. k))"
  using assms
proof (induction es cs arbitrary: p u rule: list_all2_induct)
  case (Cons e es c cs)
  let ?sep = "array_sep fmt"
  show ?case
  proof (cases "cs = []")
    case True
    then have "es = []" using Cons.hyps(2) by simp
    have "proceed (array_items_buf ok depth fmt (c # cs) p) (\<lambda>_. k) = settle (print_value_buf ok depth fmt c p) k"
      using True by (auto simp: proceed_def settle_def ebind_def split: sum.splits)
    moreover have "writes ok (\<lambda>a. valued u e) (print_value_buf ok depth fmt c p)"
      using printsD [OF Cons.hyps(1) Cons.prems(2)] Cons.prems(3) \<open>es = []\<close> by (auto elim: writes_mono)
    ultimately show ?thesis
      using settle_ok [of ok u e _ R k] Cons.hyps(1) Cons.prems(4,5) \<open>es = []\<close> by (simp add: prints_def)
  next
    case False
    then obtain e' es' where es: "es = e' # es'" using Cons.hyps(2) by (cases es) auto
    let ?rest = "\<lambda>p2. proceed (array_items_buf ok depth fmt cs p2) (\<lambda>_. k)"
    let ?k = "\<lambda>p1. proceed (emit_past ok (length ?sep + 1) (?sep @ [CHR 0x00]) (length ?sep) p1) (\<lambda>_. ?rest)"
    have "proceed (array_items_buf ok depth fmt (c # cs) p) (\<lambda>_. k) = settle (print_value_buf ok depth fmt c p) ?k"
      using False by (auto simp: proceed_def settle_def ebind_def split: sum.splits option.splits)
    moreover have "writes ok (\<lambda>a. valued u e) (print_value_buf ok depth fmt c p)"
      using printsD [OF Cons.hyps(1) Cons.prems(2)] Cons.prems(3) es by (auto simp: fits_def elim: writes_mono)
    moreover have "writes ok R (?k p1)" if p1: "ends_at p1 (u @ e)" for p1
    proof (rule writes_proceed [OF emit_past_ok [OF p1]])
      show "length (u @ e) + (length ?sep + 1) \<le> 2 ^ 30" using Cons.prems(3) es by (simp add: fits_def)
      show "writes ok R (?rest p2)" if "ends_at p2 ((u @ e) @ ?sep)" for p2
        using Cons.IH [OF False that] Cons.prems(3-5) es by simp
    qed simp
    ultimately show ?thesis
      using settle_ok [of ok u e _ R ?k] Cons.hyps(1) gives_up_emit_past by (simp add: prints_def)
  qed
qed simp

text \<open>The loop over the members of an object; every member ends with a written separator.\<close>

definition member_prints :: "(nat \<Rightarrow> int \<Rightarrow> bool) \<Rightarrow> nat \<Rightarrow> bool \<Rightarrow> string \<times> string \<Rightarrow> cjson \<Rightarrow> bool" where
  "member_prints ok depth fmt = (\<lambda>(name, t) c. prints ok depth fmt t c \<and>
     (\<exists>s. jname c = Some s \<and> CHR 0x00 \<notin> set s \<and> name = literal s))"

lemma member_ok:
  assumes "member_prints ok depth fmt (name, t) c" "ends_at p u"
    "fits (u @ compose_member fmt depth (name, t) @ object_sep fmt (cs \<noteq> []))"
    and "\<And>p. ends_at p (u @ compose_member fmt depth (name, t) @ object_sep fmt (cs \<noteq> [])) \<Longrightarrow>
      writes ok R (object_items_buf ok depth fmt cs p)"
  shows "writes ok R (object_items_buf ok depth fmt (c # cs) p)"
proof -
  obtain s where s: "jname c = Some s" "CHR 0x00 \<notin> set s" "name = literal s" "prints ok depth fmt t c"
    using assms(1) by (auto simp: member_prints_def)
  then have t: "CHR 0x00 \<notin> set t" by (simp add: prints_def)
  define ind where "ind = (if fmt then tabs depth else [])"
  define colon where "colon = '':'' @ (if fmt then [CHR 0x09] else [])"
  define sep where "sep = object_sep fmt (cs \<noteq> [])"
  have m: "compose_member fmt depth (name, t) = ind @ name @ colon @ t"
    by (simp add: compose_member_def ind_def colon_def)
  note f = assms(3) [folded sep_def, unfolded m fits_def]
  have fin: "writes ok R (proceed (emit_past ok (length sep + 1) (sep @ [CHR 0x00]) (length sep) p4)
      (\<lambda>_ p5. object_items_buf ok depth fmt cs p5))" if "ends_at p4 ((u @ ind @ name @ colon) @ t)" for p4
    by (rule writes_proceed [OF emit_past_ok [OF that]]) (use f assms(4) m in \<open>simp_all add: sep_def\<close>)
  have val: "writes ok R (settle (print_value_buf ok depth fmt c p3) (\<lambda>p4.
      proceed (emit_past ok (length sep + 1) (sep @ [CHR 0x00]) (length sep) p4) (\<lambda>_ p5. object_items_buf ok depth fmt cs p5)))"
    if "ends_at p3 (u @ ind @ name @ colon)" for p3
    by (rule settle_ok [OF writes_mono [OF printsD [OF s(4) that]] t fin gives_up_emit_past])
      (use f in \<open>auto simp: fits_def\<close>)
  have nam: "writes ok R (proceed (emit_past ok (length colon) colon (length colon) p2) (\<lambda>_ p3.
      settle (print_value_buf ok depth fmt c p3) (\<lambda>p4.
      proceed (emit_past ok (length sep + 1) (sep @ [CHR 0x00]) (length sep) p4) (\<lambda>_ p5. object_items_buf ok depth fmt cs p5))))"
    if "ends_at p2 (u @ ind @ name)" for p2
    by (rule writes_proceed [OF emit_past_ok [OF that, of _ colon "[]", simplified]]) (use f val in simp_all)
  have str: "writes ok R (settle (print_string_buf ok (jname c) p1) (\<lambda>p2.
      proceed (emit_past ok (length colon) colon (length colon) p2) (\<lambda>_ p3.
      settle (print_value_buf ok depth fmt c p3) (\<lambda>p4.
      proceed (emit_past ok (length sep + 1) (sep @ [CHR 0x00]) (length sep) p4) (\<lambda>_ p5. object_items_buf ok depth fmt cs p5)))))"
    if "ends_at p1 (u @ ind)" for p1
    unfolding s(1) print_string_buf_literal
    by (rule settle_ok [OF writes_mono [OF emit_valued [OF that]] literal_no_NUL [OF s(2)] nam [unfolded s(3)] gives_up_emit_past])
      (use f in \<open>auto simp: s(3)\<close>)
  have "writes ok (\<lambda>a p1. ends_at p1 (u @ ind)) (if fmt then emit_past ok depth (tabs depth) depth p else Inr (Some (poffset p), p))"
    using emit_past_ok [OF assms(2), of depth "tabs depth" "[]" ok] f assms(2) by (simp add: ind_def tabs_def split: if_splits)
  then show ?thesis
    unfolding object_items_buf.simps Let_def colon_def [symmetric] sep_def [symmetric]
    by (rule writes_proceed) (rule str)
qed

lemma join_no_NUL: "CHR 0x00 \<notin> set sep \<Longrightarrow> \<forall>e \<in> set es. CHR 0x00 \<notin> set e \<Longrightarrow> CHR 0x00 \<notin> set (join sep es)"
  by (induction sep es rule: join.induct) auto

definition members_text :: "nat \<Rightarrow> bool \<Rightarrow> (string \<times> string) list \<Rightarrow> string" where
  "members_text depth fmt es = join (object_sep fmt True) (map (compose_member fmt depth) es) @ object_sep fmt False"

lemma object_items_ok:
  assumes "list_all2 (member_prints ok depth fmt) es cs" "cs \<noteq> []" "ends_at p u" "fits (u @ members_text depth fmt es)"
  shows "writes ok (\<lambda>a p'. ends_at p' (u @ members_text depth fmt es)) (object_items_buf ok depth fmt cs p)"
  using assms
proof (induction es cs arbitrary: p u rule: list_all2_induct)
  case (Cons e es c cs)
  obtain name t where e: "e = (name, t)" by force
  let ?m = "compose_member fmt depth (name, t) @ object_sep fmt (cs \<noteq> [])"
  have m: "members_text depth fmt (e # es) = ?m @ (if cs = [] then [] else members_text depth fmt es)"
    using Cons.hyps(2) e by (cases es; cases cs) (simp_all add: members_text_def)
  show ?case
  proof (rule member_ok [OF Cons.hyps(1) [unfolded e] Cons.prems(2)])
    show "fits (u @ ?m)" using Cons.prems(3) m by (simp add: fits_def)
    fix q assume q: "ends_at q (u @ ?m)"
    show "writes ok (\<lambda>a p'. ends_at p' (u @ members_text depth fmt (e # es))) (object_items_buf ok depth fmt cs q)"
    proof (cases "cs = []")
      case True
      then show ?thesis using q m by simp
    next
      case False
      then show ?thesis using Cons.IH [OF False q] Cons.prems(3) m by simp
    qed
  qed
qed simp

lemma prints_leaf:
  assumes "\<And>p. print_value_buf ok depth fmt c p = emit ok needed (t @ [CHR 0x00]) p"
    "CHR 0x00 \<notin> set t" "Suc (length t) \<le> needed" "needed \<le> length t + 64"
  shows "prints ok depth fmt t c"
  using assms emit_valued [of _ _ needed t ok depth] by (simp add: prints_def fits_def)

lemma sep_no_NUL: "CHR 0x00 \<notin> set (array_sep fmt)" "CHR 0x00 \<notin> set (object_sep fmt b)" "CHR 0x00 \<notin> set (tabs n)"
  by (auto simp: array_sep_def object_sep_def tabs_def)

text \<open>The closing bracket of an array or object; the value then starts where the call found the offset.\<close>

lemma close_ok:
  assumes "ends_at p (u @ v)" "length (u @ v) + needed \<le> 2 ^ 30" "Suc (length w) \<le> needed" "out_at depth u i"
  shows "writes ok (\<lambda>a p'. out_at depth u a \<and> valued u (v @ w) p')
    (proceed (emit ok needed (w @ [CHR 0x00]) p) (\<lambda>_ p3. Inr (Some i, p3)))"
  by (rule writes_proceed [OF emit_ok [OF assms(1,2)]]) (use assms(3,4) in \<open>auto simp: valued_def\<close>)

lemma prints_array:
  assumes "list_all2 (prints ok (Suc depth) fmt) es ch" "ch \<noteq> []"
  shows "prints ok depth fmt (''['' @ join (array_sep fmt) es @ '']'') (CJSON cJSON_Array vs vi vd nm ch)"
proof -
  let ?t = "''['' @ join (array_sep fmt) es @ '']''"
  have "\<forall>e \<in> set es. CHR 0x00 \<notin> set e"
    using assms(1) by (auto simp: list_all2_conv_all_nth in_set_conv_nth prints_def)
  then have "CHR 0x00 \<notin> set ?t" using join_no_NUL sep_no_NUL(1) by auto
  moreover have "writes ok (\<lambda>a p'. out_at depth u a \<and> valued u ?t p')
      (print_value_buf ok depth fmt (CJSON cJSON_Array vs vi vd nm ch) p)" if p: "ends_at p u" "fits (u @ ?t)" for p u
  proof -
    let ?k = "\<lambda>p2. proceed (emit ok 2 ('']'' @ [CHR 0x00]) p2) (\<lambda>_ p3. Inr (Some (length u), p3))"
    have k: "writes ok (\<lambda>a p'. out_at depth u a \<and> valued u ?t p') (?k p2)"
      if "ends_at p2 ((u @ ''['') @ join (array_sep fmt) es)" for p2
      using close_ok [of p2 u "''['' @ join (array_sep fmt) es" 2 "'']''" depth "length u" ok] that p(2) by (simp add: fits_def)
    have "writes ok (\<lambda>a p'. out_at depth u a \<and> valued u ?t p')
        (proceed (emit_past ok 1 (''['' @ []) (length ''['') p) (\<lambda>_ p1.
         proceed (array_items_buf ok (Suc depth) fmt ch p1) (\<lambda>_. ?k)))"
      by (rule writes_proceed [OF emit_past_ok [OF p(1)]], use p(2) in \<open>simp add: fits_def\<close>, simp)
        (rule array_items_ok [OF assms _ _ k gives_up_emit], use p(2) in \<open>auto simp: fits_def\<close>)
    then show ?thesis using assms(2) p(1) by (simp add: cJSON_types ends_at_def)
  qed
  ultimately show ?thesis by (simp add: prints_def)
qed

lemma members_no_NUL:
  assumes "list_all2 (member_prints ok depth fmt) es ch"
  shows "CHR 0x00 \<notin> set (members_text depth fmt es)"
proof -
  have "\<forall>e \<in> set es. CHR 0x00 \<notin> set (compose_member fmt depth e)"
    using assms by (induction rule: list_all2_induct)
      (auto simp: member_prints_def prints_def compose_member_def literal_no_NUL sep_no_NUL)
  then show ?thesis
    using join_no_NUL [OF sep_no_NUL(2)] sep_no_NUL(2) by (simp add: members_text_def)
qed

lemma prints_object:
  assumes "list_all2 (member_prints ok (Suc depth) fmt) es ch" "ch \<noteq> []"
  shows "prints ok depth fmt (''{'' @ object_sep fmt False @ members_text (Suc depth) fmt es @ (if fmt then tabs depth else []) @ ''}'')
    (CJSON cJSON_Object vs vi vd nm ch)"
proof -
  define brace where "brace = ''{'' @ (if fmt then [CHR 0x0A] else [])"
  define tail where "tail = (if fmt then tabs depth else []) @ ''}''"
  let ?t = "brace @ members_text (Suc depth) fmt es @ tail"
  have "CHR 0x00 \<notin> set ?t"
    using members_no_NUL [OF assms(1)] sep_no_NUL(3) [of depth] by (auto simp: brace_def tail_def)
  moreover have "writes ok (\<lambda>a p'. out_at depth u a \<and> valued u ?t p')
      (print_value_buf ok depth fmt (CJSON cJSON_Object vs vi vd nm ch) p)" if p: "ends_at p u" "fits (u @ ?t)" for p u
  proof -
    let ?n = "if fmt then depth + 2 else 2"
    let ?k = "\<lambda>p2. proceed (emit ok ?n (tail @ [CHR 0x00]) p2) (\<lambda>_ p3. Inr (Some (if fmt then depth else length u), p3))"
    have k: "writes ok (\<lambda>a p'. out_at depth u a \<and> valued u ?t p') (?k p2)"
      if "ends_at p2 ((u @ brace) @ members_text (Suc depth) fmt es)" for p2
      using close_ok [of p2 u "brace @ members_text (Suc depth) fmt es" ?n tail depth "if fmt then depth else length u" ok] that p(2)
      by (auto simp: fits_def tail_def tabs_def)
    have "writes ok (\<lambda>a p'. out_at depth u a \<and> valued u ?t p')
        (proceed (emit_past ok (length brace + 1) (brace @ [CHR 0x00]) (length brace) p) (\<lambda>_ p1.
         proceed (object_items_buf ok (Suc depth) fmt ch p1) (\<lambda>_. ?k)))"
      by (rule writes_proceed [OF emit_past_ok [OF p(1)]], use p(2) in \<open>simp add: fits_def\<close>, simp)
        (rule writes_proceed [OF object_items_ok [OF assms] k], use p(2) in \<open>auto simp: fits_def\<close>)
    then show ?thesis
      using assms(2) p(1) by (cases fmt) (simp_all add: cJSON_types ends_at_def Let_def tail_def brace_def)
  qed
  ultimately have "prints ok depth fmt ?t (CJSON cJSON_Object vs vi vd nm ch)" by (simp add: prints_def)
  then show ?thesis by (simp add: brace_def tail_def object_sep_def)
qed

lemma prints_number:
  assumes "INT_MIN \<le> i" "i \<le> INT_MAX"
  shows "prints ok depth fmt (fmt_d i) (CJSON cJSON_Number vs i (Fin (of_int i)) nm ch)"
proof (rule prints_leaf)
  let ?c = "CJSON cJSON_Number vs i (Fin (of_int i)) nm ch"
  have "near (of_int i) (of_int i)" by (simp add: near_def fl_def DBL_EPSILON_def)
  then have room: "number_room ?c = (if i = 0 then 2 else 21)"
    using assms by (simp add: number_room_def)
  show "print_value_buf ok depth fmt ?c p = emit ok (number_room ?c) (fmt_d i @ [CHR 0x00]) p" for p
    using print_number_int [OF assms] by (simp add: cJSON_types print_number_buf_def)
  show "CHR 0x00 \<notin> set (fmt_d i)" by (rule fmt_d_int [OF assms])
  show "Suc (length (fmt_d i)) \<le> number_room ?c" "number_room ?c \<le> length (fmt_d i) + 64"
    using fmt_d_int(2) [OF assms] room by (auto simp: fmt_d_def)
qed

lemma prints_string: "CHR 0x00 \<notin> set s \<Longrightarrow> prints ok depth fmt (literal s) (CJSON cJSON_String (Some s) vi vd nm ch)"
  by (rule prints_leaf [where needed = "length (literal s) + 1"])
    (simp_all add: cJSON_types print_string_buf_literal literal_no_NUL)

lemma prints_word:
  "prints ok depth fmt ''null'' (CJSON cJSON_NULL vs vi vd nm ch)"
  "prints ok depth fmt ''false'' (CJSON cJSON_False vs vi vd nm ch)"
  "prints ok depth fmt ''true'' (CJSON cJSON_True vs vi vd nm ch)"
  "prints ok depth fmt ''[]'' (CJSON cJSON_Array vs vi vd nm [])"
  by (rule prints_leaf [where needed = 5], simp_all add: cJSON_types)
    (rule prints_leaf [where needed = 6], simp_all add: cJSON_types,
     rule prints_leaf [where needed = 5], simp_all add: cJSON_types,
     rule prints_leaf [where needed = 3], simp_all add: cJSON_types)

lemma prints_empty_object: "prints ok depth fmt (empty_object fmt depth) (CJSON cJSON_Object vs vi vd nm [])"
  by (rule prints_leaf [where needed = "if fmt then depth + 4 else 3"])
    (auto simp: cJSON_types empty_object_def tabs_def)

lemma print_value_buf_ok:
  "json_wf c \<Longrightarrow> \<exists>t. print_value depth fmt c = Inr (Some t) \<and> prints ok depth fmt t c"
  "\<forall>c \<in> set cs. json_wf c \<Longrightarrow> \<exists>es. print_entries depth fmt cs = Inr (Some es) \<and> list_all2 (prints ok depth fmt) es cs"
  "\<forall>c \<in> set cs. json_wf c \<and> (\<exists>s. jname c = Some s \<and> CHR 0x00 \<notin> set s) \<Longrightarrow>
     \<exists>es. print_members depth fmt cs = Inr (Some es) \<and> list_all2 (member_prints ok depth fmt) es cs"
proof (induction depth fmt c and depth fmt cs and depth fmt cs rule: print_value_print_entries_print_members.induct)
  case (1 depth fmt t vs vi vd nm ch)
  consider "t = cJSON_NULL" | "t = cJSON_False" | "t = cJSON_True" | "t = cJSON_Number" | "t = cJSON_String"
    | "t = cJSON_Array" "ch = []" | "t = cJSON_Array" "ch \<noteq> []" | "t = cJSON_Object" "ch = []" | "t = cJSON_Object" "ch \<noteq> []"
    using 1(3) by (auto simp: json_wf.simps)
  then show ?case
  proof cases
    case 7
    then obtain es where es: "print_entries (Suc depth) fmt ch = Inr (Some es)" "list_all2 (prints ok (Suc depth) fmt) es ch" "es \<noteq> []"
      using 1(1,3) by (auto simp: json_wf.simps cJSON_types)
    then show ?thesis
      using 7 prints_array [OF es(2) 7(2), of vs vi vd nm] by (simp add: compose_array_ok cJSON_types array_sep_def)
  next
    case 9
    then obtain es where es: "print_members (Suc depth) fmt ch = Inr (Some es)" "list_all2 (member_prints ok (Suc depth) fmt) es ch"
      using 1(2,3) by (auto simp: json_wf.simps cJSON_types)
    then have "es \<noteq> []" using 9(2) by auto
    then show ?thesis
      using 9 es(1) prints_object [OF es(2) 9(2), of vs vi vd nm]
      by (simp add: compose_object_ok cJSON_types object_sep_def members_text_def Let_def)
  qed (use 1(3) in \<open>auto simp: json_wf.simps cJSON_types print_string_ptr_literal print_number_int
         prints_word [unfolded cJSON_types] prints_string [unfolded cJSON_types] prints_number [unfolded cJSON_types]
         prints_empty_object [unfolded cJSON_types]\<close>)
next
  case (3 depth fmt c cs)
  then show ?case by fastforce
next
  case (5 depth fmt c cs)
  then obtain n where n: "jname c = Some n" "CHR 0x00 \<notin> set n" by auto
  with 5 obtain s es where "print_value depth fmt c = Inr (Some s)" "prints ok depth fmt s c"
    "print_members depth fmt cs = Inr (Some es)" "list_all2 (member_prints ok depth fmt) es cs"
    by (fastforce simp: print_string_ptr_literal)
  then show ?case using n by (auto simp: print_string_ptr_literal member_prints_def)
qed simp_all

lemma emit_dead: "buffer p = None \<Longrightarrow> emit ok needed s p = Inr (None, p)"
  by (simp add: emit_def ensure_def)

lemma print_value_buf_dead:
  assumes "json_wf c" "buffer p = None"
  shows "print_value_buf ok depth fmt c p = Inr (None, p)"
  using assms
  by (cases c) (auto simp: json_wf.simps cJSON_types emit_dead emit_past_def proceed_def print_number_buf_def print_string_buf_def)

section \<open>Property\<close>

text \<open>
  (C16) The buffered printer is equivalent to the unbuffered one. For a tree of null, booleans,
  integers, strings, arrays and objects whose text is shorter than \<open>2 ^ 30 - 64\<close> characters, and for
  every size of the first buffer and every outcome of the allocations, \<open>cJSON_PrintBuffered\<close> never writes or
  reads outside the buffer it has, and never reads a byte that was not written; it returns exactly the text of
  \<open>cJSON_Print\<close> or \<open>cJSON_PrintUnformatted\<close>, or a null pointer, and the latter only when the size is
  negative or an allocation fails.
\<close>

theorem PrintBuffered_reference:
  assumes "json_wf c" "(if fmt then cJSON_Print c else cJSON_PrintUnformatted c) = Inr (Some t)" "length t + 64 \<le> 2 ^ 30"
  shows "cJSON_PrintBuffered ok c prebuffer fmt = Inr (Some t) \<or>
    cJSON_PrintBuffered ok c prebuffer fmt = Inr None \<and> (prebuffer < 0 \<or> (\<exists>n k. \<not> ok n k))"
proof -
  define p where "p = \<lparr>buffer = (if 0 \<le> prebuffer \<and> ok 0 prebuffer then Some (\<lambda>_. None) else None),
    plength = prebuffer, poffset = 0, mallocs = 1\<rparr>"
  have pb: "cJSON_PrintBuffered ok c prebuffer fmt = ebind (print_value_buf ok 0 fmt c p) (\<lambda>(out, p1).
      case out of None \<Rightarrow> Inr None
      | Some a \<Rightarrow> (case buffer p1 of None \<Rightarrow> Inl UseAfterFree
                   | Some b \<Rightarrow> ebind (chars_at b (nat (plength p1)) a) (\<lambda>s. Inr (Some s))))"
    by (simp only: cJSON_PrintBuffered_def Let_def p_def)
  have t: "prints ok 0 fmt t c"
    using print_value_buf_ok(1) [OF assms(1), of 0 fmt ok] assms(2)
    by (auto simp: cJSON_Print_def cJSON_PrintUnformatted_def split: if_splits)
  show ?thesis
  proof (cases "0 \<le> prebuffer \<and> ok 0 prebuffer")
    case True
    then have "ends_at p []" "fits ([] @ t)" using assms(3) by (simp_all add: p_def ends_at_def shows_text_def fits_def)
    from printsD [OF t this] show ?thesis
    proof (cases rule: writesE)
      case (2 a p1)
      then have "\<exists>b. buffer p1 = Some b \<and> chars_at b (nat (plength p1)) 0 = Inr t"
        using valued_chars [of "[]" t p1 0] t by (simp add: prints_def)
      then show ?thesis using 2 by (auto simp: pb out_at_def)
    qed (simp add: pb)
  next
    case False
    then have "buffer p = None" by (simp add: p_def)
    then show ?thesis using False print_value_buf_dead [OF assms(1), of p] by (auto simp: pb)
  qed
qed

definition nested_json :: cjson where
  "nested_json = CJSON 6 None 0 (Fin 0) None
     [CJSON 4 (Some [CHR ''a'', CHR 0x22]) 0 (Fin 0) (Some ''k'') [],
      CJSON 5 None 0 (Fin 0) (Some ''l'') [CJSON 2 None 0 (Fin 0) None [], CJSON 1 None 1 (Fin 0) None []]]"

theorem PrintBuffered_reference_witness:
  "cJSON_PrintBuffered (\<lambda>n k. True) nested_json 1 True = cJSON_Print nested_json"
proof -
  have wf: "json_wf nested_json"
    by (simp add: nested_json_def json_wf.simps cJSON_types)
  have "case cJSON_Print nested_json of Inr (Some t) \<Rightarrow> length t < 100 | _ \<Rightarrow> False" by code_simp
  then obtain t where "cJSON_Print nested_json = Inr (Some t)" "length t < 100"
    by (auto split: sum.splits option.splits)
  then show ?thesis
    using PrintBuffered_reference [OF wf, of True t "\<lambda>n k. True" 1] by simp
qed

end
