(* ===== verification/Server.thy ===== *)
theory Server
  imports Prelude
begin

text \<open>
  The TCP server of \<open>src/src/server.cpp\<close>, used by the HTTP interface and by the backup service.
  One thread accepts connections and starts a thread per client, which reads one request into a
  buffer, hands it to the callback \<open>clientCb\<close> and closes the connection.

  What a non-blocking \<open>read\<close> returns depends on what has arrived by then: the model takes the
  arrivals as a list, one entry per call of \<open>read\<close>, and keeps what one call left
  in the socket for the next.
\<close>

section \<open>One client\<close>

definition READ_BUF_MAX_SIZE :: nat where "READ_BUF_MAX_SIZE = 32768 * 128"

record client_env =
  tcp_maxseg :: "int option"          \<comment> \<open>\<open>getsockopt(TCP_MAXSEG)\<close>; \<open>None\<close> when it fails\<close>
  read_buf_malloc :: bool
  select_result :: int
  arrivals :: "byte list list"

type_synonym 'w client_cb = "byte list \<Rightarrow> nat \<Rightarrow> 'w \<Rightarrow> 'w res"

text \<open>
  The read loop: \<open>buf\<close> are the bytes read so far (\<open>ReadIndex\<close> is their number), \<open>queue\<close> what waits in
  the socket, \<open>cap\<close> the size of the block. The result is the contents and the final \<open>ReadIndex\<close>.
\<close>

function read_loop :: "nat \<Rightarrow> byte list \<Rightarrow> byte list \<Rightarrow> byte list list \<Rightarrow> (byte list \<times> nat) res" where
  "read_loop cap buf queue arr =
     (let pending = queue @ (case arr of [] \<Rightarrow> [] | a # _ \<Rightarrow> a);
          got = take (READ_BUF_MAX_SIZE - length buf) pending;
          buf' = buf @ got
      in if got = [] then Inr (buf, length buf)
         else if cap < length buf' then Inl OutOfBounds
         else if READ_BUF_MAX_SIZE \<le> length buf' then Inr (buf', READ_BUF_MAX_SIZE - 1)
         else read_loop cap buf' (drop (length got) pending) (tl arr))"
  by pat_completeness auto
termination
proof (relation "measure (\<lambda>(cap, buf, queue, arr). READ_BUF_MAX_SIZE - length buf)", goal_cases)
  case (2 cap buf queue arr pending got buf')
  then have "length buf < length buf'" "length buf' < READ_BUF_MAX_SIZE" by simp_all
  then show ?case by simp
qed simp

declare read_loop.simps [simp del]

definition ClientResponseProc :: "client_env \<Rightarrow> u32 \<Rightarrow> 'w client_cb option \<Rightarrow> 'w \<Rightarrow> 'w res" where
  "ClientResponseProc env rd_buf_size clientCb w =
     (case (if rd_buf_size = 0 then map_option (\<lambda>mss. word_of_int (mss * 128)) (tcp_maxseg env) else Some rd_buf_size) of
        None \<Rightarrow> Inr w
      | Some readBufSize \<Rightarrow>
          if \<not> read_buf_malloc env then Inr w
          else if select_result env \<le> 0 then Inr w
          else ebind (read_loop (unat readBufSize) [] [] (arrivals env)) (\<lambda>(buf, ReadIndex).
               if ReadIndex = 0 then Inr w
               else if unat readBufSize \<le> ReadIndex then Inl OutOfBounds
               else case clientCb of
                      None \<Rightarrow> Inr w
                    | Some cb \<Rightarrow> cb (take ReadIndex buf @ [0]) ReadIndex w))"

section \<open>Starting and accepting\<close>

record listen_env =
  socket_result :: int
  bind_result :: int
  listen_result :: int
  pthread_create_result :: int

text \<open>
  \<open>StartServer\<close>. \<open>pthread_create\<close> reports an error with a positive number, and the flag
  \<open>is_pthread_created\<close> is set by the thread it starts and by nobody else.
\<close>

definition StartServer :: "listen_env \<Rightarrow> int res" where
  "StartServer env =
     (if socket_result env \<le> 0 then Inr (-1)
      else if bind_result env = -1 then Inr (-1)
      else if listen_result env = -1 then Inr (-1)
      else if pthread_create_result env < 0 then Inr (-1)
      else if pthread_create_result env \<noteq> 0 then Inl NoReturn
      else Inr 0)"

text \<open>
  \<open>ClientConnectProc\<close> and the threads it starts share one \<open>struct server_thread\<close>: the acceptor writes
  the socket of the next client into it, the new thread copies it and then sets
  \<open>is_pthread_created\<close>. A client thread is \<open>Starting\<close> until it has made its copy. The number in
  front of a thread is the socket that was accepted for it.
\<close>

datatype accept_pc = Accepting | Creating | Waiting | Stopped

datatype client_thread = Starting | Copied int | Signalled int

record acceptor =
  accept_pc :: accept_pc
  slot_sockfd :: int
  slot_created :: bool
  threads :: "(int \<times> client_thread) list"

definition acceptor_init :: acceptor where
  "acceptor_init = \<lparr>accept_pc = Accepting, slot_sockfd = 0, slot_created = False, threads = []\<rparr>"

inductive accept_step :: "acceptor \<Rightarrow> acceptor \<Rightarrow> bool" where
  accept_ok: "accept_pc a = Accepting \<Longrightarrow> 0 \<le> fd \<Longrightarrow>
     accept_step a (a\<lparr>accept_pc := Creating, slot_sockfd := fd, slot_created := False\<rparr>)"
| accept_fail: "accept_pc a = Accepting \<Longrightarrow> fd < 0 \<Longrightarrow> accept_step a (a\<lparr>accept_pc := Stopped, slot_sockfd := fd\<rparr>)"
| sys_stop: "accept_pc a = Accepting \<Longrightarrow> accept_step a (a\<lparr>accept_pc := Stopped\<rparr>)"
| create_ok: "accept_pc a = Creating \<Longrightarrow>
     accept_step a (a\<lparr>accept_pc := Waiting, threads := threads a @ [(slot_sockfd a, Starting)]\<rparr>)"
| create_fail: "accept_pc a = Creating \<Longrightarrow> accept_step a (a\<lparr>accept_pc := Accepting\<rparr>)"
| wait_done: "accept_pc a = Waiting \<Longrightarrow> slot_created a \<Longrightarrow> accept_step a (a\<lparr>accept_pc := Accepting\<rparr>)"
| thread_copy: "i < length (threads a) \<Longrightarrow> threads a ! i = (fd, Starting) \<Longrightarrow>
     accept_step a (a\<lparr>threads := (threads a)[i := (fd, Copied (slot_sockfd a))]\<rparr>)"
| thread_signal: "i < length (threads a) \<Longrightarrow> threads a ! i = (fd, Copied s) \<Longrightarrow>
     accept_step a (a\<lparr>slot_created := True, threads := (threads a)[i := (fd, Signalled s)]\<rparr>)"

inductive_cases accept_stepE: "accept_step a b"

inductive accept_reach :: "acceptor \<Rightarrow> bool" where
  start: "accept_reach acceptor_init"
| step: "accept_reach a \<Longrightarrow> accept_step a b \<Longrightarrow> accept_reach b"

section \<open>What the loop reads\<close>

lemma read_loop_step:
  assumes "a \<noteq> []" "length buf + length a < READ_BUF_MAX_SIZE" "length buf + length a \<le> cap"
  shows "read_loop cap buf [] (a # arr) = read_loop cap (buf @ a) [] arr"
proof -
  have "take (READ_BUF_MAX_SIZE - length buf) a = a" using assms by simp
  then show ?thesis using assms by (subst read_loop.simps) (simp add: Let_def)
qed

lemma read_loop_Nil [simp]: "read_loop cap buf [] [] = Inr (buf, length buf)"
  by (subst read_loop.simps) simp

text \<open>What has arrived before the first call of \<open>read\<close> that finds nothing.\<close>

definition without_pause :: "byte list list \<Rightarrow> byte list" where
  "without_pause arr = concat (takeWhile (\<lambda>a. a \<noteq> []) arr)"

lemma without_pause_simps [simp]:
  "without_pause [] = []" "without_pause ([] # arr) = []" "a \<noteq> [] \<Longrightarrow> without_pause (a # arr) = a @ without_pause arr"
  by (simp_all add: without_pause_def)

lemma read_loop_pause [simp]: "read_loop cap buf [] ([] # arr) = Inr (buf, length buf)"
  by (subst read_loop.simps) simp

lemma read_loop_pieces:
  "length buf + length (without_pause arr) < READ_BUF_MAX_SIZE \<Longrightarrow> length buf + length (without_pause arr) \<le> cap \<Longrightarrow>
   read_loop cap buf [] arr = Inr (buf @ without_pause arr, length buf + length (without_pause arr))"
proof (induction arr arbitrary: buf)
  case (Cons a arr)
  show ?case
  proof (cases "a = []")
    case False
    then have "read_loop cap buf [] (a # arr) = read_loop cap (buf @ a) [] arr"
      using Cons.prems by (intro read_loop_step) auto
    also have "\<dots> = Inr ((buf @ a) @ without_pause arr, length (buf @ a) + length (without_pause arr))"
      using Cons.prems False by (intro Cons.IH) auto
    finally show ?thesis using False by simp
  qed simp
qed simp

lemma read_loop_overrun:
  "cap < READ_BUF_MAX_SIZE \<Longrightarrow> cap < length a \<Longrightarrow> read_loop cap [] [] (a # arr) = Inl OutOfBounds"
  by (subst read_loop.simps) (auto simp: Let_def)

text \<open>The size of the buffer a client thread allocates.\<close>

definition buf_size :: "client_env \<Rightarrow> u32 \<Rightarrow> nat option" where
  "buf_size env rd_buf_size =
     (if rd_buf_size = 0 then map_option (\<lambda>mss. unat (word_of_int (mss * 128) :: u32)) (tcp_maxseg env)
      else Some (unat rd_buf_size))"

lemma ClientResponseProc_cap:
  assumes "buf_size env rd = Some cap" "read_buf_malloc env" "0 < select_result env"
  shows "ClientResponseProc env rd clientCb w =
           ebind (read_loop cap [] [] (arrivals env)) (\<lambda>(buf, ReadIndex).
             if ReadIndex = 0 then Inr w
             else if cap \<le> ReadIndex then Inl OutOfBounds
             else case clientCb of None \<Rightarrow> Inr w | Some cb \<Rightarrow> cb (take ReadIndex buf @ [0]) ReadIndex w)"
proof -
  obtain r where r: "(if rd = 0 then map_option (\<lambda>mss. word_of_int (mss * 128)) (tcp_maxseg env) else Some rd) = Some (r :: u32)"
      "unat r = cap"
    using assms(1) by (auto simp: buf_size_def split: if_splits)
  show ?thesis unfolding ClientResponseProc_def r(1) r(2) [symmetric] using assms(2,3) by simp
qed

lemma ClientResponseProc_whole:
  assumes "buf_size env rd = Some cap" "read_buf_malloc env" "0 < select_result env" "without_pause (arrivals env) = m" "m \<noteq> []"
      and "length m < READ_BUF_MAX_SIZE" "length m < cap"
  shows "ClientResponseProc env rd (Some cb) w = cb (m @ [0]) (length m) w"
  using ClientResponseProc_cap [OF assms(1-3), of "Some cb" w] read_loop_pieces [of "[]" "arrivals env" cap] assms(4-7) by simp

text \<open>(C25) The callback gets what has arrived without a pause. The bytes of all pieces up to the first call of \<open>read\<close> that
  finds nothing reach it, in order, with a NUL behind them and with their number; when there are none it is not called. What arrives
  after such a pause is never read, so a request is delivered whole exactly when all its pieces come before one.\<close>

theorem ClientResponseProc_delivers:
  assumes "buf_size env rd = Some cap" "read_buf_malloc env" "0 < select_result env"
      and "length (without_pause (arrivals env)) < READ_BUF_MAX_SIZE" "length (without_pause (arrivals env)) < cap"
  shows "ClientResponseProc env rd (Some cb) w =
     (if without_pause (arrivals env) = [] then Inr w
      else cb (without_pause (arrivals env) @ [0]) (length (without_pause (arrivals env))) w)"
  using ClientResponseProc_cap [OF assms(1-3), of "Some cb" w] read_loop_pieces [of "[]" "arrivals env" cap] assms(4,5) by simp

theorem ClientResponseProc_delivers_witness:
  "ClientResponseProc \<lparr>tcp_maxseg = None, read_buf_malloc = True, select_result = 1, arrivals = [[1, 2], [3], [], [4]]\<rparr>
     10240 (Some (\<lambda>data size w. Inr (data, size))) ([], 0) = Inr ([1, 2, 3, 0], 3)"
  using ClientResponseProc_delivers [of "\<lparr>tcp_maxseg = None, read_buf_malloc = True, select_result = 1,
      arrivals = [[1, 2], [3], [], [4]]\<rparr>" 10240 10240 "\<lambda>data size w. Inr (data, size)" "([], 0)"]
  by (simp add: buf_size_def READ_BUF_MAX_SIZE_def)

text \<open>The loop bounds \<open>ReadIndex\<close> by \<open>READ_BUF_MAX_SIZE\<close> (4 MiB), not by the size of the block it reads
  into: a request longer than the block (10 KiB for the HTTP server) that has arrived when \<open>read\<close> is
  called is written behind the end of the block.\<close>

theorem ClientResponseProc_overruns:
  assumes "buf_size env rd = Some cap" "cap < READ_BUF_MAX_SIZE"
      and "read_buf_malloc env" "0 < select_result env" "arrivals env = a # arr" "cap < length a"
  shows "ClientResponseProc env rd clientCb w = Inl OutOfBounds"
  using ClientResponseProc_cap [OF assms(1,3,4)] read_loop_overrun [OF assms(2,6)] assms(5) by simp

theorem ClientResponseProc_overruns_witness:
  "ClientResponseProc \<lparr>tcp_maxseg = None, read_buf_malloc = True, select_result = 1,
     arrivals = [replicate 10241 (65 :: byte)]\<rparr> 10240 (None :: unit client_cb option) () = Inl OutOfBounds"
  using ClientResponseProc_overruns [of "\<lparr>tcp_maxseg = None, read_buf_malloc = True, select_result = 1,
     arrivals = [replicate 10241 65]\<rparr>" 10240 10240 "replicate 10241 65" "[]" "None :: unit client_cb option" "()"]
  by (simp add: buf_size_def READ_BUF_MAX_SIZE_def)

section \<open>The hand-over of a connection\<close>

definition settled :: "int \<times> client_thread \<Rightarrow> bool" where
  "settled t \<longleftrightarrow> snd t = Signalled (fst t)"

definition handed_over :: "int \<Rightarrow> bool \<Rightarrow> int \<times> client_thread \<Rightarrow> bool" where
  "handed_over slot created t \<longleftrightarrow> fst t = slot \<and>
     (case snd t of Starting \<Rightarrow> \<not> created | Copied s \<Rightarrow> s = slot \<and> \<not> created | Signalled s \<Rightarrow> s = slot)"

text \<open>The acceptor waits for the last thread only; all the earlier ones have their copies.\<close>

definition accept_inv :: "acceptor \<Rightarrow> bool" where
  "accept_inv a \<longleftrightarrow>
     (if accept_pc a = Waiting
      then threads a \<noteq> [] \<and> list_all settled (butlast (threads a)) \<and>
           handed_over (slot_sockfd a) (slot_created a) (last (threads a))
      else list_all settled (threads a)) \<and>
     (accept_pc a = Creating \<longrightarrow> \<not> slot_created a)"

lemma list_all_butlast_last: "xs \<noteq> [] \<Longrightarrow> list_all P xs \<longleftrightarrow> list_all P (butlast xs) \<and> P (last xs)"
  by (induction xs) auto

lemma last_update: "xs \<noteq> [] \<Longrightarrow> xs[length xs - Suc 0 := x] = butlast xs @ [x]"
  by (induction xs rule: rev_induct) auto

text \<open>Only the last thread can be unsettled, and only while the acceptor waits.\<close>

lemma unsettled_last:
  assumes "accept_inv a" "i < length (threads a)" "threads a ! i = (fd, t)" "\<And>s. t \<noteq> Signalled s"
  shows "accept_pc a = Waiting" "i = length (threads a) - 1" "last (threads a) = (fd, t)"
proof -
  have ns: "\<not> settled (threads a ! i)" using assms(3,4) by (simp add: settled_def)
  then show w: "accept_pc a = Waiting"
    using assms(1,2) by (auto simp: accept_inv_def list_all_length split: if_splits)
  then have "list_all settled (butlast (threads a))" using assms(1) by (simp add: accept_inv_def)
  with ns assms(2) show i: "i = length (threads a) - 1"
    by (metis (no_types, lifting) One_nat_def Suc_pred length_butlast length_pos_if_in_set less_Suc_eq
        list_all_length nth_butlast nth_mem)
  show "last (threads a) = (fd, t)" using i assms(2,3) by (metis last_conv_nth length_0_conv not_less_zero)
qed

lemma accept_inv_step: "accept_step a b \<Longrightarrow> accept_inv a \<Longrightarrow> accept_inv b"
proof (induction rule: accept_step.induct)
  case (wait_done a)
  then have "settled (last (threads a))"
    by (auto simp: accept_inv_def handed_over_def settled_def split: client_thread.splits)
  with wait_done show ?case by (simp add: accept_inv_def list_all_butlast_last)
next
  case (create_ok a)
  then show ?case by (simp add: accept_inv_def handed_over_def)
next
  case (thread_copy i a fd)
  note u = unsettled_last [OF thread_copy.prems thread_copy.hyps]
  have "threads a \<noteq> []" using thread_copy.hyps(1) by auto
  with u thread_copy.prems show ?case
    by (simp add: accept_inv_def last_update handed_over_def)
next
  case (thread_signal i a fd s)
  note u = unsettled_last [OF thread_signal.prems thread_signal.hyps]
  have "threads a \<noteq> []" using thread_signal.hyps(1) by auto
  with u thread_signal.prems show ?case
    by (simp add: accept_inv_def last_update handed_over_def)
qed (auto simp: accept_inv_def)

lemma accept_reach_inv: "accept_reach a \<Longrightarrow> accept_inv a"
proof (induction rule: accept_reach.induct)
  case start
  show ?case by (simp add: acceptor_init_def accept_inv_def)
qed (rule accept_inv_step)

definition matched :: "int \<times> client_thread \<Rightarrow> bool" where
  "matched t \<longleftrightarrow> (case snd t of Signalled s \<Rightarrow> s = fst t | _ \<Rightarrow> True)"

lemma accept_inv_matched:
  assumes "accept_inv a"
  shows "list_all matched (threads a)"
proof (cases "accept_pc a = Waiting")
  case True
  then have ne: "threads a \<noteq> []" and b: "list_all settled (butlast (threads a))"
      and l: "handed_over (slot_sockfd a) (slot_created a) (last (threads a))"
    using assms by (simp_all add: accept_inv_def)
  have "list_all matched (butlast (threads a))"
    using b by (rule list.pred_mono_strong) (simp add: settled_def matched_def)
  moreover have "matched (last (threads a))"
    using l by (auto simp: handed_over_def matched_def split: client_thread.splits)
  ultimately show ?thesis using list_all_butlast_last [OF ne] by blast
next
  case False
  then have "list_all settled (threads a)" using assms by (simp add: accept_inv_def)
  then show ?thesis by (rule list.pred_mono_strong) (simp add: settled_def matched_def)
qed

text \<open>(C26) No client thread serves a connection that was accepted for another: although all of them read
  their socket from the one shared structure the acceptor overwrites, in every reachable state a
  thread that has made its copy has the socket it was started for, and at most the
  thread started last has not made its copy yet.\<close>

theorem accepted_socket_handed_over:
  assumes "accept_reach a" "i < length (threads a)" "threads a ! i = (fd, t)"
  shows "t = Signalled fd \<or> (i = length (threads a) - 1 \<and> accept_pc a = Waiting \<and> t \<in> {Starting, Copied fd})"
proof -
  have inv: "accept_inv a" using assms(1) by (rule accept_reach_inv)
  show ?thesis
  proof (cases "\<exists>s. t = Signalled s")
    case False
    then have u: "accept_pc a = Waiting" "i = length (threads a) - 1" "last (threads a) = (fd, t)"
      using unsettled_last [OF inv assms(2,3)] by auto
    with inv have "handed_over (slot_sockfd a) (slot_created a) (fd, t)" by (simp add: accept_inv_def)
    with u False show ?thesis by (auto simp: handed_over_def split: client_thread.splits)
  next
    case True
    then obtain s where s: "t = Signalled s" ..
    have "matched (threads a ! i)" using accept_inv_matched [OF inv] assms(2) by (simp add: list_all_length)
    with assms(3) s show ?thesis by (simp add: matched_def)
  qed
qed

theorem accepted_socket_handed_over_witness:
  "\<exists>a. accept_reach a \<and> threads a = [(5, Copied 5)]"
proof -
  define a where "a = \<lparr>accept_pc = Waiting, slot_sockfd = 5, slot_created = False, threads = [(5, Copied 5)]\<rparr>"
  have "accept_reach (acceptor_init\<lparr>accept_pc := Creating, slot_sockfd := 5, slot_created := False\<rparr>)"
    by (rule accept_reach.step [OF accept_reach.start accept_ok]) (simp_all add: acceptor_init_def)
  from accept_reach.step [OF this create_ok]
  have "accept_reach \<lparr>accept_pc = Waiting, slot_sockfd = 5, slot_created = False, threads = [(5, Starting)]\<rparr>"
    by (simp add: acceptor_init_def)
  from accept_reach.step [OF this thread_copy [of 0 _ 5]] have "accept_reach a" by (simp add: a_def)
  moreover have "threads a = [(5, Copied 5)]" by (simp add: a_def)
  ultimately show ?thesis using accepted_socket_handed_over [of a 0 5 "Copied 5"] by (intro exI [of _ a]) simp
qed

end
