(* ===== verification/Common.thy ===== *)
theory Common
  imports CJSONCorrect ApiError
begin

text \<open>
  The helpers of \<open>src/src/common.cpp\<close>: the configuration file, splitting a string at separators,
  the format of a recording schedule and its translation to broken-down times, and the
  parser of dates. A character of a C string is read with \<open>char_at\<close>: position \<open>length s\<close> is
  the NUL, anything behind it is a fault.
\<close>

section \<open>C strings and numbers\<close>

definition NUL :: char where "NUL = CHR 0x00"

definition char_at :: "string \<Rightarrow> nat \<Rightarrow> char res" where
  "char_at s i = (if i < length s then Inr (s ! i) else if i = length s then Inr NUL else Inl OutOfBounds)"

text \<open>\<open>char\<close> is signed on the target.\<close>

definition schar :: "char \<Rightarrow> int" where
  "schar c = (if code_of c < 128 then int (code_of c) else int (code_of c) - 256)"

definition wrap32 :: "int \<Rightarrow> int" where
  "wrap32 i = (i + 2 ^ 31) mod 2 ^ 32 - 2 ^ 31"

definition is_space :: "char \<Rightarrow> bool" where
  "is_space c \<longleftrightarrow> code_of c = 32 \<or> 9 \<le> code_of c \<and> code_of c \<le> 13"

definition digits_val :: "string \<Rightarrow> int" where
  "digits_val ds = foldl (\<lambda>n c. n * 10 + digit_val c) 0 ds"

text \<open>\<open>atoi\<close>: \<open>strtol\<close>, which saturates at 64 bits, cut to an \<open>int\<close>.\<close>

definition atoi :: "string \<Rightarrow> int" where
  "atoi s =
     (let s1 = dropWhile is_space s;
          neg = starts (\<lambda>c. c = CHR ''-'') s1;
          s2 = (if starts (\<lambda>c. c = CHR ''-'' \<or> c = CHR ''+'') s1 then tl s1 else s1);
          n = digits_val (takeWhile is_digit s2);
          l = (if neg then max (- (2 ^ 63)) (- n) else min (2 ^ 63 - 1) n)
      in wrap32 l)"

section \<open>Splitting\<close>

fun ExtraStr_loop :: "string \<Rightarrow> string \<Rightarrow> string \<Rightarrow> string list" where
  "ExtraStr_loop ch str_cut [] = (if str_cut \<noteq> [] then [str_cut] else [])"
| "ExtraStr_loop ch str_cut (c # cs) =
     (if c \<notin> set ch then ExtraStr_loop ch (str_cut @ [c]) cs
      else if str_cut \<noteq> [] then str_cut # ExtraStr_loop ch [] cs
      else ExtraStr_loop ch [] cs)"

definition ExtraStr :: "string \<Rightarrow> string \<Rightarrow> string list \<Rightarrow> string list" where
  "ExtraStr input ch out = out @ ExtraStr_loop ch [] input"

section \<open>The configuration file\<close>

record config =
  serverIp :: string
  backupIp :: string
  streamMediaIp :: string
  downloadMediaIp :: string
  server_port :: int
  playback_port :: int
  backup_port :: int
  stream_media_port :: int
  databaseUser :: string
  databasePasswd :: string
  databaseName :: string
  cfg_storePath :: string
  backupPath :: string
  transMediaPath :: string

definition load_file_num :: nat where "load_file_num = 14"

text \<open>
  \<open>LoadInfoFile\<close>: at most 512 bytes are read into a buffer of 512, and the NUL goes behind
  them. The words are collected up to the first CR or LF; without one the scan leaves what was
  read. The result is the new configuration and the value returned.
\<close>

definition line_end :: "char \<Rightarrow> bool" where
  "line_end c \<longleftrightarrow> c = CHR 0x0D \<or> c = CHR 0x0A"

definition LoadInfoFile :: "string option \<Rightarrow> config \<Rightarrow> (config \<times> int) res" where
  "LoadInfoFile file cfg =
     (case file of
        None \<Rightarrow> Inr (cfg, -1)
      | Some contents \<Rightarrow>
          (let rdBuf = take 512 contents
           in if 512 \<le> length rdBuf then Inl OutOfBounds
              else if \<not> list_ex line_end rdBuf then Inl Indeterminate
              else (let info = ExtraStr_loop '' '' [] (takeWhile (\<lambda>c. \<not> line_end c) rdBuf)
                    in if length info < load_file_num then Inr (cfg, -1)
                       else Inr (\<lparr>serverIp = info ! 0, backupIp = info ! 1, streamMediaIp = info ! 2,
                              downloadMediaIp = info ! 3, server_port = atoi (info ! 4),
                              playback_port = atoi (info ! 5), backup_port = atoi (info ! 6),
                              stream_media_port = atoi (info ! 7), databaseUser = info ! 8,
                              databasePasswd = info ! 9, databaseName = info ! 10, cfg_storePath = info ! 11,
                              backupPath = info ! 12, transMediaPath = info ! 13\<rparr>, 0))))"

section \<open>Schedules\<close>

definition two_digits :: "string \<Rightarrow> nat \<Rightarrow> int res" where
  "two_digits s i = ebind (char_at s i) (\<lambda>a. ebind (char_at s (i + 1)) (\<lambda>b. Inr ((schar a - 48) * 10 + (schar b - 48))))"

text \<open>The hour, minute and second at \<open>i\<close>, \<open>i + 3\<close> and \<open>i + 6\<close>: \<open>True\<close> when all are in range.\<close>

definition time_in_range :: "string \<Rightarrow> nat \<Rightarrow> bool res" where
  "time_in_range s i =
     ebind (two_digits s i) (\<lambda>hour. if hour < 0 \<or> 24 < hour then Inr False
     else ebind (two_digits s (i + 3)) (\<lambda>mi. if mi < 0 \<or> 59 < mi then Inr False
     else ebind (two_digits s (i + 6)) (\<lambda>sec. if sec < 0 \<or> 59 < sec then Inr False else Inr True)))"

definition ScheduleFormatCheck :: "string option \<Rightarrow> int res" where
  "ScheduleFormatCheck schedule =
     (case schedule of
        None \<Rightarrow> Inr (-1)
      | Some s \<Rightarrow>
          ebind (char_at s 17) (\<lambda>e.
          if e \<noteq> NUL then Inr (-1)
          else if s ! 2 \<noteq> CHR '':'' \<or> s ! 5 \<noteq> CHR '':'' \<or> s ! 11 \<noteq> CHR '':'' \<or> s ! 14 \<noteq> CHR '':'' then Inr (-1)
          else if s ! 8 \<noteq> CHR ''-'' then Inr (-1)
          else ebind (time_in_range s 0) (\<lambda>ok.
               if \<not> ok then Inr (-1)
               else ebind (time_in_range s 9) (\<lambda>ok'. Inr (if ok' then 0 else -1)))))"

text \<open>A time of day: the other fields of a fresh \<open>struct tm\<close> are zero.\<close>

definition time_of_day :: "int \<Rightarrow> int \<Rightarrow> int \<Rightarrow> tm" where
  "time_of_day h m s = \<lparr>tm_sec = s, tm_min = m, tm_hour = h, tm_mday = 0, tm_mon = 0, tm_year = 0, tm_wday = 0\<rparr>"

definition tm_at :: "string \<Rightarrow> nat \<Rightarrow> tm res" where
  "tm_at s i = ebind (two_digits s i) (\<lambda>h. ebind (two_digits s (i + 3)) (\<lambda>m. ebind (two_digits s (i + 6)) (\<lambda>sec.
     Inr (time_of_day h m sec))))"

definition item_tm :: "string \<Rightarrow> (tm \<times> tm) res" where
  "item_tm s = ebind (tm_at s 0) (\<lambda>a. ebind (tm_at s 9) (\<lambda>b. Inr (a, b)))"

fun emap :: "('a \<Rightarrow> 'e + 'b) \<Rightarrow> 'a list \<Rightarrow> 'e + 'b list" where
  "emap f [] = Inr []"
| "emap f (x # xs) = ebind (f x) (\<lambda>y. ebind (emap f xs) (\<lambda>ys. Inr (y # ys)))"

type_synonym schedule = "(tm \<times> tm) list list"

text \<open>\<open>TranslateScheduleToTm\<close> ends by moving the last day to the front, so that Sunday, the last day of
  the request, is day 0 as in \<open>tm_wday\<close>.\<close>

definition TranslateScheduleToTm :: "string list list \<Rightarrow> schedule res" where
  "TranslateScheduleToTm sched =
     ebind (emap (emap item_tm) sched) (\<lambda>s. if s = [] then Inl OutOfBounds else Inr (last s # butlast s))"

text \<open>One day of the request: the items, or the error that ends the parse.\<close>

fun parse_items :: "cjson list \<Rightarrow> (store_api_error + string list) res" where
  "parse_items [] = Inr (Inr [])"
| "parse_items (item # items) =
     ebind (ScheduleFormatCheck (valuestring item)) (\<lambda>r.
     if r < 0 then Inr (Inl schedule_format_error)
     else abind (parse_items items) (\<lambda>rest.
          Inr (Inr ((case valuestring item of None \<Rightarrow> [] | Some s \<Rightarrow> s) # rest))))"

fun parse_days :: "cjson list \<Rightarrow> (store_api_error + string list list) res" where
  "parse_days [] = Inr (Inr [])"
| "parse_days (day # days) =
     (if cJSON_GetArraySize day = 0 then Inr (Inl schedule_format_error)
      else abind (parse_items (child day)) (\<lambda>d. abind (parse_days days) (\<lambda>ds. Inr (Inr (d # ds)))))"

definition ParseSchedule :: "string \<Rightarrow> (store_api_error + schedule) res" where
  "ParseSchedule json =
     ebind (cJSON_Parse json) (\<lambda>obj.
     case obj of
       None \<Rightarrow> Inr (Inl schedule_format_error)
     | Some scheduleObj \<Rightarrow>
         if cJSON_GetArraySize scheduleObj \<noteq> 7 then Inr (Inl schedule_days_not_enough)
         else abind (parse_days (child scheduleObj)) (\<lambda>week.
              ebind (TranslateScheduleToTm week) (\<lambda>s. Inr (Inr s))))"

section \<open>Dates\<close>

text \<open>
  One loop of \<open>TransDateToTm\<close>: the characters before the separator, copied into an array of
  \<open>sz\<close>. The memory is the text with its NUL; \<open>Inr None\<close> is the early \<open>return -1\<close>.
\<close>

fun date_field :: "nat \<Rightarrow> char \<Rightarrow> nat \<Rightarrow> string \<Rightarrow> (string \<times> string) option res" where
  "date_field sz sep idx [] = Inl OutOfBounds"
| "date_field sz sep idx (c # cs) =
     (if c = sep then Inr (Some ([], cs))
      else if sz \<le> idx + 1 then Inr None
      else ebind (date_field sz sep (idx + 1) cs) (\<lambda>r. Inr (map_option (\<lambda>(f, rest). (c # f, rest)) r)))"

text \<open>A field array read by \<open>atoi\<close> ends at its first NUL.\<close>

definition field_int :: "string \<Rightarrow> int" where
  "field_int f = atoi (takeWhile (\<lambda>c. c \<noteq> NUL) f)"

definition date_fields :: "string \<Rightarrow> (string list) option res" where
  "date_fields s =
     obind (date_field 5 (CHR ''-'') 0 s) (\<lambda>(year, s1).
     obind (date_field 3 (CHR ''-'') 0 s1) (\<lambda>(mon, s2).
     obind (date_field 3 (CHR '' '') 0 s2) (\<lambda>(day, s3).
     obind (date_field 3 (CHR '':'') 0 s3) (\<lambda>(hour, s4).
     obind (date_field 3 (CHR '':'') 0 s4) (\<lambda>(mi, s5).
     obind (date_field 3 NUL 0 s5) (\<lambda>(sec, s6).
     Inr (Some [year, mon, day, hour, mi, sec])))))))"

definition TransDateToTm :: "string \<Rightarrow> tm \<Rightarrow> (tm \<times> int) res" where
  "TransDateToTm date struTm =
     ebind (date_fields (date @ [NUL])) (\<lambda>r.
     case r of
       None \<Rightarrow> Inr (struTm, -1)
     | Some f \<Rightarrow>
         (let t = struTm\<lparr>tm_year := field_int (f ! 0) - 1900, tm_mon := field_int (f ! 1) - 1, tm_mday := field_int (f ! 2),
                         tm_hour := field_int (f ! 3), tm_min := field_int (f ! 4), tm_sec := field_int (f ! 5)\<rparr>
          in Inr (t, if tm_year t < 0 then -1
                     else if tm_mon t < 0 \<or> 11 < tm_mon t then -1
                     else if tm_mday t < 1 \<or> 31 < tm_mon t then -1
                     else if tm_hour t < 0 \<or> 23 < tm_hour t then -1
                     else if tm_min t < 0 \<or> 59 < tm_min t then -1
                     else if tm_sec t < 0 \<or> 59 < tm_min t then -1
                     else 0)))"

end
