(* ===== verification/CommonCorrect.thy ===== *)
theory CommonCorrect
  imports Common
begin

text \<open>
  Correctness of the helpers of \<open>common.cpp\<close>: splitting is the inverse of joining, dates and
  schedules that are printed in the documented format are parsed to the same values, and an accepted
  schedule has seven non-empty days whose times are in range.
\<close>

section \<open>Splitting\<close>

lemma ExtraStr_loop_word:
  "set w \<inter> set ch = {} \<Longrightarrow> ExtraStr_loop ch acc (w @ rest) = ExtraStr_loop ch (acc @ w) rest"
  by (induction w arbitrary: acc) auto

lemma ExtraStr_loop_join:
  "\<forall>w \<in> set ws. w \<noteq> [] \<and> set w \<inter> set ch = {} \<Longrightarrow> c \<in> set ch \<Longrightarrow> ExtraStr_loop ch [] (join [c] ws) = ws"
proof (induction "[c]" ws rule: join.induct)
  case (2 e)
  then show ?case using ExtraStr_loop_word [of e ch "[]" "[]"] by simp
next
  case (3 e v va)
  then show ?case using ExtraStr_loop_word [of e ch "[]" "c # join [c] (v # va)"] by simp
qed simp

lemma ExtraStr_loop_concat: "concat (ExtraStr_loop ch acc s) = acc @ filter (\<lambda>c. c \<notin> set ch) s"
  by (induction ch acc s rule: ExtraStr_loop.induct) simp_all

lemma ExtraStr_loop_words:
  "w \<in> set (ExtraStr_loop ch acc s) \<Longrightarrow> set acc \<inter> set ch = {} \<Longrightarrow> w \<noteq> [] \<and> set w \<inter> set ch = {}"
proof (induction s arbitrary: acc)
  case (Cons c cs)
  show ?case
  proof (cases "c \<in> set ch")
    case True
    then have "w = acc \<and> acc \<noteq> [] \<or> w \<in> set (ExtraStr_loop ch [] cs)"
      using Cons.prems(1) by (auto split: if_splits)
    then show ?thesis using Cons.IH [of "[]"] Cons.prems(2) by auto
  next
    case False
    then have "w \<in> set (ExtraStr_loop ch (acc @ [c]) cs)" "set (acc @ [c]) \<inter> set ch = {}"
      using Cons.prems by auto
    then show ?thesis by (rule Cons.IH)
  qed
qed (auto split: if_splits)

section \<open>Numbers\<close>

lemma digits_val_append: "digits_val (a @ b) = digits_val a * 10 ^ length b + digits_val b"
proof -
  have "foldl (\<lambda>n c. n * 10 + digit_val c) x b = x * 10 ^ length b + foldl (\<lambda>n c. n * 10 + digit_val c) 0 b" for x
  proof (induction b arbitrary: x)
    case (Cons c b)
    have "foldl (\<lambda>n c. n * 10 + digit_val c) (x * 10 + digit_val c) b =
        (x * 10 + digit_val c) * 10 ^ length b + foldl (\<lambda>n c. n * 10 + digit_val c) 0 b"
      using Cons [of "x * 10 + digit_val c"] .
    moreover have "foldl (\<lambda>n c. n * 10 + digit_val c) (digit_val c) b =
        digit_val c * 10 ^ length b + foldl (\<lambda>n c. n * 10 + digit_val c) 0 b"
      using Cons [of "digit_val c"] .
    ultimately show ?case by (simp add: algebra_simps)
  qed simp
  from this [of "foldl (\<lambda>n c. n * 10 + digit_val c) 0 a"] show ?thesis
    unfolding digits_val_def foldl_append .
qed

lemma digits_val_dec [simp]: "digits_val (dec n) = int n"
proof (induction n rule: dec.induct)
  case (1 n)
  show ?case
  proof (cases "n < 10")
    case True
    then show ?thesis by (simp add: dec.simps digits_val_def)
  next
    case False
    then have "digits_val (dec n) = digits_val (dec (n div 10)) * 10 + int (n mod 10)"
      by (simp add: dec.simps [of n] digits_val_append) (simp add: digits_val_def)
    also have "\<dots> = int (n div 10 * 10 + n mod 10)"
      unfolding of_nat_add of_nat_mult using 1 False by simp
    also have "\<dots> = int n" by (simp only: div_mult_mod_eq)
    finally show ?thesis .
  qed
qed

lemma takeWhile_digits: "list_all is_digit ds \<Longrightarrow> \<not> starts is_digit t \<Longrightarrow> takeWhile is_digit (ds @ t) = ds"
  by (induction ds) (cases t; auto)+

lemma wrap32_id: "- (2 ^ 31) \<le> i \<Longrightarrow> i < 2 ^ 31 \<Longrightarrow> wrap32 i = i"
  by (simp add: wrap32_def)

lemma digits_plain:
  assumes "list_all is_digit ds" "ds \<noteq> []"
  shows "dropWhile is_space ds = ds" "\<not> starts (\<lambda>c. c = CHR ''-'') ds"
    "\<not> starts (\<lambda>c. c = CHR ''-'' \<or> c = CHR ''+'') ds" "takeWhile (\<lambda>c. c \<noteq> NUL) ds = ds"
proof -
  obtain c cs where ds: "ds = c # cs" "is_digit c" using assms by (cases ds) auto
  show "dropWhile is_space ds = ds" "\<not> starts (\<lambda>c. c = CHR ''-'') ds"
    "\<not> starts (\<lambda>c. c = CHR ''-'' \<or> c = CHR ''+'') ds"
    using ds by (auto simp: is_space_def is_digit_def code_of_def)
  show "takeWhile (\<lambda>c. c \<noteq> NUL) ds = ds"
    using assms(1) by (auto simp: takeWhile_eq_all_conv list_all_iff NUL_def is_digit_def code_of_def)
qed

lemma field_int_digits:
  assumes "list_all is_digit ds" "ds \<noteq> []" "digits_val ds < 2 ^ 31" "0 \<le> digits_val ds"
  shows "field_int ds = digits_val ds"
proof -
  have "takeWhile is_digit ds = ds" using takeWhile_digits [OF assms(1), of "[]"] by simp
  then have "field_int ds = wrap32 (min (2 ^ 63 - 1) (digits_val ds))"
    unfolding field_int_def atoi_def digits_plain [OF assms(1,2)] Let_def
    using digits_plain(2,3) [OF assms(1,2)] by (simp only: if_False)
  then show ?thesis using assms(3,4) by (simp add: wrap32_id min_def)
qed

text \<open>A number printed with \<open>%d\<close> into a large enough buffer is read back by \<open>atoi\<close>.\<close>

lemma atoi_fmt_d: "0 \<le> i \<Longrightarrow> i < 2 ^ 31 \<Longrightarrow> atoi (fmt_d i) = i"
  using field_int_digits [OF dec_digits dec_nonempty, of "nat i"] digits_plain(4) [OF dec_digits dec_nonempty]
  by (simp add: field_int_def fmt_d_def)

lemma length_fmt_d: "0 \<le> i \<Longrightarrow> i < 2 ^ 31 \<Longrightarrow> length (fmt_d i) \<le> 10"
  using length_dec [of "nat i" 9] by (simp add: fmt_d_def)

section \<open>Two digits\<close>

lemma fmt_02:
  assumes "0 \<le> i" "i < 100"
  shows "fmt_0wd 2 i = [digit_char (nat i div 10), digit_char (nat i mod 10)]"
proof (cases "i < 10")
  case True
  have "digit_char 0 = CHR ''0''" by code_simp
  then show ?thesis using True assms by (simp add: fmt_0wd_def Let_def dec.simps)
next
  case False
  then have "nat i div 10 < 10" using assms by simp
  then show ?thesis using False assms by (simp add: fmt_0wd_def Let_def dec.simps)
qed

lemma schar_digit [simp]: "d < 10 \<Longrightarrow> schar (digit_char d) = 48 + int d"
  by (simp add: schar_def digit_char_def)

lemma digit_pair: "0 \<le> i \<Longrightarrow> i < 100 \<Longrightarrow> int (nat i div 10) * 10 + int (nat i mod 10) = i"
  by (metis div_mult_mod_eq nat_0_le of_nat_add of_nat_mult of_nat_numeral)

lemma two_digits_at:
  assumes "length a = k" "0 \<le> i" "i < 100"
  shows "two_digits (a @ fmt_0wd 2 i @ b) k = Inr i"
proof -
  have "nat i div 10 < 10" "nat i mod 10 < 10" using assms by auto
  then show ?thesis
    using assms digit_pair [OF assms(2,3)] by (simp add: two_digits_def char_at_def fmt_02 nth_append)
qed

lemma field_int_02: "0 \<le> i \<Longrightarrow> i < 100 \<Longrightarrow> field_int (fmt_0wd 2 i) = i"
proof -
  assume i: "0 \<le> i" "i < 100"
  have d: "nat i div 10 < 10" "nat i mod 10 < 10" using i by auto
  then have v: "digits_val (fmt_0wd 2 i) = i"
    using digit_pair [OF i] i by (simp add: fmt_02 digits_val_def)
  show ?thesis
    using field_int_digits [of "fmt_0wd 2 i"] v i d by (simp add: fmt_02)
qed

section \<open>Dates\<close>

lemma date_field_until:
  "idx + length f < sz \<Longrightarrow> sep \<notin> set f \<Longrightarrow> date_field sz sep idx (f @ sep # rest) = Inr (Some (f, rest))"
  by (induction f arbitrary: idx) auto

text \<open>The text of a date, as the file names and the requests have it.\<close>

definition date_text :: "tm \<Rightarrow> string" where
  "date_text t = fmt_wd 4 (tm_year t + 1900) @ ''-'' @ fmt_0wd 2 (tm_mon t + 1) @ ''-'' @ fmt_0wd 2 (tm_mday t) @ '' '' @
     fmt_0wd 2 (tm_hour t) @ '':'' @ fmt_0wd 2 (tm_min t) @ '':'' @ fmt_0wd 2 (tm_sec t)"

definition date_printable :: "tm \<Rightarrow> bool" where
  "date_printable t \<longleftrightarrow> 0 \<le> tm_year t \<and> tm_year t < 8100 \<and> 0 \<le> tm_mon t \<and> tm_mon t \<le> 11 \<and>
     1 \<le> tm_mday t \<and> tm_mday t < 100 \<and> 0 \<le> tm_hour t \<and> tm_hour t \<le> 23 \<and> 0 \<le> tm_min t \<and> tm_min t \<le> 59 \<and>
     0 \<le> tm_sec t \<and> tm_sec t < 100"

lemma digit_not: "d < 10 \<Longrightarrow> \<not> is_digit c \<Longrightarrow> digit_char d \<noteq> c"
  using is_digit_digit_char by metis

lemma fmt_02_field:
  assumes "0 \<le> i" "i < 100" "\<not> is_digit sep"
  shows "date_field 3 sep 0 (fmt_0wd 2 i @ sep # rest) = Inr (Some (fmt_0wd 2 i, rest))"
proof (rule date_field_until)
  show "0 + length (fmt_0wd 2 i) < 3" using assms by (simp add: fmt_02)
  have "nat i div 10 < 10" "nat i mod 10 < 10" using assms by auto
  then show "sep \<notin> set (fmt_0wd 2 i)" using assms digit_not [OF _ assms(3)] by (auto simp: fmt_02)
qed

lemma year_text:
  assumes "1900 \<le> y" "y < 10000"
  shows "fmt_wd 4 y = dec (nat y)" "length (dec (nat y)) = 4" "field_int (dec (nat y)) = y"
proof -
  show l: "length (dec (nat y)) = 4"
  proof -
    have "1900 \<le> nat y" "nat y < 10000" using assms by auto
    then have "\<not> nat y < 10" "\<not> nat y div 10 < 10" "\<not> nat y div 10 div 10 < 10" "nat y div 10 div 10 div 10 < 10"
      by linarith+
    then show ?thesis
      by (simp add: dec.simps [of "nat y"] dec.simps [of "nat y div 10"] dec.simps [of "nat y div 10 div 10"]
          dec.simps [of "nat y div 10 div 10 div 10"])
  qed
  then show "fmt_wd 4 y = dec (nat y)" using assms by (simp add: fmt_wd_def fmt_d_def)
  show "field_int (dec (nat y)) = y"
  proof -
    have "dec (nat y) \<noteq> []" using l by force
    then show ?thesis using field_int_digits [OF dec_digits, of "nat y"] assms by simp
  qed
qed

lemma not_digit_sep: "\<not> is_digit (CHR ''-'')" "\<not> is_digit (CHR '' '')" "\<not> is_digit (CHR '':'')" "\<not> is_digit NUL"
  by (simp_all add: is_digit_def code_of_def NUL_def)

lemma date_fields_text:
  assumes "date_printable t"
  shows "date_fields (date_text t @ [NUL]) = Inr (Some [dec (nat (tm_year t + 1900)), fmt_0wd 2 (tm_mon t + 1),
     fmt_0wd 2 (tm_mday t), fmt_0wd 2 (tm_hour t), fmt_0wd 2 (tm_min t), fmt_0wd 2 (tm_sec t)])"
proof -
  have y: "1900 \<le> tm_year t + 1900" "tm_year t + 1900 < 10000" using assms by (auto simp: date_printable_def)
  have "CHR ''-'' \<notin> set (dec (nat (tm_year t + 1900)))"
    using dec_digits [of "nat (tm_year t + 1900)"] not_digit_sep(1) by (auto simp: list_all_iff)
  then have "date_field 5 (CHR ''-'') 0 (dec (nat (tm_year t + 1900)) @ CHR ''-'' # rest) =
      Inr (Some (dec (nat (tm_year t + 1900)), rest))" for rest
    using year_text(2) [OF y] by (intro date_field_until) auto
  then show ?thesis
    using assms fmt_02_field [OF _ _ not_digit_sep(1)] fmt_02_field [OF _ _ not_digit_sep(2)]
      fmt_02_field [OF _ _ not_digit_sep(3)] fmt_02_field [OF _ _ not_digit_sep(4), of _ "[]"]
    by (simp add: date_fields_def date_text_def year_text(1) [OF y] obind_def date_printable_def)
qed

section \<open>Schedules\<close>

text \<open>An item of a schedule: two times of day in the documented format.\<close>

type_synonym hms = "int \<times> int \<times> int"

definition hms_ok :: "hms \<Rightarrow> bool" where
  "hms_ok t = (case t of (h, m, s) \<Rightarrow> 0 \<le> h \<and> h \<le> 24 \<and> 0 \<le> m \<and> m \<le> 59 \<and> 0 \<le> s \<and> s \<le> 59)"

definition hms_text :: "hms \<Rightarrow> string" where
  "hms_text t = (case t of (h, m, s) \<Rightarrow> fmt_0wd 2 h @ '':'' @ fmt_0wd 2 m @ '':'' @ fmt_0wd 2 s)"

definition hms_tm :: "hms \<Rightarrow> tm" where
  "hms_tm t = (case t of (h, m, s) \<Rightarrow> time_of_day h m s)"

definition item_text :: "hms \<times> hms \<Rightarrow> string" where
  "item_text i = hms_text (fst i) @ ''-'' @ hms_text (snd i)"

lemma length_hms: "hms_ok t \<Longrightarrow> length (hms_text t) = 8"
  by (auto simp: hms_ok_def hms_text_def fmt_02)

lemma hms_text_nth: "hms_ok t \<Longrightarrow> hms_text t ! 2 = CHR '':'' \<and> hms_text t ! 5 = CHR '':''"
  by (auto simp: hms_ok_def hms_text_def fmt_02)

lemma hms_two_digits:
  assumes "hms_ok (h, m, s)" "length a = k"
  shows "two_digits (a @ hms_text (h, m, s) @ b) k = Inr h" "two_digits (a @ hms_text (h, m, s) @ b) (k + 3) = Inr m"
    "two_digits (a @ hms_text (h, m, s) @ b) (k + 6) = Inr s"
proof -
  have r: "0 \<le> h" "h < 100" "0 \<le> m" "m < 100" "0 \<le> s" "s < 100" using assms(1) by (auto simp: hms_ok_def)
  have l: "length (fmt_0wd 2 h) = 2" "length (fmt_0wd 2 m) = 2" using r by (simp_all add: fmt_02)
  show "two_digits (a @ hms_text (h, m, s) @ b) k = Inr h"
    using two_digits_at [OF assms(2) r(1,2)] by (simp add: hms_text_def)
  show "two_digits (a @ hms_text (h, m, s) @ b) (k + 3) = Inr m"
    using two_digits_at [of "a @ fmt_0wd 2 h @ '':''" "k + 3" m] r l assms(2) by (simp add: hms_text_def)
  show "two_digits (a @ hms_text (h, m, s) @ b) (k + 6) = Inr s"
    using two_digits_at [of "a @ fmt_0wd 2 h @ '':'' @ fmt_0wd 2 m @ '':''" "k + 6" s] r l assms(2)
    by (simp add: hms_text_def)
qed

lemma hms_range: "hms_ok t \<Longrightarrow> length a = k \<Longrightarrow> time_in_range (a @ hms_text t @ b) k = Inr True"
  by (cases t) (simp add: time_in_range_def hms_two_digits, auto simp: hms_ok_def)

lemma hms_tm_at: "hms_ok t \<Longrightarrow> length a = k \<Longrightarrow> tm_at (a @ hms_text t @ b) k = Inr (hms_tm t)"
  by (cases t) (simp add: tm_at_def hms_two_digits hms_tm_def)

lemma item_parts:
  assumes "hms_ok (fst i)" "hms_ok (snd i)"
  shows "ScheduleFormatCheck (Some (item_text i)) = Inr 0" "item_tm (item_text i) = Inr (hms_tm (fst i), hms_tm (snd i))"
proof -
  note l = length_hms [OF assms(1)] length_hms [OF assms(2)]
  have first: "item_text i = [] @ hms_text (fst i) @ (''-'' @ hms_text (snd i))"
    and second: "item_text i = (hms_text (fst i) @ ''-'') @ hms_text (snd i) @ []"
    by (simp_all add: item_text_def)
  have "time_in_range (item_text i) 0 = Inr True" "tm_at (item_text i) 0 = Inr (hms_tm (fst i))"
    unfolding first using hms_range [OF assms(1)] hms_tm_at [OF assms(1)] by (auto simp only: list.size)
  moreover have "time_in_range (item_text i) 9 = Inr True"
    unfolding second by (rule hms_range [OF assms(2)]) (simp add: l)
  moreover have "tm_at (item_text i) 9 = Inr (hms_tm (snd i))"
    unfolding second by (rule hms_tm_at [OF assms(2)]) (simp add: l)
  moreover have "item_text i ! 2 = CHR '':''" "item_text i ! 5 = CHR '':''" "item_text i ! 8 = CHR ''-''"
    "item_text i ! 11 = CHR '':''" "item_text i ! 14 = CHR '':''" "length (item_text i) = 17"
    using l hms_text_nth [OF assms(1)] hms_text_nth [OF assms(2)]
    by (auto simp: item_text_def nth_append nth_Cons' numeral_eq_Suc)
  ultimately show "ScheduleFormatCheck (Some (item_text i)) = Inr 0"
    "item_tm (item_text i) = Inr (hms_tm (fst i), hms_tm (snd i))"
    by (simp_all add: ScheduleFormatCheck_def char_at_def item_tm_def)
qed

text \<open>The JSON text of a week: seven arrays of items.\<close>

definition day_json :: "(hms \<times> hms) list \<Rightarrow> cjson" where
  "day_json items = cJSON_CreateStringArray (map item_text items)"

definition week_json :: "(hms \<times> hms) list list \<Rightarrow> cjson" where
  "week_json week = set_child (map day_json week) cJSON_CreateArray"

definition week_ok :: "(hms \<times> hms) list list \<Rightarrow> bool" where
  "week_ok week \<longleftrightarrow> length week = 7 \<and> (\<forall>day \<in> set week. day \<noteq> [] \<and> (\<forall>i \<in> set day. hms_ok (fst i) \<and> hms_ok (snd i)))"

lemmas create_simps = cJSON_CreateArray_def cJSON_CreateString_def cJSON_CreateStringArray_def cJSON_CreateObject_def
  cJSON_CreateNumber_def cJSON_CreateBool_def cJSON_New_Item_def

lemma parse_items_strings:
  "\<forall>i \<in> set items. hms_ok (fst i) \<and> hms_ok (snd i) \<Longrightarrow>
   parse_items (map cJSON_CreateString (map item_text items)) = Inr (Inr (map item_text items))"
  by (induction items) (simp_all add: item_parts create_simps)

lemma parse_days_week:
  "\<forall>day \<in> set week. day \<noteq> [] \<and> (\<forall>i \<in> set day. hms_ok (fst i) \<and> hms_ok (snd i)) \<Longrightarrow>
   parse_days (map day_json week) = Inr (Inr (map (map item_text) week))"
proof (induction week)
  case (Cons day week)
  have "child (day_json day) = map cJSON_CreateString (map item_text day)"
    by (simp add: day_json_def create_simps)
  then show ?case using Cons parse_items_strings [of day] by (simp add: cJSON_GetArraySize_def del: map_map)
qed simp

lemma emap_Inr: "\<forall>x \<in> set xs. f x = Inr (g x) \<Longrightarrow> emap f xs = Inr (map g xs)"
  by (induction xs) simp_all

lemma emap_map: "emap f (map g xs) = emap (\<lambda>x. f (g x)) xs"
  by (induction xs) simp_all

definition item_times :: "hms \<times> hms \<Rightarrow> tm \<times> tm" where
  "item_times i = (hms_tm (fst i), hms_tm (snd i))"

lemma Translate_week:
  assumes "week_ok week"
  shows "TranslateScheduleToTm (map (map item_text) week) =
    Inr (map item_times (last week) # map (map item_times) (butlast week))"
proof -
  have "emap (emap item_tm) (map (map item_text) week) = Inr (map (map item_times) week)"
    unfolding emap_map using assms
    by (intro emap_Inr ballI) (auto simp: week_ok_def item_parts item_times_def intro!: emap_Inr)
  moreover have "week \<noteq> []" using assms by (auto simp: week_ok_def)
  ultimately show ?thesis by (simp add: TranslateScheduleToTm_def last_map map_butlast)
qed

lemma item_text_no_NUL: "hms_ok (fst i) \<Longrightarrow> hms_ok (snd i) \<Longrightarrow> NUL \<notin> set (item_text i)"
proof -
  assume ok: "hms_ok (fst i)" "hms_ok (snd i)"
  have "NUL \<notin> set (fmt_0wd 2 k)" if "0 \<le> k" "k < 100" for k
  proof -
    have "nat k div 10 < 10" "nat k mod 10 < 10" using that by auto
    from digit_not [OF this(1) not_digit_sep(4)] digit_not [OF this(2) not_digit_sep(4)]
    show ?thesis using that by (auto simp: fmt_02)
  qed
  then have "NUL \<notin> set (hms_text t)" if "hms_ok t" for t
    using that by (auto simp: hms_ok_def hms_text_def NUL_def)
  then show ?thesis using ok by (auto simp: item_text_def NUL_def)
qed

lemma json_wf_week:
  assumes "week_ok week"
  shows "json_wf (week_json week)"
proof -
  have "json_wf (day_json day) \<and> jname (day_json day) = None" if "day \<in> set week" for day
    using assms that item_text_no_NUL
    by (auto simp: week_ok_def day_json_def create_simps json_wf.simps cJSON_types NUL_def)
  then show ?thesis by (simp add: week_json_def create_simps json_wf.simps cJSON_types)
qed

text \<open>What the format check guarantees of a translated item.\<close>

definition clock_range :: "tm \<Rightarrow> bool" where
  "clock_range t \<longleftrightarrow> 0 \<le> tm_hour t \<and> tm_hour t \<le> 24 \<and> 0 \<le> tm_min t \<and> tm_min t \<le> 59 \<and> 0 \<le> tm_sec t \<and> tm_sec t \<le> 59"

lemma time_in_range_tm: "time_in_range s i = Inr True \<Longrightarrow> tm_at s i = Inr t \<Longrightarrow> clock_range t"
  by (auto simp: time_in_range_def tm_at_def ebind_eq_Inr clock_range_def time_of_day_def split: if_splits)

lemma checked_item_range:
  assumes "ScheduleFormatCheck (Some s) = Inr r" "0 \<le> r" "item_tm s = Inr (a, b)"
  shows "clock_range a \<and> clock_range b"
proof -
  have "time_in_range s 0 = Inr True" "time_in_range s 9 = Inr True"
    using assms(1,2) by (auto simp: ScheduleFormatCheck_def ebind_eq_Inr split: if_splits)
  then show ?thesis using assms(3) by (auto simp: item_tm_def ebind_eq_Inr dest: time_in_range_tm)
qed

definition item_checked :: "string \<Rightarrow> bool" where
  "item_checked s \<longleftrightarrow> (\<exists>r. ScheduleFormatCheck (Some s) = Inr r \<and> 0 \<le> r)"

lemma parse_items_checked:
  "parse_items items = Inr (Inr ds) \<Longrightarrow> length ds = length items \<and> (\<forall>d \<in> set ds. item_checked d)"
proof (induction items arbitrary: ds)
  case (Cons item items)
  from Cons.prems obtain r rest where r: "ScheduleFormatCheck (valuestring item) = Inr r" "0 \<le> r"
    "parse_items items = Inr (Inr rest)" "ds = (case valuestring item of None \<Rightarrow> [] | Some s \<Rightarrow> s) # rest"
    by (auto simp: ebind_eq_Inr abind_eq_Inr not_less split: if_splits)
  then obtain s where "valuestring item = Some s"
    by (cases "valuestring item") (auto simp: ScheduleFormatCheck_def)
  with r Cons.IH [OF r(3)] show ?case by (auto simp: item_checked_def)
qed simp

lemma parse_days_checked:
  "parse_days days = Inr (Inr week) \<Longrightarrow>
   length week = length days \<and> (\<forall>day \<in> set week. day \<noteq> [] \<and> (\<forall>d \<in> set day. item_checked d))"
proof (induction days arbitrary: week)
  case (Cons day days)
  from Cons.prems obtain d ds where "cJSON_GetArraySize day \<noteq> 0" "parse_items (child day) = Inr (Inr d)"
    "parse_days days = Inr (Inr ds)" "week = d # ds"
    by (auto simp: abind_eq_Inr split: if_splits)
  then show ?case
    using Cons.IH [of ds] parse_items_checked [of "child day" d] by (auto simp: cJSON_GetArraySize_def)
qed simp

lemma emap_eq_Inr: "emap f xs = Inr ys \<Longrightarrow> list_all2 (\<lambda>x y. f x = Inr y) xs ys"
  by (induction xs arbitrary: ys) (auto simp: ebind_eq_Inr)

lemma TranslateScheduleToTm_range:
  assumes "TranslateScheduleToTm week = Inr s" "\<forall>day \<in> set week. day \<noteq> [] \<and> (\<forall>d \<in> set day. item_checked d)"
  shows "length s = length week \<and> (\<forall>day \<in> set s. day \<noteq> [] \<and> (\<forall>(a, b) \<in> set day. clock_range a \<and> clock_range b))"
proof -
  from assms(1) obtain w where w: "emap (emap item_tm) week = Inr w" "w \<noteq> []" "s = last w # butlast w"
    by (auto simp: TranslateScheduleToTm_def ebind_eq_Inr split: if_splits)
  have l: "list_all2 (\<lambda>d t. emap item_tm d = Inr t) week w" using emap_eq_Inr [OF w(1)] .
  have ok: "t \<noteq> [] \<and> (\<forall>(a, b) \<in> set t. clock_range a \<and> clock_range b)"
    if "emap item_tm d = Inr t" "d \<in> set week" for d t
  proof -
    have "list_all2 (\<lambda>x y. item_tm x = Inr y) d t" using emap_eq_Inr [OF that(1)] .
    moreover have "d \<noteq> []" "\<forall>x \<in> set d. item_checked x" using assms(2) that(2) by auto
    ultimately show ?thesis
      by (fastforce simp: list_all2_conv_all_nth in_set_conv_nth item_checked_def dest: checked_item_range)
  qed
  have "\<forall>t \<in> set w. t \<noteq> [] \<and> (\<forall>(a, b) \<in> set t. clock_range a \<and> clock_range b)"
    using l ok by (fastforce simp: list_all2_conv_all_nth in_set_conv_nth)
  moreover have "w = rotate1 s" using w(2,3) by simp
  then have "set s = set w" "length s = length w" by simp_all
  ultimately show ?thesis using l by (simp add: list_all2_lengthD)
qed

lemma print_ParseSchedule_week:
  assumes "week_ok week"
  shows "\<exists>s. cJSON_Print (week_json week) = Inr (Some s) \<and>
    ParseSchedule s = Inr (Inr (map item_times (last week) # map (map item_times) (butlast week)))"
proof -
  obtain s where s: "print_value 0 True (week_json week) = Inr (Some s)" "reads_as s (week_json week)"
    using json_wf_induct_print(1) [OF json_wf_week [OF assms]] by blast
  have "jname (week_json week) = None" by (simp add: week_json_def create_simps)
  then have "cJSON_Parse s = Inr (Some (week_json week))" using reads_as_Parse [OF s(2)] by simp
  moreover have "child (week_json week) = map day_json week" by (simp add: week_json_def create_simps)
  ultimately show ?thesis
    using s(1) assms parse_days_week [of week] Translate_week [OF assms]
    by (simp add: cJSON_Print_def ParseSchedule_def cJSON_GetArraySize_def week_ok_def)
qed

section \<open>Properties\<close>

text \<open>
  (C10) A recording schedule survives storage. The schedule of a week (seven days, each with at least one item, all times
  in range), printed as JSON and parsed again by \<open>ParseSchedule\<close>, is the same schedule as
  broken-down times, with the last day, Sunday, moved to the front where \<open>tm_wday\<close> expects it.
\<close>

theorem ParseSchedule_week:
  assumes "week_ok week"
  shows "\<exists>s. cJSON_Print (week_json week) = Inr (Some s) \<and>
    ParseSchedule s = Inr (Inr (map item_times (last week) # map (map item_times) (butlast week)))"
  by (rule print_ParseSchedule_week [OF assms])

theorem ParseSchedule_week_witness:
  "\<exists>s. cJSON_Print (week_json (replicate 7 [((8, 0, 0), (20, 30, 59))])) = Inr (Some s) \<and>
    ParseSchedule s = Inr (Inr (replicate 7 [(time_of_day 8 0 0, time_of_day 20 30 59)]))"
  using ParseSchedule_week [of "replicate 7 [((8, 0, 0), (20, 30, 59))]"]
  by (simp add: week_ok_def hms_ok_def item_times_def hms_tm_def numeral_eq_Suc)

text \<open>
  What \<open>ParseSchedule\<close> accepts is a usable schedule: seven days, none of them empty, and every
  start and end has hour 0 to 24, minute and second 0 to 59.
\<close>

theorem ParseSchedule_range:
  assumes "ParseSchedule json = Inr (Inr s)"
  shows "length s = 7 \<and> (\<forall>day \<in> set s. day \<noteq> [] \<and> (\<forall>(a, b) \<in> set day. clock_range a \<and> clock_range b))"
proof -
  from assms obtain obj week where "cJSON_GetArraySize obj = 7" "parse_days (child obj) = Inr (Inr week)"
    "TranslateScheduleToTm week = Inr s"
    by (auto simp: ParseSchedule_def ebind_eq_Inr abind_eq_Inr split: option.split_asm if_splits)
  then show ?thesis
    using parse_days_checked [of "child obj" week] TranslateScheduleToTm_range [of week s]
    by (simp add: cJSON_GetArraySize_def)
qed

definition sample_week :: cjson where
  "sample_week = week_json (replicate 7 [((0, 0, 0), (24, 0, 0))])"

theorem ParseSchedule_range_witness:
  "\<exists>js s. cJSON_Print sample_week = Inr (Some js) \<and> ParseSchedule js = Inr (Inr s) \<and> length s = 7"
proof -
  have ok: "week_ok (replicate 7 [((0, 0, 0), (24, 0, 0))])" by (simp add: week_ok_def hms_ok_def)
  obtain js sched where "cJSON_Print sample_week = Inr (Some js)" "ParseSchedule js = Inr (Inr sched)"
    using print_ParseSchedule_week [OF ok] unfolding sample_week_def by blast
  then show ?thesis using ParseSchedule_range by blast
qed

text \<open>
  (C13) Dates are parsed exactly: the text \<open>YYYY-MM-DD hh:mm:ss\<close> of a date gives its fields back and the
  call returns 0. The bounds of the day and of the second are not checked by the code (the month and the
  minute are tested twice instead), so every day up to 99 and every second up to 99 is accepted.
\<close>

theorem TransDateToTm_text:
  assumes "date_printable t"
  shows "TransDateToTm (date_text t) t0 = Inr (t0\<lparr>tm_year := tm_year t, tm_mon := tm_mon t, tm_mday := tm_mday t,
    tm_hour := tm_hour t, tm_min := tm_min t, tm_sec := tm_sec t\<rparr>, 0)"
proof -
  have y: "1900 \<le> tm_year t + 1900" "tm_year t + 1900 < 10000" using assms by (auto simp: date_printable_def)
  have "field_int (fmt_0wd 2 (tm_mon t + 1)) = tm_mon t + 1" "field_int (fmt_0wd 2 (tm_mday t)) = tm_mday t"
    "field_int (fmt_0wd 2 (tm_hour t)) = tm_hour t" "field_int (fmt_0wd 2 (tm_min t)) = tm_min t"
    "field_int (fmt_0wd 2 (tm_sec t)) = tm_sec t"
    using assms by (auto simp: date_printable_def intro!: field_int_02)
  then show ?thesis
    using assms year_text(3) [OF y] by (simp add: TransDateToTm_def date_fields_text date_printable_def Let_def)
qed

theorem TransDateToTm_text_witness:
  "TransDateToTm (date_text (time_of_day 23 59 99\<lparr>tm_year := 120, tm_mon := 1, tm_mday := 99\<rparr>)) (time_of_day 0 0 0) =
    Inr (time_of_day 23 59 99\<lparr>tm_year := 120, tm_mon := 1, tm_mday := 99\<rparr>, 0)"
  using TransDateToTm_text [of "time_of_day 23 59 99\<lparr>tm_year := 120, tm_mon := 1, tm_mday := 99\<rparr>" "time_of_day 0 0 0"]
  by (simp add: date_printable_def time_of_day_def)

text \<open>
  Splitting undoes joining: words that contain no separator and are not empty, joined by a separator, are
  returned by \<open>ExtraStr\<close> in order behind what the output already held; and of any text it returns
  non-empty words without separators that together are the text without its separators.
\<close>

theorem ExtraStr_words:
  assumes "c \<in> set ch" "\<forall>w \<in> set ws. w \<noteq> [] \<and> set w \<inter> set ch = {}"
  shows "ExtraStr (join [c] ws) ch out = out @ ws \<and>
    concat (ExtraStr s ch []) = filter (\<lambda>x. x \<notin> set ch) s \<and>
    (\<forall>w \<in> set (ExtraStr s ch []). w \<noteq> [] \<and> set w \<inter> set ch = {})"
  using ExtraStr_loop_join [OF assms(2,1)] ExtraStr_loop_concat [of ch "[]" s] ExtraStr_loop_words [of _ ch "[]" s]
  by (auto simp: ExtraStr_def)

theorem ExtraStr_words_witness: "ExtraStr (join ''-'' [''34020'', ''1'']) ''-:'' [] = [''34020'', ''1'']"
  using ExtraStr_words [of "CHR ''-''" "''-:''" "[''34020'', ''1'']" "[]"] by simp

end
