(* ===== verification/Mysql.thy ===== *)
theory Mysql
  imports CommonCorrect
begin

text \<open>
  The database access of \<open>src/src/mysql.cpp\<close>. The MySQL server and its client library are not part of
  the sources: a server is a parameter \<open>exec\<close>, which takes the state of the database and the text of a
  query and returns the new state, whether the query succeeded, and the stored result (the field
  names and the rows; \<open>None\<close> is the null pointer of \<open>mysql_store_result\<close>). A field of a row
  may be the null pointer. The fixed query buffers cut a text that is too long, as
  \<open>snprintf\<close> does.
\<close>

section \<open>Server and results\<close>

type_synonym row = "string option list"
type_synonym table = "string list \<times> row list"
type_synonym 'db server = "'db \<Rightarrow> string \<Rightarrow> 'db \<times> bool \<times> table option"

definition CAMERA_ID_MYSQL_NAME :: string where "CAMERA_ID_MYSQL_NAME = ''id''"
definition CAMERA_TM_MYSQL_NAME :: string where "CAMERA_TM_MYSQL_NAME = ''start_time_ms''"
definition CAMERA_NAME_MYSQL_NAME :: string where "CAMERA_NAME_MYSQL_NAME = ''name''"
definition CAMERA_TYPE_MYSQL_NAME :: string where "CAMERA_TYPE_MYSQL_NAME = ''type''"
definition CAMERA_STATUS_MYSQL_NAME :: string where "CAMERA_STATUS_MYSQL_NAME = ''status''"
definition CAMERA_BACKUP_MYSQL_NAME :: string where "CAMERA_BACKUP_MYSQL_NAME = ''backup''"
definition REC_SCHE_JSON_NAME :: string where "REC_SCHE_JSON_NAME = ''recSchedule''"
definition BAK_SCHE_JSON_NAME :: string where "BAK_SCHE_JSON_NAME = ''bakSchedule''"

record mysqlstoreinfo =
  file_name :: string
  file_type :: string
  file_status :: string
  file_backup :: string

text \<open>\<open>mysql_real_query\<close> without a result; the value is 0 or -1.\<close>

definition run_query :: "'db server \<Rightarrow> string \<Rightarrow> 'db \<Rightarrow> 'db \<times> int" where
  "run_query exec q db = (case exec db q of (db', ok, _) \<Rightarrow> (db', if ok then 0 else -1))"

text \<open>\<open>set names utf8\<close> (sent with its NUL), the query, the stored result.\<close>

definition select_query :: "'db server \<Rightarrow> string \<Rightarrow> 'db \<Rightarrow> 'db \<times> table option" where
  "select_query exec q db =
     (case exec db (''set names utf8'' @ [NUL]) of
        (db1, False, _) \<Rightarrow> (db1, None)
      | (db1, True, _) \<Rightarrow> (case exec db1 q of (db2, ok, t) \<Rightarrow> (db2, if ok then t else None)))"

text \<open>The index the loop over \<open>mysql_fetch_field\<close> leaves: that of the last field with the name.\<close>

fun field_index_from :: "nat \<Rightarrow> string \<Rightarrow> string list \<Rightarrow> nat option" where
  "field_index_from i name [] = None"
| "field_index_from i name (f # fs) =
     (case field_index_from (Suc i) name fs of
        Some j \<Rightarrow> Some j
      | None \<Rightarrow> if f = name then Some i else None)"

definition field_index :: "string \<Rightarrow> string list \<Rightarrow> nat option" where
  "field_index name fs = field_index_from 0 name fs"

definition field_of :: "row \<Rightarrow> nat \<Rightarrow> string res" where
  "field_of row i =
     (if i < length row then case row ! i of None \<Rightarrow> Inl NullDeref | Some s \<Rightarrow> Inr s else Inl OutOfBounds)"

definition store_indexes :: "string list \<Rightarrow> (nat \<times> nat \<times> nat \<times> nat) option" where
  "store_indexes names =
     (case (field_index CAMERA_NAME_MYSQL_NAME names, field_index CAMERA_TYPE_MYSQL_NAME names,
            field_index CAMERA_STATUS_MYSQL_NAME names, field_index CAMERA_BACKUP_MYSQL_NAME names) of
        (Some a, Some b, Some c, Some d) \<Rightarrow> Some (a, b, c, d)
      | _ \<Rightarrow> None)"

definition row_storeinfo :: "nat \<times> nat \<times> nat \<times> nat \<Rightarrow> row \<Rightarrow> mysqlstoreinfo res" where
  "row_storeinfo ix row = (case ix of (a, b, c, d) \<Rightarrow>
     ebind (field_of row a) (\<lambda>n. ebind (field_of row b) (\<lambda>t. ebind (field_of row c) (\<lambda>s. ebind (field_of row d) (\<lambda>k.
     Inr \<lparr>file_name = n, file_type = t, file_status = s, file_backup = k\<rparr>)))))"

section \<open>Reading\<close>

text \<open>The rows from \<open>cnt_idx\<close> to \<open>end_idx\<close>; a missing row ends the loop with -1.\<close>

function fetch_rows :: "nat \<times> nat \<times> nat \<times> nat \<Rightarrow> row list \<Rightarrow> nat \<Rightarrow> nat \<Rightarrow> mysqlstoreinfo list \<Rightarrow> (mysqlstoreinfo list \<times> int) res" where
  "fetch_rows ix rows cnt_idx end_idx result =
     (if cnt_idx \<le> end_idx then
        if cnt_idx < length rows then
          ebind (row_storeinfo ix (rows ! cnt_idx)) (\<lambda>si. fetch_rows ix rows (cnt_idx + 1) end_idx (result @ [si]))
        else Inr (result, -1)
      else Inr (result, 0))"
  by pat_completeness auto
termination
  by (relation "measure (\<lambda>(ix, rows, cnt_idx, end_idx, result). Suc end_idx - cnt_idx)") auto

declare fetch_rows.simps [simp del]

definition GetStoreInfoFromDB ::
    "'db server \<Rightarrow> string \<Rightarrow> nat \<Rightarrow> nat \<Rightarrow> mysqlstoreinfo list \<Rightarrow> 'db \<Rightarrow> ('db \<times> mysqlstoreinfo list \<times> int) res" where
  "GetStoreInfoFromDB exec tableName start_idx end_idx result db =
     (case select_query exec (snprintf 64 (''select * from `'' @ tableName @ ''`'')) db of
        (db', None) \<Rightarrow> Inr (db', result, -1)
      | (db', Some (names, rows)) \<Rightarrow>
          (case store_indexes names of
             None \<Rightarrow> Inr (db', result, -1)
           | Some ix \<Rightarrow> ebind (fetch_rows ix rows start_idx end_idx result) (\<lambda>r. Inr (db', r))))"

definition GetFirstStoreInfoFromDB ::
    "'db server \<Rightarrow> string \<Rightarrow> mysqlstoreinfo \<Rightarrow> 'db \<Rightarrow> ('db \<times> mysqlstoreinfo \<times> int) res" where
  "GetFirstStoreInfoFromDB exec tableName result db =
     (case select_query exec (snprintf 128 (''select * from `'' @ tableName @ ''` ORDER BY `'' @
             CAMERA_NAME_MYSQL_NAME @ ''` ASC LIMIT 1'')) db of
        (db', None) \<Rightarrow> Inr (db', result, -1)
      | (db', Some (names, rows)) \<Rightarrow>
          (case store_indexes names of
             None \<Rightarrow> Inr (db', result, -1)
           | Some ix \<Rightarrow>
               (case rows of
                  [] \<Rightarrow> Inr (db', result, -1)
                | r # _ \<Rightarrow> ebind (row_storeinfo ix r) (\<lambda>si. Inr (db', si, 0)))))"

text \<open>
  \<open>GetCameraInfoFromDB\<close>: every field must be one of the known keys; a key without a field keeps the
  index -1, and reading it is out of bounds. The map of a row is in the order of its keys.
\<close>

definition camera_info_key :: "string list" where
  "camera_info_key = [BAK_SCHE_JSON_NAME, CAMERA_ID_MYSQL_NAME, CAMERA_NAME_MYSQL_NAME, REC_SCHE_JSON_NAME]"

type_synonym camera_info = "string \<rightharpoonup> string"

definition row_camera :: "string list \<Rightarrow> row \<Rightarrow> camera_info res" where
  "row_camera names row =
     ebind (emap (\<lambda>key. case field_index key names of
                    None \<Rightarrow> Inl OutOfBounds
                  | Some i \<Rightarrow> ebind (field_of row i) (\<lambda>v. Inr (key, v))) camera_info_key) (\<lambda>kvs.
     Inr (map_of kvs))"

definition GetCameraInfoFromDB ::
    "'db server \<Rightarrow> 'db \<Rightarrow> ('db \<times> camera_info list \<times> int) res" where
  "GetCameraInfoFromDB exec db =
     (case select_query exec (snprintf 64 ''select * from `camera_info`'') db of
        (db', None) \<Rightarrow> Inr (db', [], -1)
      | (db', Some (names, rows)) \<Rightarrow>
          if \<not> set names \<subseteq> set camera_info_key then Inr (db', [], -1)
          else ebind (emap (row_camera names) rows) (\<lambda>info. Inr (db', info, 0)))"

section \<open>Writing\<close>

definition sq :: "string \<Rightarrow> string" where
  "sq s = CHR 0x27 # s @ [CHR 0x27]"

definition bq :: "string \<Rightarrow> string" where
  "bq s = ''`'' @ s @ ''`''"

definition create_table_text :: "string \<Rightarrow> string" where
  "create_table_text cameraId = ''CREATE TABLE IF NOT EXISTS '' @ bq cameraId @ '' ('' @ bq CAMERA_TM_MYSQL_NAME @
     '' BIGINT UNSIGNED, '' @ bq CAMERA_NAME_MYSQL_NAME @ '' VARCHAR(32) NOT NULL, '' @ bq CAMERA_TYPE_MYSQL_NAME @
     '' VARCHAR(32) NOT NULL, '' @ bq CAMERA_STATUS_MYSQL_NAME @ '' VARCHAR(32) NOT NULL, '' @
     bq CAMERA_BACKUP_MYSQL_NAME @ '' VARCHAR(32) NOT NULL)CHARSET=utf8''"

definition CreateCameraTable :: "'db server \<Rightarrow> string \<Rightarrow> 'db \<Rightarrow> 'db \<times> int" where
  "CreateCameraTable exec cameraId db = run_query exec (snprintf 256 (create_table_text cameraId)) db"

definition CreateCameraInfoTable :: "'db server \<Rightarrow> 'db \<Rightarrow> 'db \<times> int" where
  "CreateCameraInfoTable exec db = run_query exec (snprintf 512
     (''CREATE TABLE IF NOT EXISTS `camera_info` ('' @ bq CAMERA_ID_MYSQL_NAME @ '' VARCHAR(42) NOT NULL, '' @
      bq CAMERA_NAME_MYSQL_NAME @ '' VARCHAR(128) NOT NULL, '' @ bq REC_SCHE_JSON_NAME @
      '' VARCHAR(2048) NOT NULL, '' @ bq BAK_SCHE_JSON_NAME @ '' VARCHAR(2048) NOT NULL)CHARSET=utf8'')) db"

definition insert_camera_text :: "string \<Rightarrow> string \<Rightarrow> string \<Rightarrow> string \<Rightarrow> string" where
  "insert_camera_text cameraId name rec_schedule bak_schedule =
     ''INSERT INTO `camera_info` ('' @ bq CAMERA_ID_MYSQL_NAME @ '', '' @ bq CAMERA_NAME_MYSQL_NAME @ '', '' @
     bq REC_SCHE_JSON_NAME @ '', '' @ bq BAK_SCHE_JSON_NAME @ '') VALUES ('' @ sq cameraId @ '', '' @ sq name @ '', '' @
     sq rec_schedule @ '', '' @ sq bak_schedule @ '')''"

definition InsertCameraInfoToTable :: "'db server \<Rightarrow> string \<Rightarrow> string \<Rightarrow> string \<Rightarrow> string \<Rightarrow> 'db \<Rightarrow> 'db \<times> int" where
  "InsertCameraInfoToTable exec cameraId name rec_schedule bak_schedule db =
     run_query exec (snprintf 2048 (insert_camera_text cameraId name rec_schedule bak_schedule)) db"

definition InsertInfoToTable :: "'db server \<Rightarrow> string \<Rightarrow> int \<Rightarrow> string \<Rightarrow> string \<Rightarrow> string \<Rightarrow> 'db \<Rightarrow> 'db \<times> int" where
  "InsertInfoToTable exec cameraId start_time_ms type name status db =
     run_query exec (snprintf 256 (''INSERT INTO '' @ bq cameraId @ '' ('' @ bq CAMERA_TM_MYSQL_NAME @ '', '' @
       bq CAMERA_NAME_MYSQL_NAME @ '', '' @ bq CAMERA_TYPE_MYSQL_NAME @ '', '' @ bq CAMERA_STATUS_MYSQL_NAME @ '', '' @
       bq CAMERA_BACKUP_MYSQL_NAME @ '') VALUES ('' @ fmt_d start_time_ms @ '', '' @ sq name @ '', '' @ sq type @ '', '' @
       sq status @ '', '' @ sq ''no'' @ '')'')) db"

definition update_text :: "string \<Rightarrow> string \<Rightarrow> string \<Rightarrow> string \<Rightarrow> string" where
  "update_text tbl field val name = ''UPDATE '' @ bq tbl @ '' SET '' @ bq field @ ''='' @ sq val @ '' WHERE '' @
     bq CAMERA_NAME_MYSQL_NAME @ ''='' @ sq name @ '' LIMIT 1''"

definition UpdateStatusToTable :: "'db server \<Rightarrow> string \<Rightarrow> string \<Rightarrow> string \<Rightarrow> 'db \<Rightarrow> 'db \<times> int" where
  "UpdateStatusToTable exec cameraId name status db =
     run_query exec (snprintf 256 (update_text cameraId CAMERA_STATUS_MYSQL_NAME status name)) db"

definition UpdateBackupToTable :: "'db server \<Rightarrow> string \<Rightarrow> string \<Rightarrow> string \<Rightarrow> 'db \<Rightarrow> 'db \<times> int" where
  "UpdateBackupToTable exec cameraId name backup db =
     run_query exec (snprintf 256 (update_text cameraId CAMERA_BACKUP_MYSQL_NAME backup name)) db"

definition schedule_text :: "string \<Rightarrow> string \<Rightarrow> string \<Rightarrow> string" where
  "schedule_text field sched cameraId = ''UPDATE `camera_info` SET '' @ bq field @ ''='' @ sq sched @ '' WHERE '' @
     bq CAMERA_ID_MYSQL_NAME @ ''='' @ sq cameraId"

definition UpdateRecScheduleToCameraTable :: "'db server \<Rightarrow> string \<Rightarrow> string \<Rightarrow> 'db \<Rightarrow> 'db \<times> int" where
  "UpdateRecScheduleToCameraTable exec cameraId rec_schedule db =
     run_query exec (snprintf 2048 (schedule_text REC_SCHE_JSON_NAME rec_schedule cameraId)) db"

definition UpdateBakScheduleToCameraTable :: "'db server \<Rightarrow> string \<Rightarrow> string \<Rightarrow> 'db \<Rightarrow> 'db \<times> int" where
  "UpdateBakScheduleToCameraTable exec cameraId bak_schedule db =
     run_query exec (snprintf 2048 (schedule_text BAK_SCHE_JSON_NAME bak_schedule cameraId)) db"

definition DeleteCameraTable :: "'db server \<Rightarrow> string \<Rightarrow> 'db \<Rightarrow> 'db \<times> int" where
  "DeleteCameraTable exec cameraId db = run_query exec (snprintf 256 (''DROP TABLE '' @ bq cameraId)) db"

definition DeleteInfoInTable :: "'db server \<Rightarrow> string \<Rightarrow> string \<Rightarrow> 'db \<Rightarrow> 'db \<times> int" where
  "DeleteInfoInTable exec cameraId name db =
     run_query exec (snprintf 256 (''DELETE FROM '' @ bq cameraId @ '' WHERE '' @ bq CAMERA_NAME_MYSQL_NAME @ ''='' @
       CHR 0x22 # name @ CHR 0x22 # '' LIMIT 1'')) db"

definition DeleteCameraInfoInTable :: "'db server \<Rightarrow> string \<Rightarrow> 'db \<Rightarrow> 'db \<times> int" where
  "DeleteCameraInfoInTable exec cameraId db =
     run_query exec (snprintf 256 (''DELETE FROM `camera_info` WHERE '' @ bq CAMERA_ID_MYSQL_NAME @ ''='' @
       sq cameraId @ '' LIMIT 1'')) db"

section \<open>Searching by time\<close>

text \<open>\<open>std::stol\<close> and \<open>std::stoi\<close>: no digits, or a value outside the type, is an exception.\<close>

definition stoi_range :: "int \<Rightarrow> string \<Rightarrow> int res" where
  "stoi_range bound s =
     (let s1 = dropWhile is_space s;
          neg = starts (\<lambda>c. c = CHR ''-'') s1;
          ds = takeWhile is_digit (if starts (\<lambda>c. c = CHR ''-'' \<or> c = CHR ''+'') s1 then tl s1 else s1);
          n = (if neg then - digits_val ds else digits_val ds)
      in if ds = [] \<or> n < - bound \<or> bound \<le> n then Inl Uncaught else Inr n)"

definition stol :: "string \<Rightarrow> int res" where "stol s = stoi_range (2 ^ 63) s"
definition stoi :: "string \<Rightarrow> int res" where "stoi s = stoi_range (2 ^ 31) s"

definition TranslateToStructTM :: "string \<Rightarrow> tm \<Rightarrow> (tm \<times> int) res" where
  "TranslateToStructTM date_time result =
     (let extra = ExtraStr date_time ''- :'' []
      in if length extra < 6 then Inr (result, -1)
         else ebind (stoi (extra ! 0)) (\<lambda>year. ebind (stoi (extra ! 1)) (\<lambda>mon. ebind (stoi (extra ! 2)) (\<lambda>mday.
              ebind (stoi (extra ! 3)) (\<lambda>hour. ebind (stoi (extra ! 4)) (\<lambda>mi. ebind (stoi (extra ! 5)) (\<lambda>sec.
              (let t = result\<lparr>tm_year := year - 1900, tm_mon := mon - 1, tm_mday := mday, tm_hour := hour,
                              tm_min := mi, tm_sec := sec\<rparr>
               in Inr (t, if tm_year t < 0 then -1
                          else if tm_mon t < 0 \<or> 11 < tm_mon t then -1
                          else if tm_mday t < 0 \<or> 31 < tm_mday t then -1
                          else if tm_hour t < 0 \<or> 24 < tm_hour t then -1
                          else if tm_min t < 0 \<or> 60 < tm_min t then -1
                          else if tm_sec t < 0 \<or> 60 < tm_sec t then -1
                          else 0)))))))))"

definition row_time :: "nat \<Rightarrow> row list \<Rightarrow> nat \<Rightarrow> int res" where
  "row_time ix rows i = (if i < length rows then ebind (field_of (rows ! i) ix) stol else Inl NullDeref)"

text \<open>
  The loop of \<open>SearchClosestTimeFromDB\<close>. \<open>time_at\<close> reads the time of a row; \<open>row_end < row_start\<close> does
  not occur.
\<close>

function search_loop :: "(nat \<Rightarrow> int res) \<Rightarrow> int \<Rightarrow> nat \<Rightarrow> nat \<Rightarrow> nat res" where
  "search_loop time_at searchTime row_start row_end =
     (let average = (row_start + row_end) div 2
      in case time_at average of
           Inl f \<Rightarrow> Inl f
         | Inr t \<Rightarrow>
             if 1 < row_end - row_start then
               if searchTime < t then search_loop time_at searchTime row_start average
               else if t < searchTime then search_loop time_at searchTime average row_end
               else Inr average
             else if searchTime \<le> t then Inr row_start
             else Inr row_end)"
  by pat_completeness auto
termination
  by (relation "measure (\<lambda>(time_at, searchTime, row_start, row_end). row_end - row_start)") auto

declare search_loop.simps [simp del]

text \<open>
  \<open>SearchClosestTimeFromDB\<close>: the row (or -1) and the value stored through \<open>flag\<close>. Between the first and the
  last row the code assigns to the pointer, not to what it points to, so the flag is unchanged.
\<close>

definition SearchClosestTimeFromDB ::
    "'db server \<Rightarrow> string \<Rightarrow> int \<Rightarrow> int \<Rightarrow> 'db \<Rightarrow> ('db \<times> int \<times> int) res" where
  "SearchClosestTimeFromDB exec tableName searchTime flag db =
     (case select_query exec (snprintf 64 (''select * from `'' @ tableName @ ''`'')) db of
        (db', None) \<Rightarrow> Inr (db', -1, flag)
      | (db', Some (names, rows)) \<Rightarrow>
          (case field_index ''start_time_ms'' names of
             None \<Rightarrow> Inr (db', -1, flag)
           | Some ix \<Rightarrow>
               if rows = [] then Inr (db', -1, flag)
               else ebind (row_time ix rows 0) (\<lambda>first.
                    if searchTime < first then Inr (db', 0, -1)
                    else ebind (row_time ix rows (length rows - 1)) (\<lambda>latest.
                         if latest < searchTime then Inr (db', int (length rows - 1), 1)
                         else ebind (search_loop (row_time ix rows) searchTime 0 (length rows - 1)) (\<lambda>r.
                              Inr (db', int r, flag))))))"

text \<open>
  \<open>QueryInfoByDate\<close>. \<open>mktime\<close> depends on the time zone and is a parameter; \<open>garbage\<close> is what the two uninitialised
  flags hold.
\<close>

definition QueryInfoByDate ::
    "'db server \<Rightarrow> (tm \<Rightarrow> int) \<Rightarrow> int \<times> int \<Rightarrow> string \<Rightarrow> string \<Rightarrow> string \<Rightarrow> mysqlstoreinfo list \<Rightarrow> 'db \<Rightarrow>
     ('db \<times> mysqlstoreinfo list \<times> int \<times> store_api_error option) res" where
  "QueryInfoByDate exec mktime garbage cameraId start_date end_date result db =
     ebind (TranslateToStructTM start_date (time_of_day 0 0 0)) (\<lambda>(date_start, r1).
     if r1 < 0 then Inr (db, result, -1, None)
     else ebind (TranslateToStructTM end_date (time_of_day 0 0 0)) (\<lambda>(date_end, r2).
     if r2 < 0 then Inr (db, result, -1, None)
     else ebind (SearchClosestTimeFromDB exec cameraId (mktime date_start) (fst garbage) db) (\<lambda>(db1, start_idx, start_flag).
          ebind (SearchClosestTimeFromDB exec cameraId (mktime date_end) (snd garbage) db1) (\<lambda>(db2, end_idx, end_flag).
          if start_idx < 0 \<or> end_idx < 0 then Inr (db2, result, 1, None)
          else if start_flag < 0 \<and> end_flag < 0 then Inr (db2, result, -1, Some do_not_find_rec_files)
          else if 0 < start_flag \<and> 0 < end_flag then Inr (db2, result, -1, Some do_not_find_rec_files)
          else ebind (GetStoreInfoFromDB exec cameraId (nat start_idx) (nat end_idx) result db2) (\<lambda>(db3, res, n).
               Inr (db3, res, n, None))))))"

text \<open>
  \<open>ConnectDataBase\<close> over the results of the client library: whether the two options are refused,
  whether the server accepts, and \<open>mysql_error\<close>. A null pointer is \<open>None\<close>; the second
  result is the text given to \<open>SetOtherError\<close>.
\<close>

record mysql_lib =
  ml_timeout_refused :: bool
  ml_reconnect_refused :: bool
  ml_real_connect :: "string \<Rightarrow> string \<Rightarrow> string \<Rightarrow> string \<Rightarrow> nat \<Rightarrow> bool"
  ml_error :: string

definition ConnectDataBase ::
    "mysql_lib \<Rightarrow> string option \<Rightarrow> nat \<Rightarrow> string option \<Rightarrow> string option \<Rightarrow> string option \<Rightarrow> int \<times> string option" where
  "ConnectDataBase lib ptrIp port ptrUserName ptrPassword ptrDBName =
     (case (ptrIp, ptrUserName, ptrPassword, ptrDBName) of
        (Some ip, Some user, Some passwd, Some name) \<Rightarrow>
          if ml_timeout_refused lib then (-1, Some (ml_error lib))
          else if ml_reconnect_refused lib then (-1, Some (ml_error lib))
          else if \<not> ml_real_connect lib ip user passwd name port then (-1, Some (ml_error lib))
          else (0, None)
      | _ \<Rightarrow> (-1, None))"

text \<open>\<open>DatabaseInit\<close>: whether \<open>ConnectDataBase\<close> returned 0 is a parameter; then the table of the cameras is created.\<close>

definition DatabaseInit :: "bool \<Rightarrow> 'db server \<Rightarrow> 'db \<Rightarrow> 'db \<times> int" where
  "DatabaseInit conn_ok exec db =
     (if \<not> conn_ok then (db, -1)
      else case CreateCameraInfoTable exec db of (db', r) \<Rightarrow> (db', if r < 0 then -1 else 0))"

end
