(* ===== verification/MysqlCorrect.thy ===== *)
theory MysqlCorrect
  imports Mysql
begin

text \<open>
  Correctness of the queries of \<open>mysql.cpp\<close>: the binary search finds the first recording that starts at or
  after a time, and a query by date returns the recordings between two of them.
\<close>

section \<open>The binary search\<close>

lemma search_loop_first:
  assumes "\<And>i. i < n \<Longrightarrow> time_at i = Inr (\<tau> i)" "strict_mono_on {..<n} \<tau>"
  shows "lo \<le> hi \<Longrightarrow> hi < n \<Longrightarrow> \<tau> lo \<le> t \<Longrightarrow> t \<le> \<tau> hi \<Longrightarrow>
    \<exists>r \<le> hi. search_loop time_at t lo hi = Inr r \<and> t \<le> \<tau> r \<and> (\<forall>j < r. \<tau> j < t)"
proof (induction "hi - lo" arbitrary: lo hi rule: less_induct)
  case less
  let ?av = "(lo + hi) div 2"
  have av: "lo \<le> ?av" "?av \<le> hi" using less.prems(1) by auto
  then have t_av: "time_at ?av = Inr (\<tau> ?av)" using assms(1) less.prems(2) by simp
  have below: "\<tau> j < \<tau> k" if "j < k" "k < n" for j k
    using strict_mono_onD [OF assms(2)] that by simp
  note unfold = search_loop.simps [of time_at t lo hi]
  show ?case
  proof (cases "1 < hi - lo")
    case True
    then have strict: "lo < ?av" "?av < hi" by auto
    then have lt: "?av - lo < hi - lo" "hi - ?av < hi - lo" by linarith+
    consider "t < \<tau> ?av" | "\<tau> ?av < t" | "t = \<tau> ?av" by linarith
    then show ?thesis
    proof cases
      case 1
      then obtain r where "r \<le> ?av" "search_loop time_at t lo ?av = Inr r" "t \<le> \<tau> r" "\<forall>j < r. \<tau> j < t"
        using less.hyps [OF lt(1)] strict less.prems by force
      then show ?thesis using True 1 t_av av(2) unfold by (auto simp: Let_def)
    next
      case 2
      then obtain r where "r \<le> hi" "search_loop time_at t ?av hi = Inr r" "t \<le> \<tau> r" "\<forall>j < r. \<tau> j < t"
        using less.hyps [OF lt(2)] strict less.prems by force
      then show ?thesis using True 2 t_av unfold by (auto simp: Let_def)
    next
      case 3
      then show ?thesis using True t_av av(2) below strict less.prems(2) unfold by (auto simp: Let_def)
    qed
  next
    case False
    then have "?av = lo" using less.prems(1) by auto
    moreover have "hi = lo \<or> hi = Suc lo" using False less.prems(1) by auto
    moreover have "\<tau> j < t" if "j < lo" for j
      using below [OF that] less.prems by simp
    ultimately show ?thesis
      using False t_av unfold less.prems by (auto simp: Let_def less_Suc_eq)
  qed
qed

text \<open>Filtering an interval of row numbers.\<close>

lemma filter_interval: "hi < n \<Longrightarrow> filter (\<lambda>i. lo \<le> i \<and> i \<le> hi) [0..<n] = [lo..<Suc hi]"
proof -
  assume "hi < n"
  then have "[0..<n] = [0..<Suc hi] @ [Suc hi..<n]"
    using upt_add_eq_append [of 0 "Suc hi" "n - Suc hi"] by simp
  moreover have "filter (\<lambda>i. lo \<le> i \<and> i \<le> hi) [Suc hi..<n] = []" by (simp add: filter_empty_conv)
  moreover have "filter (\<lambda>i. lo \<le> i \<and> i \<le> hi) [0..<Suc hi] = [lo..<Suc hi]"
  proof (cases "lo \<le> Suc hi")
    case True
    then have "[0..<Suc hi] = [0..<lo] @ [lo..<Suc hi]"
      using upt_add_eq_append [of 0 lo "Suc hi - lo"] by simp
    moreover have "filter (\<lambda>i. lo \<le> i \<and> i \<le> hi) [0..<lo] = []" by (simp add: filter_empty_conv)
    moreover have "filter (\<lambda>i. lo \<le> i \<and> i \<le> hi) [lo..<Suc hi] = [lo..<Suc hi]" by (rule filter_True) auto
    ultimately show ?thesis by (simp del: upt_Suc)
  next
    case False
    then show ?thesis by (simp add: filter_empty_conv)
  qed
  ultimately show ?thesis by (simp del: upt_Suc)
qed

lemma fetch_rows_interval:
  assumes "\<And>i. i < length rows \<Longrightarrow> row_storeinfo ix (rows ! i) = Inr (info i)" "hi < length rows"
  shows "fetch_rows ix rows lo hi res = Inr (res @ map info [lo..<Suc hi], 0)"
proof (induction "Suc hi - lo" arbitrary: lo res)
  case 0
  then show ?case by (subst fetch_rows.simps) simp
next
  case (Suc k)
  then have lo: "lo \<le> hi" "lo < length rows" using assms(2) by auto
  have "fetch_rows ix rows (lo + 1) hi (res @ [info lo]) = Inr ((res @ [info lo]) @ map info [lo + 1..<Suc hi], 0)"
    using Suc.hyps(1) [of "lo + 1"] Suc.hyps(2) by simp
  moreover have "[lo..<Suc hi] = lo # [lo + 1..<Suc hi]" using lo by (simp add: upt_conv_Cons del: upt_Suc)
  ultimately show ?case using lo assms(1) by (subst fetch_rows.simps) (simp del: upt_Suc)
qed

section \<open>Dates of a query\<close>

lemma ExtraStr_loop_sep:
  "set w \<inter> set ch = {} \<Longrightarrow> w \<noteq> [] \<Longrightarrow> c \<in> set ch \<Longrightarrow> ExtraStr_loop ch [] (w @ c # rest) = w # ExtraStr_loop ch [] rest"
  using ExtraStr_loop_word [of w ch "[]" "c # rest"] by simp

lemma ExtraStr_loop_last: "set w \<inter> set ch = {} \<Longrightarrow> w \<noteq> [] \<Longrightarrow> ExtraStr_loop ch [] w = [w]"
  using ExtraStr_loop_word [of w ch "[]" "[]"] by simp

lemma digits_no_sep: "list_all is_digit ds \<Longrightarrow> set ds \<inter> set ''- :'' = {}"
  using not_digit_sep by (auto simp: list_all_iff)

lemma fmt_02_digits: "0 \<le> i \<Longrightarrow> i < 100 \<Longrightarrow> list_all is_digit (fmt_0wd 2 i) \<and> fmt_0wd 2 i \<noteq> [] \<and> digits_val (fmt_0wd 2 i) = i"
proof -
  assume i: "0 \<le> i" "i < 100"
  then have "nat i div 10 < 10" "nat i mod 10 < 10" by auto
  then show ?thesis using digit_pair [OF i] i by (simp add: fmt_02 digits_val_def)
qed

lemma stoi_digits:
  assumes "list_all is_digit ds" "ds \<noteq> []" "digits_val ds < 2 ^ 31" "0 \<le> digits_val ds"
  shows "stoi ds = Inr (digits_val ds)"
proof -
  have "takeWhile is_digit ds = ds" using takeWhile_digits [OF assms(1), of "[]"] by simp
  then show ?thesis
    unfolding stoi_def stoi_range_def digits_plain(1) [OF assms(1,2)] Let_def
    using digits_plain(2,3) [OF assms(1,2)] assms(2-4) by (simp only: if_False) simp
qed

definition full_tm :: "tm \<Rightarrow> tm" where
  "full_tm t = (time_of_day (tm_hour t) (tm_min t) (tm_sec t))\<lparr>tm_year := tm_year t, tm_mon := tm_mon t, tm_mday := tm_mday t\<rparr>"

definition date_valid :: "tm \<Rightarrow> bool" where
  "date_valid t \<longleftrightarrow> date_printable t \<and> tm_mday t \<le> 31 \<and> tm_sec t \<le> 60"

lemma TranslateToStructTM_text:
  assumes "date_valid t"
  shows "TranslateToStructTM (date_text t) (time_of_day 0 0 0) = Inr (full_tm t, 0)"
proof -
  have y: "1900 \<le> tm_year t + 1900" "tm_year t + 1900 < 10000"
    using assms by (auto simp: date_valid_def date_printable_def)
  let ?y = "dec (nat (tm_year t + 1900))"
  have yd: "list_all is_digit ?y" "?y \<noteq> []" "digits_val ?y = tm_year t + 1900"
    using dec_digits [of "nat (tm_year t + 1900)"] year_text(2) [OF y] y
    by (simp, cases "dec (nat (tm_year t + 1900))", simp_all)
  have p: "0 \<le> tm_mon t + 1" "tm_mon t + 1 < 100" "0 \<le> tm_mday t" "tm_mday t < 100" "0 \<le> tm_hour t" "tm_hour t < 100"
    "0 \<le> tm_min t" "tm_min t < 100" "0 \<le> tm_sec t" "tm_sec t < 100"
    using assms by (auto simp: date_valid_def date_printable_def)
  note d = fmt_02_digits [OF p(1,2)] fmt_02_digits [OF p(3,4)] fmt_02_digits [OF p(5,6)] fmt_02_digits [OF p(7,8)]
    fmt_02_digits [OF p(9,10)]
  have "ExtraStr (date_text t) ''- :'' [] = [?y, fmt_0wd 2 (tm_mon t + 1), fmt_0wd 2 (tm_mday t), fmt_0wd 2 (tm_hour t),
      fmt_0wd 2 (tm_min t), fmt_0wd 2 (tm_sec t)]"
  proof -
    have w: "ExtraStr_loop ''- :'' [] (w @ c # rest) = w # ExtraStr_loop ''- :'' [] rest"
      if "list_all is_digit w \<and> w \<noteq> []" "c = CHR ''-'' \<or> c = CHR '' '' \<or> c = CHR '':''" for w c rest
      using ExtraStr_loop_sep [OF digits_no_sep, of w c rest] that by auto
    have "ExtraStr_loop ''- :'' [] w = [w]" if "list_all is_digit w \<and> w \<noteq> []" for w
      using ExtraStr_loop_last [OF digits_no_sep] that by blast
    with d yd w show ?thesis
      by (simp add: ExtraStr_def date_text_def year_text(1) [OF y] del: ExtraStr_loop.simps)
  qed
  moreover have "stoi ?y = Inr (tm_year t + 1900)" using stoi_digits [OF yd(1,2)] yd(3) y by simp
  moreover have "stoi (fmt_0wd 2 i) = Inr i" if "0 \<le> i" "i < 100" for i
    using stoi_digits [of "fmt_0wd 2 i"] fmt_02_digits [OF that] that by simp
  ultimately show ?thesis
    using p assms by (simp add: TranslateToStructTM_def Let_def full_tm_def date_valid_def date_printable_def time_of_day_def)
qed

section \<open>Queries by date\<close>

text \<open>
  A table of recordings as the server stores it: the query for it returns these rows and leaves the database
  alone, every row has its time and its entry, and rows were inserted in the order of their times.
\<close>

definition table_of ::
    "'db server \<Rightarrow> 'db \<Rightarrow> string \<Rightarrow> (nat \<Rightarrow> int) \<Rightarrow> (nat \<Rightarrow> mysqlstoreinfo) \<Rightarrow> nat \<Rightarrow> bool" where
  "table_of exec db cam \<tau> info n \<longleftrightarrow>
     (\<exists>names rows ti ix. select_query exec (snprintf 64 (''select * from `'' @ cam @ ''`'')) db = (db, Some (names, rows)) \<and>
        field_index ''start_time_ms'' names = Some ti \<and> store_indexes names = Some ix \<and> length rows = n \<and>
        (\<forall>i < n. row_time ti rows i = Inr (\<tau> i) \<and> row_storeinfo ix (rows ! i) = Inr (info i)) \<and>
        strict_mono_on {..<n} \<tau>)"

lemma Search_found:
  assumes "table_of exec db cam \<tau> info n" "0 < n" "\<tau> 0 \<le> t" "t \<le> \<tau> (n - 1)"
  shows "\<exists>r < n. SearchClosestTimeFromDB exec cam t flag db = Inr (db, int r, flag) \<and>
    (\<forall>i < n. t \<le> \<tau> i \<longleftrightarrow> r \<le> i)"
proof -
  from assms(1) obtain names rows ti ix where q:
    "select_query exec (snprintf 64 (''select * from `'' @ cam @ ''`'')) db = (db, Some (names, rows))"
    "field_index ''start_time_ms'' names = Some ti" "length rows = n"
    "\<And>i. i < n \<Longrightarrow> row_time ti rows i = Inr (\<tau> i)" "strict_mono_on {..<n} \<tau>"
    by (auto simp: table_of_def)
  obtain r where r: "r \<le> n - 1" "search_loop (row_time ti rows) t 0 (n - 1) = Inr r" "t \<le> \<tau> r" "\<forall>j < r. \<tau> j < t"
    using search_loop_first [OF q(4,5), of 0 "n - 1" t] assms(2-4) by auto
  have "t \<le> \<tau> i \<longleftrightarrow> r \<le> i" if "i < n" for i
  proof
    assume "t \<le> \<tau> i"
    then show "r \<le> i" using r(4) by (auto simp: not_le [symmetric])
  next
    assume "r \<le> i"
    then have "\<tau> r \<le> \<tau> i" using strict_mono_onD [OF q(5), of r i] that by (cases "r = i") auto
    then show "t \<le> \<tau> i" using r(3) by simp
  qed
  moreover have "rows \<noteq> []" "row_time ti rows 0 = Inr (\<tau> 0)" "row_time ti rows (n - 1) = Inr (\<tau> (n - 1))"
    using q(3,4) assms(2) by auto
  then have "SearchClosestTimeFromDB exec cam t flag db = Inr (db, int r, flag)"
    using r(2) assms(3,4) q(2,3) unfolding SearchClosestTimeFromDB_def q(1) by simp
  moreover have "r < n" using r(1) assms(2) by simp
  ultimately show ?thesis by blast
qed

lemma GetStoreInfo_interval:
  assumes "table_of exec db cam \<tau> info n" "hi < n"
  shows "GetStoreInfoFromDB exec cam lo hi res db = Inr (db, res @ map info [lo..<Suc hi], 0)"
  using assms fetch_rows_interval [of _ _ info hi lo res]
  by (auto simp: table_of_def GetStoreInfoFromDB_def simp del: upt_Suc)

text \<open>
  The value a search leaves in its flag: -1 before the first recording, 1 after the last one, and what the flag held
  before for every time between them.
\<close>

definition search_flag :: "(nat \<Rightarrow> int) \<Rightarrow> nat \<Rightarrow> int \<Rightarrow> int \<Rightarrow> int" where
  "search_flag \<tau> n t garbage = (if t < \<tau> 0 then -1 else if \<tau> (n - 1) < t then 1 else garbage)"

lemma table_times_mono:
  assumes "table_of exec db cam \<tau> info n" "i \<le> j" "j < n"
  shows "\<tau> i \<le> \<tau> j"
proof -
  have "strict_mono_on {..<n} \<tau>" using assms(1) by (auto simp: table_of_def)
  from strict_mono_onD [OF this, of i j] assms(2,3) show ?thesis by (cases "i = j") auto
qed

lemma Search_outside:
  assumes "table_of exec db cam \<tau> info n" "0 < n" "t < \<tau> 0 \<or> \<tau> (n - 1) < t"
  shows "SearchClosestTimeFromDB exec cam t flag db = Inr (db, int (if t < \<tau> 0 then 0 else n - 1), search_flag \<tau> n t flag)"
proof -
  from assms(1) obtain names rows ti ix where q:
    "select_query exec (snprintf 64 (''select * from `'' @ cam @ ''`'')) db = (db, Some (names, rows))"
    "field_index ''start_time_ms'' names = Some ti" "length rows = n"
    "\<And>i. i < n \<Longrightarrow> row_time ti rows i = Inr (\<tau> i)"
    by (auto simp: table_of_def)
  have "rows \<noteq> []" "row_time ti rows 0 = Inr (\<tau> 0)" "row_time ti rows (n - 1) = Inr (\<tau> (n - 1))"
    using q(3,4) assms(2) by auto
  then show ?thesis
    using assms(3) q(2,3) unfolding SearchClosestTimeFromDB_def q(1) by (auto simp: search_flag_def)
qed

text \<open>Every search ends at a row: the first at or after the time, or the last row when there is none.\<close>

lemma Search_row:
  assumes "table_of exec db cam \<tau> info n" "0 < n"
  shows "\<exists>r < n. SearchClosestTimeFromDB exec cam t flag db = Inr (db, int r, search_flag \<tau> n t flag) \<and>
    (\<forall>i < n. t \<le> \<tau> i \<or> i = n - 1 \<longleftrightarrow> r \<le> i)"
proof (cases "t < \<tau> 0 \<or> \<tau> (n - 1) < t")
  case True
  have "t \<le> \<tau> i \<or> i = n - 1 \<longleftrightarrow> (if t < \<tau> 0 then 0 else n - 1) \<le> i" if "i < n" for i
  proof -
    have "\<tau> 0 \<le> \<tau> i" "\<tau> i \<le> \<tau> (n - 1)" using table_times_mono [OF assms(1)] that by simp_all
    then show ?thesis using True that by auto
  qed
  then show ?thesis
    using Search_outside [OF assms True, of flag] assms(2) by (intro exI [of _ "if t < \<tau> 0 then 0 else n - 1"]) auto
next
  case False
  then obtain r where r: "r < n" "SearchClosestTimeFromDB exec cam t flag db = Inr (db, int r, flag)"
    "\<forall>i < n. t \<le> \<tau> i \<longleftrightarrow> r \<le> i"
    using Search_found [OF assms, of t flag] by auto
  then show ?thesis using False by (intro exI [of _ r]) (auto simp: search_flag_def)
qed

lemma Query_split:
  assumes "table_of exec db cam \<tau> info n" "0 < n" "date_valid s" "date_valid e"
  shows "\<exists>lo hi. hi < n \<and> (\<forall>i < n. mktime (full_tm s) \<le> \<tau> i \<or> i = n - 1 \<longleftrightarrow> lo \<le> i) \<and>
    (\<forall>i < n. mktime (full_tm e) \<le> \<tau> i \<or> i = n - 1 \<longleftrightarrow> hi \<le> i) \<and>
    QueryInfoByDate exec mktime (a, b) cam (date_text s) (date_text e) res db =
      (let a' = search_flag \<tau> n (mktime (full_tm s)) a; b' = search_flag \<tau> n (mktime (full_tm e)) b
       in if a' < 0 \<and> b' < 0 \<or> 0 < a' \<and> 0 < b' then Inr (db, res, -1, Some do_not_find_rec_files)
          else Inr (db, res @ map info [lo..<Suc hi], 0, None))"
proof -
  let ?a = "search_flag \<tau> n (mktime (full_tm s)) a" and ?b = "search_flag \<tau> n (mktime (full_tm e)) b"
  obtain lo where lo: "SearchClosestTimeFromDB exec cam (mktime (full_tm s)) a db = Inr (db, int lo, ?a)"
    "\<forall>i < n. mktime (full_tm s) \<le> \<tau> i \<or> i = n - 1 \<longleftrightarrow> lo \<le> i"
    using Search_row [OF assms(1,2)] by blast
  obtain hi where hi: "hi < n" "SearchClosestTimeFromDB exec cam (mktime (full_tm e)) b db = Inr (db, int hi, ?b)"
    "\<forall>i < n. mktime (full_tm e) \<le> \<tau> i \<or> i = n - 1 \<longleftrightarrow> hi \<le> i"
    using Search_row [OF assms(1,2)] by blast
  have "QueryInfoByDate exec mktime (a, b) cam (date_text s) (date_text e) res db =
      (let a' = ?a; b' = ?b
       in if a' < 0 \<and> b' < 0 \<or> 0 < a' \<and> 0 < b' then Inr (db, res, -1, Some do_not_find_rec_files)
          else Inr (db, res @ map info [lo..<Suc hi], 0, None))"
    using lo(1) hi(2) GetStoreInfo_interval [OF assms(1) hi(1), of lo res] assms(3,4)
    by (simp add: QueryInfoByDate_def TranslateToStructTM_text Let_def del: upt_Suc)
  then show ?thesis using lo(2) hi(1,3) by blast
qed

section \<open>A sample server\<close>

definition sample_rows :: "row list" where
  "sample_rows = [[Some ''100'', Some ''a'', Some ''planned'', Some ''unlock'', Some ''no''],
     [Some ''200'', Some ''b'', Some ''manual'', Some ''lock'', Some ''no''],
     [Some ''300'', Some ''c'', Some ''planned'', Some ''unlock'', Some ''yes'']]"

definition sample_exec :: "unit server" where
  "sample_exec db q = (db, True, Some ([''start_time_ms'', ''name'', ''type'', ''status'', ''backup''], sample_rows))"

definition sample_times :: "nat \<Rightarrow> int" where
  "sample_times i = [100, 200, 300] ! i"

definition sample_infos :: "nat \<Rightarrow> mysqlstoreinfo" where
  "sample_infos i = [\<lparr>file_name = ''a'', file_type = ''planned'', file_status = ''unlock'', file_backup = ''no''\<rparr>,
     \<lparr>file_name = ''b'', file_type = ''manual'', file_status = ''lock'', file_backup = ''no''\<rparr>,
     \<lparr>file_name = ''c'', file_type = ''planned'', file_status = ''unlock'', file_backup = ''yes''\<rparr>] ! i"

definition sample_mktime :: "tm \<Rightarrow> int" where
  "sample_mktime t = 60 * tm_min t + tm_sec t"

definition sample_date :: "int \<Rightarrow> int \<Rightarrow> tm" where
  "sample_date m s = (time_of_day 0 m s)\<lparr>tm_year := 120, tm_mon := 0, tm_mday := 1\<rparr>"

lemma sample_table: "table_of sample_exec () ''1-1'' sample_times sample_infos 3"
proof -
  let ?names = "[''start_time_ms'', ''name'', ''type'', ''status'', ''backup'']"
  have "row_time 0 sample_rows i = Inr (sample_times i) \<and> row_storeinfo (1, 2, 3, 4) (sample_rows ! i) = Inr (sample_infos i)"
    if "i < 3" for i
  proof -
    consider "i = 0" | "i = 1" | "i = 2" using \<open>i < 3\<close> by linarith
    then show ?thesis
    proof cases
      case 1
      have "row_time 0 sample_rows 0 = Inr (sample_times 0) \<and> row_storeinfo (1, 2, 3, 4) (sample_rows ! 0) = Inr (sample_infos 0)"
        by code_simp
      then show ?thesis using 1 by simp
    next
      case 2
      have "row_time 0 sample_rows 1 = Inr (sample_times 1) \<and> row_storeinfo (1, 2, 3, 4) (sample_rows ! 1) = Inr (sample_infos 1)"
        by code_simp
      then show ?thesis using 2 by simp
    next
      case 3
      have "row_time 0 sample_rows 2 = Inr (sample_times 2) \<and> row_storeinfo (1, 2, 3, 4) (sample_rows ! 2) = Inr (sample_infos 2)"
        by code_simp
      then show ?thesis using 3 by simp
    qed
  qed
  moreover have "strict_mono_on {..<3} sample_times"
    by (auto simp: strict_mono_on_def sample_times_def numeral_3_eq_3 less_Suc_eq nth_Cons')
  moreover have "field_index ''start_time_ms'' ?names = Some 0" "store_indexes ?names = Some (1, 2, 3, 4)"
    "length sample_rows = 3"
    by code_simp+
  ultimately show ?thesis
    unfolding table_of_def by (intro exI [of _ ?names] exI [of _ sample_rows] exI) (auto simp: select_query_def sample_exec_def)
qed

lemma sample_range:
  "sample_times 0 = 100" "sample_times (3 - 1) = 300" "date_valid (sample_date 2 30)" "date_valid (sample_date 4 10)"
  "sample_mktime (full_tm (sample_date 2 30)) = 150" "sample_mktime (full_tm (sample_date 4 10)) = 250"
  by (simp_all add: sample_times_def date_valid_def date_printable_def sample_date_def time_of_day_def full_tm_def sample_mktime_def)

section \<open>Properties\<close>

text \<open>
  (C12) The binary search is correct: over recordings with increasing start times it returns the first one
  that starts at or after the time searched, for every time between the first and the last start.
\<close>

theorem SearchClosestTimeFromDB_first:
  assumes "table_of exec db cam \<tau> info n" "0 < n" "\<tau> 0 \<le> t" "t \<le> \<tau> (n - 1)"
  shows "\<exists>r < n. SearchClosestTimeFromDB exec cam t flag db = Inr (db, int r, flag) \<and> (\<forall>i < n. t \<le> \<tau> i \<longleftrightarrow> r \<le> i)"
  by (rule Search_found [OF assms])

theorem SearchClosestTimeFromDB_first_witness:
  "\<exists>r < 3. SearchClosestTimeFromDB sample_exec ''1-1'' 150 0 () = Inr ((), int r, 0) \<and> (\<forall>i < 3. 150 \<le> sample_times i \<longleftrightarrow> r \<le> i)"
  using SearchClosestTimeFromDB_first [OF sample_table, of 150 0] sample_range(1,2) by simp

text \<open>
  (C11) The exact answer of a query by two valid dates, wherever they lie and whatever the two flags hold that
  the code leaves uninitialised. A date before the first recording sets its flag to -1, a date after the last one
  to 1; a date inside the recorded range leaves the flag as it was, because \<open>SearchClosestTimeFromDB\<close> writes
  \<open>flag = 0\<close> where \<open>*flag = 0\<close> is meant. When both flags have the same sign the query is refused as if no recording
  existed, also for dates inside the range; otherwise it returns, in order, the recordings from the first that
  starts at or after the start date (the last recording if there is none) to the first that starts at or after
  the end date. The table is not empty, its rows are readable and were inserted in the order of their times.
\<close>

theorem QueryInfoByDate_interval:
  assumes "table_of exec db cam \<tau> info n" "0 < n" "date_valid s" "date_valid e"
  shows "QueryInfoByDate exec mktime (a, b) cam (date_text s) (date_text e) res db =
    (let ts = mktime (full_tm s); te = mktime (full_tm e); a' = search_flag \<tau> n ts a; b' = search_flag \<tau> n te b
     in if a' < 0 \<and> b' < 0 \<or> 0 < a' \<and> 0 < b' then Inr (db, res, -1, Some do_not_find_rec_files)
        else Inr (db, res @ map info (filter (\<lambda>i. (ts \<le> \<tau> i \<or> i = n - 1) \<and> (\<forall>j < i. \<tau> j < te)) [0..<n]), 0, None))"
proof -
  let ?s = "mktime (full_tm s)" and ?e = "mktime (full_tm e)"
  obtain lo hi where lh: "hi < n" "\<And>i. i < n \<Longrightarrow> ?s \<le> \<tau> i \<or> i = n - 1 \<longleftrightarrow> lo \<le> i"
    "\<And>i. i < n \<Longrightarrow> ?e \<le> \<tau> i \<or> i = n - 1 \<longleftrightarrow> hi \<le> i"
    "QueryInfoByDate exec mktime (a, b) cam (date_text s) (date_text e) res db =
      (let a' = search_flag \<tau> n ?s a; b' = search_flag \<tau> n ?e b
       in if a' < 0 \<and> b' < 0 \<or> 0 < a' \<and> 0 < b' then Inr (db, res, -1, Some do_not_find_rec_files)
          else Inr (db, res @ map info [lo..<Suc hi], 0, None))"
    using Query_split [OF assms] by blast
  have "(\<forall>j < i. \<tau> j < ?e) \<longleftrightarrow> i \<le> hi" if "i < n" for i
  proof
    assume "\<forall>j < i. \<tau> j < ?e"
    then show "i \<le> hi" using lh(3) [OF lh(1)] that by (cases "hi < i") auto
  next
    assume i: "i \<le> hi"
    show "\<forall>j < i. \<tau> j < ?e"
    proof (intro allI impI)
      fix j assume "j < i"
      then show "\<tau> j < ?e" using lh(3) [of j] i that by (auto simp: not_le [symmetric])
    qed
  qed
  then have "filter (\<lambda>i. (?s \<le> \<tau> i \<or> i = n - 1) \<and> (\<forall>j < i. \<tau> j < ?e)) [0..<n] = filter (\<lambda>i. lo \<le> i \<and> i \<le> hi) [0..<n]"
    using lh(2) by (intro filter_cong) auto
  then show ?thesis using lh(4) filter_interval [OF lh(1), of lo] by (simp add: Let_def)
qed

text \<open>Dates inside the range with flags that hold zero, and the same dates with negative flags.\<close>

theorem QueryInfoByDate_interval_witness:
  "QueryInfoByDate sample_exec sample_mktime (0, 0) ''1-1'' (date_text (sample_date 2 30)) (date_text (sample_date 4 10)) [] () =
      Inr ((), [sample_infos 1, sample_infos 2], 0, None) \<and>
   QueryInfoByDate sample_exec sample_mktime (-3, -1) ''1-1'' (date_text (sample_date 2 30)) (date_text (sample_date 4 10)) [] () =
      Inr ((), [], -1, Some do_not_find_rec_files)"
proof -
  have "filter (\<lambda>i. (150 \<le> sample_times i \<or> i = 2) \<and> (\<forall>j < i. sample_times j < 250)) [0..<3] = [1, 2]"
    by (simp add: sample_times_def numeral_3_eq_3 numeral_2_eq_2 less_Suc_eq all_conj_distrib)
  moreover note QueryInfoByDate_interval [OF sample_table _ sample_range(3,4), of sample_mktime 0 0 "[]"]
    QueryInfoByDate_interval [OF sample_table _ sample_range(3,4), of sample_mktime "-3" "-1" "[]"]
  ultimately show ?thesis using sample_range by (simp add: search_flag_def)
qed

end
