(* ===== verification/Backup.thy ===== *)
theory Backup
  imports Server MysqlCorrect
begin

text \<open>
  The backup of recordings, \<open>src/src/backup.cpp\<close>: the messages, the handlers of the backup
  service, the client that sends a recording, and the schedules that say when it does. Messages
  are the bytes of the structures of the source as the x86-64 ABI lays them out. The file system
  and the sockets are parameters.
\<close>

section \<open>Messages\<close>

definition REQ_START_TRANS_BAK_FILE :: string where "REQ_START_TRANS_BAK_FILE = ''start transfer bak file''"
definition REQ_DOING_TRANS_BAK_FILE :: string where "REQ_DOING_TRANS_BAK_FILE = ''doing transfer bak file''"
definition REQ_FINISH_TRANS_BAK_FILE :: string where "REQ_FINISH_TRANS_BAK_FILE = ''finish transfer bak file''"
definition HAED_MAX_SIZE :: nat where "HAED_MAX_SIZE = 128"

text \<open>\<open>struct StartTransBakDef\<close>: \<open>head\<close> 24 bytes, \<open>bak_id\<close> 42 at 24, \<open>bak_name\<close> 26 at 66.\<close>

definition bak_id_off :: nat where "bak_id_off = 24"
definition bak_id_size :: nat where "bak_id_size = 42"
definition bak_name_off :: nat where "bak_name_off = 66"
definition bak_name_size :: nat where "bak_name_size = 26"
definition sizeof_StartTransBakDef :: nat where "sizeof_StartTransBakDef = 92"

text \<open>\<open>struct StartTransBakResp\<close>: \<open>head\<close>, \<open>result\<close> at 24, \<open>bak_stream_id\<close> at 28.\<close>

definition sizeof_StartTransBakResp :: nat where "sizeof_StartTransBakResp = 32"

text \<open>\<open>struct DoingTransBakDef\<close>: \<open>head\<close>, \<open>bak_stream_id\<close> at 24, \<open>stream_chunk_size\<close> at 28, and a pointer at
  32 that is not sent; the chunk follows in its place. The response has \<open>result\<close> at 24.\<close>

definition doing_head_size :: nat where "doing_head_size = 32"
definition sizeof_DoingTransBakResp :: nat where "sizeof_DoingTransBakResp = 25"

text \<open>\<open>struct FinishTransBakDef\<close>: \<open>head\<close> 25 bytes, \<open>bak_stream_id\<close> at 28. The response has
  \<open>result\<close> at 25.\<close>

definition sizeof_FinishTransBakDef :: nat where "sizeof_FinishTransBakDef = 32"
definition sizeof_FinishTransBakResp :: nat where "sizeof_FinishTransBakResp = 26"

section \<open>The service\<close>

record bak_env =
  env_backupPath :: string
  bak_mkdir_ok :: "string \<Rightarrow> bool"
  bak_creat_ok :: "string \<Rightarrow> bool"
  bak_open_ok :: "string \<Rightarrow> bool"
  bak_write :: "string \<Rightarrow> byte list \<Rightarrow> int"     \<comment> \<open>the value of \<open>write\<close>\<close>

datatype bak_req = TransBakFileReq | DoingRecvBakFileReq | FinishBakFileReq

record bak_state =
  bakReqHandle :: "string \<rightharpoonup> bak_req"
  bakStreamQueue :: "u32 \<rightharpoonup> string"          \<comment> \<open>\<open>BakStream\<close> is its \<open>bak_path\<close>\<close>
  bakStreamIdx :: u32
  bak_dirs :: "string set"
  bak_files :: "string \<rightharpoonup> byte list"

definition bak_access :: "string \<Rightarrow> bak_state \<Rightarrow> bool" where
  "bak_access path s \<longleftrightarrow> path \<in> bak_dirs s \<or> path \<in> dom (bak_files s)"

text \<open>\<open>std::map::insert\<close> keeps an entry that is already there.\<close>

definition map_insert :: "'k \<Rightarrow> 'v \<Rightarrow> ('k \<rightharpoonup> 'v) \<Rightarrow> ('k \<rightharpoonup> 'v)" where
  "map_insert k v m = (if k \<in> dom m then m else m(k \<mapsto> v))"

text \<open>The directory of the device, and the file in it; \<open>None\<close> when it cannot be made.\<close>

definition make_dir :: "bak_env \<Rightarrow> string \<Rightarrow> bak_state \<Rightarrow> bak_state option" where
  "make_dir env dir s =
     (if bak_access dir s then Some s
      else if bak_mkdir_ok env dir then Some (s\<lparr>bak_dirs := insert dir (bak_dirs s)\<rparr>)
      else None)"

definition make_file :: "bak_env \<Rightarrow> string \<Rightarrow> bak_state \<Rightarrow> bak_state option" where
  "make_file env path s =
     (if bak_access path s then Some s
      else if bak_creat_ok env path then Some (s\<lparr>bak_files := (bak_files s)(path \<mapsto> [])\<rparr>)
      else None)"

text \<open>A handler gets the received bytes and the response buffer (\<open>None\<close> is the null pointer) and returns
  the response buffer and the number of bytes to send.\<close>

type_synonym bak_handler = "byte list option \<Rightarrow> mem option \<Rightarrow> bak_state \<Rightarrow> (bak_state \<times> mem option \<times> int) res"

definition TransBakFile :: "bak_env \<Rightarrow> bak_handler" where
  "TransBakFile env inp out s =
     (case (inp, out) of
        (Some data, Some res) \<Rightarrow>
          (let failed = (\<lambda>s'. Inr (s', Some ((strcpy res 0 REQ_START_TRANS_BAK_FILE)(24 := - 1)),
                                 int sizeof_StartTransBakResp))
           in ebind (cstr_at data bak_id_off) (\<lambda>bak_id.
              let dir = env_backupPath env @ bak_id
              in case make_dir env dir s of
                   None \<Rightarrow> failed s
                 | Some s1 \<Rightarrow>
                     ebind (cstr_at data bak_name_off) (\<lambda>bak_name.
                     let store_path = dir @ ''/'' @ bak_name
                     in case make_file env store_path s1 of
                          None \<Rightarrow> failed s1
                        | Some s2 \<Rightarrow>
                            Inr (s2\<lparr>bakStreamQueue := map_insert (bakStreamIdx s2) store_path (bakStreamQueue s2),
                                     bakStreamIdx := bakStreamIdx s2 + 1\<rparr>,
                                 Some ((strcpy (store_u32 res 28 (bakStreamIdx s2)) 0 REQ_START_TRANS_BAK_FILE)(24 := 0)),
                                 int sizeof_StartTransBakResp))))
      | _ \<Rightarrow> Inr (s, out, -1))"

text \<open>
  \<open>DoingRecvBakFile\<close>: \<open>bakStreamQueue[id]\<close> adds an empty path for an unknown id. The number of bytes
  to write comes from the message; the bytes behind what was received are not the client's. The
  value of \<open>write\<close> is what \<open>result\<close> is cut from.
\<close>

definition DoingRecvBakFile :: "bak_env \<Rightarrow> bak_handler" where
  "DoingRecvBakFile env inp out s =
     (case (inp, out) of
        (Some data, Some res) \<Rightarrow>
          ebind (u32_at data 24) (\<lambda>sid.
          (let s1 = s\<lparr>bakStreamQueue := map_insert sid [] (bakStreamQueue s)\<rparr>;
               bak_path = the (bakStreamQueue s1 sid);
               respond = (\<lambda>ret s'. Inr (s', Some ((strcpy res 0 REQ_DOING_TRANS_BAK_FILE)(24 := word_of_int ret)),
                                        int sizeof_DoingTransBakResp))
           in case bak_files s1 bak_path of
                None \<Rightarrow> respond (-1) s1
              | Some old \<Rightarrow>
                  if \<not> bak_open_ok env bak_path then respond (-1) s1
                  else ebind (u32_at data 28) (\<lambda>stream_chunk_size.
                       if length data < doing_head_size + unat stream_chunk_size then Inl Indeterminate
                       else let chunk = take (unat stream_chunk_size) (drop doing_head_size data);
                                ret = bak_write env bak_path chunk
                            in if ret < 0 then respond ret s1
                               else respond ret (s1\<lparr>bak_files := (bak_files s1)(bak_path \<mapsto> old @ take (nat ret) chunk)\<rparr>))))
      | _ \<Rightarrow> Inr (s, out, -1))"

definition FinishBakFile :: bak_handler where
  "FinishBakFile inp out s =
     (case (inp, out) of
        (Some data, Some res) \<Rightarrow>
          ebind (u32_at data 28) (\<lambda>sid.
          (let (s1, ret) = (if sid \<in> dom (bakStreamQueue s)
                            then (s\<lparr>bakStreamQueue := (bakStreamQueue s)(sid := None)\<rparr>, 0) else (s, - 1))
           in Inr (s1, Some ((strcpy res 0 REQ_FINISH_TRANS_BAK_FILE)(25 := ret)), 1)))
      | _ \<Rightarrow> Inr (s, out, -1))"

definition BackupServerInit :: "bak_state \<Rightarrow> bak_state" where
  "BackupServerInit s = s\<lparr>bakReqHandle :=
     map_insert REQ_FINISH_TRANS_BAK_FILE FinishBakFileReq
       (map_insert REQ_DOING_TRANS_BAK_FILE DoingRecvBakFileReq
         (map_insert REQ_START_TRANS_BAK_FILE TransBakFileReq (bakReqHandle s)))\<rparr>"

definition call_req :: "bak_env \<Rightarrow> bak_req \<Rightarrow> bak_handler" where
  "call_req env r = (case r of
       TransBakFileReq \<Rightarrow> TransBakFile env
     | DoingRecvBakFileReq \<Rightarrow> DoingRecvBakFile env
     | FinishBakFileReq \<Rightarrow> FinishBakFile)"

text \<open>
  \<open>BackupRespond\<close>, the callback of the server. \<open>stack\<close> is what the 128 bytes of \<open>res\<close> hold before; the
  state is paired with the bytes written to the socket.
\<close>

definition BackupRespond :: "bak_env \<Rightarrow> mem \<Rightarrow> (bak_state \<times> byte list) client_cb" where
  "BackupRespond env stack data sz w =
     (case w of (s, sent) \<Rightarrow>
        ebind (cstr_at data 0) (\<lambda>reqHead.
        if HAED_MAX_SIZE < length reqHead then Inr w
        else case bakReqHandle s reqHead of
               None \<Rightarrow> Inr w
             | Some req_respond \<Rightarrow>
                 ebind (call_req env req_respond (Some data) (Some stack) s) (\<lambda>(s', res, res_size).
                 Inr (s', sent @ bytes_at (the res) 0 (nat res_size)))))"

section \<open>The client\<close>

text \<open>The socket calls of one client, over a state \<open>'p\<close> of the network and of the peers.\<close>

record 'p net =
  net_socket :: "'p \<Rightarrow> 'p \<times> int"
  net_connect :: "int \<Rightarrow> string \<Rightarrow> int \<Rightarrow> 'p \<Rightarrow> 'p \<times> int"
  net_mss :: "int \<Rightarrow> 'p \<Rightarrow> int option"
  net_write :: "int \<Rightarrow> byte list \<Rightarrow> 'p \<Rightarrow> 'p \<times> int"
  net_select :: "int \<Rightarrow> 'p \<Rightarrow> 'p \<times> int"
  net_read :: "int \<Rightarrow> nat \<Rightarrow> 'p \<Rightarrow> 'p \<times> byte list"     \<comment> \<open>nothing on an error\<close>
  net_close :: "int \<Rightarrow> 'p \<Rightarrow> 'p"

record bak_client =
  cl_storePath :: string
  cl_backupIp :: string
  cl_backup_port :: int
  cl_files :: "string \<rightharpoonup> byte list"
  cl_read_fails :: "nat \<Rightarrow> bool"     \<comment> \<open>\<open>read\<close> fails with this much of the file left\<close>
  cl_malloc_ok :: bool
  cl_stack :: mem                    \<comment> \<open>uninitialised locals\<close>

definition ConnectBackupServer :: "'p net \<Rightarrow> bak_client \<Rightarrow> 'p \<Rightarrow> 'p \<times> int" where
  "ConnectBackupServer net cl p =
     (case net_socket net p of (p1, sockfd) \<Rightarrow>
        if sockfd < 0 then (p1, -1)
        else case net_connect net sockfd (cl_backupIp cl) (cl_backup_port cl) p1 of (p2, r) \<Rightarrow>
               (p2, if r < 0 then -1 else sockfd))"

text \<open>The bytes \<open>read\<close> got lie over what the structure held; \<open>strcmp\<close> of its \<open>head\<close> looks at
  the text and its NUL.\<close>

definition read_into :: "mem \<Rightarrow> byte list \<Rightarrow> mem" where
  "read_into m bs = memcpy m 0 (mem_of_list bs) 0 (length bs)"

definition head_is :: "mem \<Rightarrow> string \<Rightarrow> bool" where
  "head_is m h \<longleftrightarrow> bytes_at m 0 (length h + 1) = bytes_of h @ [0]"

definition start_message :: "mem \<Rightarrow> string \<Rightarrow> string \<Rightarrow> byte list" where
  "start_message stack bid bname =
     bytes_at (strcpy (strcpy (strcpy stack 0 REQ_START_TRANS_BAK_FILE) bak_id_off bid) bak_name_off bname)
       0 sizeof_StartTransBakDef"

text \<open>\<open>StartTransferBakFile\<close>: the \<open>result\<close> is a \<open>uint8_t\<close>, so -1 is 255. It is returned with the stream id.\<close>

definition StartTransferBakFile ::
    "'p net \<Rightarrow> bak_client \<Rightarrow> string \<Rightarrow> string \<Rightarrow> u32 \<Rightarrow> 'p \<Rightarrow> ('p \<times> int \<times> u32) res" where
  "StartTransferBakFile net cl backup_id backup_name bakStreamId p =
     (case ConnectBackupServer net cl p of (p1, sockfd) \<Rightarrow>
        if sockfd \<le> 0 then Inr (if sockfd \<noteq> 0 then net_close net sockfd p1 else p1, 255, bakStreamId)
        else if bak_id_size < length backup_id + 1 \<or> bak_name_size < length backup_name + 1 then Inl OutOfBounds
        else case net_write net sockfd (start_message (cl_stack cl) backup_id backup_name) p1 of (p2, _) \<Rightarrow>
             case net_select net sockfd p2 of (p3, ret) \<Rightarrow>
               if ret \<le> 0 then Inr (net_close net sockfd p3, 255, bakStreamId)
               else case net_read net sockfd sizeof_StartTransBakResp p3 of (p4, bs) \<Rightarrow>
                      let resp = read_into (strcpy (cl_stack cl) 0 REQ_START_TRANS_BAK_FILE) bs
                      in if \<not> head_is resp REQ_START_TRANS_BAK_FILE then Inr (net_close net sockfd p4, 255, bakStreamId)
                         else Inr (net_close net sockfd p4, int (unat (resp 24)), load_u32 resp 28))"

definition doing_head :: "u32 \<Rightarrow> nat \<Rightarrow> byte list" where
  "doing_head sid n =
     bytes_at (store_u32 (store_u32 (strcpy (\<lambda>_. 0) 0 REQ_DOING_TRANS_BAK_FILE) 24 sid) 28 (word_of_nat n)) 0 doing_head_size"

text \<open>
  One turn of the loop of \<open>DoingTransBakFile\<close>: the chunk is sent on the open socket, or on a new one,
  and the answer is read. \<open>Sent\<close> carries the answer structure to the next turn; \<open>Quit\<close> is the value the
  function returns. The \<open>ret\<close> assigned after \<open>select\<close> is a local of the loop body, so the answers
  that end the loop leave the outer \<open>ret\<close> at 0; \<open>resp.result < 0\<close> is false of a \<open>uint8_t\<close>.
\<close>

datatype chunk_result = Sent mem | Quit int

definition send_chunk :: "'p net \<Rightarrow> bak_client \<Rightarrow> u32 \<Rightarrow> byte list \<Rightarrow> mem \<Rightarrow> int \<Rightarrow> 'p \<Rightarrow> 'p \<times> chunk_result" where
  "send_chunk net cl sid chunk resp sockfd p =
     (case (if sockfd = 0 then ConnectBackupServer net cl p else (p, sockfd)) of (p1, fd) \<Rightarrow>
        if sockfd = 0 \<and> fd \<le> 0 then (p1, Quit (-1))
        else case net_write net fd (doing_head sid (length chunk)) p1 of (p2, r1) \<Rightarrow>
          if r1 < 0 then (p2, Quit (-1))
          else case net_write net fd chunk p2 of (p3, r2) \<Rightarrow>
            if r2 < 0 then (p3, Quit (-1))
            else case net_select net fd p3 of (p4, ret) \<Rightarrow>
              if ret \<le> 0 then (p4, Quit 0)
              else case net_read net fd sizeof_DoingTransBakResp p4 of (p5, bs) \<Rightarrow>
                let resp' = read_into resp bs
                in if \<not> head_is resp' REQ_DOING_TRANS_BAK_FILE then (p5, Quit 0)
                   else (net_close net fd p5, Sent resp'))"

text \<open>The loop: \<open>rest\<close> is what is left of the file, \<open>count\<close> the number of bytes asked for, \<open>sz\<close> that of the
  block. A failed \<open>read\<close> is a huge \<open>rd_size\<close>, and that many bytes are sent from the block.\<close>

function send_chunks ::
    "'p net \<Rightarrow> bak_client \<Rightarrow> u32 \<Rightarrow> nat \<Rightarrow> nat \<Rightarrow> byte list \<Rightarrow> mem \<Rightarrow> int \<Rightarrow> 'p \<Rightarrow> ('p \<times> int) res" where
  "send_chunks net cl sid count sz rest resp sockfd p =
     (if cl_read_fails cl (length rest) then Inl OutOfBounds
      else let chunk = take count rest
           in if chunk = [] then Inr (p, 0)
              else if sz < length chunk then Inl OutOfBounds
              else case send_chunk net cl sid chunk resp sockfd p of
                     (p', Quit ret) \<Rightarrow> Inr (p', ret)
                   | (p', Sent resp') \<Rightarrow> send_chunks net cl sid count sz (drop count rest) resp' 0 p')"
  by pat_completeness auto
termination
  by (relation "measure (\<lambda>(net, cl, sid, count, sz, rest, resp, sockfd, p). length rest)") auto

declare send_chunks.simps [simp del]

definition DoingTransBakFile ::
    "'p net \<Rightarrow> bak_client \<Rightarrow> string \<Rightarrow> string \<Rightarrow> u32 \<Rightarrow> 'p \<Rightarrow> ('p \<times> int) res" where
  "DoingTransBakFile net cl backup_id backup_name bakStreamId p =
     (case cl_files cl (cl_storePath cl @ backup_id @ ''/'' @ backup_name) of
        None \<Rightarrow> Inr (p, -1)
      | Some contents \<Rightarrow>
          (case ConnectBackupServer net cl p of (p1, sockfd) \<Rightarrow>
             if sockfd < 0 then Inr (p1, -1)
             else case net_mss net sockfd p1 of
                    None \<Rightarrow> Inr (p1, -1)
                  | Some m \<Rightarrow>
                      let mss = m * 100
                      in if mss < - (2 ^ 31) \<or> 2 ^ 31 \<le> mss then Inl SignedOverflow
                         else if \<not> cl_malloc_ok cl then Inr (p1, -1)
                         else send_chunks net cl bakStreamId (nat ((mss - int doing_head_size) mod 2 ^ 64)) (nat (mss mod 2 ^ 64))
                                contents (strcpy (cl_stack cl) 0 REQ_DOING_TRANS_BAK_FILE) sockfd p1))"

definition finish_message :: "mem \<Rightarrow> u32 \<Rightarrow> byte list" where
  "finish_message stack sid =
     bytes_at (store_u32 (strcpy stack 0 REQ_FINISH_TRANS_BAK_FILE) 28 sid) 0 sizeof_FinishTransBakDef"

definition FinishTransBakFile :: "'p net \<Rightarrow> bak_client \<Rightarrow> u32 \<Rightarrow> 'p \<Rightarrow> 'p \<times> int" where
  "FinishTransBakFile net cl bakStreamId p =
     (case ConnectBackupServer net cl p of (p1, sockfd) \<Rightarrow>
        if sockfd \<le> 0 then (p1, -1)
        else case net_write net sockfd (finish_message (cl_stack cl) bakStreamId) p1 of (p2, _) \<Rightarrow>
             case net_select net sockfd p2 of (p3, ret) \<Rightarrow>
               if ret \<le> 0 then (net_close net sockfd p3, -1)
               else case net_read net sockfd sizeof_FinishTransBakResp p3 of (p4, bs) \<Rightarrow>
                      let resp = read_into (strcpy (cl_stack cl) 0 REQ_FINISH_TRANS_BAK_FILE) bs
                      in (net_close net sockfd p4, if head_is resp REQ_FINISH_TRANS_BAK_FILE then 0 else -1))"

text \<open>\<open>BackupClientStart\<close>; the stream id is uninitialised until the first answer.\<close>

definition BackupClientStart ::
    "'p net \<Rightarrow> 'db server \<Rightarrow> bak_client \<Rightarrow> string \<Rightarrow> string \<Rightarrow> 'p \<times> 'db \<Rightarrow> (('p \<times> 'db) \<times> int) res" where
  "BackupClientStart net exec cl backup_id backup_name w =
     (case w of (p, db) \<Rightarrow>
        ebind (StartTransferBakFile net cl backup_id backup_name (load_u32 (cl_stack cl) 0) p) (\<lambda>(p1, r1, sid).
        if r1 < 0 then Inr ((p1, db), -1)
        else ebind (DoingTransBakFile net cl backup_id backup_name sid p1) (\<lambda>(p2, r2).
             if r2 < 0 then Inr ((p2, db), -1)
             else case FinishTransBakFile net cl sid p2 of (p3, r3) \<Rightarrow>
                    if r3 < 0 then Inr ((p3, db), -1)
                    else Inr ((p3, fst (UpdateBackupToTable exec backup_id backup_name ''yes'' db)), 0))))"

section \<open>Schedules\<close>

record bak_schedule =
  bakSchedule :: schedule
  is_in_use :: bool

type_synonym bak_schedules = "string \<rightharpoonup> bak_schedule"

text \<open>Seconds of a day, an \<open>int\<close> assigned to a \<open>uint32_t\<close>.\<close>

definition tm_seconds :: "tm \<Rightarrow> u32" where
  "tm_seconds t = word_of_int (tm_hour t * 3600 + tm_min t * 60 + tm_sec t)"

fun in_day_schedule :: "u32 \<Rightarrow> (tm \<times> tm) list \<Rightarrow> bool" where
  "in_day_schedule sec_now [] = False"
| "in_day_schedule sec_now ((tm_start, tm_end) # rest) =
     (if tm_seconds tm_start \<le> sec_now \<and> sec_now \<le> tm_seconds tm_end then True else in_day_schedule sec_now rest)"

text \<open>\<open>BackupScheProc\<close> run on its own; \<open>start\<close> is \<open>BackupClientStart\<close>, whose result nobody reads.\<close>

definition BackupScheProc ::
    "tm \<Rightarrow> (string \<Rightarrow> string \<Rightarrow> 'w \<Rightarrow> ('w \<times> int) res) \<Rightarrow> string \<Rightarrow> string \<Rightarrow> bak_schedules \<Rightarrow> 'w \<Rightarrow> (bak_schedules \<times> 'w) res" where
  "BackupScheProc tm_now start backup_id backup_name bakScheduleList w =
     (case bakScheduleList backup_id of
        None \<Rightarrow> Inr (bakScheduleList, w)
      | Some bs \<Rightarrow>
          if tm_wday tm_now < 0 \<or> int (length (bakSchedule bs)) \<le> tm_wday tm_now then Inl OutOfBounds
          else let daySche = bakSchedule bs ! nat (tm_wday tm_now);
                   done = bakScheduleList(backup_id \<mapsto> bs\<lparr>is_in_use := False\<rparr>)
               in if in_day_schedule (tm_seconds tm_now) daySche
                  then ebind (start backup_id backup_name w) (\<lambda>(w', _). Inr (done, w'))
                  else Inr (done, w))"

text \<open>\<open>BackupScheHandl\<close> waits for the flag the new thread sets; \<open>created\<close> is the value of
  \<open>pthread_create\<close>, positive on an error.\<close>

definition BackupScheHandl :: "int \<Rightarrow> int res" where
  "BackupScheHandl created = (if created < 0 then Inr (-1) else if created \<noteq> 0 then Inl NoReturn else Inr 0)"

definition AddBakSchedule ::
    "string \<Rightarrow> schedule \<Rightarrow> bak_schedules \<Rightarrow> bak_schedules \<times> int \<times> store_api_error option" where
  "AddBakSchedule backup_id schedule l =
     (if l backup_id = None then (l(backup_id \<mapsto> \<lparr>bakSchedule = schedule, is_in_use = False\<rparr>), 0, None)
      else (l, -1, Some device_already_exist))"

text \<open>\<open>RemoveBakSchedule\<close> waits until no thread uses the entry; here no thread is running that could
  clear the flag.\<close>

definition RemoveBakSchedule :: "string \<Rightarrow> bak_schedules \<Rightarrow> (bak_schedules \<times> int) res" where
  "RemoveBakSchedule backup_id l =
     (case l backup_id of
        None \<Rightarrow> Inr (l, 0)
      | Some bs \<Rightarrow> if is_in_use bs then Inl NoReturn else Inr (l(backup_id := None), 0))"

definition UpdateBakSchedule ::
    "string \<Rightarrow> schedule \<Rightarrow> bak_schedules \<Rightarrow> bak_schedules \<times> int \<times> store_api_error option" where
  "UpdateBakSchedule backup_id schedule l =
     (case l backup_id of
        None \<Rightarrow> (l, -1, Some do_not_find_camera)
      | Some bs \<Rightarrow> (l(backup_id \<mapsto> \<lparr>bakSchedule = schedule, is_in_use = False\<rparr>), 0, None))"

end
