(* ===== verification/BackupCorrect.thy ===== *)
theory BackupCorrect
  imports Backup
begin

text \<open>
  The backup of a recording is correct: what the handlers read is what the client wrote, a chunk that
  is received is appended to the file of its stream, and a client that talks to the service leaves a copy
  of the recording there. The client is verified against the interface \<open>chunk_sink\<close>; the model of the
  service implements it. The last sections show which failures the client does not notice, and
  when a schedule starts a backup.
\<close>

section \<open>Texts and numbers in messages\<close>

lemma strcpy_nth: "i \<le> length s \<Longrightarrow> strcpy m a s (a + i) = (bytes_of s @ [0]) ! i"
  by (simp add: strcpy_def memcpy_def)

lemma strcpy_below [mem_simps]: "x < a \<Longrightarrow> strcpy m a s x = m x"
  by (simp add: strcpy_def memcpy_def)

lemma strcpy_above [mem_simps]: "a + length s < x \<Longrightarrow> strcpy m a s x = m x"
  by (simp add: strcpy_def memcpy_def)

definition text_at :: "mem \<Rightarrow> nat \<Rightarrow> string \<Rightarrow> bool" where
  "text_at m a s \<longleftrightarrow> (\<forall>i \<le> length s. m (a + i) = (bytes_of s @ [0]) ! i)"

lemma text_at_strcpy [simp]: "text_at (strcpy m a s) a s"
  by (simp add: text_at_def strcpy_nth)

lemma text_at_cong: "text_at m a s \<Longrightarrow> (\<And>i. i \<le> length s \<Longrightarrow> m' (a + i) = m (a + i)) \<Longrightarrow> text_at m' a s"
  by (simp add: text_at_def)

lemma cstr_at_mem:
  assumes "text_at m a s" "a + length s < n" "CHR 0x00 \<notin> set s"
  shows "cstr_at (bytes_at m 0 n @ zs) a = Inr s"
proof -
  define xs where "xs = drop a (bytes_at m 0 n @ zs)"
  have "take (length s + 1) xs = bytes_of s @ [0]"
  proof (rule nth_equalityI)
    show "length (take (length s + 1) xs) = length (bytes_of s @ [0])" using assms(2) by (simp add: xs_def)
  next
    fix i assume "i < length (take (length s + 1) xs)"
    then have "i \<le> length s" by simp
    then show "take (length s + 1) xs ! i = (bytes_of s @ [0]) ! i"
      using assms(1,2) by (simp add: xs_def nth_append text_at_def)
  qed
  then have "xs = (bytes_of s @ [0]) @ drop (length s + 1) xs" by (metis append_take_drop_id)
  then show ?thesis using cstr_at_bytes_of [of a "bytes_at m 0 n @ zs" s] assms(3) by (simp add: xs_def)
qed

lemma u32_at_mem: "a + 4 \<le> n \<Longrightarrow> u32_at (bytes_at m 0 n @ zs) a = Inr (load_u32 m a)"
  by (auto simp: u32_at_def mem_of_list_def nth_append intro!: load_u32_cong)

lemma load_u32_other [simp]:
  "b + 4 \<le> a \<Longrightarrow> load_u32 (store_u32 m a v) b = load_u32 m b"
  "a + 4 \<le> b \<Longrightarrow> load_u32 (store_u32 m a v) b = load_u32 m b"
  by (auto intro!: load_u32_cong simp: mem_simps)

lemma head_is_text_at: "head_is m h \<longleftrightarrow> text_at m 0 h"
proof
  assume "head_is m h"
  then have eq: "bytes_at m 0 (length h + 1) = bytes_of h @ [0]" by (simp add: head_is_def)
  show "text_at m 0 h" unfolding text_at_def
  proof (intro allI impI)
    fix i assume "i \<le> length h"
    then have "bytes_at m 0 (length h + 1) ! i = m (0 + i)" by simp
    with eq show "m (0 + i) = (bytes_of h @ [0]) ! i" by simp
  qed
next
  assume "text_at m 0 h"
  then show "head_is m h" unfolding head_is_def by (intro bytes_at_eqI) (auto simp: text_at_def)
qed

lemma read_into_other [mem_simps]: "length bs \<le> x \<Longrightarrow> read_into m bs x = m x"
  by (simp add: read_into_def memcpy_def)

lemma read_into_bytes_at: "x < n \<Longrightarrow> read_into m (bytes_at r 0 n) x = r x"
  by (simp add: read_into_def memcpy_def)

lemmas req_defs = REQ_START_TRANS_BAK_FILE_def REQ_DOING_TRANS_BAK_FILE_def REQ_FINISH_TRANS_BAK_FILE_def
lemmas bak_size_defs = bak_id_off_def bak_id_size_def bak_name_off_def bak_name_size_def sizeof_StartTransBakDef_def
  sizeof_StartTransBakResp_def doing_head_size_def sizeof_DoingTransBakResp_def sizeof_FinishTransBakDef_def
  sizeof_FinishTransBakResp_def

lemma req_lengths [simp]:
  "length REQ_START_TRANS_BAK_FILE = 23" "length REQ_DOING_TRANS_BAK_FILE = 23" "length REQ_FINISH_TRANS_BAK_FILE = 24"
  by (simp_all add: req_defs)

lemma req_no_nul [simp]:
  "CHR 0x00 \<notin> set REQ_START_TRANS_BAK_FILE" "CHR 0x00 \<notin> set REQ_DOING_TRANS_BAK_FILE"
  "CHR 0x00 \<notin> set REQ_FINISH_TRANS_BAK_FILE"
  by (simp_all add: req_defs)

lemma start_message_reads:
  assumes "length bid < bak_id_size" "length bname < bak_name_size" "CHR 0x00 \<notin> set bid" "CHR 0x00 \<notin> set bname"
  shows "cstr_at (start_message stack bid bname @ zs) 0 = Inr REQ_START_TRANS_BAK_FILE"
    and "cstr_at (start_message stack bid bname @ zs) bak_id_off = Inr bid"
    and "cstr_at (start_message stack bid bname @ zs) bak_name_off = Inr bname"
proof -
  show "cstr_at (start_message stack bid bname @ zs) 0 = Inr REQ_START_TRANS_BAK_FILE"
    unfolding start_message_def
    by (rule cstr_at_mem, rule text_at_cong [OF text_at_strcpy]) (simp_all add: mem_simps bak_size_defs)
  show "cstr_at (start_message stack bid bname @ zs) bak_id_off = Inr bid"
    unfolding start_message_def using assms
    by (intro cstr_at_mem, intro text_at_cong [OF text_at_strcpy]) (simp_all add: mem_simps bak_size_defs)
  show "cstr_at (start_message stack bid bname @ zs) bak_name_off = Inr bname"
    unfolding start_message_def using assms by (intro cstr_at_mem) (simp_all add: bak_size_defs)
qed

lemma length_doing_head [simp]: "length (doing_head sid n) = 32"
  by (simp add: doing_head_def doing_head_size_def)

lemma doing_head_reads:
  shows "cstr_at (doing_head sid n @ zs) 0 = Inr REQ_DOING_TRANS_BAK_FILE"
    and "u32_at (doing_head sid n @ zs) 24 = Inr sid"
    and "u32_at (doing_head sid n @ zs) 28 = Inr (word_of_nat n)"
proof -
  show "cstr_at (doing_head sid n @ zs) 0 = Inr REQ_DOING_TRANS_BAK_FILE"
    unfolding doing_head_def
    by (rule cstr_at_mem, rule text_at_cong [OF text_at_strcpy]) (simp_all add: mem_simps bak_size_defs)
qed (simp_all add: doing_head_def doing_head_size_def u32_at_mem)

lemma finish_message_reads:
  shows "cstr_at (finish_message stack sid @ zs) 0 = Inr REQ_FINISH_TRANS_BAK_FILE"
    and "u32_at (finish_message stack sid @ zs) 28 = Inr sid"
proof -
  show "cstr_at (finish_message stack sid @ zs) 0 = Inr REQ_FINISH_TRANS_BAK_FILE"
    unfolding finish_message_def
    by (rule cstr_at_mem, rule text_at_cong [OF text_at_strcpy]) (simp_all add: mem_simps bak_size_defs)
qed (simp add: finish_message_def sizeof_FinishTransBakDef_def u32_at_mem)

section \<open>The handlers\<close>

text \<open>The requests a service that was initialised knows.\<close>

definition serving :: "bak_state \<Rightarrow> bool" where
  "serving s \<longleftrightarrow> bakReqHandle s REQ_START_TRANS_BAK_FILE = Some TransBakFileReq \<and>
     bakReqHandle s REQ_DOING_TRANS_BAK_FILE = Some DoingRecvBakFileReq \<and>
     bakReqHandle s REQ_FINISH_TRANS_BAK_FILE = Some FinishBakFileReq"

lemma serving_init: "bakReqHandle s = Map.empty \<Longrightarrow> serving (BackupServerInit s)"
  by (simp add: serving_def BackupServerInit_def map_insert_def req_defs)

lemma serving_update [simp]:
  "serving (s\<lparr>bakStreamQueue := q\<rparr>) = serving s" "serving (s\<lparr>bakStreamIdx := k\<rparr>) = serving s"
  "serving (s\<lparr>bak_dirs := d\<rparr>) = serving s" "serving (s\<lparr>bak_files := f\<rparr>) = serving s"
  by (simp_all add: serving_def)

text \<open>What the service holds after a chunk: one file grows.\<close>

definition append_chunk :: "string \<Rightarrow> bak_state \<Rightarrow> byte list \<Rightarrow> bak_state" where
  "append_chunk path s chunk = s\<lparr>bak_files := (bak_files s)(path \<mapsto> the (bak_files s path) @ chunk)\<rparr>"

definition disk_ok :: "bak_env \<Rightarrow> string \<Rightarrow> bool" where
  "disk_ok env path \<longleftrightarrow> bak_open_ok env path \<and> (bak_write env path = (\<lambda>bs. int (length bs)))"

lemma DoingRecvBakFile_appends:
  assumes "bakStreamQueue s sid = Some path" "path \<in> dom (bak_files s)" "disk_ok env path" "length chunk < 2 ^ 32"
  shows "DoingRecvBakFile env (Some (doing_head sid (length chunk) @ chunk @ zs)) (Some res) s =
           Inr (append_chunk path s chunk,
                Some ((strcpy res 0 REQ_DOING_TRANS_BAK_FILE)(24 := word_of_nat (length chunk))), 25)"
proof -
  have n: "unat (word_of_nat (length chunk) :: u32) = length chunk"
    using assms(4) by (simp add: unat_of_nat)
  have q: "map_insert sid [] (bakStreamQueue s) = bakStreamQueue s"
    using assms(1) by (simp add: map_insert_def domI)
  obtain old where "bak_files s path = Some old" using assms(2) by auto
  then show ?thesis using assms(1,3) n
    by (simp add: DoingRecvBakFile_def doing_head_reads q disk_ok_def append_chunk_def Let_def
        sizeof_DoingTransBakResp_def doing_head_size_def)
qed

lemma BackupRespond_chunk:
  assumes "serving s" "bakStreamQueue s sid = Some path" "path \<in> dom (bak_files s)" "disk_ok env path" "length chunk < 2 ^ 32"
  shows "BackupRespond env stack (doing_head sid (length chunk) @ chunk @ zs) n (s, sent) =
           Inr (append_chunk path s chunk,
                sent @ bytes_at ((strcpy stack 0 REQ_DOING_TRANS_BAK_FILE)(24 := word_of_nat (length chunk))) 0 25)"
  using DoingRecvBakFile_appends [OF assms(2-5), of zs stack] assms(1)
  by (simp add: BackupRespond_def doing_head_reads HAED_MAX_SIZE_def serving_def call_req_def)

text \<open>The state in which the file of a new stream is ready.\<close>

definition stream_opened :: "string \<Rightarrow> string \<Rightarrow> bak_state \<Rightarrow> bak_state" where
  "stream_opened dir path s =
     s\<lparr>bak_dirs := (if bak_access dir s then bak_dirs s else insert dir (bak_dirs s)),
       bak_files := (if path \<in> dom (bak_files s) then bak_files s else (bak_files s)(path \<mapsto> [])),
       bakStreamQueue := map_insert (bakStreamIdx s) path (bakStreamQueue s),
       bakStreamIdx := bakStreamIdx s + 1\<rparr>"

definition may_create :: "bak_env \<Rightarrow> string \<Rightarrow> string \<Rightarrow> bak_state \<Rightarrow> bool" where
  "may_create env dir path s \<longleftrightarrow> bak_mkdir_ok env dir \<and> bak_creat_ok env path \<and> path \<notin> bak_dirs s \<and> path \<noteq> dir"

lemma TransBakFile_opens:
  fixes env bid bname
  defines "dir \<equiv> env_backupPath env @ bid"
  defines "path \<equiv> dir @ ''/'' @ bname"
  assumes "length bid < bak_id_size" "length bname < bak_name_size" "CHR 0x00 \<notin> set bid" "CHR 0x00 \<notin> set bname"
      and "may_create env dir path s"
  shows "TransBakFile env (Some (start_message st bid bname @ zs)) (Some res) s =
           Inr (stream_opened dir path s,
                Some ((strcpy (store_u32 res 28 (bakStreamIdx s)) 0 REQ_START_TRANS_BAK_FILE)(24 := 0)), 32)"
proof -
  have "(s\<lparr>bak_dirs := bak_dirs s, bak_files := bak_files s\<rparr> :: bak_state) = s" by simp
  then show ?thesis
    using assms(7) start_message_reads [OF assms(3-6), of st zs]
    by (auto simp: TransBakFile_def Let_def make_dir_def make_file_def may_create_def stream_opened_def bak_access_def
        sizeof_StartTransBakResp_def dir_def path_def)
qed

lemma BackupRespond_start:
  fixes env bid bname
  defines "dir \<equiv> env_backupPath env @ bid"
  defines "path \<equiv> dir @ ''/'' @ bname"
  assumes "serving s" "length bid < bak_id_size" "length bname < bak_name_size" "CHR 0x00 \<notin> set bid"
      "CHR 0x00 \<notin> set bname" and "may_create env dir path s"
  shows "BackupRespond env stack (start_message st bid bname @ zs) n (s, sent) =
           Inr (stream_opened dir path s,
                sent @ bytes_at ((strcpy (store_u32 stack 28 (bakStreamIdx s)) 0 REQ_START_TRANS_BAK_FILE)(24 := 0)) 0 32)"
  using TransBakFile_opens [OF assms(4-7), of env s st zs stack] assms(3,8)
    start_message_reads(1) [OF assms(4-7), of st zs]
  by (simp add: BackupRespond_def HAED_MAX_SIZE_def serving_def call_req_def dir_def path_def)

lemma BackupRespond_finish:
  assumes "serving s" "sid \<in> dom (bakStreamQueue s)"
  shows "BackupRespond env stack (finish_message st sid @ zs) n (s, sent) =
           Inr (s\<lparr>bakStreamQueue := (bakStreamQueue s)(sid := None)\<rparr>,
                sent @ bytes_at ((strcpy stack 0 REQ_FINISH_TRANS_BAK_FILE)(25 := 0)) 0 1)"
  using assms by (simp add: BackupRespond_def finish_message_reads HAED_MAX_SIZE_def serving_def call_req_def FinishBakFile_def)

section \<open>The client against its interface\<close>

text \<open>
  What the client relies on: while the peer is \<open>ready\<close>, a chunk of at most \<open>limit\<close> bytes that is sent, on the
  open socket or on a new one, is answered, and is appended to what the peer holds.
\<close>

locale chunk_sink =
  fixes net :: "'p net" and cl :: bak_client and sid :: u32 and limit :: nat
    and ready :: "'p \<Rightarrow> bool" and opened :: "int \<Rightarrow> 'p \<Rightarrow> bool" and held :: "'p \<Rightarrow> 'v"
    and app :: "'v \<Rightarrow> byte list \<Rightarrow> 'v"
  assumes readable: "ready p \<Longrightarrow> \<not> cl_read_fails cl n"
    and sent: "ready p \<Longrightarrow> sockfd = 0 \<or> opened sockfd p \<Longrightarrow> chunk \<noteq> [] \<Longrightarrow> length chunk \<le> limit \<Longrightarrow>
      head_is resp REQ_DOING_TRANS_BAK_FILE \<Longrightarrow>
      \<exists>p' resp'. send_chunk net cl sid chunk resp sockfd p = (p', Sent resp') \<and> ready p' \<and>
        head_is resp' REQ_DOING_TRANS_BAK_FILE \<and> held p' = app (held p) chunk"
    and app_Nil: "ready p \<Longrightarrow> app (held p) [] = held p"
    and app_app: "app (app v a) b = app v (a @ b)"
begin

lemma send_chunks_appends:
  "ready p \<Longrightarrow> sockfd = 0 \<or> opened sockfd p \<Longrightarrow> head_is resp REQ_DOING_TRANS_BAK_FILE \<Longrightarrow>
   0 < count \<Longrightarrow> count \<le> limit \<Longrightarrow> count \<le> sz \<Longrightarrow>
   \<exists>p'. send_chunks net cl sid count sz rest resp sockfd p = Inr (p', 0) \<and> ready p' \<and> held p' = app (held p) rest"
proof (induction "length rest" arbitrary: rest p sockfd resp rule: less_induct)
  case less
  show ?case
  proof (cases "rest = []")
    case True
    then show ?thesis using less.prems readable app_Nil by (subst send_chunks.simps) simp
  next
    case False
    then have c: "take count rest \<noteq> []" "length (take count rest) \<le> limit" "length (take count rest) \<le> sz"
      using less.prems by auto
    obtain p1 resp1 where s1: "send_chunk net cl sid (take count rest) resp sockfd p = (p1, Sent resp1)"
        and r1: "ready p1" "head_is resp1 REQ_DOING_TRANS_BAK_FILE" "held p1 = app (held p) (take count rest)"
      using sent [OF less.prems(1,2) c(1,2) less.prems(3)] by auto
    have "length (drop count rest) < length rest" using False less.prems(4) by simp
    from less.hyps [OF this r1(1) _ r1(2) less.prems(4-6), of 0]
    obtain p2 where p2: "send_chunks net cl sid count sz (drop count rest) resp1 0 p1 = Inr (p2, 0)" "ready p2"
        "held p2 = app (held p1) (drop count rest)" by auto
    have "send_chunks net cl sid count sz rest resp sockfd p = Inr (p2, 0)"
      using c(1) less.prems(6) readable [OF less.prems(1)] s1 p2(1)
      by (subst send_chunks.simps) (simp add: Let_def del: take_eq_Nil take_eq_Nil2)
    with p2 r1(3) show ?thesis by (auto simp: app_app)
  qed
qed

end

section \<open>The service as a peer\<close>

text \<open>
  A network on which the service of \<open>server.cpp\<close> answers: a connection collects what the client writes,
  \<open>select\<close> lets a client thread of the server read it and run \<open>BackupRespond\<close>, and
  \<open>read\<close> gets what that wrote. How TCP delivers a message is the parameter \<open>dlv\<close>: what the
  successive calls of \<open>read\<close> in the server find, an empty list where a call comes too early.
\<close>

record svc =
  svc_bak :: bak_state
  svc_next :: int
  svc_in :: "int \<Rightarrow> byte list"
  svc_out :: "int \<Rightarrow> byte list"

definition service_env :: "int \<Rightarrow> byte list list \<Rightarrow> client_env" where
  "service_env mss arr = \<lparr>tcp_maxseg = Some mss, read_buf_malloc = True, select_result = 1, arrivals = arr\<rparr>"

definition service_select :: "bak_env \<Rightarrow> mem \<Rightarrow> int \<Rightarrow> (byte list \<Rightarrow> byte list list) \<Rightarrow> int \<Rightarrow> svc \<Rightarrow> svc \<times> int" where
  "service_select env stack mss dlv fd p =
     (case ClientResponseProc (service_env mss (dlv (svc_in p fd))) 0 (Some (BackupRespond env stack)) (svc_bak p, []) of
        Inl _ \<Rightarrow> (p, -1)
      | Inr (s', sent) \<Rightarrow> (p\<lparr>svc_bak := s', svc_in := (svc_in p)(fd := []), svc_out := (svc_out p)(fd := sent)\<rparr>, 1))"

definition service_net :: "bak_env \<Rightarrow> mem \<Rightarrow> int \<Rightarrow> (byte list \<Rightarrow> byte list list) \<Rightarrow> svc net" where
  "service_net env stack mss dlv =
     \<lparr>net_socket = \<lambda>p. (p\<lparr>svc_next := svc_next p + 1\<rparr>, svc_next p),
      net_connect = \<lambda>fd ip port p. (p\<lparr>svc_in := (svc_in p)(fd := []), svc_out := (svc_out p)(fd := [])\<rparr>, 0),
      net_mss = \<lambda>fd p. Some mss,
      net_write = \<lambda>fd bs p. (p\<lparr>svc_in := (svc_in p)(fd := svc_in p fd @ bs)\<rparr>, int (length bs)),
      net_select = service_select env stack mss dlv,
      net_read = \<lambda>fd n p. (p\<lparr>svc_out := (svc_out p)(fd := drop n (svc_out p fd))\<rparr>, take n (svc_out p fd)),
      net_close = \<lambda>fd p. p\<rparr>"

lemma service_net_simps [simp]:
  "net_socket (service_net env stack mss dlv) p = (p\<lparr>svc_next := svc_next p + 1\<rparr>, svc_next p)"
  "net_connect (service_net env stack mss dlv) fd ip port p =
     (p\<lparr>svc_in := (svc_in p)(fd := []), svc_out := (svc_out p)(fd := [])\<rparr>, 0)"
  "net_mss (service_net env stack mss dlv) fd p = Some mss"
  "net_write (service_net env stack mss dlv) fd bs p =
     (p\<lparr>svc_in := (svc_in p)(fd := svc_in p fd @ bs)\<rparr>, int (length bs))"
  "net_select (service_net env stack mss dlv) = service_select env stack mss dlv"
  "net_read (service_net env stack mss dlv) fd n p =
     (p\<lparr>svc_out := (svc_out p)(fd := drop n (svc_out p fd))\<rparr>, take n (svc_out p fd))"
  "net_close (service_net env stack mss dlv) fd p = p"
  by (simp_all add: service_net_def)

text \<open>No call of \<open>read\<close> finds the socket empty before a message is complete, in whatever pieces it is delivered.\<close>

definition gapless :: "(byte list \<Rightarrow> byte list list) \<Rightarrow> bool" where
  "gapless dlv \<longleftrightarrow> (\<forall>msg. without_pause (dlv msg) = msg)"

definition mss_ok :: "int \<Rightarrow> bool" where
  "mss_ok mss \<longleftrightarrow> 0 < mss \<and> mss * 100 < int READ_BUF_MAX_SIZE"

lemma service_select_answers:
  assumes "mss_ok mss" "svc_in p fd = msg" "msg \<noteq> []" "int (length msg) \<le> mss * 100"
      and "BackupRespond env stack (msg @ [0]) (length msg) (svc_bak p, []) = Inr (s', sent)" "gapless dlv"
  shows "service_select env stack mss dlv fd p =
           (p\<lparr>svc_bak := s', svc_in := (svc_in p)(fd := []), svc_out := (svc_out p)(fd := sent)\<rparr>, 1)"
proof -
  have small: "0 < mss" "mss * 128 < 2 ^ 32" using assms(1) by (auto simp: mss_ok_def READ_BUF_MAX_SIZE_def)
  have cap: "unat (word_of_int (mss * 128) :: u32) = nat (mss * 128)"
    using small by (intro unat_u32_of_int) linarith+
  have size: "buf_size (service_env mss (dlv msg)) 0 = Some (nat (mss * 128))"
    using cap by (simp add: buf_size_def service_env_def)
  have fits: "length msg < READ_BUF_MAX_SIZE" "length msg < nat (mss * 128)"
    using assms(1,4) small(1) unfolding mss_ok_def by linarith+
  have "ClientResponseProc (service_env mss (dlv msg)) 0 (Some (BackupRespond env stack)) (svc_bak p, []) =
          BackupRespond env stack (msg @ [0]) (length msg) (svc_bak p, [])"
    using assms(6) by (intro ClientResponseProc_whole [OF size _ _ _ assms(3) fits]) (simp_all add: service_env_def gapless_def)
  with assms(2,5) show ?thesis by (simp add: service_select_def)
qed

text \<open>One exchange on an open connection: write, \<open>select\<close>, \<open>read\<close>.\<close>

lemma service_connect:
  "0 < svc_next p \<Longrightarrow> ConnectBackupServer (service_net env stack mss dlv) cl p =
     (p\<lparr>svc_next := svc_next p + 1, svc_in := (svc_in p)(svc_next p := []), svc_out := (svc_out p)(svc_next p := [])\<rparr>, svc_next p)"
  by (simp add: ConnectBackupServer_def)

definition service_ready :: "bak_env \<Rightarrow> int \<Rightarrow> (byte list \<Rightarrow> byte list list) \<Rightarrow> bak_client \<Rightarrow> string \<Rightarrow> u32 \<Rightarrow> svc \<Rightarrow> bool" where
  "service_ready env mss dlv cl path sid p \<longleftrightarrow>
     mss_ok mss \<and> gapless dlv \<and> (\<forall>n. \<not> cl_read_fails cl n) \<and> 0 < svc_next p \<and> serving (svc_bak p) \<and>
     bakStreamQueue (svc_bak p) sid = Some path \<and> path \<in> dom (bak_files (svc_bak p)) \<and> disk_ok env path"

definition service_opened :: "int \<Rightarrow> svc \<Rightarrow> bool" where
  "service_opened fd p \<longleftrightarrow> 0 < fd \<and> svc_in p fd = []"

definition chunk_limit :: "int \<Rightarrow> nat" where
  "chunk_limit mss = nat (mss * 100) - doing_head_size"

lemma head_is_answer:
  "head_is m h \<Longrightarrow> length bs \<le> length h + 1 \<Longrightarrow> (\<And>i. i < length bs \<Longrightarrow> bs ! i = (bytes_of h @ [0]) ! i) \<Longrightarrow> head_is (read_into m bs) h"
  unfolding head_is_text_at text_at_def by (auto simp: read_into_def memcpy_def)

lemma head_is_read_whole:
  "text_at r 0 h \<Longrightarrow> length h < n \<Longrightarrow> head_is (read_into m (bytes_at r 0 n)) h"
  unfolding head_is_text_at text_at_def by (simp add: read_into_bytes_at)

lemma send_chunk_opened:
  assumes "service_ready env mss dlv cl path sid p" "service_opened fd p" "chunk \<noteq> []" "length chunk \<le> chunk_limit mss"
  shows "\<exists>p' resp'. send_chunk (service_net env stack mss dlv) cl sid chunk resp fd p = (p', Sent resp') \<and>
           service_ready env mss dlv cl path sid p' \<and> head_is resp' REQ_DOING_TRANS_BAK_FILE \<and>
           svc_bak p' = append_chunk path (svc_bak p) chunk"
proof -
  define msg where "msg = doing_head sid (length chunk) @ chunk"
  define p3 where "p3 = p\<lparr>svc_in := (svc_in p)(fd := msg)\<rparr>"
  define r where "r = (strcpy stack 0 REQ_DOING_TRANS_BAK_FILE)(24 := word_of_nat (length chunk) :: byte)"
  have ok: "mss_ok mss" and gl: "gapless dlv" and fd: "0 < fd" "svc_in p fd = []"
    using assms(1,2) by (simp_all add: service_ready_def service_opened_def)
  have len: "int (length msg) \<le> mss * 100" "length chunk < 2 ^ 32"
    using assms(3,4) ok by (auto simp: msg_def chunk_limit_def doing_head_size_def mss_ok_def READ_BUF_MAX_SIZE_def
        le_diff_conv2 nat_le_iff simp flip: length_greater_0_conv)
  have resp: "BackupRespond env stack (msg @ [0]) (length msg) (svc_bak p3, []) =
      Inr (append_chunk path (svc_bak p) chunk, bytes_at r 0 25)"
    using BackupRespond_chunk [of "svc_bak p" sid path env chunk stack "[0]"] assms(1) len(2)
    by (simp add: service_ready_def msg_def p3_def r_def)
  have sel: "service_select env stack mss dlv fd p3 =
      (p3\<lparr>svc_bak := append_chunk path (svc_bak p) chunk, svc_in := (svc_in p3)(fd := []), svc_out := (svc_out p3)(fd := bytes_at r 0 25)\<rparr>, 1)"
    by (rule service_select_answers [OF ok _ _ len(1) resp gl]) (simp_all add: p3_def msg_def assms(3))
  have "text_at r 0 REQ_DOING_TRANS_BAK_FILE"
    unfolding r_def by (rule text_at_cong [OF text_at_strcpy]) simp
  then have hd: "head_is (read_into resp (bytes_at r 0 25)) REQ_DOING_TRANS_BAK_FILE" for resp
    by (rule head_is_read_whole) simp
  have ready: "service_ready env mss dlv cl path sid q"
    if "svc_bak q = append_chunk path (svc_bak p) chunk" "svc_next q = svc_next p" for q
    using assms(1) that by (simp add: service_ready_def append_chunk_def)
  show ?thesis
    using fd hd sel ready
    by (simp add: send_chunk_def p3_def msg_def sizeof_DoingTransBakResp_def)
qed

lemma send_chunk_service:
  assumes "service_ready env mss dlv cl path sid p" "sockfd = 0 \<or> service_opened sockfd p" "chunk \<noteq> []"
      "length chunk \<le> chunk_limit mss"
  shows "\<exists>p' resp'. send_chunk (service_net env stack mss dlv) cl sid chunk resp sockfd p = (p', Sent resp') \<and>
           service_ready env mss dlv cl path sid p' \<and> head_is resp' REQ_DOING_TRANS_BAK_FILE \<and>
           svc_bak p' = append_chunk path (svc_bak p) chunk"
proof (cases "sockfd = 0")
  case False
  then show ?thesis using assms send_chunk_opened by blast
next
  case True
  have n: "0 < svc_next p" using assms(1) by (simp add: service_ready_def)
  define q where "q = fst (ConnectBackupServer (service_net env stack mss dlv) cl p)"
  have c: "ConnectBackupServer (service_net env stack mss dlv) cl p = (q, svc_next p)"
    by (simp add: q_def service_connect [OF n])
  have q: "service_ready env mss dlv cl path sid q" "service_opened (svc_next p) q" "svc_bak q = svc_bak p"
    using assms(1) n by (simp_all add: q_def service_connect service_ready_def service_opened_def)
  have "send_chunk (service_net env stack mss dlv) cl sid chunk resp 0 p =
        send_chunk (service_net env stack mss dlv) cl sid chunk resp (svc_next p) q"
    using n by (simp add: send_chunk_def c)
  then show ?thesis using send_chunk_opened [OF q(1,2) assms(3,4), of stack resp] True q(3) by simp
qed

interpretation service: chunk_sink "service_net env stack mss dlv" cl sid "chunk_limit mss"
    "service_ready env mss dlv cl path sid" service_opened svc_bak "append_chunk path"
  for env stack mss dlv cl sid path
proof (unfold_locales, goal_cases)
  case (2 p sockfd chunk resp)
  then show ?case by (intro send_chunk_service)
qed (auto simp: service_ready_def append_chunk_def fun_upd_idem)

section \<open>A whole backup\<close>

definition names_ok :: "string \<Rightarrow> string \<Rightarrow> bool" where
  "names_ok bid bname \<longleftrightarrow> length bid < bak_id_size \<and> length bname < bak_name_size \<and>
     CHR 0x00 \<notin> set bid \<and> CHR 0x00 \<notin> set bname"

definition backup_dir :: "bak_env \<Rightarrow> string \<Rightarrow> string" where
  "backup_dir env bid = env_backupPath env @ bid"

definition backup_file :: "bak_env \<Rightarrow> string \<Rightarrow> string \<Rightarrow> string" where
  "backup_file env bid bname = backup_dir env bid @ ''/'' @ bname"

lemma start_service:
  assumes "mss_ok mss" "0 < svc_next p" "serving (svc_bak p)" "names_ok bid bname"
      and "may_create env (backup_dir env bid) (backup_file env bid bname) (svc_bak p)" and gl: "gapless dlv"
  shows "\<exists>p'. StartTransferBakFile (service_net env stack mss dlv) cl bid bname sid0 p = Inr (p', 0, bakStreamIdx (svc_bak p)) \<and>
           svc_bak p' = stream_opened (backup_dir env bid) (backup_file env bid bname) (svc_bak p) \<and> 0 < svc_next p'"
proof -
  define msg where "msg = start_message (cl_stack cl) bid bname"
  define q where "q = p\<lparr>svc_next := svc_next p + 1, svc_out := (svc_out p)(svc_next p := []), svc_in := (svc_in p)(svc_next p := msg)\<rparr>"
  define r where "r = (strcpy (store_u32 stack 28 (bakStreamIdx (svc_bak p))) 0 REQ_START_TRANS_BAK_FILE)(24 := 0)"
  have len: "length msg = 92" by (simp add: msg_def start_message_def sizeof_StartTransBakDef_def)
  then have len': "msg \<noteq> []" "int (length msg) \<le> mss * 100" using assms(1) by (auto simp: mss_ok_def)
  have resp: "BackupRespond env stack (msg @ [0]) (length msg) (svc_bak q, []) =
      Inr (stream_opened (backup_dir env bid) (backup_file env bid bname) (svc_bak p), bytes_at r 0 32)"
    using BackupRespond_start [of "svc_bak p" bid bname env stack "cl_stack cl" "[0]"] assms(3-5)
    by (simp add: names_ok_def msg_def q_def r_def backup_dir_def backup_file_def)
  have sel: "service_select env stack mss dlv (svc_next p) q =
      (q\<lparr>svc_bak := stream_opened (backup_dir env bid) (backup_file env bid bname) (svc_bak p),
         svc_in := (svc_in q)(svc_next p := []), svc_out := (svc_out q)(svc_next p := bytes_at r 0 32)\<rparr>, 1)"
    by (rule service_select_answers [OF assms(1) _ len' resp gl]) (simp add: q_def)
  have "text_at r 0 REQ_START_TRANS_BAK_FILE"
    unfolding r_def by (rule text_at_cong [OF text_at_strcpy]) simp
  then have hd: "head_is (read_into m (bytes_at r 0 32)) REQ_START_TRANS_BAK_FILE" for m
    by (rule head_is_read_whole) simp
  have res: "read_into m (bytes_at r 0 32) 24 = 0" for m
    by (simp add: read_into_bytes_at) (simp add: r_def)
  have "load_u32 (read_into m (bytes_at r 0 32)) 28 = load_u32 r 28" for m
    by (rule load_u32_cong) (simp add: read_into_bytes_at)
  also have "load_u32 r 28 = load_u32 (store_u32 stack 28 (bakStreamIdx (svc_bak p))) 28"
    unfolding r_def by (rule load_u32_cong) (simp add: mem_simps)
  finally have sid: "load_u32 (read_into m (bytes_at r 0 32)) 28 = bakStreamIdx (svc_bak p)" for m by simp
  have "\<not> (bak_id_size < length bid + 1 \<or> bak_name_size < length bname + 1)"
    using assms(4) by (auto simp: names_ok_def)
  then show ?thesis
    using assms(2) sel hd res sid
    by (simp add: StartTransferBakFile_def service_connect q_def msg_def Let_def
        sizeof_StartTransBakResp_def)
qed

lemma chunk_count:
  assumes "mss_ok mss"
  shows "nat ((mss * 100 - int doing_head_size) mod 2 ^ 64) = chunk_limit mss" "nat (mss * 100 mod 2 ^ 64) = nat (mss * 100)"
    and "0 < chunk_limit mss" "chunk_limit mss \<le> nat (mss * 100)"
proof -
  have b: "1 \<le> mss" "mss * 100 < 4194304" using assms by (auto simp: mss_ok_def READ_BUF_MAX_SIZE_def)
  then have "(mss * 100 - 32) mod 2 ^ 64 = mss * 100 - 32" "mss * 100 mod 2 ^ 64 = mss * 100"
    by (auto intro!: mod_pos_pos_trivial)
  then show "nat ((mss * 100 - int doing_head_size) mod 2 ^ 64) = chunk_limit mss" "nat (mss * 100 mod 2 ^ 64) = nat (mss * 100)"
    by (simp_all add: chunk_limit_def doing_head_size_def nat_diff_distrib')
  show "0 < chunk_limit mss" "chunk_limit mss \<le> nat (mss * 100)"
    using b by (simp_all add: chunk_limit_def doing_head_size_def)
qed

lemma doing_service:
  assumes "service_ready env mss dlv cl path sid p"
      and "cl_files cl (cl_storePath cl @ bid @ ''/'' @ bname) = Some contents" "cl_malloc_ok cl"
  shows "\<exists>p'. DoingTransBakFile (service_net env stack mss dlv) cl bid bname sid p = Inr (p', 0) \<and>
           service_ready env mss dlv cl path sid p' \<and> svc_bak p' = append_chunk path (svc_bak p) contents"
proof -
  have n: "0 < svc_next p" and ok: "mss_ok mss" using assms(1) by (simp_all add: service_ready_def)
  define q where "q = fst (ConnectBackupServer (service_net env stack mss dlv) cl p)"
  have c: "ConnectBackupServer (service_net env stack mss dlv) cl p = (q, svc_next p)"
    by (simp add: q_def service_connect [OF n])
  have q: "service_ready env mss dlv cl path sid q" "service_opened (svc_next p) q" "svc_bak q = svc_bak p"
    using assms(1) n by (simp_all add: q_def service_connect service_ready_def service_opened_def)
  have m: "net_mss (service_net env stack mss dlv) (svc_next p) q = Some mss" by simp
  have b: "1 \<le> mss" "mss * 100 < 4194304" using ok by (auto simp: mss_ok_def READ_BUF_MAX_SIZE_def)
  note count = chunk_count(1,2) [OF ok] and lim = chunk_count(3,4) [OF ok]
  have h: "head_is (strcpy (cl_stack cl) 0 REQ_DOING_TRANS_BAK_FILE) REQ_DOING_TRANS_BAK_FILE"
    by (simp add: head_is_text_at)
  obtain p' where p': "send_chunks (service_net env stack mss dlv) cl sid (chunk_limit mss) (nat (mss * 100)) contents
      (strcpy (cl_stack cl) 0 REQ_DOING_TRANS_BAK_FILE) (svc_next p) q = Inr (p', 0)"
      "service_ready env mss dlv cl path sid p'" "svc_bak p' = append_chunk path (svc_bak q) contents"
    using service.send_chunks_appends [OF q(1) disjI2 [OF q(2)] h lim(1) order_refl lim(2)] by blast
  have "\<not> (mss * 100 < - (2 ^ 31) \<or> 2 ^ 31 \<le> mss * 100)" using b by simp
  then have "DoingTransBakFile (service_net env stack mss dlv) cl bid bname sid p = Inr (p', 0)"
    unfolding DoingTransBakFile_def assms(2) c Let_def option.case prod.case m count using assms(3) n p'(1) by simp
  with p' q(3) show ?thesis by simp
qed

lemma finish_service:
  assumes "mss_ok mss" "0 < svc_next p" "serving (svc_bak p)" "sid \<in> dom (bakStreamQueue (svc_bak p))" and gl: "gapless dlv"
  shows "\<exists>p'. FinishTransBakFile (service_net env stack mss dlv) cl sid p = (p', 0) \<and>
           svc_bak p' = svc_bak p\<lparr>bakStreamQueue := (bakStreamQueue (svc_bak p))(sid := None)\<rparr>"
proof -
  define msg where "msg = finish_message (cl_stack cl) sid"
  define q where "q = p\<lparr>svc_next := svc_next p + 1, svc_out := (svc_out p)(svc_next p := []), svc_in := (svc_in p)(svc_next p := msg)\<rparr>"
  define r where "r = (strcpy stack 0 REQ_FINISH_TRANS_BAK_FILE)(25 := 0)"
  have len: "length msg = 32" by (simp add: msg_def finish_message_def sizeof_FinishTransBakDef_def)
  then have len': "msg \<noteq> []" "int (length msg) \<le> mss * 100" using assms(1) by (auto simp: mss_ok_def)
  have resp: "BackupRespond env stack (msg @ [0]) (length msg) (svc_bak q, []) =
      Inr (svc_bak p\<lparr>bakStreamQueue := (bakStreamQueue (svc_bak p))(sid := None)\<rparr>, bytes_at r 0 1)"
    using BackupRespond_finish [OF assms(3,4), of env stack "cl_stack cl" "[0]"] by (simp add: msg_def q_def r_def)
  have sel: "service_select env stack mss dlv (svc_next p) q =
      (q\<lparr>svc_bak := svc_bak p\<lparr>bakStreamQueue := (bakStreamQueue (svc_bak p))(sid := None)\<rparr>,
         svc_in := (svc_in q)(svc_next p := []), svc_out := (svc_out q)(svc_next p := bytes_at r 0 1)\<rparr>, 1)"
    by (rule service_select_answers [OF assms(1) _ len' resp gl]) (simp add: q_def)
  have "head_is (read_into (strcpy m 0 REQ_FINISH_TRANS_BAK_FILE) (bytes_at r 0 1)) REQ_FINISH_TRANS_BAK_FILE" for m
    by (rule head_is_answer) (simp_all add: head_is_text_at r_def strcpy_nth [where a = 0, simplified])
  then show ?thesis
    using assms(2) sel
    by (simp add: FinishTransBakFile_def service_connect q_def msg_def Let_def
        sizeof_FinishTransBakResp_def)
qed

text \<open>(C20) A backup copies the recording. The client runs against the service; the names fit their
  fields, the service may create the directory and the file, its disk takes every write, and the segment size keeps a
  request below the 4 MiB the server reads. The network may cut each message into any pieces, but no call of \<open>read\<close> in the server, which does
  not block, finds the socket empty before the message is complete, and answers come before the client's time-out. Then
  \<open>BackupClientStart\<close> returns 0, the recording is marked as backed up, and of the state of the service exactly this has
  changed: the file is extended by exactly the recording, whatever its length, its directory exists, and one stream number has been used. A file
  that was there before is kept in front: backing up a recording twice stores it twice.\<close>

theorem backup_copies_recording:
  fixes env :: bak_env and bid bname
  defines "path \<equiv> backup_file env bid bname" and "dir \<equiv> backup_dir env bid"
  assumes "mss_ok mss" "0 < svc_next p" "serving (svc_bak p)" "names_ok bid bname"
      and "may_create env dir path (svc_bak p)" "disk_ok env path" "gapless dlv"
      and "bakStreamIdx (svc_bak p) \<notin> dom (bakStreamQueue (svc_bak p))"
      and "cl_files cl (cl_storePath cl @ bid @ ''/'' @ bname) = Some contents" "cl_malloc_ok cl" "\<forall>n. \<not> cl_read_fails cl n"
  shows "\<exists>p'. BackupClientStart (service_net env stack mss dlv) exec cl bid bname (p, db) =
             Inr ((p', fst (UpdateBackupToTable exec bid bname ''yes'' db)), 0) \<and>
           svc_bak p' = (svc_bak p)
             \<lparr>bak_files := (bak_files (svc_bak p))(path \<mapsto>
                (case bak_files (svc_bak p) path of None \<Rightarrow> [] | Some old \<Rightarrow> old) @ contents),
              bak_dirs := (if bak_access dir (svc_bak p) then bak_dirs (svc_bak p) else insert dir (bak_dirs (svc_bak p))),
              bakStreamIdx := bakStreamIdx (svc_bak p) + 1\<rparr>"
proof -
  define s where "s = svc_bak p"
  obtain p1 where p1: "StartTransferBakFile (service_net env stack mss dlv) cl bid bname (load_u32 (cl_stack cl) 0) p =
        Inr (p1, 0, bakStreamIdx s)" "svc_bak p1 = stream_opened dir path s" "0 < svc_next p1"
    using start_service [OF assms(3-6) _ assms(9)] assms(7) unfolding s_def path_def dir_def by blast
  have "service_ready env mss dlv cl path (bakStreamIdx s) p1"
    using assms(3,5,8,9,10,13) p1(2,3)
    by (auto simp: service_ready_def stream_opened_def map_insert_def s_def)
  from doing_service [OF this assms(11,12), of stack]
  obtain p2 where p2: "DoingTransBakFile (service_net env stack mss dlv) cl bid bname (bakStreamIdx s) p1 = Inr (p2, 0)"
      "service_ready env mss dlv cl path (bakStreamIdx s) p2" "svc_bak p2 = append_chunk path (svc_bak p1) contents" by blast
  obtain p3 where p3: "FinishTransBakFile (service_net env stack mss dlv) cl (bakStreamIdx s) p2 = (p3, 0)"
      "svc_bak p3 = svc_bak p2\<lparr>bakStreamQueue := (bakStreamQueue (svc_bak p2))(bakStreamIdx s := None)\<rparr>"
    using finish_service [of mss p2 "bakStreamIdx s" dlv env stack cl] p2(2) unfolding service_ready_def by blast
  have "BackupClientStart (service_net env stack mss dlv) exec cl bid bname (p, db) =
      Inr ((p3, fst (UpdateBackupToTable exec bid bname ''yes'' db)), 0)"
    by (simp add: BackupClientStart_def p1(1) p2(1) p3(1))
  moreover have "bak_files (svc_bak p3) = (bak_files s)(path \<mapsto>
      (case bak_files s path of None \<Rightarrow> [] | Some old \<Rightarrow> old) @ contents)"
    by (auto simp: p3(2) p2(3) p1(2) append_chunk_def stream_opened_def split: option.split)
  moreover have "bakStreamQueue (svc_bak p3) = bakStreamQueue s"
    using assms(10) by (auto simp: p3(2) p2(3) p1(2) append_chunk_def stream_opened_def map_insert_def s_def)
  moreover have "bak_dirs (svc_bak p3) = (if bak_access dir s then bak_dirs s else insert dir (bak_dirs s))"
    "bakStreamIdx (svc_bak p3) = bakStreamIdx s + 1" "bakReqHandle (svc_bak p3) = bakReqHandle s"
    by (simp_all add: p3(2) p2(3) p1(2) append_chunk_def stream_opened_def)
  ultimately show ?thesis unfolding s_def by (intro exI [of _ p3]) (auto intro!: bak_state.equality)
qed

text \<open>A service and a client with one recording.\<close>

definition sample_bak_env :: bak_env where
  "sample_bak_env = \<lparr>env_backupPath = ''/bak/'', bak_mkdir_ok = \<lambda>_. True, bak_creat_ok = \<lambda>_. True,
     bak_open_ok = \<lambda>_. True, bak_write = \<lambda>_ bs. int (length bs)\<rparr>"

definition sample_bak_state :: bak_state where
  "sample_bak_state = BackupServerInit \<lparr>bakReqHandle = Map.empty, bakStreamQueue = Map.empty, bakStreamIdx = 0,
     bak_dirs = {''/bak''}, bak_files = Map.empty\<rparr>"

definition sample_svc :: svc where
  "sample_svc = \<lparr>svc_bak = sample_bak_state, svc_next = 3, svc_in = \<lambda>_. [], svc_out = \<lambda>_. []\<rparr>"

definition sample_bak_client :: bak_client where
  "sample_bak_client = \<lparr>cl_storePath = ''/rec/'', cl_backupIp = ''127.0.0.1'', cl_backup_port = 9000,
     cl_files = [''/rec/cam/a.store'' \<mapsto> replicate 5000 7], cl_read_fails = \<lambda>_. False, cl_malloc_ok = True, cl_stack = \<lambda>_. 0\<rparr>"

lemmas sample_bak_defs = sample_bak_env_def sample_bak_state_def sample_svc_def sample_bak_client_def

lemma sample_serving: "serving sample_bak_state"
  unfolding sample_bak_state_def by (rule serving_init) simp

text \<open>The first byte arrives alone, the rest of the message in one piece.\<close>

definition sample_delivery :: "byte list \<Rightarrow> byte list list" where
  "sample_delivery msg = (case msg of [] \<Rightarrow> [] | b # bs \<Rightarrow> [[b], bs])"

lemma sample_gapless: "gapless sample_delivery"
  by (auto simp: gapless_def sample_delivery_def without_pause_def split: list.split)

theorem backup_copies_recording_witness:
  "\<exists>p'. BackupClientStart (service_net sample_bak_env (\<lambda>_. 0) 20 sample_delivery) (\<lambda>db q. (Suc db, True, None)) sample_bak_client
            ''cam'' ''a.store'' (sample_svc, 0) = Inr ((p', 1), 0) \<and>
        bak_files (svc_bak p') = [''/bak/cam/a.store'' \<mapsto> replicate 5000 7]"
proof -
  have env: "backup_file sample_bak_env ''cam'' ''a.store'' = ''/bak/cam/a.store''"
      "backup_dir sample_bak_env ''cam'' = ''/bak/cam''"
    by (simp_all add: backup_file_def backup_dir_def sample_bak_env_def)
  have st: "bakStreamQueue sample_bak_state = Map.empty" "bak_files sample_bak_state = Map.empty" "bak_dirs sample_bak_state = {''/bak''}"
    by (simp_all add: sample_bak_state_def BackupServerInit_def)
  have hyps: "mss_ok 20" "0 < svc_next sample_svc" "serving (svc_bak sample_svc)" "names_ok ''cam'' ''a.store''"
      "may_create sample_bak_env ''/bak/cam'' ''/bak/cam/a.store'' (svc_bak sample_svc)" "disk_ok sample_bak_env ''/bak/cam/a.store''" "gapless sample_delivery"
      "bakStreamIdx (svc_bak sample_svc) \<notin> dom (bakStreamQueue (svc_bak sample_svc))"
      "cl_files sample_bak_client (cl_storePath sample_bak_client @ ''cam'' @ ''/'' @ ''a.store'') = Some (replicate 5000 7)"
      "cl_malloc_ok sample_bak_client" "\<forall>n. \<not> cl_read_fails sample_bak_client n"
    using sample_serving sample_gapless
    by (simp_all add: mss_ok_def READ_BUF_MAX_SIZE_def sample_svc_def st sample_bak_env_def sample_bak_client_def
        names_ok_def bak_size_defs may_create_def disk_ok_def)
  note copied = backup_copies_recording [of 20 sample_svc "''cam''" "''a.store''" sample_bak_env sample_delivery sample_bak_client
      "replicate 5000 7" "\<lambda>_. 0" "\<lambda>db q. (Suc db, True, None)" 0, unfolded env, OF hyps]
  then show ?thesis by (auto simp: sample_svc_def st UpdateBackupToTable_def run_query_def)
qed

section \<open>Failures the client does not notice\<close>

text \<open>The network of the service when the server is too slow: \<open>select\<close> times out and nothing is stored.\<close>

definition silent_net :: "bak_env \<Rightarrow> mem \<Rightarrow> int \<Rightarrow> (byte list \<Rightarrow> byte list list) \<Rightarrow> svc net" where
  "silent_net env stack mss dlv = service_net env stack mss dlv \<lparr>net_select := \<lambda>fd p. (p, 0)\<rparr>"

text \<open>(C22) \<open>DoingTransBakFile\<close> returns 0, as after a complete transfer, when no answer comes and the
  service has stored nothing: the \<open>ret\<close> that is set to -1 is a local of the loop body. So
  \<open>BackupClientStart\<close> goes on as if the recording had been copied.\<close>

theorem lost_answer_reported_as_success:
  assumes "mss_ok mss" "0 < svc_next p" "cl_malloc_ok cl" "\<forall>n. \<not> cl_read_fails cl n"
      and "cl_files cl (cl_storePath cl @ bid @ ''/'' @ bname) = Some contents" "contents \<noteq> []"
  shows "\<exists>p'. DoingTransBakFile (silent_net env stack mss dlv) cl bid bname sid p = Inr (p', 0) \<and> svc_bak p' = svc_bak p"
proof -
  have b: "1 \<le> mss" "mss * 100 < 4194304" using assms(1) by (auto simp: mss_ok_def READ_BUF_MAX_SIZE_def)
  define q where "q = p\<lparr>svc_next := svc_next p + 1, svc_in := (svc_in p)(svc_next p := []), svc_out := (svc_out p)(svc_next p := [])\<rparr>"
  have c: "ConnectBackupServer (silent_net env stack mss dlv) cl p = (q, svc_next p)"
    using assms(2) by (simp add: ConnectBackupServer_def silent_net_def q_def)
  have m: "net_mss (silent_net env stack mss dlv) (svc_next p) q = Some mss" by (simp add: silent_net_def)
  note count = chunk_count [OF assms(1)]
  define chunk where "chunk = take (chunk_limit mss) contents"
  have ch: "chunk \<noteq> []" "length chunk \<le> nat (mss * 100)"
    using assms(6) count(3,4) by (auto simp: chunk_def)
  obtain p' where p': "send_chunk (silent_net env stack mss dlv) cl sid chunk r (svc_next p) q = (p', Quit 0)"
      "svc_bak p' = svc_bak p" for r
    using assms(2) by (simp add: send_chunk_def silent_net_def q_def)
  have "send_chunks (silent_net env stack mss dlv) cl sid (chunk_limit mss) (nat (mss * 100)) contents r (svc_next p) q = Inr (p', 0)" for r
    using assms(4) ch(1) count(4) p'(1) unfolding chunk_def by (subst send_chunks.simps) (simp add: Let_def del: take_eq_Nil take_eq_Nil2)
  moreover have "\<not> (mss * 100 < - (2 ^ 31) \<or> 2 ^ 31 \<le> mss * 100)" using b by simp
  ultimately have "DoingTransBakFile (silent_net env stack mss dlv) cl bid bname sid p = Inr (p', 0)"
    unfolding DoingTransBakFile_def assms(5) c Let_def option.case prod.case m count(1,2) using assms(2,3) by simp
  with p'(2) show ?thesis by blast
qed

theorem lost_answer_reported_as_success_witness:
  "\<exists>p'. DoingTransBakFile (silent_net sample_bak_env (\<lambda>_. 0) 20 sample_delivery) sample_bak_client ''cam'' ''a.store'' 0 sample_svc = Inr (p', 0) \<and>
     bak_files (svc_bak p') = Map.empty"
proof -
  have "bak_files (svc_bak sample_svc) = Map.empty"
    by (simp add: sample_svc_def sample_bak_state_def BackupServerInit_def)
  then show ?thesis
    using lost_answer_reported_as_success [of 20 sample_svc sample_bak_client "''cam''" "''a.store''" "replicate 5000 7"
        sample_bak_env "\<lambda>_. 0" sample_delivery 0]
    by (auto simp: mss_ok_def READ_BUF_MAX_SIZE_def sample_svc_def sample_bak_client_def)
qed

text \<open>The service takes the length of a chunk from the message and never compares it with what it received: a
  chunk message of which only a first part has arrived when the server reads makes the service store bytes
  nobody has sent.\<close>

theorem partial_chunk_stores_garbage:
  assumes "bakStreamQueue s sid = Some path" "path \<in> dom (bak_files s)" "disk_ok env path"
      and "n < 2 ^ 32" "length part + 1 < n"
  shows "DoingRecvBakFile env (Some (doing_head sid n @ part @ [0])) (Some res) s = Inl Indeterminate"
proof -
  have n: "unat (word_of_nat n :: u32) = n" using assms(4) by (simp add: unat_of_nat)
  have q: "map_insert sid [] (bakStreamQueue s) = bakStreamQueue s" using assms(1) by (simp add: map_insert_def domI)
  obtain old where "bak_files s path = Some old" using assms(2) by auto
  then show ?thesis
    using assms(1,3,5) n by (simp add: DoingRecvBakFile_def doing_head_reads q disk_ok_def Let_def doing_head_size_def)
qed

theorem partial_chunk_stores_garbage_witness:
  "DoingRecvBakFile sample_bak_env (Some (doing_head 0 1000 @ [1, 2, 3] @ [0])) (Some (\<lambda>_. 0))
     (stream_opened ''/bak/cam'' ''/bak/cam/a'' sample_bak_state) = Inl Indeterminate"
  using partial_chunk_stores_garbage [of "stream_opened ''/bak/cam'' ''/bak/cam/a'' sample_bak_state" 0 "''/bak/cam/a''"
      sample_bak_env 1000 "[1, 2, 3]" "\<lambda>_. 0"]
  by (simp add: stream_opened_def sample_bak_state_def BackupServerInit_def map_insert_def disk_ok_def sample_bak_env_def)

section \<open>Schedules\<close>

definition day_seconds :: "tm \<Rightarrow> int" where
  "day_seconds t = tm_hour t * 3600 + tm_min t * 60 + tm_sec t"

definition clock_time :: "tm \<Rightarrow> bool" where
  "clock_time t \<longleftrightarrow> 0 \<le> tm_hour t \<and> tm_hour t \<le> 24 \<and> 0 \<le> tm_min t \<and> tm_min t \<le> 59 \<and> 0 \<le> tm_sec t \<and> tm_sec t \<le> 60"

lemma uint_tm_seconds: "clock_time t \<Longrightarrow> uint (tm_seconds t) = day_seconds t"
proof -
  assume "clock_time t"
  then have "0 \<le> day_seconds t" "day_seconds t < 100000" unfolding clock_time_def day_seconds_def by linarith+
  then have b: "0 \<le> day_seconds t" "day_seconds t < 2 ^ 32" by simp_all
  have "unat (tm_seconds t) = nat (day_seconds t)"
    unfolding tm_seconds_def day_seconds_def [symmetric] using b by (rule unat_u32_of_int)
  then show ?thesis using b(1) unfolding uint_nat by simp
qed

lemma in_day_schedule_iff:
  "clock_time now \<Longrightarrow> (\<forall>(a, b) \<in> set day. clock_time a \<and> clock_time b) \<Longrightarrow>
   in_day_schedule (tm_seconds now) day \<longleftrightarrow>
     (\<exists>(a, b) \<in> set day. day_seconds a \<le> day_seconds now \<and> day_seconds now \<le> day_seconds b)"
  by (induction day) (auto simp: word_le_def uint_tm_seconds)

text \<open>(C21) A backup thread starts the transfer exactly when the time of day lies in one of the intervals of
  the current day of the week, both ends included; in both cases it leaves the schedules as they were, its entry not in use.\<close>

theorem BackupScheProc_window:
  assumes "l bid = Some bs" "0 \<le> tm_wday now" "tm_wday now < int (length (bakSchedule bs))"
      and "clock_time now" "\<forall>(a, b) \<in> set (bakSchedule bs ! nat (tm_wday now)). clock_time a \<and> clock_time b"
  shows "BackupScheProc now start bid bname l w =
     (if \<exists>(a, b) \<in> set (bakSchedule bs ! nat (tm_wday now)). day_seconds a \<le> day_seconds now \<and> day_seconds now \<le> day_seconds b
      then ebind (start bid bname w) (\<lambda>(w', _). Inr (l(bid \<mapsto> bs\<lparr>is_in_use := False\<rparr>), w'))
      else Inr (l(bid \<mapsto> bs\<lparr>is_in_use := False\<rparr>), w))"
  using assms(1-3) by (simp add: BackupScheProc_def in_day_schedule_iff [OF assms(4,5)] Let_def)

theorem BackupScheProc_window_witness:
  "BackupScheProc (time_of_day 12 30 0) (\<lambda>_ _ n. Inr (Suc n, 0)) ''cam'' ''f''
     [''cam'' \<mapsto> \<lparr>bakSchedule = [[(time_of_day 12 0 0, time_of_day 12 30 0)]], is_in_use = False\<rparr>] 0 =
   Inr ([''cam'' \<mapsto> \<lparr>bakSchedule = [[(time_of_day 12 0 0, time_of_day 12 30 0)]], is_in_use = False\<rparr>], 1)"
  using BackupScheProc_window [of "[''cam'' \<mapsto> \<lparr>bakSchedule = [[(time_of_day 12 0 0, time_of_day 12 30 0)]], is_in_use = False\<rparr>]"
      "''cam''" "\<lparr>bakSchedule = [[(time_of_day 12 0 0, time_of_day 12 30 0)]], is_in_use = False\<rparr>" "time_of_day 12 30 0"
      "\<lambda>_ _ n. Inr (Suc n, 0)" "''f''" 0]
  by (simp add: time_of_day_def clock_time_def day_seconds_def)

end
