(* ===== verification/BackupRace.thy ===== *)
theory BackupRace
  imports Backup
begin
















section \<open>One thread alone\<close>



section \<open>Runs\<close>





section \<open>What the flag protects\<close>



end
