(* ===== verification/LiveStream.thy ===== *)
theory LiveStream
  imports Backup "HOL-Library.List_Lexorder" "HOL-Library.Char_ord"
begin

text \<open>
  Live streams, \<open>src/src/stream.cpp\<close>: the list of streams with the state of their threads, the thread
  that reads a stream and hands its video frames to a callback, the scheduler that starts and stops these
  threads by the recording schedule, and manual or alarm recordings, which have a thread of their own. The
  media library, the service that resolves a stream's address and the clock are parameters: a
  thread is run over the list of what it sees.
\<close>

section \<open>Data\<close>

datatype stream_state = thread_creating | thread_running | thread_stopping | thread_stopped | thread_cancel

record 'cb stream_thread =
  stream_id :: string
  stream_path :: string
  stream_cb :: 'cb
  thread_state :: stream_state
  rec_schedule :: schedule

text \<open>\<open>std::map<std::string, struct stream_thread>\<close>: the entries in the order of their keys.\<close>

type_synonym 'cb stream_list = "(string \<times> 'cb stream_thread) list"

record 'cb streams =
  streamThreadList :: "'cb stream_list"
  isThreadListUsed :: bool

fun list_insert :: "string \<Rightarrow> 'v \<Rightarrow> (string \<times> 'v) list \<Rightarrow> (string \<times> 'v) list" where
  "list_insert k v [] = [(k, v)]"
| "list_insert k v ((k', v') # l) =
     (if k < k' then (k, v) # (k', v') # l else if k = k' then (k', v') # l else (k', v') # list_insert k v l)"

definition list_set :: "string \<Rightarrow> 'v \<Rightarrow> (string \<times> 'v) list \<Rightarrow> (string \<times> 'v) list" where
  "list_set k v l = map (\<lambda>(k', v'). if k' = k then (k, v) else (k', v')) l"

section \<open>The thread of a stream\<close>

text \<open>
  What one connection to a stream yields: the results of the media library up to the first frame, and
  then the packets, each with the number of its stream, its data, and whether \<open>thread_state\<close> is
  \<open>thread_stopping\<close> at the two places where the loop looks at it.
\<close>

record av_session =
  av_alloc_ok :: bool
  av_open_input :: int
  av_find_stream_info :: int
  av_is_video :: "bool list"
  av_find_decoder_ok :: bool
  av_alloc_context3_ok :: bool
  av_codec_open :: int
  av_frame_rate :: "int \<times> int"
  av_packets :: "(nat \<times> byte list \<times> bool \<times> bool) list"

type_synonym stream_call = "string \<times> byte list \<times> nat"

text \<open>The loop over \<open>av_read_frame\<close>: the calls of the callback and the last value of \<open>isStreamStop\<close>.\<close>

fun read_frames :: "string \<Rightarrow> int \<Rightarrow> nat \<Rightarrow> (nat \<times> byte list \<times> bool \<times> bool) list \<Rightarrow> stream_call list \<times> nat" where
  "read_frames streamId video_idx isStreamStop [] = ([], isStreamStop)"
| "read_frames streamId video_idx isStreamStop ((idx, data, stop1, stop2) # pkts) =
     (let video = (int idx = video_idx);
          isStreamStop' = (if video \<and> stop1 then 1 else isStreamStop);
          calls = (if video then [(streamId, data, isStreamStop')] else [])
      in if stop2 then (calls, isStreamStop')
         else case read_frames streamId video_idx isStreamStop' pkts of (cs, st) \<Rightarrow> (calls @ cs, st))"

text \<open>The index the loop over the streams leaves: the last video stream, else the value of before.\<close>

definition find_video :: "int \<Rightarrow> bool list \<Rightarrow> int" where
  "find_video old vs = foldl (\<lambda>v i. if vs ! i then int i else v) old [0..<length vs]"

text \<open>The \<open>do\<close> block: the calls, \<open>video_idx\<close> and \<open>isStreamStop\<close>, which outlive the connection.\<close>

definition run_session :: "string \<Rightarrow> int \<Rightarrow> nat \<Rightarrow> av_session \<Rightarrow> (stream_call list \<times> int \<times> nat) res" where
  "run_session streamId video_idx isStreamStop av =
     (if \<not> av_alloc_ok av then Inr ([], video_idx, isStreamStop)
      else if av_open_input av < 0 then Inr ([], video_idx, isStreamStop)
      else if av_find_stream_info av < 0 then Inr ([], video_idx, isStreamStop)
      else let v = find_video video_idx (av_is_video av)
           in if v < 0 then Inr ([], v, isStreamStop)
              else if int (length (av_is_video av)) \<le> v then Inl OutOfBounds
              else if \<not> av_find_decoder_ok av then Inr ([], v, isStreamStop)
              else if \<not> av_alloc_context3_ok av then Inr ([], v, isStreamStop)
              else if av_codec_open av < 0 then Inr ([], v, isStreamStop)
              else if snd (av_frame_rate av) \<le> 0 \<or> fst (av_frame_rate av) \<le> 0 then Inr ([], v, isStreamStop)
              else case read_frames streamId v isStreamStop (av_packets av) of (calls, st) \<Rightarrow> Inr (calls, v, st))"

text \<open>
  One turn of the outer loop: \<open>sys_flag\<close>, the address the service returns, the connection, and
  whether \<open>thread_state\<close> is \<open>thread_stopping\<close> at the end of the turn.
\<close>

record stream_turn =
  turn_sys_flag :: bool
  turn_url :: string
  turn_av :: av_session
  turn_stopping :: bool

text \<open>The calls of the callback, and whether the thread has ended within the turns given.\<close>

fun stream_loop :: "string \<Rightarrow> int \<Rightarrow> nat \<Rightarrow> stream_turn list \<Rightarrow> (stream_call list \<times> bool) res" where
  "stream_loop streamId video_idx isStreamStop [] = Inr ([], False)"
| "stream_loop streamId video_idx isStreamStop (t # ts) =
     (if \<not> turn_sys_flag t then Inr ([], True)
      else if turn_url t = [] then stream_loop streamId video_idx isStreamStop ts
      else ebind (run_session streamId video_idx isStreamStop (turn_av t)) (\<lambda>(calls, v, st).
           if turn_stopping t then Inr (calls, True)
           else ebind (stream_loop streamId v st ts) (\<lambda>(cs, ended). Inr (calls @ cs, ended))))"

text \<open>
  \<open>StreamProc\<close>: \<open>None\<close> when the id has no \<open>'-'\<close> and the function returns with \<open>thread_state\<close> untouched; else
  the thread is running first, and stopped when the loop ends.
\<close>

definition id_ok :: "string \<Rightarrow> bool" where
  "id_ok sid \<longleftrightarrow> CHR ''-'' \<in> set sid"

definition main_id :: "string \<Rightarrow> string" where
  "main_id sid = takeWhile (\<lambda>c. c \<noteq> CHR ''-'') sid"

definition sub_id :: "string \<Rightarrow> string" where
  "sub_id sid = tl (dropWhile (\<lambda>c. c \<noteq> CHR ''-'') sid)"

definition StreamProc :: "(string \<Rightarrow> string \<Rightarrow> stream_turn list) \<Rightarrow> string \<Rightarrow> (stream_call list \<times> bool) option res" where
  "StreamProc turns sid =
     (if \<not> id_ok sid then Inr None
      else ebind (stream_loop sid (-1) 0 (turns (main_id sid) (sub_id sid))) (\<lambda>r. Inr (Some r)))"

section \<open>Starting and stopping\<close>

text \<open>
  \<open>create\<close> is the value of \<open>pthread_create\<close>, \<open>ends\<close> tells whether the thread notices \<open>thread_stopping\<close> and
  ends. Both functions wait for the thread to change \<open>thread_state\<close>.
\<close>

definition StartStreamThread :: "int \<Rightarrow> 'cb stream_thread option \<Rightarrow> 'cb stream_thread option res" where
  "StartStreamThread create tp =
     (case tp of
        None \<Rightarrow> Inr None
      | Some t \<Rightarrow>
          if thread_state t \<noteq> thread_stopped then Inr (Some t)
          else if create < 0 then Inr (Some (t\<lparr>thread_state := thread_creating\<rparr>))
          else if create \<noteq> 0 \<or> \<not> id_ok (stream_id t) then Inl NoReturn
          else Inr (Some (t\<lparr>thread_state := thread_running\<rparr>)))"

definition StopStreamThread :: "bool \<Rightarrow> 'cb stream_thread option \<Rightarrow> 'cb stream_thread option res" where
  "StopStreamThread ends tp =
     (case tp of
        None \<Rightarrow> Inr None
      | Some t \<Rightarrow>
          if thread_state t \<noteq> thread_running then Inr (Some t)
          else if \<not> ends then Inl NoReturn
          else Inr (Some (t\<lparr>thread_state := thread_stopped\<rparr>)))"

text \<open>What the scheduler sees while it handles one stream.\<close>

record sched_env =
  se_now :: "string \<Rightarrow> tm"
  se_create :: "string \<Rightarrow> int"
  se_ends :: "string \<Rightarrow> bool"

definition schedule_one :: "sched_env \<Rightarrow> string \<Rightarrow> 'cb stream_thread \<Rightarrow> 'cb stream_thread res" where
  "schedule_one env sid t =
     (if thread_state t = thread_cancel then Inr t
      else let now = se_now env sid
           in if tm_wday now < 0 \<or> int (length (rec_schedule t)) \<le> tm_wday now then Inl OutOfBounds
              else ebind (if in_day_schedule (tm_seconds now) (rec_schedule t ! nat (tm_wday now))
                          then StartStreamThread (se_create env sid) (Some t)
                          else StopStreamThread (se_ends env sid) (Some t)) (\<lambda>tp. Inr (the tp)))"

text \<open>
  One turn of \<open>StreamScheduleProc\<close>. \<open>isThreadListUsed\<close> is looked at once, before the list; it is set and
  cleared around every stream that is not cancelled.
\<close>

definition StreamScheduleProc_turn :: "sched_env \<Rightarrow> 'cb streams \<Rightarrow> 'cb streams res" where
  "StreamScheduleProc_turn env s =
     (if isThreadListUsed s then Inr s
      else ebind (emap (\<lambda>(k, t). ebind (schedule_one env k t) (\<lambda>t'. Inr (k, t'))) (streamThreadList s)) (\<lambda>l.
           Inr (s\<lparr>streamThreadList := l\<rparr>)))"

fun StreamScheduleProc :: "sched_env list \<Rightarrow> 'cb streams \<Rightarrow> 'cb streams res" where
  "StreamScheduleProc [] s = Inr s"
| "StreamScheduleProc (env # envs) s = ebind (StreamScheduleProc_turn env s) (StreamScheduleProc envs)"

section \<open>Manual and alarm recordings\<close>

text \<open>
  The loop of \<open>StreamEventProc\<close> over the seconds it sees; \<open>True\<close> when it ended by itself. Until then the
  thread of the stream uses the structure on the stack of this function.
\<close>

fun event_loop :: "int \<Rightarrow> bool \<Rightarrow> int \<Rightarrow> int \<Rightarrow> (bool \<times> int) list \<Rightarrow> 'cb stream_thread \<Rightarrow> ('cb stream_thread \<times> bool) res" where
  "event_loop create ends start_time_s end_time_s [] t = Inr (t, False)"
| "event_loop create ends start_time_s end_time_s ((sys_flag, now) # ticks) t =
     (if \<not> sys_flag then Inr (t, True)
      else if start_time_s \<le> now \<and> now \<le> end_time_s
      then ebind (StartStreamThread create (Some t)) (\<lambda>tp. event_loop create ends start_time_s end_time_s ticks (the tp))
      else if end_time_s < now then ebind (StopStreamThread ends (Some t)) (\<lambda>tp. Inr (the tp, True))
      else event_loop create ends start_time_s end_time_s ticks t)"

text \<open>\<open>StreamEventProc\<close>: \<open>None\<close> when the id is not well formed, after the caller has been released.\<close>

definition StreamEventProc ::
    "(tm \<Rightarrow> int) \<Rightarrow> (string \<Rightarrow> string \<Rightarrow> string) \<Rightarrow> int \<Rightarrow> bool \<Rightarrow> (bool \<times> int) list \<Rightarrow> 'cb stream_thread \<Rightarrow>
      ('cb stream_thread \<times> bool) option res" where
  "StreamEventProc mktime url create ends ticks arg =
     (case rec_schedule arg of
        ((startTime, endTime) # _) # _ \<Rightarrow>
          if \<not> id_ok (stream_id arg) then Inr None
          else ebind (event_loop create ends (mktime startTime) (mktime endTime) ticks
                 \<lparr>stream_id = stream_id arg, stream_path = url (main_id (stream_id arg)) (sub_id (stream_id arg)),
                  stream_cb = stream_cb arg, thread_state = thread_stopped, rec_schedule = []\<rparr>) (\<lambda>r. Inr (Some r))
      | _ \<Rightarrow> Inl OutOfBounds)"

text \<open>\<open>AddStreamEvent\<close>: the structure the new thread gets, and the value returned.\<close>

definition AddStreamEvent :: "int \<Rightarrow> string \<Rightarrow> tm \<Rightarrow> tm \<Rightarrow> 'cb \<Rightarrow> ('cb stream_thread option \<times> int) res" where
  "AddStreamEvent create streamId startTime endTime cb =
     (if create < 0 then Inr (None, -1)
      else if create \<noteq> 0 then Inl NoReturn
      else Inr (Some \<lparr>stream_id = streamId, stream_path = [], stream_cb = cb, thread_state = thread_running,
                       rec_schedule = [[(startTime, endTime)]]\<rparr>, 0))"

definition StreamInit :: "int \<Rightarrow> int" where
  "StreamInit create = (if create < 0 then -1 else 0)"

section \<open>The list of streams\<close>

text \<open>Each operation waits while the list is in use; here nobody is running who would release it.\<close>

definition AddStream ::
    "string option \<Rightarrow> schedule \<Rightarrow> 'cb option \<Rightarrow> 'cb streams \<Rightarrow> ('cb streams \<times> int \<times> store_api_error option) res" where
  "AddStream streamId schedule cbp s =
     (case (streamId, cbp) of
        (Some sid, Some cb) \<Rightarrow>
          if isThreadListUsed s then Inl NoReturn
          else (case map_of (streamThreadList s) sid of
                  Some t \<Rightarrow>
                    if thread_state t = thread_cancel
                    then Inr (s\<lparr>streamThreadList := list_set sid
                                (t\<lparr>stream_id := sid, stream_cb := cb, thread_state := thread_stopped, rec_schedule := schedule\<rparr>)
                                (streamThreadList s)\<rparr>, 0, None)
                    else Inr (s, -1, Some device_already_exist)
                | None \<Rightarrow>
                    Inr (s\<lparr>streamThreadList := list_insert sid
                             \<lparr>stream_id = sid, stream_path = [], stream_cb = cb, thread_state = thread_stopped, rec_schedule = schedule\<rparr>
                             (streamThreadList s)\<rparr>, 0, None))
      | _ \<Rightarrow> Inr (s, -1, Some func_input_null_addr))"

text \<open>\<open>DeleteStream\<close>: a thread that is not running, and one that does not notice the request, never reports
  \<open>thread_stopped\<close>.\<close>

definition DeleteStream ::
    "(string \<Rightarrow> bool) \<Rightarrow> string option \<Rightarrow> 'cb streams \<Rightarrow> ('cb streams \<times> int \<times> store_api_error option) res" where
  "DeleteStream ends streamIp s =
     (case streamIp of
        None \<Rightarrow> Inr (s, -1, None)
      | Some sid \<Rightarrow>
          if isThreadListUsed s then Inl NoReturn
          else (case map_of (streamThreadList s) sid of
                  None \<Rightarrow> Inr (s, -1, Some do_not_find_camera)
                | Some t \<Rightarrow>
                    if thread_state t = thread_cancel then Inr (s, -1, Some do_not_find_camera)
                    else if thread_state t \<noteq> thread_stopped \<and> \<not> (thread_state t = thread_running \<and> ends sid) then Inl NoReturn
                    else Inr (s\<lparr>streamThreadList := list_set sid (t\<lparr>thread_state := thread_cancel\<rparr>) (streamThreadList s)\<rparr>, 0, None)))"

definition UpdateRecodeSchedule ::
    "string \<Rightarrow> schedule \<Rightarrow> 'cb streams \<Rightarrow> ('cb streams \<times> int \<times> store_api_error option) res" where
  "UpdateRecodeSchedule streamIp schedule s =
     (if isThreadListUsed s then Inl NoReturn
      else (case map_of (streamThreadList s) streamIp of
              None \<Rightarrow> Inr (s, -1, Some do_not_find_camera)
            | Some t \<Rightarrow> Inr (s\<lparr>streamThreadList := list_set streamIp (t\<lparr>rec_schedule := schedule\<rparr>) (streamThreadList s)\<rparr>, 0, None)))"

end
