(* ===== verification/LiveStreamCorrect.thy ===== *)
theory LiveStreamCorrect
  imports LiveStream BackupCorrect
begin

text \<open>
  Properties of the live streams: the list of streams is a finite map in the order of its keys, a thread
  hands over the video packets in order and marks at most the last one as final, a scheduler turn
  leaves exactly those streams running whose schedule contains the current time, and when a thread
  that is told to stop ends.
\<close>

section \<open>The list as a map\<close>

definition keys_sorted :: "(string \<times> 'v) list \<Rightarrow> bool" where
  "keys_sorted l \<longleftrightarrow> sorted_wrt (<) (map fst l)"

lemma map_of_list_insert: "map_of l k = None \<Longrightarrow> map_of (list_insert k v l) = (map_of l)(k \<mapsto> v)"
  by (induction k v l rule: list_insert.induct) (auto split: if_splits)

lemma set_keys_list_insert: "set (map fst (list_insert k v l)) = insert k (set (map fst l))"
  by (induction k v l rule: list_insert.induct) auto

lemma keys_sorted_list_insert: "keys_sorted l \<Longrightarrow> keys_sorted (list_insert k v l)"
  unfolding keys_sorted_def
proof (induction k v l rule: list_insert.induct)
  case (2 k v k' v' l)
  then have s: "sorted_wrt (<) (map fst l)" "\<forall>x \<in> set (map fst l). k' < x" by auto
  consider "k < k'" | "k = k'" | "k' < k" by fastforce
  then show ?case
  proof cases
    case 1
    then show ?thesis using s by (auto intro: less_trans)
  next
    case 2
    then show ?thesis using s by auto
  next
    case 3
    then have "sorted_wrt (<) (map fst (list_insert k v l))" using 2 s by auto
    moreover have "\<forall>x \<in> set (map fst (list_insert k v l)). k' < x"
      using 3 s(2) unfolding set_keys_list_insert by simp
    ultimately show ?thesis using 3 by auto
  qed
qed simp

lemma map_of_list_set: "map_of l k \<noteq> None \<Longrightarrow> map_of (list_set k v l) = (map_of l)(k \<mapsto> v)"
proof -
  have eq: "map_of (list_set k v l) x = (if x = k then (if map_of l k = None then None else Some v) else map_of l x)" for x
    by (induction l) (auto simp: list_set_def)
  assume "map_of l k \<noteq> None"
  then show ?thesis by (auto simp: eq)
qed

lemma map_fst_list_set [simp]: "map fst (list_set k v l) = map fst l"
  by (induction l) (auto simp: list_set_def)

lemma keys_sorted_list_set [simp]: "keys_sorted (list_set k v l) = keys_sorted l"
  by (simp add: keys_sorted_def)

definition streams_ok :: "'cb streams \<Rightarrow> bool" where
  "streams_ok s \<longleftrightarrow> keys_sorted (streamThreadList s) \<and> \<not> isThreadListUsed s"

text \<open>A stream is present when it is in the list and not cancelled.\<close>

definition stream_present :: "'cb streams \<Rightarrow> string \<Rightarrow> bool" where
  "stream_present s k \<longleftrightarrow> (\<exists>t. map_of (streamThreadList s) k = Some t \<and> thread_state t \<noteq> thread_cancel)"

lemma AddStream_new:
  assumes "streams_ok s" "\<not> stream_present s k"
  shows "\<exists>s'. AddStream (Some k) sched (Some cb) s = Inr (s', 0, None) \<and> streams_ok s' \<and>
           stream_present s' = (stream_present s)(k := True)"
proof (cases "map_of (streamThreadList s) k")
  case None
  then show ?thesis using assms(1)
    by (auto simp: AddStream_def streams_ok_def keys_sorted_list_insert stream_present_def map_of_list_insert fun_eq_iff)
next
  case (Some t)
  then have "thread_state t = thread_cancel" using assms(2) by (simp add: stream_present_def)
  with Some show ?thesis using assms(1)
    by (auto simp: AddStream_def streams_ok_def stream_present_def map_of_list_set fun_eq_iff)
qed

lemma AddStream_present:
  "streams_ok s \<Longrightarrow> stream_present s k \<Longrightarrow> AddStream (Some k) sched (Some cb) s = Inr (s, -1, Some device_already_exist)"
  by (auto simp: AddStream_def streams_ok_def stream_present_def)

definition stream_idle :: "(string \<Rightarrow> bool) \<Rightarrow> 'cb streams \<Rightarrow> string \<Rightarrow> bool" where
  "stream_idle ends s k \<longleftrightarrow> (\<forall>t. map_of (streamThreadList s) k = Some t \<longrightarrow>
     thread_state t = thread_stopped \<or> thread_state t = thread_cancel \<or> thread_state t = thread_running \<and> ends k)"

lemma DeleteStream_present:
  assumes "streams_ok s" "stream_present s k" "stream_idle ends s k"
  shows "\<exists>s'. DeleteStream ends (Some k) s = Inr (s', 0, None) \<and> streams_ok s' \<and>
           stream_present s' = (stream_present s)(k := False)"
proof -
  obtain t where t: "map_of (streamThreadList s) k = Some t" "thread_state t \<noteq> thread_cancel"
    using assms(2) by (auto simp: stream_present_def)
  then show ?thesis using assms(1,3)
    by (auto simp: DeleteStream_def streams_ok_def stream_idle_def stream_present_def map_of_list_set fun_eq_iff)
qed

section \<open>A registry of devices\<close>

text \<open>
  The contract the start-up code and the HTTP interface rely on for each of the three lists a camera is entered in
  (recording devices, streams, backup schedules): an entry can be added once, and removed.
\<close>

locale registry =
  fixes add :: "string \<Rightarrow> 'v \<Rightarrow> 's \<Rightarrow> ('s \<times> int \<times> store_api_error option) res"
    and remove :: "string \<Rightarrow> 's \<Rightarrow> ('s \<times> int \<times> store_api_error option) res"
    and inv :: "'s \<Rightarrow> bool" and present :: "'s \<Rightarrow> string \<Rightarrow> bool" and idle :: "'s \<Rightarrow> string \<Rightarrow> bool"
    and acceptable :: "'v \<Rightarrow> bool"
  assumes add_new: "inv s \<Longrightarrow> \<not> present s k \<Longrightarrow> acceptable v \<Longrightarrow>
      \<exists>s'. add k v s = Inr (s', 0, None) \<and> inv s' \<and> present s' = (present s)(k := True)"
    and add_again: "inv s \<Longrightarrow> present s k \<Longrightarrow> acceptable v \<Longrightarrow> add k v s = Inr (s, -1, Some device_already_exist)"
    and remove_idle: "inv s \<Longrightarrow> present s k \<Longrightarrow> idle s k \<Longrightarrow>
      \<exists>s' e. remove k s = Inr (s', 0, e) \<and> inv s' \<and> present s' = (present s)(k := False)"
begin

lemma add_all:
  "inv s \<Longrightarrow> distinct (map fst kvs) \<Longrightarrow> (\<forall>(k, v) \<in> set kvs. \<not> present s k \<and> acceptable v) \<Longrightarrow>
   \<exists>s'. efold (\<lambda>(k, v) s. ebind (add k v s) (\<lambda>r. Inr (fst r))) kvs s = Inr s' \<and> inv s' \<and>
        present s' = (\<lambda>k. present s k \<or> k \<in> fst ` set kvs)"
proof (induction kvs arbitrary: s)
  case (Cons kv kvs)
  obtain k v where kv: "kv = (k, v)" by (cases kv)
  then obtain s1 where s1: "add k v s = Inr (s1, 0, None)" "inv s1" "present s1 = (present s)(k := True)"
    using add_new [of s k v] Cons.prems by auto
  have "\<forall>(k', v') \<in> set kvs. \<not> present s1 k' \<and> acceptable v'"
    using Cons.prems kv s1(3) by (force simp: image_iff)
  with Cons.IH [OF s1(2)] Cons.prems(2) obtain s' where
    "efold (\<lambda>(k, v) s. ebind (add k v s) (\<lambda>r. Inr (fst r))) kvs s1 = Inr s'" "inv s'"
    "present s' = (\<lambda>k. present s1 k \<or> k \<in> fst ` set kvs)" by auto
  with s1 kv show ?case by (auto intro!: ext)
qed simp

lemma add_remove:
  assumes "inv s" "\<not> present s k" "acceptable v" "\<And>s'. inv s' \<Longrightarrow> add k v s = Inr (s', 0, None) \<Longrightarrow> idle s' k"
  shows "\<exists>s1 s2 e. add k v s = Inr (s1, 0, None) \<and> remove k s1 = Inr (s2, 0, e) \<and> inv s2 \<and> present s2 = present s"
proof -
  obtain s1 where s1: "add k v s = Inr (s1, 0, None)" "inv s1" "present s1 = (present s)(k := True)"
    using add_new [OF assms(1-3)] by auto
  have "present s1 k" using s1(3) by simp
  from remove_idle [OF s1(2) this assms(4) [OF s1(2,1)]] obtain s2 e where
    s2: "remove k s1 = Inr (s2, 0, e)" "inv s2" "present s2 = (present s1)(k := False)" by auto
  have "present s2 = present s" using s1(3) s2(3) assms(2) by (auto simp: fun_eq_iff)
  with s1(1) s2(1,2) show ?thesis by blast
qed

end

interpretation stream_registry: registry "\<lambda>k (sched, cb). AddStream (Some k) sched (Some cb)" "\<lambda>k. DeleteStream ends (Some k)"
    streams_ok stream_present "stream_idle ends" "\<lambda>_. True"
  for ends
proof (unfold_locales, goal_cases)
  case (1 s k v)
  then show ?case by (cases v) (simp add: AddStream_new)
next
  case (2 s k v)
  then show ?case by (cases v) (simp add: AddStream_present)
next
  case (3 s k)
  from DeleteStream_present [OF this] show ?case by blast
qed

text \<open>The schedules of the backup are the second provider.\<close>

definition bak_present :: "bak_schedules \<Rightarrow> string \<Rightarrow> bool" where
  "bak_present l k \<longleftrightarrow> l k \<noteq> None"

definition bak_idle :: "bak_schedules \<Rightarrow> string \<Rightarrow> bool" where
  "bak_idle l k \<longleftrightarrow> (\<forall>bs. l k = Some bs \<longrightarrow> \<not> is_in_use bs)"

interpretation bak_registry: registry "\<lambda>k v l. Inr (AddBakSchedule k v l)"
    "\<lambda>k l. ebind (RemoveBakSchedule k l) (\<lambda>(l', r). Inr (l', r, None))" "\<lambda>_. True" bak_present bak_idle "\<lambda>_. True"
proof (unfold_locales, goal_cases)
  case (1 l k v)
  then show ?case by (auto simp: AddBakSchedule_def bak_present_def) (simp add: bak_present_def fun_eq_iff)
next
  case (3 l k)
  then obtain bs where "l k = Some bs" "\<not> is_in_use bs" by (auto simp: bak_present_def bak_idle_def)
  then show ?case by (auto simp: RemoveBakSchedule_def) (simp add: bak_present_def fun_eq_iff)
qed (auto simp: AddBakSchedule_def bak_present_def)

section \<open>What the callback gets\<close>

text \<open>The packets the loop looks at: up to the first at which a stop is noticed.\<close>

fun seen :: "('a \<times> 'b \<times> bool \<times> bool) list \<Rightarrow> ('a \<times> 'b \<times> bool \<times> bool) list" where
  "seen [] = []"
| "seen ((i, d, s1, s2) # ps) = (i, d, s1, s2) # (if s2 then [] else seen ps)"

definition video_data :: "int \<Rightarrow> (nat \<times> byte list \<times> bool \<times> bool) list \<Rightarrow> byte list list" where
  "video_data v ps = map (\<lambda>(i, d, s1, s2). d) (filter (\<lambda>(i, d, s1, s2). int i = v) ps)"

lemma read_frames_data: "map (fst \<circ> snd) (fst (read_frames sid v st ps)) = video_data v (seen ps)"
  by (induction sid v st ps rule: read_frames.induct) (auto simp: video_data_def Let_def split: prod.splits)

lemma read_frames_id: "c \<in> set (fst (read_frames sid v st ps)) \<Longrightarrow> fst c = sid"
  by (induction sid v st ps rule: read_frames.induct) (auto simp: Let_def split: prod.splits if_splits)

lemma read_frames_flags:
  "(\<forall>(i, d, s1, s2) \<in> set ps. s1 \<longrightarrow> s2) \<Longrightarrow>
   \<forall>c \<in> set (butlast (fst (read_frames sid v 0 ps))). snd (snd c) = 0"
proof (induction ps)
  case (Cons p ps)
  obtain i d s1 s2 where p: "p = (i, d, s1, s2)" by (cases p)
  show ?case
  proof (cases s2)
    case True
    then show ?thesis by (simp add: p Let_def)
  next
    case False
    then have "\<not> s1" using Cons.prems p by auto
    with False Cons show ?thesis by (auto simp: p Let_def split: prod.splits dest: in_set_butlastD)
  qed
qed simp

text \<open>The callback of a connection gets the data of the video packets, all of them and in the order in which they
  arrive, up to the packet at which a stop is noticed; and since nobody takes a stop request back, only the
  last call can carry the flag that ends the recording.\<close>

theorem video_frames_in_order:
  assumes "\<forall>(i, d, s1, s2) \<in> set ps. s1 \<longrightarrow> s2"
  shows "map (fst \<circ> snd) (fst (read_frames sid v 0 ps)) = video_data v (seen ps) \<and>
         (\<forall>c \<in> set (butlast (fst (read_frames sid v 0 ps))). snd (snd c) = 0)"
  using read_frames_data read_frames_flags [OF assms] by blast

theorem video_frames_in_order_witness:
  "map (fst \<circ> snd) (fst (read_frames ''a-b'' 1 0 [(1, [7], False, False), (0, [9], False, False), (1, [8], True, True), (1, [6], True, True)])) =
     [[7], [8]]"
  using video_frames_in_order [of "[(1, [7], False, False), (0, [9], False, False), (1, [8], True, True), (1, [6], True, True)]" "''a-b''" 1]
  by (simp add: video_data_def)

text \<open>A stop that is noticed on a packet of another stream, or that finds the connection lost, ends the thread without
  a final call: no call carries the flag, so the frames that are still in the buffer are not written to a file.\<close>

theorem stop_without_final_frame:
  assumes "\<forall>(i, d, s1, s2) \<in> set (av_packets av). int i = find_video v (av_is_video av) \<longrightarrow> \<not> s1"
      and "run_session sid v 0 av = Inr (calls, v', st)"
  shows "\<forall>c \<in> set calls. snd (snd c) = 0"
proof -
  have f: "(\<forall>(i, d, s1, s2) \<in> set ps. int i = w \<longrightarrow> \<not> s1) \<Longrightarrow> \<forall>c \<in> set (fst (read_frames sid w 0 ps)). snd (snd c) = 0" for w ps
    by (induction ps) (auto simp: Let_def split: prod.splits)
  show ?thesis
    using f [OF assms(1)] assms(2) by (auto simp: run_session_def Let_def split: if_splits prod.splits)
qed

definition sample_session :: av_session where
  "sample_session = \<lparr>av_alloc_ok = True, av_open_input = 0, av_find_stream_info = 0, av_is_video = [False, True],
     av_find_decoder_ok = True, av_alloc_context3_ok = True, av_codec_open = 0, av_frame_rate = (25, 1),
     av_packets = [(1, [7], False, False), (0, [9], True, True), (1, [8], True, True)]\<rparr>"

theorem stop_without_final_frame_witness:
  "run_session ''a-b'' (-1) 0 (sample_session\<lparr>av_packets := [(1, [7], False, False), (0, [9], True, True)]\<rparr>) = Inr ([(''a-b'', [7], 0)], 1, 0) \<and>
   snd (snd (''a-b'', [7 :: byte], 0 :: nat)) = 0"
proof -
  let ?av = "sample_session\<lparr>av_packets := [(1, [7], False, False), (0, [9], True, True)]\<rparr>"
  have v: "find_video (-1) (av_is_video ?av) = 1" by (simp add: find_video_def sample_session_def)
  have r: "run_session ''a-b'' (-1) 0 ?av = Inr ([(''a-b'', [7], 0)], 1, 0)"
    by code_simp
  have "\<forall>(i, d, s1, s2) \<in> set (av_packets ?av). int i = find_video (-1) (av_is_video ?av) \<longrightarrow> \<not> s1"
    unfolding v by simp
  from stop_without_final_frame [OF this r] r show ?thesis by simp
qed

text \<open>\<open>video_idx\<close> is not reset between connections: a stream that comes back with fewer streams than the old
  index, none of them video, is indexed beyond its end.\<close>

theorem stale_video_index_overruns:
  assumes "av_alloc_ok av" "0 \<le> av_open_input av" "0 \<le> av_find_stream_info av"
      and "\<forall>b \<in> set (av_is_video av). \<not> b" "int (length (av_is_video av)) \<le> v"
  shows "run_session sid v st av = Inl OutOfBounds"
proof -
  have nv: "\<not> av_is_video av ! i" if "i < length (av_is_video av)" for i
    using assms(4) nth_mem [OF that] by blast
  have "n \<le> length (av_is_video av) \<Longrightarrow> foldl (\<lambda>v i. if av_is_video av ! i then int i else v) v [0..<n] = v" for n
    by (induction n) (simp_all add: nv)
  then have "find_video v (av_is_video av) = v" unfolding find_video_def by simp
  with assms show ?thesis by (simp add: run_session_def Let_def)
qed

theorem stale_video_index_overruns_witness:
  "run_session ''a-b'' 1 0 (sample_session\<lparr>av_is_video := [False]\<rparr>) = Inl OutOfBounds"
  using stale_video_index_overruns [of "sample_session\<lparr>av_is_video := [False]\<rparr>" 1 "''a-b''" 0]
  by (simp add: sample_session_def)

section \<open>The scheduler\<close>

definition in_window :: "schedule \<Rightarrow> tm \<Rightarrow> bool" where
  "in_window sched now \<longleftrightarrow> (\<exists>(a, b) \<in> set (sched ! nat (tm_wday now)). day_seconds a \<le> day_seconds now \<and> day_seconds now \<le> day_seconds b)"

definition week_times_ok :: "schedule \<Rightarrow> bool" where
  "week_times_ok sched \<longleftrightarrow> length sched = 7 \<and> (\<forall>day \<in> set sched. \<forall>(a, b) \<in> set day. clock_time a \<and> clock_time b)"

definition now_ok :: "tm \<Rightarrow> bool" where
  "now_ok now \<longleftrightarrow> clock_time now \<and> 0 \<le> tm_wday now \<and> tm_wday now \<le> 6"

lemma in_day_schedule_week:
  assumes "week_times_ok sched" "now_ok now"
  shows "in_day_schedule (tm_seconds now) (sched ! nat (tm_wday now)) \<longleftrightarrow> in_window sched now"
proof -
  have "sched ! nat (tm_wday now) \<in> set sched" using assms by (auto simp: week_times_ok_def now_ok_def)
  then have "\<forall>(a, b) \<in> set (sched ! nat (tm_wday now)). clock_time a \<and> clock_time b"
    using assms(1) by (auto simp: week_times_ok_def)
  with assms(2) show ?thesis unfolding in_window_def by (intro in_day_schedule_iff) (simp_all add: now_ok_def)
qed

text \<open>A stream between two turns of the scheduler, in a system where threads start and stop when asked to.\<close>

definition steady :: "sched_env \<Rightarrow> string \<Rightarrow> 'cb stream_thread \<Rightarrow> bool" where
  "steady env k t \<longleftrightarrow> thread_state t \<in> {thread_stopped, thread_running, thread_cancel} \<and> week_times_ok (rec_schedule t) \<and>
     id_ok (stream_id t) \<and> now_ok (se_now env k) \<and> se_create env k = 0 \<and> se_ends env k"

definition scheduled :: "sched_env \<Rightarrow> string \<Rightarrow> 'cb stream_thread \<Rightarrow> 'cb stream_thread" where
  "scheduled env k t = (if thread_state t = thread_cancel then t
     else t\<lparr>thread_state := if in_window (rec_schedule t) (se_now env k) then thread_running else thread_stopped\<rparr>)"

lemma schedule_one_steady: "steady env k t \<Longrightarrow> schedule_one env k t = Inr (scheduled env k t)"
proof -
  assume s: "steady env k t"
  then have w: "week_times_ok (rec_schedule t)" "now_ok (se_now env k)" by (simp_all add: steady_def)
  have b: "\<not> (tm_wday (se_now env k) < 0 \<or> int (length (rec_schedule t)) \<le> tm_wday (se_now env k))"
    using w by (auto simp: week_times_ok_def now_ok_def)
  show ?thesis
    unfolding schedule_one_def Let_def in_day_schedule_week [OF w] using s b
    by (auto simp: steady_def scheduled_def StartStreamThread_def StopStreamThread_def)
qed

text \<open>(C27) One turn of the scheduler, on streams with well-formed ids and schedules whose threads start and stop when
  asked to, ends and leaves every stream that is not cancelled running exactly when the current time lies in an interval of
  its schedule for the current day, and stopped otherwise; cancelled streams and the order of the list are untouched.\<close>

theorem scheduler_turn_runs_scheduled:
  assumes "\<not> isThreadListUsed s" "\<forall>(k, t) \<in> set (streamThreadList s). steady env k t"
  shows "StreamScheduleProc_turn env s =
           Inr (s\<lparr>streamThreadList := map (\<lambda>(k, t). (k, scheduled env k t)) (streamThreadList s)\<rparr>)"
proof -
  have "emap (\<lambda>(k, t). ebind (schedule_one env k t) (\<lambda>t'. Inr (k, t'))) l = Inr (map (\<lambda>(k, t). (k, scheduled env k t)) l)"
    if "\<forall>(k, t) \<in> set l. steady env k t" for l
    using that by (induction l) (auto simp: schedule_one_steady)
  from this [OF assms(2)] show ?thesis using assms(1) by (simp add: StreamScheduleProc_turn_def)
qed

definition sample_stream_week :: schedule where
  "sample_stream_week = replicate 7 [(time_of_day 8 0 0, time_of_day 20 0 0)]"

definition sample_streams :: "unit streams" where
  "sample_streams = \<lparr>streamThreadList = [(''a-1'', \<lparr>stream_id = ''a-1'', stream_path = [], stream_cb = (),
     thread_state = thread_stopped, rec_schedule = sample_stream_week\<rparr>)], isThreadListUsed = False\<rparr>"

definition noon :: sched_env where
  "noon = \<lparr>se_now = \<lambda>_. time_of_day 12 0 0, se_create = \<lambda>_. 0, se_ends = \<lambda>_. True\<rparr>"

lemmas sample_stream_defs = sample_stream_week_def sample_streams_def noon_def

lemma sample_steady: "\<forall>(k, t) \<in> set (streamThreadList sample_streams). steady noon k t"
  by (simp add: sample_stream_defs steady_def week_times_ok_def id_ok_def now_ok_def clock_time_def time_of_day_def)

theorem scheduler_turn_runs_scheduled_witness:
  "\<exists>s. StreamScheduleProc_turn noon sample_streams = Inr s \<and> map (thread_state \<circ> snd) (streamThreadList s) = [thread_running]"
  using scheduler_turn_runs_scheduled [OF _ sample_steady]
  by (simp add: sample_stream_defs scheduled_def in_window_def day_seconds_def time_of_day_def)

lemma schedule_one_no_dash:
  assumes "\<not> id_ok (stream_id t)" "thread_state t = thread_stopped" "week_times_ok (rec_schedule t)" "now_ok (se_now env k)"
      and "in_window (rec_schedule t) (se_now env k)" "0 \<le> se_create env k"
  shows "schedule_one env k t = Inl NoReturn"
proof -
  have b: "\<not> (tm_wday (se_now env k) < 0 \<or> int (length (rec_schedule t)) \<le> tm_wday (se_now env k))"
    using assms(3,4) by (auto simp: week_times_ok_def now_ok_def)
  show ?thesis
    unfolding schedule_one_def Let_def in_day_schedule_week [OF assms(3,4)] using assms(1,2,5,6) b
    by (simp add: StartStreamThread_def)
qed

text \<open>A stream whose id has no dash stops the whole scheduler: the thread that is started for it returns at
  once and leaves \<open>thread_creating\<close>, for whose end the scheduler waits; \<open>isThreadListUsed\<close> stays set, so that
  from then on no stream can be added, deleted or changed.\<close>

theorem id_without_dash_blocks_scheduler:
  assumes "\<not> id_ok (stream_id t)" "thread_state t = thread_stopped" "week_times_ok (rec_schedule t)" "now_ok (se_now env k)"
      and "in_window (rec_schedule t) (se_now env k)" "0 \<le> se_create env k"
      and "streamThreadList s = before @ (k, t) # rest" "\<not> isThreadListUsed s"
      and "\<forall>(k, t) \<in> set before. steady env k t"
  shows "StreamScheduleProc_turn env s = Inl NoReturn \<and>
         AddStream (Some j) sched (Some cb) (s\<lparr>isThreadListUsed := True\<rparr>) = Inl NoReturn"
proof -
  have "emap (\<lambda>(k, t). ebind (schedule_one env k t) (\<lambda>t'. Inr (k, t'))) (before @ (k, t) # rest) = Inl NoReturn"
    using schedule_one_no_dash [OF assms(1-6)] assms(9) by (induction before) (auto simp: schedule_one_steady)
  then show ?thesis using assms(7,8) by (simp add: StreamScheduleProc_turn_def AddStream_def)
qed

theorem id_without_dash_blocks_scheduler_witness:
  "StreamScheduleProc_turn noon (sample_streams\<lparr>streamThreadList := [(''a'', \<lparr>stream_id = ''a'', stream_path = [], stream_cb = (),
     thread_state = thread_stopped, rec_schedule = sample_stream_week\<rparr>)]\<rparr>) = Inl NoReturn"
proof -
  let ?t = "\<lparr>stream_id = ''a'', stream_path = [], stream_cb = (), thread_state = thread_stopped, rec_schedule = sample_stream_week\<rparr>"
  have "week_times_ok sample_stream_week" "now_ok (se_now noon ''a'')" "in_window sample_stream_week (se_now noon ''a'')"
    by (simp_all add: sample_stream_defs week_times_ok_def now_ok_def in_window_def clock_time_def day_seconds_def time_of_day_def)
  then show ?thesis
    using id_without_dash_blocks_scheduler [of ?t noon "''a''" "sample_streams\<lparr>streamThreadList := [(''a'', ?t)]\<rparr>" "[]" "[]" "''b''" "[]" "()"]
    by (simp add: sample_streams_def noon_def id_ok_def)
qed

section \<open>When a thread ends\<close>

definition turn_ends :: "stream_turn \<Rightarrow> bool" where
  "turn_ends t \<longleftrightarrow> \<not> turn_sys_flag t \<or> turn_url t \<noteq> [] \<and> turn_stopping t"

text \<open>(C28) A thread that does not fault ends exactly when one of its turns finds the system stopping, or finds the stop request
  after a connection to a resolved address. While the address cannot be resolved the request is not looked at: the
  thread, and with it \<open>StopStreamThread\<close> or \<open>DeleteStream\<close> that wait for it, go on for ever.\<close>

theorem stream_thread_ends_iff:
  assumes "stream_loop sid v st turns = Inr (calls, ended)"
  shows "ended \<longleftrightarrow> (\<exists>t \<in> set turns. turn_ends t)"
  using assms
proof (induction turns arbitrary: v st calls)
  case (Cons t ts)
  then show ?case
    by (auto simp: turn_ends_def ebind_eq_Inr split: if_splits) blast+
qed simp

theorem stream_thread_ends_iff_witness:
  "stream_loop ''a-b'' (-1) 0 [\<lparr>turn_sys_flag = True, turn_url = [], turn_av = sample_session, turn_stopping = True\<rparr>] = Inr ([], False) \<and>
   \<not> (\<exists>t \<in> set [\<lparr>turn_sys_flag = True, turn_url = [], turn_av = sample_session, turn_stopping = True\<rparr>]. turn_ends t)"
  using stream_thread_ends_iff [of "''a-b''" "-1" 0 "[\<lparr>turn_sys_flag = True, turn_url = [], turn_av = sample_session, turn_stopping = True\<rparr>]" "[]" False]
  by simp

section \<open>Timed recordings\<close>

text \<open>(C29) The thread of a manual or alarm recording has its stream running from the first second it sees in the
  interval; when it sees a second after the interval it ends, the stream stopped.\<close>

theorem event_recording_follows_interval:
  assumes "id_ok (stream_id t)" "thread_state t \<in> {thread_stopped, thread_running}" "\<forall>(f, n) \<in> set ticks. f"
  shows "event_loop 0 True a b ticks t =
     Inr (if \<exists>(f, n) \<in> set ticks. b < n then (t\<lparr>thread_state := thread_stopped\<rparr>, True)
          else if \<exists>(f, n) \<in> set ticks. a \<le> n \<and> n \<le> b then (t\<lparr>thread_state := thread_running\<rparr>, False)
          else (t, False))"
  using assms
proof (induction ticks arbitrary: t)
  case (Cons tick ticks)
  obtain n where tick: "tick = (True, n)" using Cons.prems(3) by (cases tick) auto
  have upd: "t\<lparr>thread_state := thread_running\<rparr>\<lparr>thread_state := x\<rparr> = t\<lparr>thread_state := x\<rparr>" for x by simp
  consider "a \<le> n \<and> n \<le> b" | "\<not> (a \<le> n \<and> n \<le> b)" "b < n" | "\<not> (a \<le> n \<and> n \<le> b)" "\<not> b < n" by blast
  then show ?case
  proof cases
    case 1
    have "StartStreamThread 0 (Some t) = Inr (Some (t\<lparr>thread_state := thread_running\<rparr>))"
      using Cons.prems(1,2) by (auto simp: StartStreamThread_def)
    with 1 Cons.IH [of "t\<lparr>thread_state := thread_running\<rparr>"] Cons.prems show ?thesis by (auto simp: tick)
  next
    case 2
    have "StopStreamThread True (Some t) = Inr (Some (t\<lparr>thread_state := thread_stopped\<rparr>))"
      using Cons.prems(2) by (auto simp: StopStreamThread_def)
    with 2 show ?thesis by (auto simp: tick)
  next
    case 3
    with Cons show ?thesis by (auto simp: tick)
  qed
qed simp

theorem event_recording_follows_interval_witness:
  "event_loop 0 True 10 20 [(True, 9), (True, 10), (True, 21)]
     \<lparr>stream_id = ''a-1'', stream_path = [], stream_cb = (), thread_state = thread_stopped, rec_schedule = []\<rparr> =
   Inr (\<lparr>stream_id = ''a-1'', stream_path = [], stream_cb = (), thread_state = thread_stopped, rec_schedule = []\<rparr>, True)"
  using event_recording_follows_interval [of "\<lparr>stream_id = ''a-1'', stream_path = [], stream_cb = (), thread_state = thread_stopped, rec_schedule = []\<rparr>"
      "[(True, 9), (True, 10), (True, 21)]" 10 20]
  by (simp add: id_ok_def)

end
