(* ===== verification/Service.thy ===== *)
theory Service
  imports StoreProps LiveStreamCorrect
begin

text \<open>
  The service as a whole: its state (the lists of the components, the cameras that are known, the database,
  the network), the callbacks that connect streams, buffers, database and backup, the start-up in
  \<open>src/src/main.cpp\<close>, and the thread of \<open>src/src/monitor.cpp\<close> that deletes the oldest recordings.
\<close>

section \<open>State\<close>

text \<open>
  \<open>error_no\<close> and \<open>other_error\<close> are globals that the handlers of requests read. \<open>other_error\<close> is assigned in \<open>mysql.cpp\<close> only, always the
  pointer to the error text of the connection, so what is behind it is a function of the database, which includes the connection.
  The start-up and the monitor never read either of them.

  The function pointers that are handed to the streams.\<close>

datatype stream_fn = StorePlannedStream | StoreManualStream | StoreAlarmStream

record ('db, 'p) service =
  sv_store :: store_state
  sv_streams :: "stream_fn streams"
  sv_events :: "stream_fn stream_thread list"     \<comment> \<open>the timed recordings that were started\<close>
  sv_bak :: bak_schedules
  sv_db :: 'db
  sv_peer :: 'p
  cameraInfoList :: "camera_info list"
  error_no :: store_api_error
  sv_unlinked :: "string list"                    \<comment> \<open>files that were removed\<close>
  sv_converted :: "(string \<times> int list) list"     \<comment> \<open>recordings converted to MP4, with the time stamps written\<close>

record ('db, 'p) service_env =
  en_exec :: "'db server"
  en_db_error :: "'db \<Rightarrow> string"            \<comment> \<open>\<open>mysql_error\<close>, the error text of the connection\<close>
  en_error_set :: "'db \<Rightarrow> bool"             \<comment> \<open>\<open>other_error\<close> is no null pointer any more\<close>
  en_store :: store_env
  en_create :: int                         \<comment> \<open>\<open>pthread_create\<close>\<close>
  en_ends :: "string \<Rightarrow> bool"              \<comment> \<open>whether the thread of a stream notices a stop\<close>
  en_mktime :: "tm \<Rightarrow> int"
  en_garbage :: "int \<times> int"                \<comment> \<open>the uninitialised flags of \<open>QueryInfoByDate\<close>\<close>
  en_net :: "'p net"
  en_client :: bak_client
  en_unlink_ok :: "string \<Rightarrow> bool"
  en_config :: config

section \<open>Callbacks\<close>

definition type_of_fn :: "stream_fn \<Rightarrow> string" where
  "type_of_fn f = (case f of StorePlannedStream \<Rightarrow> RECODE_TYPE_PLANNED | StoreManualStream \<Rightarrow> RECODE_TYPE_MANUAL
     | StoreAlarmStream \<Rightarrow> RECODE_TYPE_ALARM)"

definition call_stream_fn ::
    "store_env \<Rightarrow> stream_fn \<Rightarrow> string option \<Rightarrow> byte list option \<Rightarrow> nat \<Rightarrow> store_state \<Rightarrow> store_state res" where
  "call_stream_fn env f streamIp data flag st =
     (case (streamIp, data) of
        (Some devIp, Some frame) \<Rightarrow>
          ebind (WriteFrameToBuf env devIp (type_of_fn f) frame (flag \<noteq> 0) st) (\<lambda>(st', _). Inr st')
      | _ \<Rightarrow> Inr st)"

definition RECODE_FILE_STATUS_LOCK :: string where "RECODE_FILE_STATUS_LOCK = ''lock''"
definition RECODE_FILE_STATUS_UNLOCK :: string where "RECODE_FILE_STATUS_UNLOCK = ''unlock''"

text \<open>\<open>StoreFileInfo\<close>: the recording is entered in the table of its camera, and a backup thread is started for it. A null
  \<open>type\<close> is not looked at before it is copied.\<close>

definition StoreFileInfo ::
    "'db server \<Rightarrow> int \<Rightarrow> string option \<Rightarrow> int \<Rightarrow> string option \<Rightarrow> string option \<Rightarrow> 'db \<Rightarrow> ('db \<times> (string \<times> string) option) res" where
  "StoreFileInfo exec create cameraIp startTime type name db =
     (case (cameraIp, name) of
        (Some deviceIp, Some fileName) \<Rightarrow>
          (case type of
             None \<Rightarrow> Inl NullDeref
           | Some recode_type \<Rightarrow>
               (let db' = fst (InsertInfoToTable exec deviceIp startTime recode_type fileName RECODE_FILE_STATUS_UNLOCK db)
                in ebind (BackupScheHandl create) (\<lambda>r. Inr (db', if r < 0 then None else Some (deviceIp, fileName)))))
      | _ \<Rightarrow> Inr (db, None))"

text \<open>\<open>operator[]\<close> of the copy of an entry: a missing key reads as the empty string.\<close>

definition info_field :: "camera_info \<Rightarrow> string \<Rightarrow> string" where
  "info_field ci key = (case ci key of None \<Rightarrow> [] | Some v \<Rightarrow> v)"

fun DeleteCameraInfoInList :: "string \<Rightarrow> camera_info list \<Rightarrow> camera_info list" where
  "DeleteCameraInfoInList camera_id [] = []"
| "DeleteCameraInfoInList camera_id (ci # rest) =
     (if info_field ci ''id'' = camera_id then rest else ci # DeleteCameraInfoInList camera_id rest)"

section \<open>Start-up\<close>

text \<open>\<open>iter->second\<close> of what \<open>find\<close> returns: for a missing key that is the end of the map.\<close>

definition info_deref :: "camera_info \<Rightarrow> string \<Rightarrow> string res" where
  "info_deref ci key = (case ci key of None \<Rightarrow> Inl OutOfBounds | Some v \<Rightarrow> Inr v)"

text \<open>One turn of the loop over \<open>cameraInfoList\<close>; \<open>False\<close> is \<open>goto quit\<close>.\<close>

definition start_camera ::
    "('db, 'p) service_env \<Rightarrow> camera_info \<Rightarrow> ('db, 'p) service \<Rightarrow> (('db, 'p) service \<times> bool) res" where
  "start_camera env ci s =
     ebind (info_deref ci CAMERA_ID_MYSQL_NAME) (\<lambda>devId.
     if devId = [] then Inr (s, False)
     else ebind (info_deref ci REC_SCHE_JSON_NAME) (\<lambda>rec_text.
     if rec_text = [] then Inr (s, False)
     else ebind (ParseSchedule rec_text) (\<lambda>rec_result.
     case rec_result of Inl _ \<Rightarrow> Inr (s, False) | Inr rec_sche \<Rightarrow>
     ebind (info_deref ci BAK_SCHE_JSON_NAME) (\<lambda>bak_text.
     ebind (ParseSchedule bak_text) (\<lambda>bak_result.
     case bak_result of Inl _ \<Rightarrow> Inr (s, False) | Inr bak_sche \<Rightarrow>
     (case CreateCameraTable (en_exec env) devId (sv_db s) of (db, r1) \<Rightarrow>
      let s1 = s\<lparr>sv_db := db\<rparr>
      in if r1 < 0 then Inr (s1, False)
         else case AddBakSchedule devId bak_sche (sv_bak s1) of (bak, r2, _) \<Rightarrow>
         let s2 = s1\<lparr>sv_bak := bak\<rparr>
         in if r2 < 0 then Inr (s2, False)
            else case AddStoreDevice (en_store env) devId RECODE_TYPE_PLANNED (sv_store s2) of (st, r3, _) \<Rightarrow>
            let s3 = s2\<lparr>sv_store := st\<rparr>
            in if r3 < 0 then Inr (s3, False)
               else ebind (AddStream (Some devId) rec_sche (Some StorePlannedStream) (sv_streams s3)) (\<lambda>(streams, r4, _).
                    Inr (s3\<lparr>sv_streams := streams\<rparr>, \<not> r4 < 0))))))))"

fun start_cameras ::
    "('db, 'p) service_env \<Rightarrow> camera_info list \<Rightarrow> ('db, 'p) service \<Rightarrow> (('db, 'p) service \<times> bool) res" where
  "start_cameras env [] s = Inr (s, True)"
| "start_cameras env (ci # rest) s =
     ebind (start_camera env ci s) (\<lambda>(s', ok). if ok then start_cameras env rest s' else Inr (s', False))"

text \<open>
  \<open>main\<close> up to the endless loop: the configuration, the database, the cameras, the two background threads (\<open>StoreInit\<close> and
  \<open>StreamInit\<close>), the registration of every camera, and the HTTP server. \<open>True\<close> when the service is up.
\<close>

record main_env =
  pid_file_ok :: bool
  log_file_ok :: bool
  config_file :: "string option"
  db_connect_ok :: bool
  store_thread :: int
  stream_thread_create :: int
  http_listen :: listen_env

definition main_start ::
    "main_env \<Rightarrow> ('db, 'p) service_env \<Rightarrow> ('db, 'p) service \<Rightarrow> (('db, 'p) service \<times> bool) res" where
  "main_start me env s =
     (if \<not> pid_file_ok me \<or> \<not> log_file_ok me then Inr (s, False)
      else ebind (LoadInfoFile (config_file me) (en_config env)) (\<lambda>(cfg, r0).
      if r0 < 0 then Inr (s, False)
      else case DatabaseInit (db_connect_ok me) (en_exec env) (sv_db s) of (db, r1) \<Rightarrow>
      let s1 = s\<lparr>sv_db := db\<rparr>
      in if r1 < 0 then Inr (s1, False)
         else ebind (GetCameraInfoFromDB (en_exec env) (sv_db s1)) (\<lambda>(db2, cameras, r2).
         let s2 = s1\<lparr>sv_db := db2, cameraInfoList := cameras\<rparr>
         in if r2 < 0 \<or> store_thread me < 0 \<or> StreamInit (stream_thread_create me) < 0 then Inr (s2, False)
            else ebind (start_cameras (env\<lparr>en_config := cfg\<rparr>) cameras s2) (\<lambda>(s3, ok).
                 if \<not> ok then Inr (s3, False)
                 else ebind (StartServer (http_listen me)) (\<lambda>r3. Inr (s3, \<not> r3 < 0))))))"

section \<open>The monitor\<close>

text \<open>\<open>STORE_FILE_MAX_SIZE * size * 2\<close> in 64 bits, computed once when the thread starts.\<close>

definition min_free_size :: "nat \<Rightarrow> u64" where
  "min_free_size n = word_of_nat STORE_FILE_MAX_SIZE * word_of_nat n * 2"

text \<open>The oldest recording of a camera: its row is deleted and its file unlinked.\<close>

definition monitor_camera ::
    "'db server \<Rightarrow> string \<Rightarrow> camera_info \<Rightarrow> 'db \<times> string list \<Rightarrow> ('db \<times> string list) res" where
  "monitor_camera exec monitor_path ci w =
     (case w of (db, unlinked) \<Rightarrow>
        ebind (info_deref ci CAMERA_ID_MYSQL_NAME) (\<lambda>cameraId.
        ebind (GetFirstStoreInfoFromDB exec cameraId \<lparr>file_name = [], file_type = [], file_status = [], file_backup = []\<rparr> db)
          (\<lambda>(db1, storeInfo, r).
        if r < 0 then Inr (db1, unlinked)
        else Inr (fst (DeleteInfoInTable exec cameraId (file_name storeInfo) db1),
                  unlinked @ [monitor_path @ ''/'' @ cameraId @ ''/'' @ file_name storeInfo]))))"

text \<open>One turn of \<open>MonitorProc\<close>; \<open>None\<close> is a failed \<open>statfs\<close>, else \<open>f_bavail\<close> and \<open>f_bsize\<close>.\<close>

definition MonitorProc_turn ::
    "'db server \<Rightarrow> string \<Rightarrow> u64 \<Rightarrow> (u64 \<times> u64) option \<Rightarrow> camera_info list \<Rightarrow> 'db \<times> string list \<Rightarrow> ('db \<times> string list) res" where
  "MonitorProc_turn exec monitor_path min_free disk_info cameras w =
     (case disk_info of
        None \<Rightarrow> Inr w
      | Some (f_bavail, f_bsize) \<Rightarrow>
          if f_bavail * f_bsize \<le> min_free then efold (monitor_camera exec monitor_path) cameras w
          else Inr w)"

definition StartMonitorProc :: "int \<Rightarrow> int" where
  "StartMonitorProc create = (if create < 0 then -1 else 0)"

end
