(* ===== verification/ServiceCorrect.thy ===== *)
theory ServiceCorrect
  imports Service
begin

text \<open>
  A camera is entered in three lists. The recording devices interpret the locale \<open>registry\<close> too, and
  start-up registers every camera of the database in all three.
\<close>

section \<open>Recording devices as a registry\<close>

definition store_env_ok :: "store_env \<Rightarrow> bool" where
  "store_env_ok env \<longleftrightarrow> malloc_ping env \<noteq> None \<and> malloc_pong env \<noteq> None \<and> (\<forall>path. ensure_directory env path) \<and>
     write_results env = full_writes"

definition store_present :: "store_state \<Rightarrow> string \<Rightarrow> bool" where
  "store_present st k \<longleftrightarrow> storeDeviceList st k \<noteq> None"

lemma write_blocks_full_returns: "\<exists>f. write_blocks m 0 full_writes f0 = Inr (f, True)"
proof -
  have "0 + STORE_BUF_MAX_SIZE div WRITE_FILE_BLOCK_SIZE * WRITE_FILE_BLOCK_SIZE = STORE_BUF_MAX_SIZE"
    by (simp add: sizes WRITE_FILE_BLOCK_SIZE_def FILE_IO_BLOCK_SIZE_def)
  from write_blocks_all [OF this, of m "fst f0" "snd f0"] show ?thesis by (auto simp: full_writes_def)
qed

lemma device_wf_buffers: "device_wf d \<Longrightarrow> store_buf (get_buf d r) \<noteq> None"
proof -
  assume "device_wf d"
  then obtain r' where "store_buf (get_buf d r') \<noteq> None" "store_buf (get_buf d (other r')) \<noteq> None"
    by (auto simp: device_wf_def dev_repr_def buf_repr_def)
  moreover have "r = r' \<or> r = other r'" by (cases r; cases r') (simp_all add: other_def)
  ultimately show ?thesis by auto
qed

lemma writer_returns:
  assumes "device_wf d" "write_results env = full_writes"
  shows "\<exists>st'. WriteToFileProc_device env devId d st = Inr (d\<lparr>pStoreBufWr := Null\<rparr>, st')"
proof (cases "pStoreBufWr d")
  case (Ref r)
  obtain m where m: "store_buf (get_buf d r) = Some m" using device_wf_buffers [OF assms(1)] by auto
  let ?p = "store_file_path (store_path d) (store_file_name (localtime_r env (store_start_time (get_buf d r))))"
  obtain f where f: "write_blocks m 0 (write_results env) (case disk st ?p of None \<Rightarrow> (\<lambda>_. 0, 0) | Some f \<Rightarrow> f) = Inr (f, True)"
    unfolding assms(2) using write_blocks_full_returns by blast
  show ?thesis by (simp add: WriteToFileProc_device_def Ref buf_mem_def m Let_def f)
next
  case Null
  then have "d\<lparr>pStoreBufWr := Null\<rparr> = d" by simp
  with Null show ?thesis by (simp add: WriteToFileProc_device_def)
next
  case Uninit
  then show ?thesis using assms(1) by (simp add: device_wf_def)
qed

lemma device_wf_set_writer: "device_wf d \<Longrightarrow> p \<noteq> Uninit \<Longrightarrow> device_wf (d\<lparr>pStoreBufWr := p\<rparr>)"
  by (auto simp: device_wf_def dev_repr_def get_buf_def split: bufref.splits)

lemma RemoveStoreDevice_returns:
  assumes "store_inv st" "store_env_ok env" "storeDeviceList st k = Some d"
  shows "\<exists>st'. RemoveStoreDevice env k st = Inr (st', 0, None) \<and> storeDeviceList st' = (storeDeviceList st)(k := None)"
proof -
  have wf: "device_wf d" using assms(1,3) by (auto simp: store_inv_lists ran_def)
  have w: "write_results env = full_writes" using assms(2) by (simp add: store_env_ok_def)
  obtain st1 where st1: "WriteToFileProc_device env k d st = Inr (d\<lparr>pStoreBufWr := Null\<rparr>, st1)"
    using writer_returns [OF wf w] by blast
  define d1 where "d1 = d\<lparr>pStoreBufWr := pCurStoreBuf d\<rparr>"
  have "device_wf d1" unfolding d1_def
    by (rule device_wf_set_writer [OF wf]) (use wf in \<open>auto simp: device_wf_def dev_repr_def\<close>)
  then obtain st2 where st2: "WriteToFileProc_device env k d1 st1 = Inr (d1\<lparr>pStoreBufWr := Null\<rparr>, st2)"
    using writer_returns [OF _ w] by blast
  show ?thesis
    using assms(3) st1 st2 WriteToFileProc_device_keeps(2) [OF st1] WriteToFileProc_device_keeps(2) [OF st2]
    by (simp add: RemoveStoreDevice_def wait_writer_def d1_def)
qed

lemma AddStoreDevice_new:
  assumes "store_inv st" "store_env_ok env" "\<not> store_present st k"
  shows "\<exists>st'. AddStoreDevice env k type st = (st', 0, None) \<and> store_inv st' \<and>
           store_present st' = (store_present st)(k := True)"
proof -
  obtain m1 m2 where m: "malloc_ping env = Some m1" "malloc_pong env = Some m2" using assms(2) by (auto simp: store_env_ok_def)
  obtain d where d: "init_device env type (uninit_device (storePath env @ k)) = Inr d" using device_wf_init [OF m] by blast
  have "ensure_directory env (storePath env @ k)" using assms(2) by (simp add: store_env_ok_def)
  with assms(3) d have "AddStoreDevice env k type st = (st\<lparr>storeDeviceList := (storeDeviceList st)(k \<mapsto> d)\<rparr>, 0, None)"
    by (simp add: AddStoreDevice_def store_present_def)
  moreover with AddStoreDevice_inv [OF assms(1) m, of k type] have "store_inv (st\<lparr>storeDeviceList := (storeDeviceList st)(k \<mapsto> d)\<rparr>)" by simp
  ultimately show ?thesis by (auto simp: store_present_def fun_eq_iff)
qed

interpretation store_registry: registry "\<lambda>k type st. Inr (AddStoreDevice env k type st)" "RemoveStoreDevice env"
    "\<lambda>st. store_inv st \<and> store_env_ok env" store_present "\<lambda>_ _. True" "\<lambda>_. True"
  for env
proof (unfold_locales, goal_cases)
  case (1 st k type)
  then show ?case using AddStoreDevice_new [of st env k type] by auto
next
  case (2 st k type)
  then show ?case by (auto simp: AddStoreDevice_def store_present_def)
next
  case (3 st k)
  then obtain d where "storeDeviceList st k = Some d" by (auto simp: store_present_def)
  then obtain st' where "RemoveStoreDevice env k st = Inr (st', 0, None)" "storeDeviceList st' = (storeDeviceList st)(k := None)"
    using RemoveStoreDevice_returns 3 by blast
  with 3 RemoveStoreDevice_inv show ?case by (auto simp: store_present_def fun_eq_iff)
qed

section \<open>The three lists together\<close>

definition service_inv :: "('db, 'p) service_env \<Rightarrow> ('db, 'p) service \<Rightarrow> bool" where
  "service_inv env s \<longleftrightarrow> store_inv (sv_store s) \<and> store_env_ok (en_store env) \<and> streams_ok (sv_streams s)"

text \<open>The devices of the service, one predicate for all lists.\<close>

definition registered :: "('db, 'p) service \<Rightarrow> (string \<Rightarrow> bool) \<Rightarrow> bool" where
  "registered s P \<longleftrightarrow> bak_present (sv_bak s) = P \<and> store_present (sv_store s) = P \<and> stream_present (sv_streams s) = P"

text \<open>Entering a device that is in none of the lists.\<close>

lemma register_device:
  assumes "service_inv env s" "registered s P" "\<not> P k"
  obtains bak st streams where
    "AddBakSchedule k bsched (sv_bak s) = (bak, 0, None)"
    "AddStoreDevice (en_store env) k RECODE_TYPE_PLANNED (sv_store s) = (st, 0, None)"
    "AddStream (Some k) rsched (Some StorePlannedStream) (sv_streams s) = Inr (streams, 0, None)"
    "store_inv st" "streams_ok streams"
    "bak_present bak = P(k := True)" "store_present st = P(k := True)" "stream_present streams = P(k := True)"
proof -
  obtain bak where b: "AddBakSchedule k bsched (sv_bak s) = (bak, 0, None)" "bak_present bak = (bak_present (sv_bak s))(k := True)"
    using bak_registry.add_new [of "sv_bak s" k bsched] assms(2,3) by (auto simp: registered_def)
  obtain st where st: "AddStoreDevice (en_store env) k RECODE_TYPE_PLANNED (sv_store s) = (st, 0, None)" "store_inv st"
      "store_present st = (store_present (sv_store s))(k := True)"
    using AddStoreDevice_new [of "sv_store s" "en_store env" k] assms by (auto simp: service_inv_def registered_def)
  obtain streams where t: "AddStream (Some k) rsched (Some StorePlannedStream) (sv_streams s) = Inr (streams, 0, None)" "streams_ok streams"
      "stream_present streams = (stream_present (sv_streams s))(k := True)"
    using AddStream_new [of "sv_streams s" k] assms by (auto simp: service_inv_def registered_def)
  show thesis using that b st t assms(2) by (simp add: registered_def)
qed

text \<open>A row of the camera table from which the service can start the camera.\<close>

definition camera_ok :: "('db, 'p) service_env \<Rightarrow> camera_info \<Rightarrow> bool" where
  "camera_ok env ci \<longleftrightarrow>
     (\<exists>k r b rs bs. ci CAMERA_ID_MYSQL_NAME = Some k \<and> ci REC_SCHE_JSON_NAME = Some r \<and> ci BAK_SCHE_JSON_NAME = Some b \<and>
        k \<noteq> [] \<and> r \<noteq> [] \<and> ParseSchedule r = Inr (Inr rs) \<and> ParseSchedule b = Inr (Inr bs) \<and>
        (\<forall>db. 0 \<le> snd (CreateCameraTable (en_exec env) k db)))"

definition camera_id :: "camera_info \<Rightarrow> string" where
  "camera_id ci = info_field ci CAMERA_ID_MYSQL_NAME"

lemma start_camera_registers:
  assumes "service_inv env s" "registered s P" "camera_ok env ci" "\<not> P (camera_id ci)"
  shows "\<exists>s'. start_camera env ci s = Inr (s', True) \<and> service_inv env s' \<and> registered s' (P(camera_id ci := True)) \<and>
           cameraInfoList s' = cameraInfoList s"
proof -
  obtain k r b rs bs where c: "ci CAMERA_ID_MYSQL_NAME = Some k" "ci REC_SCHE_JSON_NAME = Some r" "ci BAK_SCHE_JSON_NAME = Some b"
      "k \<noteq> []" "r \<noteq> []" "ParseSchedule r = Inr (Inr rs)" "ParseSchedule b = Inr (Inr bs)"
      "\<forall>db. 0 \<le> snd (CreateCameraTable (en_exec env) k db)"
    using assms(3) unfolding camera_ok_def by blast
  obtain db n where t: "CreateCameraTable (en_exec env) k (sv_db s) = (db, n)" by (cases "CreateCameraTable (en_exec env) k (sv_db s)")
  have n: "\<not> n < 0" using c(8) [rule_format, of "sv_db s"] t by simp
  have id: "camera_id ci = k" using c(1) by (simp add: camera_id_def info_field_def)
  obtain bak st streams where reg: "AddBakSchedule k bs (sv_bak s) = (bak, 0, None)"
      "AddStoreDevice (en_store env) k RECODE_TYPE_PLANNED (sv_store s) = (st, 0, None)"
      "AddStream (Some k) rs (Some StorePlannedStream) (sv_streams s) = Inr (streams, 0, None)"
      "store_inv st" "streams_ok streams"
      "bak_present bak = P(k := True)" "store_present st = P(k := True)" "stream_present streams = P(k := True)"
    by (rule register_device [OF assms(1,2), of k bs rs]) (use assms(4) id in auto)
  then show ?thesis
    using c n assms(1) by (simp add: start_camera_def info_deref_def t id service_inv_def registered_def)
qed

text \<open>(C30) Start-up registers the cameras. When no two rows of the camera table have the same id, every row has valid
  schedules, and the database and the disk do their part, the loop of \<open>main\<close> over the rows succeeds, and
  afterwards the recording devices, the streams and the backup schedules are, each of them, the devices
  from before and exactly the cameras of the table.\<close>

theorem startup_registers_cameras:
  assumes "service_inv env s" "registered s P" "\<forall>ci \<in> set cameras. camera_ok env ci \<and> \<not> P (camera_id ci)"
      and "distinct (map camera_id cameras)"
  shows "\<exists>s'. start_cameras env cameras s = Inr (s', True) \<and> service_inv env s' \<and>
           registered s' (\<lambda>k. P k \<or> k \<in> camera_id ` set cameras)"
  using assms
proof (induction cameras arbitrary: s P)
  case (Cons ci rest)
  then obtain s1 where s1: "start_camera env ci s = Inr (s1, True)" "service_inv env s1" "registered s1 (P(camera_id ci := True))"
    using start_camera_registers [of env s P ci] by auto
  have "\<forall>c \<in> set rest. camera_ok env c \<and> \<not> (P(camera_id ci := True)) (camera_id c)"
    using Cons.prems(3,4) by (auto simp: image_iff)
  from Cons.IH [OF s1(2,3) this] Cons.prems(4) obtain s' where s': "start_cameras env rest s1 = Inr (s', True)" "service_inv env s'"
      "registered s' (\<lambda>k. (P(camera_id ci := True)) k \<or> k \<in> camera_id ` set rest)" by auto
  have "(\<lambda>k. (P(camera_id ci := True)) k \<or> k \<in> camera_id ` set rest) = (\<lambda>k. P k \<or> k \<in> camera_id ` set (ci # rest))" by auto
  with s1(1) s' show ?case by simp
qed simp

text \<open>A service with no camera yet, and the row of one camera.\<close>

definition sample_service :: "(nat, unit) service" where
  "sample_service = \<lparr>sv_store = init_store, sv_streams = \<lparr>streamThreadList = [], isThreadListUsed = False\<rparr>, sv_events = [],
     sv_bak = Map.empty, sv_db = 0, sv_peer = (), cameraInfoList = [], error_no = create_thread_fail, sv_unlinked = [], sv_converted = []\<rparr>"

definition quiet_net :: "unit net" where
  "quiet_net = \<lparr>net_socket = \<lambda>p. (p, -1), net_connect = \<lambda>_ _ _ p. (p, -1), net_mss = \<lambda>_ _. None, net_write = \<lambda>_ _ p. (p, -1),
     net_select = \<lambda>_ p. (p, -1), net_read = \<lambda>_ _ p. (p, []), net_close = \<lambda>_ p. p\<rparr>"

definition sample_config :: config where
  "sample_config = \<lparr>serverIp = ''10.0.0.1'', backupIp = ''10.0.0.2'', streamMediaIp = ''10.0.0.3'', downloadMediaIp = ''10.0.0.4'',
     server_port = 8080, playback_port = 8081, backup_port = 8082, stream_media_port = 8083, databaseUser = ''u'',
     databasePasswd = ''p'', databaseName = ''d'', cfg_storePath = ''/mnt/'', backupPath = ''/bak/'', transMediaPath = ''/mp4/''\<rparr>"

definition sample_service_env :: "(nat, unit) service_env" where
  "sample_service_env = \<lparr>en_exec = \<lambda>db q. (Suc db, True, None), en_db_error = \<lambda>_. ''error'', en_error_set = \<lambda>_. True, en_store = sample_env, en_create = 0,
     en_ends = \<lambda>_. True, en_mktime = \<lambda>_. 0, en_garbage = (0, 0), en_net = quiet_net, en_client = sample_bak_client,
     en_unlink_ok = \<lambda>_. True, en_config = sample_config\<rparr>"

lemma sample_service_ok: "service_inv sample_service_env sample_service" "registered sample_service (\<lambda>_. False)"
proof -
  have "store_inv init_store" by (simp add: store_inv_lists init_store_def)
  moreover have "store_env_ok sample_env" by (simp add: store_env_ok_def sample_env_def ensure_directory_def)
  ultimately show "service_inv sample_service_env sample_service"
    by (simp add: service_inv_def sample_service_def sample_service_env_def streams_ok_def keys_sorted_def)
  show "registered sample_service (\<lambda>_. False)"
    by (simp add: registered_def sample_service_def init_store_def fun_eq_iff bak_present_def store_present_def stream_present_def)
qed

definition camera_row :: "string \<Rightarrow> string \<Rightarrow> camera_info" where
  "camera_row k sched = [CAMERA_ID_MYSQL_NAME \<mapsto> k, CAMERA_NAME_MYSQL_NAME \<mapsto> ''gate'', REC_SCHE_JSON_NAME \<mapsto> sched, BAK_SCHE_JSON_NAME \<mapsto> sched]"

lemma sample_camera: "\<exists>text. camera_ok sample_service_env (camera_row ''1-1'' text) \<and> camera_id (camera_row ''1-1'' text) = ''1-1''"
proof -
  have "week_ok (replicate 7 [((8, 0, 0), (20, 0, 0))])" by (simp add: week_ok_def hms_ok_def)
  from print_ParseSchedule_week [OF this] obtain t sched where t: "ParseSchedule t = Inr (Inr sched)" by blast
  have "ParseSchedule [] = Inr (Inl schedule_format_error)" by code_simp
  with t have "t \<noteq> []" by auto
  with t show ?thesis
    by (intro exI [of _ t]) (simp add: camera_ok_def camera_row_def camera_id_def info_field_def CAMERA_ID_MYSQL_NAME_def
        CAMERA_NAME_MYSQL_NAME_def REC_SCHE_JSON_NAME_def BAK_SCHE_JSON_NAME_def sample_service_env_def CreateCameraTable_def run_query_def)
qed

theorem startup_registers_cameras_witness:
  "\<exists>text s'. start_cameras sample_service_env [camera_row ''1-1'' text] sample_service = Inr (s', True) \<and>
     registered s' (\<lambda>k. k = ''1-1'')"
proof -
  obtain t where t: "camera_ok sample_service_env (camera_row ''1-1'' t)" "camera_id (camera_row ''1-1'' t) = ''1-1''"
    using sample_camera by blast
  show ?thesis
    using startup_registers_cameras [OF sample_service_ok, of "[camera_row ''1-1'' t]"] t by auto
qed

end
