(* ===== verification/Media.thy ===== *)
theory Media
  imports Common
begin

text \<open>
  The conversion of a recording to MP4, \<open>src/src/media.cpp\<close>: the names derived from the path of the recording, and the
  sequence of calls of the media library, whose results are parameters.
\<close>

definition after_last :: "char \<Rightarrow> string \<Rightarrow> string" where
  "after_last c s = rev (takeWhile (\<lambda>d. d \<noteq> c) (rev s))"

text \<open>
  The part of the path between the last slash and the last dot; without a dot behind the slash the count of
  \<open>substr\<close> is \<open>npos\<close> or wraps to a huge number, and everything behind the slash is taken.
\<close>

definition media_name :: "string \<Rightarrow> string" where
  "media_name file_path =
     (let base = after_last CHR ''/'' file_path
      in if CHR ''.'' \<in> set base then take (length base - Suc (length (after_last CHR ''.'' base))) base else base)"

definition media_url :: "config \<Rightarrow> string \<Rightarrow> string" where
  "media_url cfg name = snprintf 128 (''http://'' @ downloadMediaIp cfg @ '':'' @ fmt_d (playback_port cfg) @ ''/'' @ name @ ''.mp4'')"

definition mp4_path :: "config \<Rightarrow> string \<Rightarrow> string" where
  "mp4_path cfg name = transMediaPath cfg @ name @ ''.mp4''"

record media_env =
  me_open_input :: int
  me_find_info :: int
  me_is_video :: "bool list"
  me_frame_rate :: "int \<times> int"
  me_out_context :: int
  me_new_stream :: bool
  me_copy_params :: int
  me_avio_open :: int
  me_write_header :: int
  me_packets :: "(nat \<times> int \<times> int) list"    \<comment> \<open>stream, duration in the output time base, value of the write\<close>
  me_trailer :: int

text \<open>The loop over the packets: the time stamps written; a failing write ends it.\<close>

fun write_packets :: "int \<Rightarrow> int \<Rightarrow> (nat \<times> int \<times> int) list \<Rightarrow> int list" where
  "write_packets video_idx frame_index [] = []"
| "write_packets video_idx frame_index ((idx, duration, written) # pkts) =
     (if int idx = video_idx then
        if written < 0 then [] else (frame_index + 1) * duration # write_packets video_idx (frame_index + 1) pkts
      else write_packets video_idx frame_index pkts)"

definition last_video :: "bool list \<Rightarrow> int" where
  "last_video vs = foldl (\<lambda>v i. if vs ! i then int i else v) (-1) [0..<length vs]"

text \<open>\<open>TranslateToMp4\<close>: the address, the time stamps written, and the value returned, which is that of
  \<open>av_write_trailer\<close> even after a failed write.\<close>

definition TranslateToMp4 :: "config \<Rightarrow> media_env \<Rightarrow> string \<Rightarrow> string \<times> int list \<times> int" where
  "TranslateToMp4 cfg me file_path =
     (let url = media_url cfg (media_name file_path); v = last_video (me_is_video me)
      in if me_open_input me < 0 \<or> me_find_info me < 0 \<or> v < 0 then (url, [], -1)
         else if snd (me_frame_rate me) \<le> 0 \<or> fst (me_frame_rate me) \<le> 0 then (url, [], -1)
         else if me_out_context me < 0 \<or> \<not> me_new_stream me \<or> me_copy_params me < 0 then (url, [], -1)
         else if me_avio_open me < 0 \<or> me_write_header me < 0 then (url, [], -1)
         else (url, write_packets v 0 (me_packets me), me_trailer me))"

section \<open>Names\<close>

lemma after_last_append: "c \<notin> set t \<Longrightarrow> after_last c (s @ c # t) = t"
proof -
  assume "c \<notin> set t"
  then have "takeWhile (\<lambda>d. d \<noteq> c) (rev t @ c # rev s) = rev t" by (subst takeWhile_append2) auto
  then show ?thesis by (simp add: after_last_def)
qed

lemma media_name_recording:
  "CHR ''/'' \<notin> set name \<Longrightarrow> CHR ''.'' \<notin> set ext \<Longrightarrow> CHR ''/'' \<notin> set ext \<Longrightarrow>
   media_name (dir @ ''/'' @ name @ ''.'' @ ext) = name"
proof -
  assume a: "CHR ''/'' \<notin> set name" "CHR ''.'' \<notin> set ext" "CHR ''/'' \<notin> set ext"
  have "after_last CHR ''/'' (dir @ CHR ''/'' # (name @ CHR ''.'' # ext)) = name @ CHR ''.'' # ext"
    by (rule after_last_append) (use a in auto)
  moreover have "after_last CHR ''.'' (name @ CHR ''.'' # ext) = ext" by (rule after_last_append [OF a(2)])
  ultimately show ?thesis by (simp add: media_name_def)
qed

lemma write_packets_nth:
  "(\<forall>(i, d, w) \<in> set pkts. d = step) \<Longrightarrow> k < length (write_packets v n pkts) \<Longrightarrow>
   write_packets v n pkts ! k = (n + 1 + int k) * step"
proof (induction v n pkts arbitrary: k rule: write_packets.induct)
  case (2 v n idx duration written pkts)
  show ?case
  proof (cases "int idx = v \<and> \<not> written < 0")
    case True
    then show ?thesis using 2 by (cases k) (auto simp: algebra_simps)
  next
    case False
    then show ?thesis using 2 by (auto split: if_splits)
  qed
qed simp

end
