(* ===== verification/ApiText.thy ===== *)
theory ApiText
  imports ApiError
begin

text \<open>
  The texts of the service: \<open>store_api_ret\<close> of \<open>src/src/common.cpp\<close>, indexed by the error numbers, and the words the handlers
  of \<open>src/src/http.cpp\<close> put around them. They are UTF-8 in the sources and byte sequences here.
\<close>

definition utf8_text :: "nat list \<Rightarrow> string" where
  "utf8_text bs = map char_of bs"

fun store_api_ret :: "store_api_error \<Rightarrow> string" where
  "store_api_ret create_thread_fail =
     utf8_text [0xE5, 0x88, 0x9B, 0xE5, 0xBB, 0xBA, 0xE7, 0xBA, 0xBF, 0xE7, 0xA8, 0x8B, 0xE5, 0xA4, 0xB1, 0xE8,
     0xB4, 0xA5]"
| "store_api_ret create_store_directory_fail =
     utf8_text [0xE5, 0x88, 0x9B, 0xE5, 0xBB, 0xBA, 0xE5, 0xAD, 0x98, 0xE5, 0x82, 0xA8, 0xE6, 0x96, 0x87, 0xE4,
     0xBB, 0xB6, 0xE5, 0xA4, 0xB9, 0xE5, 0xA4, 0xB1, 0xE8, 0xB4, 0xA5]"
| "store_api_ret malloc_memory_fail =
     utf8_text [0xE7, 0x94, 0xB3, 0xE8, 0xAF, 0xB7, 0xE5, 0x86, 0x85, 0xE5, 0xAD, 0x98, 0xE5, 0xA4, 0xB1, 0xE8,
     0xB4, 0xA5]"
| "store_api_ret device_already_exist =
     utf8_text [0xE8, 0xAE, 0xBE, 0xE5, 0xA4, 0x87, 0xE5, 0xB7, 0xB2, 0xE5, 0xAD, 0x98, 0xE5, 0x9C, 0xA8]"
| "store_api_ret schedule_days_not_enough =
     utf8_text [0xE5, 0xBD, 0x95, 0xE5, 0x83, 0x8F, 0xE8, 0xAE, 0xA1, 0xE5, 0x88, 0x92, 0xE5, 0xA4, 0xA9, 0xE6,
     0x95, 0xB0, 0xE5, 0xB0, 0x8F, 0xE4, 0xBA, 0x8E] @ ''7'' @ utf8_text [0xE5, 0xA4, 0xA9]"
| "store_api_ret schedule_format_error =
     utf8_text [0xE5, 0xBD, 0x95, 0xE5, 0x83, 0x8F, 0xE8, 0xAE, 0xA1, 0xE5, 0x88, 0x92, 0xE6, 0xA0, 0xBC, 0xE5,
     0xBC, 0x8F, 0xE9, 0x94, 0x99, 0xE8, 0xAF, 0xAF]"
| "store_api_ret no_post_data =
     utf8_text [0xE6, 0xB2, 0xA1, 0xE6, 0x9C, 0x89] @ ''POST'' @ utf8_text [0xE6, 0x95, 0xB0, 0xE6, 0x8D, 0xAE]"
| "store_api_ret invalid_json_data =
     utf8_text [0xE6, 0x97, 0xA0, 0xE6, 0x95, 0x88, 0xE7, 0x9A, 0x84] @ ''json'' @ utf8_text [0xE6, 0x95, 0xB0,
     0xE6, 0x8D, 0xAE]"
| "store_api_ret no_main_id_in_json =
     ''json'' @ utf8_text [0xE6, 0x95, 0xB0, 0xE6, 0x8D, 0xAE, 0xE6, 0xB2, 0xA1, 0xE6, 0x9C, 0x89, 0xE8, 0xAE,
     0xBE, 0xE5, 0xA4, 0x87, 0xE4, 0xB8, 0xBB] @ ''ID''"
| "store_api_ret no_sub_id_in_json =
     ''json'' @ utf8_text [0xE6, 0x95, 0xB0, 0xE6, 0x8D, 0xAE, 0xE6, 0xB2, 0xA1, 0xE6, 0x9C, 0x89, 0xE8, 0xAE,
     0xBE, 0xE5, 0xA4, 0x87, 0xE5, 0xAD, 0x90] @ ''ID''"
| "store_api_ret no_start_time_in_json =
     ''json'' @ utf8_text [0xE6, 0x95, 0xB0, 0xE6, 0x8D, 0xAE, 0xE6, 0xB2, 0xA1, 0xE6, 0x9C, 0x89, 0xE5, 0xBC,
     0x80, 0xE5, 0xA7, 0x8B, 0xE6, 0x97, 0xB6, 0xE9, 0x97, 0xB4]"
| "store_api_ret no_end_time_in_json =
     ''json'' @ utf8_text [0xE6, 0x95, 0xB0, 0xE6, 0x8D, 0xAE, 0xE6, 0xB2, 0xA1, 0xE6, 0x9C, 0x89, 0xE7, 0xBB,
     0x93, 0xE6, 0x9D, 0x9F, 0xE6, 0x97, 0xB6, 0xE9, 0x97, 0xB4]"
| "store_api_ret no_type_id_in_json =
     ''json'' @ utf8_text [0xE6, 0x95, 0xB0, 0xE6, 0x8D, 0xAE, 0xE6, 0xB2, 0xA1, 0xE6, 0x9C, 0x89] @ ''typeId''"
| "store_api_ret no_event_id_in_json =
     ''json'' @ utf8_text [0xE6, 0x95, 0xB0, 0xE6, 0x8D, 0xAE, 0xE6, 0xB2, 0xA1, 0xE6, 0x9C, 0x89] @ ''eventId''"
| "store_api_ret no_file_name_in_json =
     ''json'' @ utf8_text [0xE6, 0x95, 0xB0, 0xE6, 0x8D, 0xAE, 0xE6, 0xB2, 0xA1, 0xE6, 0x9C, 0x89, 0xE6, 0x96,
     0x87, 0xE4, 0xBB, 0xB6, 0xE5, 0x90, 0x8D, 0xE7, 0xA7, 0xB0]"
| "store_api_ret no_operate_type_in_json =
     ''json'' @ utf8_text [0xE6, 0x95, 0xB0, 0xE6, 0x8D, 0xAE, 0xE6, 0xB2, 0xA1, 0xE6, 0x9C, 0x89, 0xE6, 0x93,
     0x8D, 0xE4, 0xBD, 0x9C, 0xE7, 0xB1, 0xBB, 0xE5, 0x9E, 0x8B]"
| "store_api_ret no_dev_name_in_json =
     ''json'' @ utf8_text [0xE6, 0x95, 0xB0, 0xE6, 0x8D, 0xAE, 0xE6, 0xB2, 0xA1, 0xE6, 0x9C, 0x89, 0xE8, 0xAE,
     0xBE, 0xE5, 0xA4, 0x87, 0xE5, 0x90, 0x8D, 0xE7, 0xA7, 0xB0]"
| "store_api_ret no_schedule_in_json =
     ''json'' @ utf8_text [0xE6, 0x95, 0xB0, 0xE6, 0x8D, 0xAE, 0xE6, 0xB2, 0xA1, 0xE6, 0x9C, 0x89, 0xE5, 0xBD,
     0x95, 0xE5, 0x83, 0x8F, 0xE6, 0x88, 0x96, 0xE8, 0x80, 0x85, 0xE5, 0xA4, 0x87, 0xE4, 0xBB, 0xBD, 0xE8, 0xAE,
     0xA1, 0xE5, 0x88, 0x92]"
| "store_api_ret no_url_in_json =
     ''json'' @ utf8_text [0xE6, 0x95, 0xB0, 0xE6, 0x8D, 0xAE, 0xE6, 0xB2, 0xA1, 0xE6, 0x9C, 0x89] @ ''url''"
| "store_api_ret invalid_schedule_type_in_json =
     utf8_text [0xE6, 0x97, 0xA0, 0xE6, 0x95, 0x88, 0xE7, 0x9A, 0x84, 0xE8, 0xAE, 0xA1, 0xE5, 0x88, 0x92, 0xE7,
     0xB1, 0xBB, 0xE5, 0x9E, 0x8B]"
| "store_api_ret invalid_date_format_in_json =
     utf8_text [0xE6, 0x97, 0xA0, 0xE6, 0x95, 0x88, 0xE7, 0x9A, 0x84, 0xE6, 0x97, 0xA5, 0xE6, 0x9C, 0x9F, 0xE6,
     0xA0, 0xBC, 0xE5, 0xBC, 0x8F]"
| "store_api_ret invalid_event_type_in_json =
     utf8_text [0xE6, 0x97, 0xA0, 0xE6, 0x95, 0x88, 0xE7, 0x9A, 0x84, 0xE4, 0xBA, 0x8B, 0xE4, 0xBB, 0xB6, 0xE7,
     0xB1, 0xBB, 0xE5, 0x9E, 0x8B]"
| "store_api_ret invalid_file_operate_type =
     utf8_text [0xE6, 0x97, 0xA0, 0xE6, 0x95, 0x88, 0xE7, 0x9A, 0x84, 0xE6, 0x96, 0x87, 0xE4, 0xBB, 0xB6, 0xE6,
     0x93, 0x8D, 0xE4, 0xBD, 0x9C, 0xE7, 0xB1, 0xBB, 0xE5, 0x9E, 0x8B]"
| "store_api_ret invalid_type_id_in_json =
     utf8_text [0xE6, 0x97, 0xA0, 0xE6, 0x95, 0x88, 0xE7, 0x9A, 0x84] @ ''typeId''"
| "store_api_ret invalid_url_in_json =
     utf8_text [0xE6, 0x97, 0xA0, 0xE6, 0x95, 0x88, 0xE7, 0x9A, 0x84] @ ''url''"
| "store_api_ret trans_to_mp4_fail =
     utf8_text [0xE8, 0xBD, 0xAC, 0xE6, 0x8D, 0xA2] @ ''MP4'' @ utf8_text [0xE6, 0x96, 0x87, 0xE4, 0xBB, 0xB6,
     0xE5, 0xA4, 0xB1, 0xE8, 0xB4, 0xA5]"
| "store_api_ret create_def_sche_fail =
     utf8_text [0xE5, 0x88, 0x9B, 0xE5, 0xBB, 0xBA, 0xE8, 0x87, 0xAA, 0xE5, 0xAE, 0x9A, 0xE4, 0xB9, 0x89, 0xE8,
     0xAE, 0xA1, 0xE5, 0x88, 0x92] @ ''json'' @ utf8_text [0xE5, 0xA4, 0xB1, 0xE8, 0xB4, 0xA5]"
| "store_api_ret func_input_null_addr =
     utf8_text [0xE5, 0x87, 0xBD, 0xE6, 0x95, 0xB0, 0xE8, 0xBE, 0x93, 0xE5, 0x85, 0xA5, 0xE7, 0xA9, 0xBA, 0xE5,
     0x9C, 0xB0, 0xE5, 0x9D, 0x80]"
| "store_api_ret do_not_find_camera =
     utf8_text [0xE6, 0xB2, 0xA1, 0xE6, 0x9C, 0x89, 0xE6, 0x89, 0xBE, 0xE5, 0x88, 0xB0, 0xE6, 0x91, 0x84, 0xE5,
     0x83, 0x8F, 0xE6, 0x9C, 0xBA]"
| "store_api_ret do_not_find_rec_files =
     utf8_text [0xE6, 0xB2, 0xA1, 0xE6, 0x9C, 0x89, 0xE6, 0x89, 0xBE, 0xE5, 0x88, 0xB0, 0xE5, 0xAF, 0xB9, 0xE5,
     0xBA, 0x94, 0xE6, 0x96, 0x87, 0xE4, 0xBB, 0xB6]"
| "store_api_ret cjson_called_error =
     ''cjson'' @ utf8_text [0xE8, 0xB0, 0x83, 0xE7, 0x94, 0xA8, 0xE5, 0xA4, 0xB1, 0xE8, 0xB4, 0xA5]"
| "store_api_ret delete_file_fail =
     utf8_text [0xE5, 0x88, 0xA0, 0xE9, 0x99, 0xA4, 0xE6, 0x96, 0x87, 0xE4, 0xBB, 0xB6, 0xE5, 0xA4, 0xB1, 0xE8,
     0xB4, 0xA5]"

section \<open>Words of the responses\<close>

definition text_add :: string where
  "text_add = utf8_text [0xE6, 0xB7, 0xBB, 0xE5, 0x8A, 0xA0, 0xE6, 0x91, 0x84, 0xE5, 0x83, 0x8F, 0xE6, 0x9C, 0xBA] @ ''(''"

definition text_unknown_id :: string where
  "text_unknown_id = ''Id'' @ utf8_text [0xE6, 0x9C, 0xAA, 0xE7, 0x9F, 0xA5, 0xE9, 0x81, 0x93]"

definition text_ok :: string where
  "text_ok = utf8_text [0xE6, 0x88, 0x90, 0xE5, 0x8A, 0x9F] @ ''!''"

definition text_failed :: string where
  "text_failed = utf8_text [0xE5, 0xA4, 0xB1, 0xE8, 0xB4, 0xA5] @ '':''"

definition text_delete :: string where
  "text_delete = utf8_text [0xE5, 0x88, 0xA0, 0xE9, 0x99, 0xA4, 0xE6, 0x91, 0x84, 0xE5, 0x83, 0x8F, 0xE6, 0x9C, 0xBA] @ ''(''"

definition text_update :: string where
  "text_update = utf8_text [0xE6, 0x9B, 0xB4, 0xE6, 0x96, 0xB0, 0xE6, 0x91, 0x84, 0xE5, 0x83, 0x8F, 0xE6, 0x9C, 0xBA] @ ''(''"

definition text_schedule :: string where
  "text_schedule = '')'' @ utf8_text [0xE8, 0xAE, 0xA1, 0xE5, 0x88, 0x92]"

definition text_get :: string where
  "text_get = utf8_text [0xE8, 0x8E, 0xB7, 0xE5, 0x8F, 0x96, 0xE6, 0x91, 0x84, 0xE5, 0x83, 0x8F, 0xE6, 0x9C, 0xBA] @ ''(''"

definition text_schedule_failed :: string where
  "text_schedule_failed = '')'' @ utf8_text [0xE8, 0xAE, 0xA1, 0xE5, 0x88, 0x92, 0xE5, 0xA4, 0xB1, 0xE8, 0xB4, 0xA5] @ '':''"

definition text_backup_failed :: string where
  "text_backup_failed = utf8_text [0xE6, 0x89, 0x8B, 0xE5, 0x8A, 0xA8, 0xE5, 0xA4, 0x87, 0xE4, 0xBB, 0xBD, 0xE5, 0xA4, 0xB1, 0xE8,
     0xB4, 0xA5]"

definition text_query_failed :: string where
  "text_query_failed = '')'' @ utf8_text [0xE6, 0x9F, 0xA5, 0xE8, 0xAF, 0xA2, 0xE5, 0xA4, 0xB1, 0xE8, 0xB4, 0xA5] @ '':''"

definition text_done :: string where
  "text_done = utf8_text [0xE6, 0x88, 0x90, 0xE5, 0x8A, 0x9F]"

definition text_bad_request :: string where
  "text_bad_request = utf8_text [0xE8, 0xA7, 0xA3, 0xE6, 0x9E, 0x90, 0xE8, 0xAF, 0xB7, 0xE6, 0xB1, 0x82, 0xE9, 0x94, 0x99, 0xE8,
     0xAF, 0xAF]"

lemma utf8_text_no_NUL: "\<forall>b \<in> set bs. 0 < b \<and> b < 256 \<Longrightarrow> CHR 0x00 \<notin> set (utf8_text bs)"
proof
  assume b: "\<forall>b \<in> set bs. 0 < b \<and> b < 256" and "CHR 0x00 \<in> set (utf8_text bs)"
  then obtain n where n: "n \<in> set bs" "char_of n = CHR 0x00" by (auto simp: utf8_text_def)
  then have "of_char (char_of n :: char) = (0 :: nat)" by simp
  moreover have "of_char (char_of n :: char) = n" using b n(1) by simp
  ultimately show False using b n(1) by auto
qed

lemma store_api_ret_no_NUL: "CHR 0x00 \<notin> set (store_api_ret e)"
  by (cases e) (simp_all add: utf8_text_no_NUL)

end
