(* ===== verification/Http.thy ===== *)
theory Http
  imports Service ApiText Media
begin

text \<open>
  The HTTP interface, \<open>src/src/http.cpp\<close>: the parts of a request, the ten handlers, the table that connects their names to
  them, and \<open>ResponseClient\<close>, the callback of the server.

  A handler jumps to its label \<open>quit\<close> with a text in \<open>err\<close>. That is the value \<open>Some err\<close> of the second component of its state
  passing steps, and \<open>qbind\<close> stops there. An object item that is missing is a null pointer, and \<open>node_text\<close> of a null
  pointer is a fault.
\<close>

section \<open>Parts of a request\<close>

definition HTTP_REQ_STRING_LEN :: nat where "HTTP_REQ_STRING_LEN = 256"

definition http_ver :: string where "http_ver = ''HTTP/1.1''"

definition CRLF :: string where "CRLF = [CHR 0x0D, CHR 0x0A]"

definition res_head :: string where "res_head = ''Content-Type:application/json'' @ CRLF @ CRLF"

fun strstr :: "string \<Rightarrow> string \<Rightarrow> string option" where
  "strstr [] needle = (if needle = [] then Some [] else None)"
| "strstr (c # cs) needle = (if is_prefix needle (c # cs) then Some (c # cs) else strstr cs needle)"

text \<open>What is behind the first occurrence.\<close>

definition strstr_behind :: "string \<Rightarrow> string \<Rightarrow> string option" where
  "strstr_behind s needle = map_option (drop (length needle)) (strstr s needle)"

definition CreateResponse :: "string option \<Rightarrow> string option \<Rightarrow> string option \<Rightarrow> string option" where
  "CreateResponse line hd_text body =
     (case (line, hd_text, body) of (Some l, Some h, Some b) \<Rightarrow> Some (l @ h @ b) | _ \<Rightarrow> None)"

definition ParsePostData :: "string \<Rightarrow> string option" where
  "ParsePostData info = strstr_behind info (CRLF @ CRLF)"

text \<open>
  \<open>ParseContentLen\<close> on all the bytes of the buffer: the copying does not stop at the NUL of the text, and behind the bytes
  received the buffer has never been written. \<open>len\<close> gets no NUL: \<open>stack\<close> is what follows on the stack.
\<close>

fun copy_len :: "string \<Rightarrow> string \<Rightarrow> string option res" where
  "copy_len len [] = Inl Indeterminate"
| "copy_len len (c # cs) =
     (if c = CHR 0x0D then Inr (Some len)
      else if 128 \<le> length len + 1 then Inr None
      else copy_len (len @ [c]) cs)"

definition ParseContentLen :: "string \<Rightarrow> string option \<Rightarrow> int res" where
  "ParseContentLen stack info =
     (case info of
        None \<Rightarrow> Inr (-1)
      | Some raw \<Rightarrow>
          (let txt = takeWhile (\<lambda>c. c \<noteq> NUL) raw
           in case strstr_behind txt ''Content-Length: '' of
                None \<Rightarrow> Inr (-1)
              | Some start \<Rightarrow>
                  ebind (copy_len [] (drop (length txt - length start) raw)) (\<lambda>r.
                  case r of None \<Rightarrow> Inr (-1) | Some len \<Rightarrow> Inr (atoi (len @ drop (length len) stack)))))"

definition CreateDefaultSchedule :: cjson where
  "CreateDefaultSchedule =
     foldl (\<lambda>sche _. cJSON_AddItemToArray sche
              (Some (cJSON_AddItemToArray cJSON_CreateArray (Some (cJSON_CreateString ''00:00:00-00:00:00'')))))
       cJSON_CreateArray [0..<7::nat]"

definition CreateRespondString :: "bool \<Rightarrow> string option \<Rightarrow> string option res" where
  "CreateRespondString code message =
     (case message of
        None \<Rightarrow> Inr None
      | Some m \<Rightarrow>
          cJSON_Print (cJSON_AddItemToObject
            (cJSON_AddItemToObject cJSON_CreateObject ''code'' (Some (cJSON_CreateBool code)))
            ''message'' (Some (cJSON_CreateString m))))"

section \<open>Steps of a handler\<close>

text \<open>Uninitialised locals and what the environment of one request decides.\<close>

record http_env =
  hv_cap :: nat                      \<comment> \<open>size of the buffer the request was read into\<close>
  hv_more :: "byte list"             \<comment> \<open>what the second \<open>read\<close> gets, nothing when it fails\<close>
  hv_stack :: string                 \<comment> \<open>the stack behind \<open>len\<close> in \<open>ParseContentLen\<close>\<close>
  hv_tms :: "tm \<times> tm"
  hv_media :: "string \<Rightarrow> media_env"

type_synonym ('db, 'p) quit = "(('db, 'p) service \<times> string option) res"

definition qbind :: "('db, 'p) quit \<Rightarrow> (('db, 'p) service \<Rightarrow> ('db, 'p) quit) \<Rightarrow> ('db, 'p) quit" where
  "qbind x k = ebind x (\<lambda>(s, err). case err of None \<Rightarrow> k s | Some e \<Rightarrow> Inr (s, Some e))"

text \<open>A label that is passed only on the way from a later failure.\<close>

definition undo :: "('db, 'p) quit \<Rightarrow> (('db, 'p) service \<Rightarrow> ('db, 'p) service res) \<Rightarrow> ('db, 'p) quit" where
  "undo x cleanup = ebind x (\<lambda>(s, err). case err of None \<Rightarrow> Inr (s, None)
     | Some e \<Rightarrow> ebind (cleanup s) (\<lambda>s'. Inr (s', Some e)))"

definition SetError :: "store_api_error \<Rightarrow> ('db, 'p) service \<Rightarrow> ('db, 'p) service" where
  "SetError e s = s\<lparr>error_no := e\<rparr>"

definition GetError :: "('db, 'p) service \<Rightarrow> string" where
  "GetError s = store_api_ret (error_no s)"

definition GetOtherError :: "('db, 'p) service_env \<Rightarrow> ('db, 'p) service \<Rightarrow> string option" where
  "GetOtherError env s = (if en_error_set env (sv_db s) then Some (en_db_error env (sv_db s)) else None)"

text \<open>After a call that may have set \<open>error_no\<close> and failed: \<open>err = GetError\<close>, which is an older error when the call
  did not set it.\<close>

definition api_result :: "int \<Rightarrow> store_api_error option \<Rightarrow> ('db, 'p) service \<Rightarrow> ('db, 'p) service \<times> string option" where
  "api_result r e s =
     (let s' = (case e of None \<Rightarrow> s | Some n \<Rightarrow> SetError n s) in (s', if r < 0 then Some (GetError s') else None))"

text \<open>A failed statement has assigned \<open>other_error\<close> just before.\<close>

definition sql_step ::
    "('db, 'p) service_env \<Rightarrow> ('db \<Rightarrow> 'db \<times> int) \<Rightarrow> ('db, 'p) service \<Rightarrow> ('db, 'p) service \<times> string option" where
  "sql_step env f s =
     (case f (sv_db s) of (db, r) \<Rightarrow>
        let s' = s\<lparr>sv_db := db\<rparr> in (s', if r < 0 then Some (en_db_error env db) else None))"

text \<open>The items of the posted object. The handlers set \<open>error_no\<close> and quit with its text.\<close>

definition post_json :: "string \<Rightarrow> (store_api_error + cjson) res" where
  "post_json info =
     (case ParsePostData info of
        None \<Rightarrow> Inr (Inl no_post_data)
      | Some data \<Rightarrow> ebind (cJSON_Parse data) (\<lambda>r.
          case r of None \<Rightarrow> Inr (Inl invalid_json_data) | Some obj \<Rightarrow> Inr (Inr obj)))"

definition need :: "cjson \<Rightarrow> string \<Rightarrow> store_api_error \<Rightarrow> (store_api_error + cjson) res" where
  "need obj name e = (case cJSON_GetObjectItem obj name of None \<Rightarrow> Inr (Inl e) | Some item \<Rightarrow> Inr (Inr item))"

definition node_text :: "cjson option \<Rightarrow> string res" where
  "node_text item = (case item of None \<Rightarrow> Inl NullDeref
     | Some i \<Rightarrow> (case valuestring i of None \<Rightarrow> Inl NullDeref | Some t \<Rightarrow> Inr t))"

definition device_id :: "cjson \<Rightarrow> cjson \<Rightarrow> string res" where
  "device_id mainObj subObj =
     ebind (node_text (Some mainObj)) (\<lambda>m. ebind (node_text (Some subObj)) (\<lambda>n. Inr (m @ ''-'' @ n)))"

definition print_text :: "cjson \<Rightarrow> string res" where
  "print_text obj = ebind (cJSON_Print obj) (\<lambda>r. case r of None \<Rightarrow> Inl NullDeref | Some t \<Rightarrow> Inr t)"

definition MAIN_ID_JSON_NAME :: string where "MAIN_ID_JSON_NAME = ''mainId''"
definition SUB_ID_JSON_NAME :: string where "SUB_ID_JSON_NAME = ''subId''"
definition START_TIME_JSON_NAME :: string where "START_TIME_JSON_NAME = ''startTime''"
definition END_TIME_JSON_NAME :: string where "END_TIME_JSON_NAME = ''endTime''"
definition TYPE_ID_JSON_NAME :: string where "TYPE_ID_JSON_NAME = ''typeId''"
definition TYPE_JSON_NAME :: string where "TYPE_JSON_NAME = CAMERA_TYPE_MYSQL_NAME"
definition EVENT_ID_JSON_NAME :: string where "EVENT_ID_JSON_NAME = ''eventId''"
definition FILE_NAME_JSON_NAME :: string where "FILE_NAME_JSON_NAME = ''file''"
definition OPERATE_TYPE_JSON_NAME :: string where "OPERATE_TYPE_JSON_NAME = ''operateId''"
definition URL_JSON_NAME :: string where "URL_JSON_NAME = ''url''"

lemmas json_names = MAIN_ID_JSON_NAME_def SUB_ID_JSON_NAME_def START_TIME_JSON_NAME_def END_TIME_JSON_NAME_def TYPE_ID_JSON_NAME_def
  TYPE_JSON_NAME_def EVENT_ID_JSON_NAME_def FILE_NAME_JSON_NAME_def OPERATE_TYPE_JSON_NAME_def URL_JSON_NAME_def

text \<open>The two ids every handler looks for first.\<close>

definition post_ids :: "string \<Rightarrow> (store_api_error + cjson \<times> cjson \<times> cjson) res" where
  "post_ids info =
     abind (post_json info) (\<lambda>obj. abind (need obj MAIN_ID_JSON_NAME no_main_id_in_json) (\<lambda>m.
     abind (need obj SUB_ID_JSON_NAME no_sub_id_in_json) (\<lambda>n. Inr (Inr (obj, m, n)))))"

text \<open>The answer of a handler: \<open>snprintf\<close> into an array of \<open>n\<close> characters.\<close>

definition respond ::
    "nat \<Rightarrow> string \<Rightarrow> string \<Rightarrow> ('db, 'p) service \<times> string option \<Rightarrow> (('db, 'p) service \<times> string option) res" where
  "respond n before behind w =
     (case w of (s, err) \<Rightarrow>
        ebind (CreateRespondString (err = None) (Some (snprintf n (before @ behind @
                 (case err of None \<Rightarrow> text_ok @ '' '' | Some e \<Rightarrow> text_failed @ e)))))
          (\<lambda>res. Inr (s, res)))"

text \<open>The end of a handler that failed in its first part with an error number.\<close>

definition respond_error ::
    "nat \<Rightarrow> string \<Rightarrow> string \<Rightarrow> store_api_error \<Rightarrow> ('db, 'p) service \<Rightarrow> (('db, 'p) service \<times> string option) res" where
  "respond_error n before behind e s = respond n before behind (SetError e s, Some (store_api_ret e))"

type_synonym ('db, 'p) handler =
  "('db, 'p) service_env \<Rightarrow> http_env \<Rightarrow> string option \<Rightarrow> ('db, 'p) service \<Rightarrow> (('db, 'p) service \<times> string option) res"

section \<open>Adding and deleting a camera\<close>

definition with_schedule :: "string \<Rightarrow> ('db, 'p) service \<Rightarrow> (schedule \<Rightarrow> ('db, 'p) quit) \<Rightarrow> ('db, 'p) quit" where
  "with_schedule txt s k = ebind (ParseSchedule txt) (\<lambda>r.
     case r of Inl e \<Rightarrow> Inr (SetError e s, Some (store_api_ret e)) | Inr sche \<Rightarrow> k sche)"

definition add_fields :: "string \<Rightarrow> (store_api_error + cjson \<times> cjson \<times> cjson \<times> cjson \<times> cjson) res" where
  "add_fields info =
     abind (post_ids info) (\<lambda>(obj, m, n).
     abind (need obj ''name'' no_dev_name_in_json) (\<lambda>nm.
     let sche = (\<lambda>name. case cJSON_GetObjectItem obj name of None \<Rightarrow> CreateDefaultSchedule | Some o' \<Rightarrow> o')
     in Inr (Inr (m, n, nm, sche REC_SCHE_JSON_NAME, sche BAK_SCHE_JSON_NAME))))"

definition new_camera_info :: "string \<Rightarrow> string \<Rightarrow> string \<Rightarrow> string \<Rightarrow> camera_info" where
  "new_camera_info devId name rec_text bak_text =
     [CAMERA_ID_MYSQL_NAME \<mapsto> devId, CAMERA_NAME_MYSQL_NAME \<mapsto> name, REC_SCHE_JSON_NAME \<mapsto> rec_text, BAK_SCHE_JSON_NAME \<mapsto> bak_text]"

definition add_bak :: "string \<Rightarrow> schedule \<Rightarrow> ('db, 'p) service \<Rightarrow> ('db, 'p) quit" where
  "add_bak devId sche s = (case AddBakSchedule devId sche (sv_bak s) of (bak, r, e) \<Rightarrow> Inr (api_result r e (s\<lparr>sv_bak := bak\<rparr>)))"

definition add_store :: "('db, 'p) service_env \<Rightarrow> string \<Rightarrow> ('db, 'p) service \<Rightarrow> ('db, 'p) quit" where
  "add_store env devId s =
     (case AddStoreDevice (en_store env) devId RECODE_TYPE_PLANNED (sv_store s) of (st, r, e) \<Rightarrow> Inr (api_result r e (s\<lparr>sv_store := st\<rparr>)))"

definition add_stream :: "string \<Rightarrow> schedule \<Rightarrow> ('db, 'p) service \<Rightarrow> ('db, 'p) quit" where
  "add_stream devId sche s = ebind (AddStream (Some devId) sche (Some StorePlannedStream) (sv_streams s)) (\<lambda>(streams, r, e).
     Inr (api_result r e (s\<lparr>sv_streams := streams\<rparr>)))"

definition remove_store :: "('db, 'p) service_env \<Rightarrow> string \<Rightarrow> ('db, 'p) service \<Rightarrow> ('db, 'p) quit" where
  "remove_store env devId s = ebind (RemoveStoreDevice (en_store env) devId (sv_store s)) (\<lambda>(st, r, e).
     Inr (api_result r e (s\<lparr>sv_store := st\<rparr>)))"

definition remove_bak :: "string \<Rightarrow> ('db, 'p) service \<Rightarrow> ('db, 'p) service res" where
  "remove_bak devId s = ebind (RemoveBakSchedule devId (sv_bak s)) (\<lambda>(bak, _). Inr (s\<lparr>sv_bak := bak\<rparr>))"

definition delete_info :: "('db, 'p) service_env \<Rightarrow> string \<Rightarrow> ('db, 'p) service \<Rightarrow> ('db, 'p) service \<times> string option" where
  "delete_info env devId s = sql_step env (DeleteCameraInfoInTable (en_exec env) devId) s"

text \<open>\<open>AddRecodeDevice\<close> from the first \<open>ParseSchedule\<close> to the label \<open>quit\<close>.\<close>

definition add_camera ::
    "('db, 'p) service_env \<Rightarrow> string \<Rightarrow> string \<Rightarrow> string \<Rightarrow> string \<Rightarrow> ('db, 'p) service \<Rightarrow> ('db, 'p) quit" where
  "add_camera env devId name rec_text bak_text s =
     with_schedule rec_text s (\<lambda>rec_sche. with_schedule bak_text s (\<lambda>bak_sche.
     qbind (Inr (sql_step env (CreateCameraTable (en_exec env) devId) s)) (\<lambda>s1.
     qbind (Inr (sql_step env (InsertCameraInfoToTable (en_exec env) devId name rec_text bak_text) s1)) (\<lambda>s2.
     undo (qbind (add_bak devId bak_sche s2) (\<lambda>s3.
           undo (qbind (add_store env devId s3) (\<lambda>s4.
                 undo (qbind (add_stream devId rec_sche s4) (\<lambda>s5.
                       Inr (s5\<lparr>cameraInfoList := cameraInfoList s5 @ [new_camera_info devId name rec_text bak_text]\<rparr>, None)))
                   (\<lambda>s'. ebind (remove_store env devId s') (\<lambda>(s'', _). Inr s''))))
             (remove_bak devId)))
       (\<lambda>s'. Inr (fst (delete_info env devId s')))))))"

definition AddRecodeDevice :: "('db, 'p) handler" where
  "AddRecodeDevice env hv info s =
     (case info of
        None \<Rightarrow> Inl NullDeref
      | Some txt \<Rightarrow>
          ebind (add_fields txt) (\<lambda>r.
          case r of
            Inl e \<Rightarrow> respond_error 125 (text_add @ text_unknown_id) '')'' e s
          | Inr (m, n, nm, rec_obj, bak_obj) \<Rightarrow>
              ebind (device_id m n) (\<lambda>devId. ebind (node_text (Some nm)) (\<lambda>name.
              ebind (print_text rec_obj) (\<lambda>rec_text. ebind (print_text bak_obj) (\<lambda>bak_text.
              ebind (add_camera env devId name rec_text bak_text s) (respond 125 (text_add @ devId) '')'')))))))"

text \<open>\<open>DeleteRecodeDevice\<close>: a camera that is missing in one list is still removed from the others.\<close>

definition delete_camera :: "('db, 'p) service_env \<Rightarrow> string \<Rightarrow> ('db, 'p) service \<Rightarrow> ('db, 'p) quit" where
  "delete_camera env cameraId s =
     qbind (Inr (delete_info env cameraId s)) (\<lambda>s1.
     ebind (DeleteStream (en_ends env) (Some cameraId) (sv_streams s1)) (\<lambda>(streams, r, e).
     case api_result r e (s1\<lparr>sv_streams := streams\<rparr>) of (s2, err1) \<Rightarrow>
     ebind (remove_store env cameraId s2) (\<lambda>(s3, err2).
     ebind (remove_bak cameraId s3) (\<lambda>s4.
     Inr (s4\<lparr>cameraInfoList := DeleteCameraInfoInList cameraId (cameraInfoList s4)\<rparr>,
          case err2 of None \<Rightarrow> err1 | Some e \<Rightarrow> Some e)))))"

definition DeleteRecodeDevice :: "('db, 'p) handler" where
  "DeleteRecodeDevice env hv info s =
     (case info of
        None \<Rightarrow> Inr (s, None)
      | Some txt \<Rightarrow>
          ebind (post_ids txt) (\<lambda>r.
          case r of
            Inl e \<Rightarrow> respond_error 125 text_delete '')'' e s
          | Inr (_, m, n) \<Rightarrow>
              ebind (device_id m n) (\<lambda>cameraId.
              ebind (delete_camera env cameraId s) (respond 125 (text_delete @ cameraId) '')''))))"

section \<open>Schedules\<close>

text \<open>\<open>operator[]\<close> on an entry of \<open>cameraInfoList\<close> itself enters a missing key.\<close>

definition info_touch :: "string \<Rightarrow> camera_info \<Rightarrow> camera_info" where
  "info_touch key ci = ci(key \<mapsto> info_field ci key)"

fun find_camera :: "string \<Rightarrow> camera_info list \<Rightarrow> camera_info list \<times> nat option" where
  "find_camera devId [] = ([], None)"
| "find_camera devId (ci # rest) =
     (let ci' = info_touch CAMERA_ID_MYSQL_NAME ci
      in if info_field ci' CAMERA_ID_MYSQL_NAME = devId then (ci' # rest, Some 0)
         else case find_camera devId rest of (rest', r) \<Rightarrow> (ci' # rest', map_option Suc r))"

definition set_info :: "nat \<Rightarrow> string \<Rightarrow> string \<Rightarrow> ('db, 'p) service \<Rightarrow> ('db, 'p) service" where
  "set_info idx key txt s = s\<lparr>cameraInfoList := (cameraInfoList s)[idx := (cameraInfoList s ! idx)(key \<mapsto> txt)]\<rparr>"

text \<open>
  The two halves of \<open>UpdateSchedule\<close>, for the recording and for the backup schedule: the text goes to the database, the schedule to
  the list of the component, and the text to \<open>cameraInfoList\<close>, also when the component does not know the camera. \<open>True\<close> is
  \<open>goto quit\<close>.
\<close>

definition update_part ::
    "('db, 'p) service_env \<Rightarrow> (string \<Rightarrow> 'db \<Rightarrow> 'db \<times> int) \<Rightarrow> (schedule \<Rightarrow> ('db, 'p) service \<Rightarrow> ('db, 'p) quit) \<Rightarrow> string \<Rightarrow>
     nat \<Rightarrow> cjson option \<Rightarrow> ('db, 'p) service \<times> string option \<Rightarrow> (('db, 'p) service \<times> string option \<times> bool) res" where
  "update_part env sql change key idx obj w =
     (case (obj, w) of
        (None, (s, err)) \<Rightarrow> Inr (s, err, False)
      | (Some o', (s, err)) \<Rightarrow>
          ebind (print_text o') (\<lambda>txt.
          ebind (ParseSchedule txt) (\<lambda>r.
          case r of
            Inl e \<Rightarrow> Inr (SetError e s, Some (store_api_ret e), True)
          | Inr sche \<Rightarrow>
              (case sql_step env (sql txt) s of
                 (s1, Some e) \<Rightarrow> Inr (s1, Some e, True)
               | (s1, None) \<Rightarrow>
                   ebind (change sche s1) (\<lambda>(s2, err2).
                   Inr (set_info idx key txt s2, case err2 of None \<Rightarrow> err | Some e \<Rightarrow> Some e, False))))))"

definition change_rec :: "string \<Rightarrow> schedule \<Rightarrow> ('db, 'p) service \<Rightarrow> ('db, 'p) quit" where
  "change_rec devId sche s = ebind (UpdateRecodeSchedule devId sche (sv_streams s)) (\<lambda>(streams, r, e).
     Inr (api_result r e (s\<lparr>sv_streams := streams\<rparr>)))"

definition change_bak :: "string \<Rightarrow> schedule \<Rightarrow> ('db, 'p) service \<Rightarrow> ('db, 'p) quit" where
  "change_bak devId sche s = (case UpdateBakSchedule devId sche (sv_bak s) of (bak, r, e) \<Rightarrow>
     Inr (api_result r e (s\<lparr>sv_bak := bak\<rparr>)))"

definition update_schedules ::
    "('db, 'p) service_env \<Rightarrow> string \<Rightarrow> cjson \<Rightarrow> ('db, 'p) service \<Rightarrow> ('db, 'p) quit" where
  "update_schedules env devId obj s =
     (case find_camera devId (cameraInfoList s) of
        (infos, None) \<Rightarrow> Inr (SetError do_not_find_camera (s\<lparr>cameraInfoList := infos\<rparr>), Some (store_api_ret do_not_find_camera))
      | (infos, Some idx) \<Rightarrow>
          (let s1 = s\<lparr>cameraInfoList := infos\<rparr>;
               rec_obj = cJSON_GetObjectItem obj REC_SCHE_JSON_NAME; bak_obj = cJSON_GetObjectItem obj BAK_SCHE_JSON_NAME
           in if rec_obj = None \<and> bak_obj = None
              then Inr (SetError no_schedule_in_json s1, Some (store_api_ret no_schedule_in_json))
              else ebind (update_part env (UpdateRecScheduleToCameraTable (en_exec env) devId) (change_rec devId)
                            REC_SCHE_JSON_NAME idx rec_obj (s1, None)) (\<lambda>(s2, err, stop).
                   if stop then Inr (s2, err)
                   else ebind (update_part env (UpdateBakScheduleToCameraTable (en_exec env) devId) (change_bak devId)
                                 BAK_SCHE_JSON_NAME idx bak_obj (s2, err)) (\<lambda>(s3, err', _). Inr (s3, err')))))"

definition UpdateSchedule :: "('db, 'p) handler" where
  "UpdateSchedule env hv info s =
     (case info of
        None \<Rightarrow> Inr (s, None)
      | Some txt \<Rightarrow>
          ebind (post_ids txt) (\<lambda>r.
          case r of
            Inl e \<Rightarrow> respond_error 125 text_update text_schedule e s
          | Inr (obj, m, n) \<Rightarrow>
              ebind (device_id m n) (\<lambda>devId.
              ebind (update_schedules env devId obj s) (respond 125 (text_update @ devId) text_schedule))))"

text \<open>One day of \<open>GetSchedule\<close>.\<close>

definition day_times :: "cjson \<Rightarrow> nat \<Rightarrow> cjson res" where
  "day_times scheParsObj d =
     (case cJSON_GetArrayItem scheParsObj (int d) of
        None \<Rightarrow> Inl NullDeref
      | Some day \<Rightarrow>
          efold (\<lambda>i dayObj. ebind (node_text (cJSON_GetArrayItem day (int i)))
                   (\<lambda>t. Inr (cJSON_AddItemToArray dayObj (Some (cJSON_CreateString t)))))
            [0..<cJSON_GetArraySize day] cJSON_CreateArray)"

definition day_names :: "string list" where
  "day_names = [''monday'', ''tuesday'', ''wednesday'', ''thursday'', ''friday'', ''saturday'', ''sunday'']"

definition schedule_object :: "string \<Rightarrow> string \<Rightarrow> cjson \<Rightarrow> cjson res" where
  "schedule_object mainId subId scheParsObj =
     efold (\<lambda>(d, name) obj. ebind (day_times scheParsObj d) (\<lambda>dayObj. Inr (cJSON_AddItemToObject obj name (Some dayObj))))
       (zip [0..<7] day_names)
       (cJSON_AddItemToObject (cJSON_AddItemToObject cJSON_CreateObject MAIN_ID_JSON_NAME (Some (cJSON_CreateString mainId)))
          SUB_ID_JSON_NAME (Some (cJSON_CreateString subId)))"

text \<open>The schedule asked for: the number wins over the name.\<close>

definition schedule_type :: "cjson \<Rightarrow> (store_api_error + int) res" where
  "schedule_type obj =
     (case (cJSON_GetObjectItem obj TYPE_JSON_NAME, cJSON_GetObjectItem obj TYPE_ID_JSON_NAME) of
        (_, Some tid) \<Rightarrow> Inr (Inr (valueint tid))
      | (None, None) \<Rightarrow> Inr (Inl no_type_id_in_json)
      | (Some t, None) \<Rightarrow>
          ebind (node_text (Some t)) (\<lambda>txt.
          if txt = ''recode'' then Inr (Inr 0) else if txt = ''backup'' then Inr (Inr 1)
          else Inr (Inl invalid_schedule_type_in_json)))"

text \<open>The text of the schedule in \<open>cameraInfoList\<close>, empty when there is no such camera.\<close>

definition schedule_json :: "string \<Rightarrow> string \<Rightarrow> ('db, 'p) service \<Rightarrow> ('db, 'p) service \<times> string" where
  "schedule_json cameraId key s =
     (case find_camera cameraId (cameraInfoList s) of
        (infos, None) \<Rightarrow> (s\<lparr>cameraInfoList := infos\<rparr>, [])
      | (infos, Some i) \<Rightarrow> (s\<lparr>cameraInfoList := infos[i := info_touch key (infos ! i)]\<rparr>, info_field (infos ! i) key))"

definition get_error :: "string \<Rightarrow> store_api_error \<Rightarrow> ('db, 'p) service \<Rightarrow> (('db, 'p) service \<times> string option) res" where
  "get_error cameraId e s =
     ebind (CreateRespondString False (Some (snprintf 128 (text_get @ cameraId @ text_schedule_failed @ store_api_ret e))))
       (\<lambda>res. Inr (SetError e s, res))"

definition GetSchedule :: "('db, 'p) handler" where
  "GetSchedule env hv info s =
     (case info of
        None \<Rightarrow> Inr (s, None)
      | Some txt \<Rightarrow>
          ebind (abind (post_ids txt) (\<lambda>(obj, m, n). abind (schedule_type obj) (\<lambda>typeId. Inr (Inr (m, n, typeId))))) (\<lambda>r.
          case r of
            Inl e \<Rightarrow> get_error [] e s
          | Inr (m, n, typeId) \<Rightarrow>
              ebind (device_id m n) (\<lambda>cameraId.
              if typeId \<noteq> 0 \<and> typeId \<noteq> 1 then get_error cameraId invalid_schedule_type_in_json s
              else case schedule_json cameraId (if typeId = 0 then REC_SCHE_JSON_NAME else BAK_SCHE_JSON_NAME) s of (s1, scheduleJson) \<Rightarrow>
                if scheduleJson = [] then get_error cameraId do_not_find_camera s1
                else ebind (cJSON_Parse scheduleJson) (\<lambda>p.
                case p of
                  None \<Rightarrow> get_error cameraId cjson_called_error s1
                | Some scheParsObj \<Rightarrow>
                    ebind (node_text (Some m)) (\<lambda>mainId. ebind (node_text (Some n)) (\<lambda>subId.
                    ebind (schedule_object mainId subId scheParsObj) (\<lambda>scheduleObj.
                    ebind (cJSON_Print (cJSON_AddItemToObject
                             (cJSON_AddItemToObject cJSON_CreateObject ''code'' (Some (cJSON_CreateBool True)))
                             ''schedule'' (Some scheduleObj))) (\<lambda>res. Inr (s1, res)))))))))"

section \<open>Recordings on demand and operations on files\<close>

definition event_fields :: "string \<Rightarrow> (store_api_error + cjson \<times> cjson \<times> cjson \<times> cjson option \<times> cjson) res" where
  "event_fields info =
     abind (post_ids info) (\<lambda>(obj, m, n).
     abind (need obj START_TIME_JSON_NAME no_start_time_in_json) (\<lambda>startObj.
     abind (need obj EVENT_ID_JSON_NAME no_type_id_in_json) (\<lambda>typeObj.
     Inr (Inr (m, n, startObj, cJSON_GetObjectItem obj END_TIME_JSON_NAME, typeObj)))))"

definition event_type :: "int \<Rightarrow> (string \<times> stream_fn) option" where
  "event_type i = (if i = 1 then Some (RECODE_TYPE_MANUAL, StoreManualStream)
     else if i = 2 then Some (RECODE_TYPE_ALARM, StoreAlarmStream) else None)"

definition start_event ::
    "('db, 'p) service_env \<Rightarrow> string \<Rightarrow> tm \<Rightarrow> tm \<Rightarrow> string \<times> stream_fn \<Rightarrow> ('db, 'p) service \<Rightarrow> ('db, 'p) quit" where
  "start_event env cameraId startTm endTm kind s =
     (case kind of (storeType, cb) \<Rightarrow>
      case AddStoreEvent (en_store env) cameraId storeType (sv_store s) of (st, r, e) \<Rightarrow>
      qbind (Inr (api_result r e (s\<lparr>sv_store := st\<rparr>))) (\<lambda>s1.
      undo (ebind (AddStreamEvent (en_create env) cameraId startTm endTm cb) (\<lambda>(t, r2).
            Inr (api_result r2 None (s1\<lparr>sv_events := sv_events s1 @ (case t of None \<Rightarrow> [] | Some th \<Rightarrow> [th])\<rparr>))))
        (\<lambda>s'. Inr (s'\<lparr>sv_store := fst (RemoveStoreEvent cameraId storeType (sv_store s'))\<rparr>))))"

definition EventRecode :: "('db, 'p) handler" where
  "EventRecode env hv info s =
     (case info of
        None \<Rightarrow> Inr (s, None)
      | Some txt \<Rightarrow>
          ebind (event_fields txt) (\<lambda>r.
          case r of
            Inl e \<Rightarrow> respond_error 128 [] [] e s
          | Inr (m, n, startObj, endObj, typeObj) \<Rightarrow>
              ebind (device_id m n) (\<lambda>cameraId.
              ebind (node_text (Some startObj)) (\<lambda>startTime. ebind (node_text endObj) (\<lambda>endTime.
              ebind (TransDateToTm startTime (fst (hv_tms hv))) (\<lambda>(startTm, r1).
              if r1 < 0 then respond_error 128 [] [] invalid_date_format_in_json s
              else ebind (TransDateToTm endTime (snd (hv_tms hv))) (\<lambda>(endTm, r2).
              if r2 < 0 then respond_error 128 [] [] invalid_date_format_in_json s
              else case event_type (valueint typeObj) of
                     None \<Rightarrow> respond_error 128 [] [] invalid_event_type_in_json s
                   | Some kind \<Rightarrow> ebind (start_event env cameraId startTm endTm kind s) (respond 128 [] []))))))))"

definition file_fields :: "string \<Rightarrow> (store_api_error + cjson \<times> cjson \<times> cjson \<times> cjson) res" where
  "file_fields info =
     abind (post_ids info) (\<lambda>(obj, m, n).
     abind (need obj FILE_NAME_JSON_NAME no_file_name_in_json) (\<lambda>fileObj.
     abind (need obj OPERATE_TYPE_JSON_NAME no_operate_type_in_json) (\<lambda>opObj.
     Inr (Inr (m, n, fileObj, opObj)))))"

definition operate ::
    "('db, 'p) service_env \<Rightarrow> string \<Rightarrow> string \<Rightarrow> int \<Rightarrow> ('db, 'p) service \<Rightarrow> ('db, 'p) quit" where
  "operate env deviceId operateFile op s =
     (if op = 2 then
        ebind (BackupClientStart (en_net env) (en_exec env) (en_client env) deviceId operateFile (sv_peer s, sv_db s)) (\<lambda>((p, db), r).
        Inr (s\<lparr>sv_peer := p, sv_db := db\<rparr>, if r < 0 then Some text_backup_failed else None))
      else if op = 0 then Inr (sql_step env (UpdateStatusToTable (en_exec env) deviceId operateFile RECODE_FILE_STATUS_LOCK) s)
      else if op = 1 then Inr (sql_step env (UpdateStatusToTable (en_exec env) deviceId operateFile RECODE_FILE_STATUS_UNLOCK) s)
      else Inr (SetError invalid_file_operate_type s, Some (store_api_ret invalid_file_operate_type)))"

definition OperateFile :: "('db, 'p) handler" where
  "OperateFile env hv info s =
     (case info of
        None \<Rightarrow> Inr (s, None)
      | Some txt \<Rightarrow>
          ebind (file_fields txt) (\<lambda>r.
          case r of
            Inl e \<Rightarrow> respond_error 128 [] [] e s
          | Inr (m, n, fileObj, opObj) \<Rightarrow>
              ebind (device_id m n) (\<lambda>deviceId. ebind (node_text (Some fileObj)) (\<lambda>operateFile.
              ebind (operate env deviceId operateFile (valueint opObj) s) (respond 128 [] [])))))"

section \<open>Lists of recordings\<close>

definition recording_object :: "mysqlstoreinfo \<Rightarrow> cjson" where
  "recording_object i =
     (let add = (\<lambda>name txt obj. cJSON_AddItemToObject obj name (Some (cJSON_CreateString txt)))
      in add CAMERA_BACKUP_MYSQL_NAME (file_backup i) (add CAMERA_STATUS_MYSQL_NAME (file_status i)
           (add CAMERA_TYPE_MYSQL_NAME (file_type i) (add CAMERA_NAME_MYSQL_NAME (file_name i) cJSON_CreateObject))))"

definition list_body :: "(mysqlstoreinfo \<Rightarrow> bool) \<Rightarrow> mysqlstoreinfo list \<Rightarrow> cjson" where
  "list_body keep recordeList =
     cJSON_AddItemToObject (cJSON_AddItemToObject cJSON_CreateObject ''code'' (Some (cJSON_CreateBool True))) ''message''
       (Some (foldl (\<lambda>arr i. if keep i then cJSON_AddItemToArray arr (Some (recording_object i)) else arr) cJSON_CreateArray recordeList))"

definition list_error :: "string \<Rightarrow> string \<Rightarrow> ('db, 'p) service \<Rightarrow> (('db, 'p) service \<times> string option) res" where
  "list_error cameraId err s =
     ebind (cJSON_Print (cJSON_AddItemToObject
        (cJSON_AddItemToObject cJSON_CreateObject ''code'' (Some (cJSON_CreateBool False)))
        ''message'' (Some (cJSON_CreateString (snprintf 128 (''('' @ cameraId @ text_query_failed @ err)))))) (\<lambda>res. Inr (s, res))"

text \<open>The query and the answer. A positive value of the query is an error of the database; while \<open>other_error\<close> is null it
  counts as success.\<close>

definition answer_list ::
    "('db, 'p) service_env \<Rightarrow> (mysqlstoreinfo \<Rightarrow> bool) \<Rightarrow> string \<Rightarrow> string \<Rightarrow> string \<Rightarrow> ('db, 'p) service \<Rightarrow>
     (('db, 'p) service \<times> string option) res" where
  "answer_list env keep cameraId startTime endTime s =
     ebind (QueryInfoByDate (en_exec env) (en_mktime env) (en_garbage env) cameraId startTime endTime [] (sv_db s)) (\<lambda>(db, recordeList, r, e).
     let s1 = s\<lparr>sv_db := db\<rparr>
     in case (if 0 < r then (s1, GetOtherError env s1) else api_result r e s1) of
          (s2, Some err) \<Rightarrow> list_error cameraId err s2
        | (s2, None) \<Rightarrow> ebind (cJSON_Print (list_body keep recordeList)) (\<lambda>res. Inr (s2, res)))"

definition recode_type :: "int \<Rightarrow> string option" where
  "recode_type i = (if i = 0 then Some RECODE_TYPE_PLANNED else if i = 1 then Some RECODE_TYPE_MANUAL
     else if i = 2 then Some RECODE_TYPE_ALARM else None)"

definition list_fields :: "string \<Rightarrow> (store_api_error + cjson \<times> cjson \<times> cjson \<times> cjson \<times> cjson option) res" where
  "list_fields info =
     abind (post_ids info) (\<lambda>(obj, m, n).
     abind (need obj START_TIME_JSON_NAME no_start_time_in_json) (\<lambda>startObj.
     Inr (Inr (obj, m, n, startObj, cJSON_GetObjectItem obj END_TIME_JSON_NAME))))"

definition list_range :: "cjson \<Rightarrow> cjson \<Rightarrow> cjson \<Rightarrow> cjson option \<Rightarrow> (string \<times> string \<times> string) res" where
  "list_range m n startObj endObj =
     ebind (device_id m n) (\<lambda>cameraId. ebind (node_text (Some startObj)) (\<lambda>startTime. ebind (node_text endObj) (\<lambda>endTime.
     Inr (cameraId, startTime, endTime))))"

definition GetRecodeList :: "('db, 'p) handler" where
  "GetRecodeList env hv info s =
     (case info of
        None \<Rightarrow> Inr (s, None)
      | Some txt \<Rightarrow>
          ebind (abind (list_fields txt) (\<lambda>(obj, m, n, startObj, endObj).
                 abind (need obj TYPE_ID_JSON_NAME no_type_id_in_json) (\<lambda>typeObj.
                 case recode_type (valueint typeObj) of
                   None \<Rightarrow> Inr (Inl invalid_type_id_in_json)
                 | Some recodeType \<Rightarrow> Inr (Inr (m, n, startObj, endObj, recodeType))))) (\<lambda>r.
          case r of
            Inl e \<Rightarrow> list_error [] (store_api_ret e) (SetError e s)
          | Inr (m, n, startObj, endObj, recodeType) \<Rightarrow>
              ebind (list_range m n startObj endObj) (\<lambda>(cameraId, startTime, endTime).
              answer_list env (\<lambda>i. recodeType = file_type i) cameraId startTime endTime s)))"

definition GetBackupList :: "('db, 'p) handler" where
  "GetBackupList env hv info s =
     (case info of
        None \<Rightarrow> Inr (s, None)
      | Some txt \<Rightarrow>
          ebind (list_fields txt) (\<lambda>r.
          case r of
            Inl e \<Rightarrow> list_error [] (store_api_ret e) (SetError e s)
          | Inr (obj, m, n, startObj, endObj) \<Rightarrow>
              ebind (list_range m n startObj endObj) (\<lambda>(cameraId, startTime, endTime).
              answer_list env (\<lambda>i. file_backup i = ''yes'') cameraId startTime endTime s)))"

section \<open>Playback\<close>

definition playback_error :: "store_api_error \<Rightarrow> ('db, 'p) service \<Rightarrow> (('db, 'p) service \<times> string option) res" where
  "playback_error e s = ebind (CreateRespondString False (Some (store_api_ret e))) (\<lambda>res. Inr (SetError e s, res))"

definition playback_fields :: "string \<Rightarrow> string \<Rightarrow> (store_api_error + cjson \<times> cjson \<times> cjson) res" where
  "playback_fields name info =
     abind (post_ids info) (\<lambda>(obj, m, n). abind (need obj name no_url_in_json) (\<lambda>item. Inr (Inr (m, n, item))))"

definition AddPlaybackDev :: "('db, 'p) handler" where
  "AddPlaybackDev env hv info s =
     (case info of
        None \<Rightarrow> Inr (s, None)
      | Some txt \<Rightarrow>
          ebind (playback_fields FILE_NAME_JSON_NAME txt) (\<lambda>r.
          case r of
            Inl e \<Rightarrow> playback_error e s
          | Inr (m, n, fileNameObj) \<Rightarrow>
              ebind (device_id m n) (\<lambda>cameraId. ebind (node_text (Some fileNameObj)) (\<lambda>name.
              let pb_file = cfg_storePath (en_config env) @ cameraId @ ''/'' @ name
              in case TranslateToMp4 (en_config env) (hv_media hv pb_file) pb_file of (url, stamps, ret) \<Rightarrow>
                 let s1 = s\<lparr>sv_converted := sv_converted s @ [(pb_file, stamps)]\<rparr>
                 in if ret < 0 then playback_error trans_to_mp4_fail s1
                    else ebind (cJSON_Print (cJSON_AddItemToObject
                           (cJSON_AddItemToObject cJSON_CreateObject URL_JSON_NAME (Some (cJSON_CreateString url)))
                           ''code'' (Some (cJSON_CreateBool True)))) (\<lambda>res. Inr (s1, res))))))"

text \<open>The name of the file behind the last slash of the address, its first \<open>%20\<close> replaced by a blank.\<close>

definition playback_file :: "string \<Rightarrow> string option" where
  "playback_file pb_url =
     (let pb_file = after_last CHR ''/'' pb_url
      in case strstr pb_file ''%20'' of
           Some rest \<Rightarrow> Some (take (length pb_file - length rest) pb_file @ '' '' @ drop 3 rest)
         | None \<Rightarrow> if CHR '' '' \<in> set pb_file then Some pb_file else None)"

definition DelPlaybackDev :: "('db, 'p) handler" where
  "DelPlaybackDev env hv info s =
     (case info of
        None \<Rightarrow> Inr (s, None)
      | Some txt \<Rightarrow>
          ebind (playback_fields URL_JSON_NAME txt) (\<lambda>r.
          case r of
            Inl e \<Rightarrow> playback_error e s
          | Inr (m, n, pbUrlObj) \<Rightarrow>
              ebind (device_id m n) (\<lambda>cameraId. ebind (node_text (Some pbUrlObj)) (\<lambda>pb_url.
              case playback_file pb_url of
                None \<Rightarrow> playback_error invalid_url_in_json s
              | Some pb_file \<Rightarrow>
                  (let path = transMediaPath (en_config env) @ pb_file
                   in if \<not> en_unlink_ok env path then playback_error delete_file_fail s
                      else ebind (CreateRespondString True (Some text_done)) (\<lambda>res.
                           Inr (s\<lparr>sv_unlinked := sv_unlinked s @ [path]\<rparr>, res)))))))"

section \<open>Dispatch\<close>

definition httpReqList :: "(string \<times> ('db, 'p) handler) list" where
  "httpReqList =
     [(''addrecodedevice'', AddRecodeDevice), (''deleterecodedevice'', DeleteRecodeDevice), (''updateschedule'', UpdateSchedule),
      (''getschedule'', GetSchedule), (''eventrecode'', EventRecode), (''operatefile'', OperateFile), (''getrecodelist'', GetRecodeList),
      (''getbackuplist'', GetBackupList), (''playback'', AddPlaybackDev), (''deleteplayback'', DelPlaybackDev)]"

text \<open>The copying in \<open>ParseReq\<close>; \<open>n\<close> is the length of the text from \<open>end\<close> on, so \<open>start < end\<close> is \<open>n < length start\<close>.\<close>

fun req_loop :: "nat \<Rightarrow> string \<Rightarrow> string \<Rightarrow> (string \<times> string) res" where
  "req_loop n req [] = Inr (req, [])"
| "req_loop n req (c # cs) =
     (if length (c # cs) \<le> n then Inr (req, c # cs)
      else if HTTP_REQ_STRING_LEN \<le> length req then Inl OutOfBounds
      else if starts (\<lambda>d. d = CHR ''/'' \<or> d = CHR '' '') cs then Inr (req @ [c], cs)
      else req_loop n (req @ [c]) cs)"

text \<open>The name of the request, and the rest of the text; \<open>None\<close> is the null pointer.\<close>

definition ParseReq :: "string option \<Rightarrow> (string \<times> string) option res" where
  "ParseReq content =
     (case content of
        None \<Rightarrow> Inr None
      | Some txt \<Rightarrow>
          (case (case strstr_behind txt ''GET /'' of None \<Rightarrow> strstr_behind txt ''POST /'' | Some s \<Rightarrow> Some s) of
             None \<Rightarrow> Inr None
           | Some start \<Rightarrow>
               (case strstr txt http_ver of
                  None \<Rightarrow> Inr None
                | Some end_text \<Rightarrow> ebind (req_loop (length end_text) [] start) (\<lambda>r. Inr (Some r)))))"

definition ResponseReq :: "('db, 'p) service_env \<Rightarrow> http_env \<Rightarrow> string \<Rightarrow> string \<Rightarrow> ('db, 'p) service \<Rightarrow> (('db, 'p) service \<times> string option) res" where
  "ResponseReq env hv req info s =
     (case map_of httpReqList req of None \<Rightarrow> Inr (s, None) | Some req_handle \<Rightarrow> req_handle env hv (Some info) s)"

text \<open>
  The rest of a body that has not arrived yet is read behind the text, over its NUL; nothing is appended to it, so the text
  goes on into bytes that were never written. The read is not limited to the buffer.
\<close>

definition read_rest :: "http_env \<Rightarrow> byte list \<Rightarrow> nat \<Rightarrow> byte list res" where
  "read_rest hv content content_len =
     ebind (ParseContentLen (hv_stack hv) (Some (string_of content))) (\<lambda>parse_content_len.
     ebind (cstr_at content 0) (\<lambda>txt.
     case (if 0 < parse_content_len then ParsePostData txt else None) of
       None \<Rightarrow> Inr content
     | Some info \<Rightarrow>
         if int (length info) < parse_content_len then
           (let got = take (nat parse_content_len - length info) (hv_more hv)
            in if hv_cap hv < content_len + length got then Inl OutOfBounds
               else if got = [] then Inr content
               else Inr (take content_len content @ got @ drop (content_len + length got) content))
         else Inr content))"

definition bad_request :: cjson where
  "bad_request = cJSON_AddItemToObject cJSON_CreateObject ''message'' (Some (cJSON_CreateString text_bad_request))"

text \<open>\<open>ResponseClient\<close>, the callback of the server: the state is paired with the bytes written to the socket.\<close>

definition ResponseClient ::
    "('db, 'p) service_env \<Rightarrow> http_env \<Rightarrow> (('db, 'p) service \<times> byte list) client_cb" where
  "ResponseClient env hv content content_len w =
     (case w of (s, sent) \<Rightarrow>
        ebind (read_rest hv content content_len) (\<lambda>content'.
        ebind (cstr_at content' 0) (\<lambda>txt.
        ebind (ParseReq (Some txt)) (\<lambda>r.
        ebind (case r of None \<Rightarrow> Inr (s, None) | Some (req, info) \<Rightarrow> ResponseReq env hv req info s) (\<lambda>(s', body).
        ebind (case body of
                 Some b \<Rightarrow> Inr (CreateResponse (Some (''HTTP/1.1 200 OK'' @ CRLF)) (Some res_head) (Some b))
               | None \<Rightarrow> ebind (cJSON_Print bad_request) (\<lambda>b.
                   Inr (CreateResponse (Some (''HTTP/1.1 400 Bad Request'' @ CRLF)) (Some res_head) b))) (\<lambda>res.
        case res of None \<Rightarrow> Inl NullDeref | Some t \<Rightarrow> Inr (s', sent @ bytes_of t)))))))"

end
