(* ===== verification/HttpCorrect.thy ===== *)
theory HttpCorrect
  imports Http ServiceCorrect
begin

text \<open>
  Requests and the lists of the service. The locale \<open>device_lists\<close> states what an invariant of the lists has to survive; every
  handler then keeps it, proved once. The interpretation here is for the state in which the lists of the components and the list of
  cameras name the same devices and the environment does its part; a second one, without that condition, follows with the running service.
\<close>

section \<open>Invariants through the steps of a handler\<close>

definition keeps :: "('s \<Rightarrow> bool) \<Rightarrow> ('s \<times> 'x) res \<Rightarrow> bool" where
  "keeps Q x \<longleftrightarrow> (\<forall>s e. x = Inr (s, e) \<longrightarrow> Q s)"

lemma keeps_simps [simp]: "keeps Q (Inl f)" "keeps Q (Inr (s, e)) \<longleftrightarrow> Q s"
  by (auto simp: keeps_def)

lemma keeps_ebind: "keeps Q x \<Longrightarrow> (\<And>s e. Q s \<Longrightarrow> keeps R (k (s, e))) \<Longrightarrow> keeps R (ebind x k)"
  by (cases x) (fastforce simp: keeps_def)+

lemma keeps_value: "(\<And>a. x = Inr a \<Longrightarrow> keeps Q (k a)) \<Longrightarrow> keeps Q (ebind x k)"
  by (cases x) auto

lemma keeps_qbind: "keeps Q x \<Longrightarrow> (\<And>s. Q s \<Longrightarrow> keeps Q (k s)) \<Longrightarrow> keeps Q (qbind x k)"
  by (auto simp: qbind_def intro!: keeps_ebind split: option.splits)

lemma keeps_undo:
  "keeps Q x \<Longrightarrow> (\<And>s. Q s \<Longrightarrow> case c s of Inl _ \<Rightarrow> True | Inr s' \<Rightarrow> Q s') \<Longrightarrow> keeps Q (undo x c)"
  unfolding undo_def
  by (erule keeps_ebind) (fastforce split: option.split sum.splits intro!: keeps_value)

section \<open>Facts about the lists\<close>

lemma api_result_ok [simp]: "api_result 0 None s = (s, None)"
  by (simp add: api_result_def)

lemma qbind_simps [simp]: "qbind (Inr (s, None)) k = k s" "qbind (Inr (s, Some e)) k = Inr (s, Some e)"
  by (simp_all add: qbind_def)

lemma undo_simps [simp]:
  "undo (Inr (s, None)) c = Inr (s, None)" "undo (Inr (s, Some e)) c = ebind (c s) (\<lambda>s'. Inr (s', Some e))"
  by (simp_all add: undo_def)

lemma camera_id_new [simp]: "camera_id (new_camera_info k name r b) = k"
  by (simp add: camera_id_def info_field_def new_camera_info_def CAMERA_ID_MYSQL_NAME_def CAMERA_NAME_MYSQL_NAME_def
      REC_SCHE_JSON_NAME_def BAK_SCHE_JSON_NAME_def)

definition known :: "('db, 'p) service \<Rightarrow> string \<Rightarrow> bool" where
  "known s k \<longleftrightarrow> k \<in> camera_id ` set (cameraInfoList s)"

lemma known_frame: "cameraInfoList s' = cameraInfoList s \<Longrightarrow> known s' = known s"
  by (simp add: known_def fun_eq_iff)

text \<open>The part of \<open>AddRecodeDevice\<close> behind the statements of the database.\<close>

definition enter_lists ::
    "('db, 'p) service_env \<Rightarrow> string \<Rightarrow> string \<Rightarrow> string \<Rightarrow> string \<Rightarrow> schedule \<Rightarrow> schedule \<Rightarrow> ('db, 'p) service \<Rightarrow> ('db, 'p) quit" where
  "enter_lists env devId name rec_text bak_text rec_sche bak_sche s2 =
     qbind (add_bak devId bak_sche s2) (\<lambda>s3.
           undo (qbind (add_store env devId s3) (\<lambda>s4.
                 undo (qbind (add_stream devId rec_sche s4) (\<lambda>s5.
                       Inr (s5\<lparr>cameraInfoList := cameraInfoList s5 @ [new_camera_info devId name rec_text bak_text]\<rparr>, None)))
                   (\<lambda>s'. ebind (remove_store env devId s') (\<lambda>(s'', _). Inr s''))))
             (remove_bak devId))"

lemma add_camera_enter:
  "add_camera env k name r b s =
     with_schedule r s (\<lambda>rs. with_schedule b s (\<lambda>bs.
     qbind (Inr (sql_step env (CreateCameraTable (en_exec env) k) s)) (\<lambda>s1.
     qbind (Inr (sql_step env (InsertCameraInfoToTable (en_exec env) k name r b) s1)) (\<lambda>s2.
     undo (enter_lists env k name r b rs bs s2) (\<lambda>s'. Inr (fst (delete_info env k s')))))))"
  by (simp add: add_camera_def enter_lists_def)

lemma DeleteStream_result:
  assumes "streams_ok st" "DeleteStream ends (Some k) st = Inr (st', r, e)"
  shows "streams_ok st' \<and> stream_present st' = (stream_present st)(k := False)"
  using assms
  by (auto simp: DeleteStream_def streams_ok_def stream_present_def map_of_list_set fun_eq_iff split: option.splits if_splits)

lemma RemoveStoreDevice_present:
  "RemoveStoreDevice env k st = Inr (st', r, e) \<Longrightarrow> store_present st' = (store_present st)(k := False)"
  by (auto simp: RemoveStoreDevice_lists store_present_def fun_eq_iff)

lemma RemoveBakSchedule_result: "RemoveBakSchedule k l = Inr (l', r) \<Longrightarrow> bak_present l' = (bak_present l)(k := False)"
  by (auto simp: RemoveBakSchedule_def bak_present_def fun_eq_iff split: option.splits if_splits)

lemma DeleteCameraInfoInList_ids:
  "distinct (map camera_id cs) \<Longrightarrow>
   distinct (map camera_id (DeleteCameraInfoInList k cs)) \<and> camera_id ` set (DeleteCameraInfoInList k cs) = camera_id ` set cs - {k}"
proof (induction k cs rule: DeleteCameraInfoInList.induct)
  case (2 k ci rest)
  have id: "info_field ci ''id'' = camera_id ci" by (simp add: camera_id_def CAMERA_ID_MYSQL_NAME_def)
  from 2 show ?case by (auto simp: id image_iff)
qed simp

lemma api_result_lists [simp]:
  "sv_streams (fst (api_result r e s)) = sv_streams s" "sv_store (fst (api_result r e s)) = sv_store s"
  "sv_bak (fst (api_result r e s)) = sv_bak s" "cameraInfoList (fst (api_result r e s)) = cameraInfoList s"
  by (simp_all add: api_result_def Let_def SetError_def split: option.split)

lemma sql_step_lists [simp]:
  "sv_streams (fst (sql_step env f s)) = sv_streams s" "sv_store (fst (sql_step env f s)) = sv_store s"
  "sv_bak (fst (sql_step env f s)) = sv_bak s" "cameraInfoList (fst (sql_step env f s)) = cameraInfoList s"
  by (simp_all add: sql_step_def Let_def split: prod.split)

text \<open>A deletion that returns without the error of the database has run all four removals.\<close>

lemma delete_camera_steps:
  assumes "delete_camera env k s = Inr (s', err)"
  obtains e where "(s', err) = (fst (delete_info env k s), Some e)"
  | streams r e st r' e' bak r'' where
      "DeleteStream (en_ends env) (Some k) (sv_streams s) = Inr (streams, r, e)"
      "RemoveStoreDevice (en_store env) k (sv_store s) = Inr (st, r', e')" "RemoveBakSchedule k (sv_bak s) = Inr (bak, r'')"
      "sv_streams s' = streams" "sv_store s' = st" "sv_bak s' = bak" "cameraInfoList s' = DeleteCameraInfoInList k (cameraInfoList s)"
proof (cases "snd (delete_info env k s)")
  case (Some e)
  then show thesis using assms that(1) by (cases "delete_info env k s") (auto simp: delete_camera_def)
next
  case None
  define s1 where "s1 = fst (delete_info env k s)"
  have s1: "delete_info env k s = (s1, None)" using None by (simp add: s1_def prod_eq_iff)
  have l1: "sv_streams s1 = sv_streams s" "sv_store s1 = sv_store s" "sv_bak s1 = sv_bak s" "cameraInfoList s1 = cameraInfoList s"
    by (simp_all add: s1_def delete_info_def)
  obtain streams r e where d: "DeleteStream (en_ends env) (Some k) (sv_streams s) = Inr (streams, r, e)"
    using assms by (auto simp: delete_camera_def s1 l1 ebind_eq_Inr)
  obtain s2 err1 where s2: "api_result r e (s1\<lparr>sv_streams := streams\<rparr>) = (s2, err1)" by fastforce
  obtain s3 err2 s4 where s3: "remove_store env k s2 = Inr (s3, err2)" and s4: "remove_bak k s3 = Inr s4"
    and s': "s' = s4\<lparr>cameraInfoList := DeleteCameraInfoInList k (cameraInfoList s4)\<rparr>"
    using assms by (auto simp: delete_camera_def s1 l1 d s2 ebind_eq_Inr)
  have l2: "sv_streams s2 = streams" "sv_store s2 = sv_store s" "sv_bak s2 = sv_bak s" "cameraInfoList s2 = cameraInfoList s"
    using api_result_lists [of r e "s1\<lparr>sv_streams := streams\<rparr>"] s2 l1 by auto
  obtain st r' e' bak r'' where
    st: "RemoveStoreDevice (en_store env) k (sv_store s) = Inr (st, r', e')" "api_result r' e' (s2\<lparr>sv_store := st\<rparr>) = (s3, err2)"
    and b: "RemoveBakSchedule k (sv_bak s3) = Inr (bak, r'')" "s4 = s3\<lparr>sv_bak := bak\<rparr>"
    using s3 s4 by (auto simp: remove_store_def remove_bak_def ebind_eq_Inr l2)
  have "sv_streams s3 = streams" "sv_store s3 = st" "sv_bak s3 = sv_bak s" "cameraInfoList s3 = cameraInfoList s"
    using api_result_lists [of r' e' "s2\<lparr>sv_store := st\<rparr>"] st(2) l2 by auto
  then show thesis using that(2) [OF d st(1)] b s' by simp
qed

lemma camera_id_touch [simp]: "camera_id (info_touch key ci) = camera_id ci"
  by (simp add: camera_id_def info_touch_def info_field_def split: option.split)

lemma camera_id_upd [simp]: "key \<noteq> CAMERA_ID_MYSQL_NAME \<Longrightarrow> camera_id (ci(key \<mapsto> t)) = camera_id ci"
  by (simp add: camera_id_def info_field_def)

lemma find_camera_ids: "map camera_id (fst (find_camera k cs)) = map camera_id cs"
  by (induction k cs rule: find_camera.induct) (auto simp: Let_def split: prod.splits)

lemma find_camera_nth:
  "find_camera k cs = (cs', Some i) \<Longrightarrow> i < length cs' \<and> camera_id (cs' ! i) = k"
proof (induction k cs arbitrary: cs' i rule: find_camera.induct)
  case (2 k ci rest)
  obtain rest' r where rest: "find_camera k rest = (rest', r)" by fastforce
  show ?case
  proof (cases "info_field (info_touch CAMERA_ID_MYSQL_NAME ci) CAMERA_ID_MYSQL_NAME = k")
    case True
    with 2(2) show ?thesis by (auto simp: Let_def camera_id_def)
  next
    case False
    with 2(2) rest obtain j where j: "r = Some j" "i = Suc j" "cs' = info_touch CAMERA_ID_MYSQL_NAME ci # rest'"
      by (auto simp: Let_def)
    from 2(1) [OF refl False, of rest' j] rest j show ?thesis by simp
  qed
qed simp

lemma map_update_same: "f v = f (xs ! i) \<Longrightarrow> map f (xs[i := v]) = map f xs"
  by (cases "i < length xs") (auto simp: map_update list_update_same_conv list_update_beyond)

lemma schedule_names: "REC_SCHE_JSON_NAME \<noteq> CAMERA_ID_MYSQL_NAME" "BAK_SCHE_JSON_NAME \<noteq> CAMERA_ID_MYSQL_NAME"
  by (simp_all add: REC_SCHE_JSON_NAME_def BAK_SCHE_JSON_NAME_def CAMERA_ID_MYSQL_NAME_def)

lemma AddStoreEvent_devices: "storeDeviceList (fst (AddStoreEvent env k type st)) = storeDeviceList st"
  by (auto simp: AddStoreEvent_def Let_def split: sum.split)

lemma RemoveStoreEvent_devices: "storeDeviceList (fst (RemoveStoreEvent k type st)) = storeDeviceList st"
  by (simp add: RemoveStoreEvent_def)

lemma UpdateRecodeSchedule_result:
  assumes "streams_ok st" "UpdateRecodeSchedule k sche st = Inr (st', r, e)"
  shows "streams_ok st' \<and> stream_present st' = stream_present st"
  using assms
  by (auto simp: UpdateRecodeSchedule_def streams_ok_def stream_present_def map_of_list_set fun_eq_iff split: option.splits if_splits)

lemma UpdateBakSchedule_result: "UpdateBakSchedule k sche l = (l', r, e) \<Longrightarrow> bak_present l' = bak_present l"
  by (intro ext) (auto simp: UpdateBakSchedule_def bak_present_def split: option.splits if_splits)

section \<open>What an invariant of the lists survives\<close>

text \<open>
  The invariant depends on the four lists only, and of the list of cameras only on the ids. It survives entering a camera, the
  removal of one from all lists, a change of either schedule, and the start and the end of a timed recording.
\<close>

locale device_lists =
  fixes env :: "('db, 'p) service_env" and inv :: "('db, 'p) service \<Rightarrow> bool"
  assumes inv_frame: "sv_bak s' = sv_bak s \<Longrightarrow> sv_store s' = sv_store s \<Longrightarrow> sv_streams s' = sv_streams s \<Longrightarrow>
      cameraInfoList s' = cameraInfoList s \<Longrightarrow> inv s' \<longleftrightarrow> inv s"
    and inv_ids: "inv s \<Longrightarrow> map camera_id cs = map camera_id (cameraInfoList s) \<Longrightarrow> inv (s\<lparr>cameraInfoList := cs\<rparr>)"
    and inv_enter: "inv s \<Longrightarrow> keeps inv (enter_lists env k name r b rs bs s)"
    and inv_delete: "inv s \<Longrightarrow> DeleteStream (en_ends env) (Some k) (sv_streams s) = Inr (streams, n, e) \<Longrightarrow>
      RemoveStoreDevice (en_store env) k (sv_store s) = Inr (st, n', e') \<Longrightarrow> RemoveBakSchedule k (sv_bak s) = Inr (bak, n'') \<Longrightarrow>
      sv_streams s' = streams \<Longrightarrow> sv_store s' = st \<Longrightarrow> sv_bak s' = bak \<Longrightarrow>
      cameraInfoList s' = DeleteCameraInfoInList k (cameraInfoList s) \<Longrightarrow> inv s'"
    and inv_rec: "inv s \<Longrightarrow> UpdateRecodeSchedule k sche (sv_streams s) = Inr (streams, n, e) \<Longrightarrow> inv (s\<lparr>sv_streams := streams\<rparr>)"
    and inv_bak: "inv s \<Longrightarrow> UpdateBakSchedule k sche (sv_bak s) = (bak, n, e) \<Longrightarrow> inv (s\<lparr>sv_bak := bak\<rparr>)"
    and inv_add_event: "inv s \<Longrightarrow> AddStoreEvent (en_store env) k type (sv_store s) = (st, n, e) \<Longrightarrow> inv (s\<lparr>sv_store := st\<rparr>)"
    and inv_remove_event: "inv s \<Longrightarrow> inv (s\<lparr>sv_store := fst (RemoveStoreEvent k type (sv_store s))\<rparr>)"
begin

lemma inv_SetError [simp]: "inv (SetError e s) \<longleftrightarrow> inv s"
  by (rule inv_frame) (simp_all add: SetError_def)

lemma inv_sv_db [simp]: "inv (s\<lparr>sv_db := db\<rparr>) \<longleftrightarrow> inv s"
  by (rule inv_frame) simp_all

lemma inv_files [simp]:
  "inv (s\<lparr>sv_converted := l\<rparr>) \<longleftrightarrow> inv s" "inv (s\<lparr>sv_unlinked := f\<rparr>) \<longleftrightarrow> inv s"
  by (rule inv_frame; simp)+

lemma inv_api_result: "inv (fst (api_result r e s)) \<longleftrightarrow> inv s"
  by (simp add: api_result_def Let_def split: option.split)

lemma keeps_api_result [simp]: "keeps inv (Inr (api_result r e s)) \<longleftrightarrow> inv s"
  using inv_api_result [of r e s] by (cases "api_result r e s") simp

lemma inv_sql_step: "inv (fst (sql_step env' f s)) \<longleftrightarrow> inv s"
  by (simp add: sql_step_def Let_def split: prod.split)

lemma keeps_sql_step [simp]: "keeps inv (Inr (sql_step env' f s)) \<longleftrightarrow> inv s"
  using inv_sql_step [of env' f s] by (cases "sql_step env' f s") simp

lemma keeps_respond: "inv (fst w) \<Longrightarrow> keeps inv (respond n b c w)"
  by (auto simp: respond_def intro!: keeps_value split: prod.split)

lemma keeps_respond_error: "inv s \<Longrightarrow> keeps inv (respond_error n b c e s)"
  by (simp add: respond_error_def keeps_respond)

text \<open>Answering after the steps.\<close>

lemma keeps_answer: "keeps inv x \<Longrightarrow> keeps inv (ebind x (respond n b c))"
  by (rule keeps_ebind [where Q = inv]) (auto intro: keeps_respond)

lemma keeps_with_schedule:
  "inv s \<Longrightarrow> (\<And>sche. keeps inv (k sche)) \<Longrightarrow> keeps inv (with_schedule t s k)"
  by (auto simp: with_schedule_def intro!: keeps_value split: sum.split)

lemma keeps_enter: "inv s \<Longrightarrow> keeps inv (undo (enter_lists env k name r b rs bs s) (\<lambda>s'. Inr (fst (delete_info env k s'))))"
  by (intro keeps_undo inv_enter) (simp_all add: delete_info_def inv_sql_step)

lemma keeps_add_camera: "inv s \<Longrightarrow> keeps inv (add_camera env k name r b s)"
  unfolding add_camera_enter
  by (intro keeps_with_schedule keeps_qbind [where Q = inv] keeps_enter) simp_all

lemma AddRecodeDevice_keeps: "inv s \<Longrightarrow> keeps inv (AddRecodeDevice env hv info s)"
  by (auto simp: AddRecodeDevice_def intro!: keeps_value keeps_answer keeps_add_camera keeps_respond_error split: option.split sum.split)

lemma keeps_delete_camera: "inv s \<Longrightarrow> keeps inv (delete_camera env k s)"
  unfolding keeps_def
proof (intro allI impI)
  fix s' err
  assume c: "inv s" and "delete_camera env k s = Inr (s', err)"
  from this(2) show "inv s'"
  proof (cases rule: delete_camera_steps)
    case 1
    then show ?thesis using c by (simp add: delete_info_def inv_sql_step)
  qed (rule inv_delete [OF c])
qed

lemma DeleteRecodeDevice_keeps: "inv s \<Longrightarrow> keeps inv (DeleteRecodeDevice env hv info s)"
  by (auto simp: DeleteRecodeDevice_def intro!: keeps_value keeps_answer keeps_delete_camera keeps_respond_error split: option.split sum.split)

lemma inv_set_info: "inv s \<Longrightarrow> key \<noteq> CAMERA_ID_MYSQL_NAME \<Longrightarrow> inv (set_info i key t s)"
proof -
  assume c: "inv s" and k: "key \<noteq> CAMERA_ID_MYSQL_NAME"
  have "map camera_id ((cameraInfoList s)[i := (cameraInfoList s ! i)(key \<mapsto> t)]) = map camera_id (cameraInfoList s)"
    by (rule map_update_same) (simp add: k)
  from inv_ids [OF c this] show ?thesis by (simp add: set_info_def)
qed

lemma keeps_change_rec: "inv s \<Longrightarrow> keeps inv (change_rec k sche s)"
  unfolding change_rec_def by (rule keeps_value) (auto dest: inv_rec)

lemma keeps_change_bak: "inv s \<Longrightarrow> keeps inv (change_bak k sche s)"
  by (auto simp: change_bak_def dest: inv_bak split: prod.split)

lemma keeps_update_part:
  assumes "inv s" "key \<noteq> CAMERA_ID_MYSQL_NAME" "\<And>sche s. inv s \<Longrightarrow> keeps inv (change sche s)"
  shows "keeps inv (update_part env sql change key idx obj (s, err))"
proof (cases obj)
  case (Some o')
  have step: "keeps inv (case sql_step env (sql t) s of
        (s1, Some e) \<Rightarrow> Inr (s1, Some e, True)
      | (s1, None) \<Rightarrow> ebind (change sche s1) (\<lambda>(s2, err2).
          Inr (set_info idx key t s2, case err2 of None \<Rightarrow> err | Some e \<Rightarrow> Some e, False)))" for t sche
  proof -
    obtain s1 e1 where s1: "sql_step env (sql t) s = (s1, e1)" by fastforce
    have c: "inv s1" using inv_sql_step [of env "sql t" s] assms(1) s1 by simp
    have "keeps inv (ebind (change sche s1) (\<lambda>(s2, err2).
          Inr (set_info idx key t s2, case err2 of None \<Rightarrow> err | Some e \<Rightarrow> Some e, False)))"
      by (rule keeps_ebind [OF assms(3) [OF c]]) (simp add: inv_set_info assms(2))
    with c s1 show ?thesis by (simp split: option.split)
  qed
  show ?thesis
    using assms(1) by (auto simp: update_part_def Some intro!: keeps_value step split: sum.split)
qed (simp add: update_part_def assms(1))

lemma keeps_update_schedules: "inv s \<Longrightarrow> keeps inv (update_schedules env k obj s)"
proof -
  assume c: "inv s"
  obtain cs i where f: "find_camera k (cameraInfoList s) = (cs, i)" by fastforce
  have c1: "inv (s\<lparr>cameraInfoList := cs\<rparr>)"
    by (rule inv_ids [OF c]) (use find_camera_ids [of k "cameraInfoList s"] f in simp)
  note part = keeps_update_part [OF _ schedule_names(1) keeps_change_rec] keeps_update_part [OF _ schedule_names(2) keeps_change_bak]
  show ?thesis
    using c1 by (auto simp: update_schedules_def f Let_def intro!: keeps_ebind [OF part(1)] keeps_ebind [OF part(2)] split: option.split)
qed

lemma UpdateSchedule_keeps: "inv s \<Longrightarrow> keeps inv (UpdateSchedule env hv info s)"
  by (auto simp: UpdateSchedule_def intro!: keeps_value keeps_answer keeps_update_schedules keeps_respond_error split: option.split sum.split)

lemma keeps_get_error: "inv s \<Longrightarrow> keeps inv (get_error k e s)"
  by (auto simp: get_error_def intro!: keeps_value)

lemma inv_schedule_json:
  assumes "schedule_json k key s = (s1, t)" "inv s"
  shows "inv s1"
proof -
  obtain cs i where f: "find_camera k (cameraInfoList s) = (cs, i)" by fastforce
  have ids: "map camera_id cs = map camera_id (cameraInfoList s)" using find_camera_ids [of k "cameraInfoList s"] f by simp
  have "map camera_id (cs[j := info_touch key (cs ! j)]) = map camera_id cs" for j
    by (rule map_update_same) simp
  with ids assms f inv_ids [OF assms(2)] show ?thesis
    by (auto simp: schedule_json_def split: option.splits)
qed

lemma GetSchedule_keeps: "inv s \<Longrightarrow> keeps inv (GetSchedule env hv info s)"
  using inv_schedule_json [of _ _ s]
  by (auto simp: GetSchedule_def intro!: keeps_value keeps_get_error split: option.split sum.split prod.split)

lemma keeps_start_event: "inv s \<Longrightarrow> keeps inv (start_event env k t1 t2 kind s)"
proof -
  assume c: "inv s"
  obtain type cb where kind: "kind = (type, cb)" by fastforce
  obtain st r e where a: "AddStoreEvent (en_store env) k type (sv_store s) = (st, r, e)" by (metis prod_cases3)
  have ev: "inv s1 \<Longrightarrow> inv (s1\<lparr>sv_events := evs\<rparr>)" for s1 evs
    by (subst inv_frame [of _ s1]) simp_all
  have "keeps inv (undo (ebind (AddStreamEvent (en_create env) k t1 t2 cb) (\<lambda>(t, r2).
            Inr (api_result r2 None (s1\<lparr>sv_events := sv_events s1 @ (case t of None \<Rightarrow> [] | Some th \<Rightarrow> [th])\<rparr>))))
        (\<lambda>s'. Inr (s'\<lparr>sv_store := fst (RemoveStoreEvent k type (sv_store s'))\<rparr>)))" if "inv s1" for s1
    by (rule keeps_undo, rule keeps_value) (auto simp: inv_remove_event ev that)
  moreover have "keeps inv (Inr (api_result r e (s\<lparr>sv_store := st\<rparr>)))"
    using inv_add_event [OF c a] by simp
  ultimately show ?thesis by (simp add: start_event_def kind a keeps_qbind)
qed

lemma EventRecode_keeps: "inv s \<Longrightarrow> keeps inv (EventRecode env hv info s)"
  by (auto simp: EventRecode_def intro!: keeps_value keeps_answer keeps_start_event keeps_respond_error split: option.split sum.split)

lemma keeps_operate: "inv s \<Longrightarrow> keeps inv (operate env k file op s)"
proof -
  assume c: "inv s"
  have "inv (s\<lparr>sv_peer := p, sv_db := db\<rparr>)" for p db
    using c by (subst inv_frame [of _ s]) simp_all
  with c show ?thesis by (auto simp: operate_def intro!: keeps_value)
qed

lemma OperateFile_keeps: "inv s \<Longrightarrow> keeps inv (OperateFile env hv info s)"
  by (auto simp: OperateFile_def intro!: keeps_value keeps_answer keeps_operate keeps_respond_error split: option.split sum.split)

lemma keeps_list_error: "inv s \<Longrightarrow> keeps inv (list_error k err s)"
  by (auto simp: list_error_def intro!: keeps_value)

lemma keeps_answer_list: "inv s \<Longrightarrow> keeps inv (answer_list env keep k t1 t2 s)"
  unfolding answer_list_def
proof (rule keeps_value, clarify)
  fix db l r e
  assume c: "inv s"
  let ?w = "if 0 < r then (s\<lparr>sv_db := db\<rparr>, GetOtherError env (s\<lparr>sv_db := db\<rparr>)) else api_result r e (s\<lparr>sv_db := db\<rparr>)"
  obtain s2 err where w: "?w = (s2, err)" by fastforce
  have "inv (fst ?w)" using c by (simp add: inv_api_result)
  then have "inv s2" unfolding w by simp
  then show "keeps inv (let s1 = s\<lparr>sv_db := db\<rparr>
      in case (if 0 < r then (s1, GetOtherError env s1) else api_result r e s1) of
           (s2, Some err) \<Rightarrow> list_error k err s2
         | (s2, None) \<Rightarrow> ebind (cJSON_Print (list_body keep l)) (\<lambda>res. Inr (s2, res)))"
    unfolding Let_def w by (auto intro!: keeps_list_error keeps_value split: option.split)
qed

lemma GetRecodeList_keeps: "inv s \<Longrightarrow> keeps inv (GetRecodeList env hv info s)"
  by (auto simp: GetRecodeList_def intro!: keeps_value keeps_answer_list keeps_list_error split: option.split sum.split)

lemma GetBackupList_keeps: "inv s \<Longrightarrow> keeps inv (GetBackupList env hv info s)"
  by (auto simp: GetBackupList_def intro!: keeps_value keeps_answer_list keeps_list_error split: option.split sum.split)

lemma keeps_playback_error: "inv s \<Longrightarrow> keeps inv (playback_error e s)"
  by (auto simp: playback_error_def intro!: keeps_value)

lemma AddPlaybackDev_keeps: "inv s \<Longrightarrow> keeps inv (AddPlaybackDev env hv info s)"
  by (auto simp: AddPlaybackDev_def Let_def intro!: keeps_value keeps_playback_error split: option.split sum.split prod.split)

lemma DelPlaybackDev_keeps: "inv s \<Longrightarrow> keeps inv (DelPlaybackDev env hv info s)"
  by (auto simp: DelPlaybackDev_def Let_def intro!: keeps_value keeps_playback_error split: option.split sum.split)

lemmas handlers_keep = AddRecodeDevice_keeps DeleteRecodeDevice_keeps UpdateSchedule_keeps GetSchedule_keeps EventRecode_keeps
  OperateFile_keeps GetRecodeList_keeps GetBackupList_keeps AddPlaybackDev_keeps DelPlaybackDev_keeps

lemma ResponseReq_keeps: "inv s \<Longrightarrow> keeps inv (ResponseReq env hv req info s)"
  by (auto simp: ResponseReq_def httpReqList_def handlers_keep split: option.split)

lemma ResponseClient_keeps:
  assumes "inv s" "ResponseClient env hv content n (s, sent) = Inr (s', sent')"
  shows "inv s'"
proof -
  have "keeps inv (ResponseClient env hv content n (s, sent))"
    unfolding ResponseClient_def prod.case
  proof (rule keeps_value, rule keeps_value, rule keeps_value)
    fix content' t r
    show "keeps inv
        (ebind (case r of None \<Rightarrow> Inr (s, None) | Some (req, info) \<Rightarrow> ResponseReq env hv req info s) (\<lambda>(s', body).
         ebind (case body of
                 Some b \<Rightarrow> Inr (CreateResponse (Some (''HTTP/1.1 200 OK'' @ CRLF)) (Some res_head) (Some b))
               | None \<Rightarrow> ebind (cJSON_Print bad_request) (\<lambda>b.
                   Inr (CreateResponse (Some (''HTTP/1.1 400 Bad Request'' @ CRLF)) (Some res_head) b))) (\<lambda>res.
         case res of None \<Rightarrow> Inl NullDeref | Some t \<Rightarrow> Inr (s', sent @ bytes_of t))))"
      by (rule keeps_ebind [where Q = inv])
        (use assms(1) in \<open>auto intro!: ResponseReq_keeps keeps_value split: option.split\<close>)
  qed
  with assms(2) show ?thesis by simp
qed

end

section \<open>All lists name the same devices\<close>

definition consistent :: "('db, 'p) service_env \<Rightarrow> ('db, 'p) service \<Rightarrow> bool" where
  "consistent env s \<longleftrightarrow> service_inv env s \<and> registered s (\<lambda>k. k \<in> camera_id ` set (cameraInfoList s)) \<and>
     distinct (map camera_id (cameraInfoList s))"

lemma consistent_frame:
  "sv_bak s' = sv_bak s \<Longrightarrow> sv_store s' = sv_store s \<Longrightarrow> sv_streams s' = sv_streams s \<Longrightarrow> cameraInfoList s' = cameraInfoList s \<Longrightarrow>
   consistent env s' \<longleftrightarrow> consistent env s"
  by (simp add: consistent_def service_inv_def registered_def)

lemma consistent_ids:
  assumes "consistent env s" "map camera_id cs = map camera_id (cameraInfoList s)"
  shows "consistent env (s\<lparr>cameraInfoList := cs\<rparr>)"
proof -
  have "camera_id ` set cs = camera_id ` set (cameraInfoList s)" using assms(2) by (metis list.set_map)
  with assms show ?thesis by (simp add: consistent_def service_inv_def registered_def)
qed

lemma enter_lists_new:
  assumes "consistent env s" "\<not> known s k"
  shows "\<exists>s'. enter_lists env k name r b rs bs s = Inr (s', None) \<and> consistent env s' \<and>
           cameraInfoList s' = cameraInfoList s @ [new_camera_info k name r b] \<and> sv_db s' = sv_db s \<and>
           (\<exists>bak st streams. AddBakSchedule k bs (sv_bak s) = (bak, 0, None) \<and> sv_bak s' = bak \<and>
              AddStream (Some k) rs (Some StorePlannedStream) (sv_streams s) = Inr (streams, 0, None) \<and> sv_streams s' = streams)"
proof -
  let ?P = "\<lambda>k. k \<in> camera_id ` set (cameraInfoList s)"
  have c: "service_inv env s" "registered s ?P" "distinct (map camera_id (cameraInfoList s))" "\<not> ?P k"
    using assms by (simp_all add: consistent_def known_def)
  obtain bak st streams where reg: "AddBakSchedule k bs (sv_bak s) = (bak, 0, None)"
      "AddStoreDevice (en_store env) k RECODE_TYPE_PLANNED (sv_store s) = (st, 0, None)"
      "AddStream (Some k) rs (Some StorePlannedStream) (sv_streams s) = Inr (streams, 0, None)"
      "store_inv st" "streams_ok streams"
      "bak_present bak = ?P(k := True)" "store_present st = ?P(k := True)" "stream_present streams = ?P(k := True)"
    by (rule register_device [OF c(1,2,4), of bs rs])
  let ?s = "s\<lparr>sv_bak := bak, sv_store := st, sv_streams := streams,
              cameraInfoList := cameraInfoList s @ [new_camera_info k name r b]\<rparr>"
  have "?P(k := True) = (\<lambda>x. x \<in> camera_id ` set (cameraInfoList ?s))" by (auto simp: fun_eq_iff)
  then have "consistent env ?s"
    using reg(4-8) c by (simp add: consistent_def service_inv_def registered_def)
  moreover have "enter_lists env k name r b rs bs s = Inr (?s, None)"
    by (simp add: enter_lists_def add_bak_def add_store_def add_stream_def reg(1-3))
  ultimately show ?thesis using reg(1,3) by auto
qed

lemma enter_lists_known:
  assumes "consistent env s" "known s k"
  shows "enter_lists env k name r b rs bs s = Inr (SetError device_already_exist s, Some (store_api_ret device_already_exist))"
proof -
  have "bak_present (sv_bak s) k" using assms by (simp add: consistent_def registered_def known_def fun_eq_iff)
  then have "AddBakSchedule k bs (sv_bak s) = (sv_bak s, -1, Some device_already_exist)"
    by (simp add: AddBakSchedule_def bak_present_def)
  then show ?thesis by (simp add: enter_lists_def add_bak_def api_result_def GetError_def SetError_def)
qed

lemma consistent_delete:
  assumes c: "consistent env s"
    and d: "DeleteStream (en_ends env) (Some k) (sv_streams s) = Inr (streams, r, e)"
    and st: "RemoveStoreDevice (en_store env) k (sv_store s) = Inr (st, r', e')"
    and b: "RemoveBakSchedule k (sv_bak s) = Inr (bak, r'')"
    and s': "sv_streams s' = streams" "sv_store s' = st" "sv_bak s' = bak" "cameraInfoList s' = DeleteCameraInfoInList k (cameraInfoList s)"
  shows "consistent env s'"
proof -
  let ?P = "\<lambda>x. x \<in> camera_id ` set (cameraInfoList s)"
  have reg: "bak_present (sv_bak s) = ?P" "store_present (sv_store s) = ?P" "stream_present (sv_streams s) = ?P"
    and inv: "store_inv (sv_store s)" "store_env_ok (en_store env)" "streams_ok (sv_streams s)"
    and dist: "distinct (map camera_id (cameraInfoList s))"
    using c by (simp_all add: consistent_def registered_def service_inv_def)
  have "?P(k := False) = (\<lambda>x. x \<in> camera_id ` set (cameraInfoList s'))"
    using DeleteCameraInfoInList_ids [OF dist, of k] s'(4) by (auto simp: fun_eq_iff)
  then show ?thesis
    using DeleteStream_result [OF inv(3) d] RemoveStoreDevice_present [OF st] RemoveStoreDevice_inv [OF inv(1) st] RemoveBakSchedule_result [OF b]
      DeleteCameraInfoInList_ids [OF dist, of k] s' reg inv(2)
    by (simp add: consistent_def registered_def service_inv_def)
qed

lemma consistent_store:
  "consistent env s \<Longrightarrow> store_inv st \<Longrightarrow> storeDeviceList st = storeDeviceList (sv_store s) \<Longrightarrow> consistent env (s\<lparr>sv_store := st\<rparr>)"
  by (simp add: consistent_def service_inv_def registered_def store_present_def fun_eq_iff)

lemma consistent_add_event:
  assumes "consistent env s" "AddStoreEvent (en_store env) k type (sv_store s) = (st, r, e)"
  shows "consistent env (s\<lparr>sv_store := st\<rparr>)"
proof -
  have "store_inv (sv_store s)" "store_env_ok (en_store env)" using assms(1) by (simp_all add: consistent_def service_inv_def)
  then have "store_inv st"
    using AddStoreEvent_devices_inv [of True "sv_store s" "en_store env" k type] assms(2)
    by (simp add: devices_inv_memory malloc_ok_def store_env_ok_def)
  with assms show ?thesis
    using AddStoreEvent_devices [of "en_store env" k type "sv_store s"] by (simp add: consistent_store)
qed

interpretation strict: device_lists env "consistent env"
  for env :: "('db, 'p) service_env"
proof (unfold_locales, goal_cases)
  case (1 s' s)
  then show ?case by (rule consistent_frame)
next
  case (2 s cs)
  then show ?case by (rule consistent_ids)
next
  case (3 s k name r b rs bs)
  then show ?case
    using enter_lists_new [of env s k name r b rs bs] enter_lists_known [of env s k name r b rs bs] consistent_frame [of "SetError e s" s env for e]
    by (cases "known s k") (auto simp: SetError_def)
next
  case (4 s k streams n e st n' e' bak n'' s')
  then show ?case using consistent_delete by blast
next
  case (5 s k sche streams n e)
  then show ?case using UpdateRecodeSchedule_result [of "sv_streams s" k sche streams n e] by (simp add: consistent_def service_inv_def registered_def)
next
  case (6 s k sche bak n e)
  then show ?case using UpdateBakSchedule_result [of k sche "sv_bak s" bak n e] by (simp add: consistent_def service_inv_def registered_def)
next
  case (7 s k type st n e)
  then show ?case by (rule consistent_add_event)
next
  case (8 s k type)
  then show ?case
    by (intro consistent_store RemoveStoreEvent_devices) (simp_all add: consistent_def service_inv_def store_inv_def RemoveStoreEvent_all)
qed

end
