(* ===== verification/HttpRequests.thy ===== *)
theory HttpRequests
  imports HttpCorrect
begin

text \<open>
  What a client sees: how a request finds its handler, that answers are JSON the client can read, that a camera can be added and
  deleted, that a schedule which was set is the one that is returned, and the requests that make the service fault.
\<close>

section \<open>Answers\<close>

definition respond_json :: "bool \<Rightarrow> string \<Rightarrow> cjson" where
  "respond_json code m = CJSON cJSON_Object None 0 (Fin 0) None
     [CJSON (if code then cJSON_True else cJSON_False) None (if code then 1 else 0) (Fin 0) (Some ''code'') [],
      CJSON cJSON_String (Some m) 0 (Fin 0) (Some ''message'') []]"

definition answers :: "string \<Rightarrow> bool \<Rightarrow> string \<Rightarrow> bool" where
  "answers b code m \<longleftrightarrow> cJSON_Parse b = Inr (Some (respond_json code m))"

lemma json_wf_Print: "json_wf c \<Longrightarrow> jname c = None \<Longrightarrow> \<exists>s. cJSON_Print c = Inr (Some s) \<and> cJSON_Parse s = Inr (Some c)"
  using json_wf_induct_print(1) [of c 0 True] reads_as_Parse by (auto simp: cJSON_Print_def)

text \<open>\<open>cJSON_CreateBool\<close> leaves the number of a true value 0, the parser sets it to 1; it is not printed.\<close>

lemma print_code:
  "print_value d f (CJSON cJSON_True None i (Fin 0) nm []) = Inr (Some ''true'')"
  "print_value d f (CJSON cJSON_False None i (Fin 0) nm []) = Inr (Some ''false'')"
  by (simp_all add: cJSON_types)

lemma CreateRespondString_answers:
  assumes "CHR 0x00 \<notin> set m"
  shows "\<exists>b. CreateRespondString code (Some m) = Inr (Some b) \<and> answers b code m"
proof -
  have "json_wf (respond_json code m)" "jname (respond_json code m) = None"
    using assms by (simp_all add: respond_json_def json_wf.simps cJSON_types)
  then obtain b where b: "cJSON_Print (respond_json code m) = Inr (Some b)" "cJSON_Parse b = Inr (Some (respond_json code m))"
    using json_wf_Print by blast
  have "CreateRespondString code (Some m) = cJSON_Print (respond_json code m)"
    by (simp add: CreateRespondString_def cJSON_AddItemToObject_def cJSON_AddItemToArray_def create_simps respond_json_def
        cJSON_Print_def print_code cJSON_types)
  with b show ?thesis by (simp add: answers_def)
qed

section \<open>Finding the handler\<close>

text \<open>The text of a request behind its first line's name.\<close>

definition post_text :: "string \<Rightarrow> string \<Rightarrow> string" where
  "post_text name rest = ''POST /'' @ name @ '' '' @ http_ver @ rest"

lemma strstr_skip: "c \<notin> set pre \<Longrightarrow> strstr (pre @ s) (c # needle) = strstr s (c # needle)"
  by (induction pre) (auto simp: is_prefix_def)

lemma strstr_here: "s \<noteq> [] \<Longrightarrow> strstr (s @ t) s = Some (s @ t)"
  by (cases s) (auto simp: is_prefix_def)

lemma strstr_behind_here: "s \<noteq> [] \<Longrightarrow> strstr_behind (s @ t) s = Some t"
  by (simp add: strstr_behind_def strstr_here)

lemma req_loop_name:
  assumes "req @ name \<noteq> []" "length req + length name \<le> HTTP_REQ_STRING_LEN" "CHR ''/'' \<notin> set name" "CHR '' '' \<notin> set name"
    "name \<noteq> []" "n \<le> length rest"
  shows "req_loop n req (name @ CHR '' '' # rest) = Inr (req @ name, CHR '' '' # rest)"
  using assms
proof (induction name arbitrary: req)
  case (Cons c cs)
  show ?case
  proof (cases cs)
    case Nil
    with Cons show ?thesis by (simp add: starts_Cons)
  next
    case (Cons d ds)
    then have "\<not> starts (\<lambda>d. d = CHR ''/'' \<or> d = CHR '' '') (cs @ CHR '' '' # rest)"
      using Cons.prems by (auto simp: starts_def)
    with Cons Cons.IH [of "req @ [c]"] Cons.prems show ?thesis by auto
  qed
qed simp

text \<open>The names of the requests have what \<open>ParseReq\<close> relies on.\<close>

definition plain_name :: "string \<Rightarrow> bool" where
  "plain_name name \<longleftrightarrow> name \<noteq> [] \<and> length name \<le> HTTP_REQ_STRING_LEN \<and>
     set name \<inter> {CHR ''/'', CHR '' '', CHR ''G'', CHR ''H'', NUL} = {}"

lemma httpReqList_entry:
  assumes "(name, h) \<in> set httpReqList"
  shows "plain_name name \<and> map_of httpReqList name = Some h"
  using assms unfolding httpReqList_def
  by (simp only: list.set insert_iff empty_iff prod.inject) (elim disjE conjE; simp add: plain_name_def HTTP_REQ_STRING_LEN_def NUL_def)

lemma ParseReq_post:
  assumes "plain_name name" "strstr rest ''GET /'' = None"
  shows "ParseReq (Some (post_text name rest)) = Inr (Some (name, '' '' @ http_ver @ rest))"
proof -
  note name = assms(1) [unfolded plain_name_def]
  have "strstr_behind (post_text name rest) ''GET /'' = None"
    using strstr_skip [of "CHR ''G''" "''POST /'' @ name @ '' '' @ http_ver" rest "''ET /''"] name assms(2)
    by (simp add: post_text_def http_ver_def strstr_behind_def)
  moreover have "strstr_behind (post_text name rest) ''POST /'' = Some (name @ '' '' @ http_ver @ rest)"
    unfolding post_text_def by (rule strstr_behind_here) simp
  moreover have "strstr (post_text name rest) http_ver = Some (http_ver @ rest)"
    using strstr_skip [of "CHR ''H''" "''POST /'' @ name @ '' ''" "http_ver @ rest" "''TTP/1.1''"] name strstr_here [of http_ver rest]
    by (simp add: post_text_def http_ver_def)
  moreover have "req_loop (length (http_ver @ rest)) [] (name @ CHR '' '' # http_ver @ rest) = Inr ([] @ name, CHR '' '' # http_ver @ rest)"
    by (rule req_loop_name) (use name in auto)
  ultimately show ?thesis by (simp add: ParseReq_def)
qed

lemma dispatch_handler:
  assumes "(name, h) \<in> set httpReqList" "strstr rest ''GET /'' = None" "NUL \<notin> set rest"
    and "read_rest hv (bytes_of (post_text name rest) @ [0]) (length (post_text name rest)) = Inr (bytes_of (post_text name rest) @ [0])"
    and "h env hv (Some ('' '' @ http_ver @ rest)) s = Inr (s', Some body)"
  shows "ResponseClient env hv (bytes_of (post_text name rest) @ [0]) (length (post_text name rest)) (s, sent) =
    Inr (s', sent @ bytes_of (''HTTP/1.1 200 OK'' @ CRLF @ ''Content-Type:application/json'' @ CRLF @ CRLF @ body))"
proof -
  note entry = httpReqList_entry [OF assms(1)]
  have "CHR 0x00 \<notin> set (post_text name rest)"
    using entry assms(3) by (auto simp: post_text_def plain_name_def http_ver_def NUL_def)
  then have "cstr_at (bytes_of (post_text name rest) @ [0]) 0 = Inr (post_text name rest)"
    by (intro cstr_at_bytes_of [where ys = "[]"]) simp_all
  moreover have "ResponseReq env hv name ('' '' @ http_ver @ rest) s = Inr (s', Some body)"
    using entry assms(5) by (simp add: ResponseReq_def)
  ultimately show ?thesis
    using ParseReq_post [of name rest] entry assms(2,4) by (simp add: ResponseClient_def CreateResponse_def res_head_def)
qed

text \<open>(C33) A request reaches its handler. When the text of a request names one of the ten requests, nothing is left to be
  read and \<open>GET /\<close> does not occur behind the first line, the handler of that name gets the rest of the text, the
  state becomes the one it leaves, and its body is sent behind the head of a successful response.\<close>

theorem request_dispatch:
  assumes "(name, h) \<in> set httpReqList" "strstr rest ''GET /'' = None" "NUL \<notin> set rest"
    and "read_rest hv (bytes_of (post_text name rest) @ [0]) (length (post_text name rest)) = Inr (bytes_of (post_text name rest) @ [0])"
    and "h env hv (Some ('' '' @ http_ver @ rest)) s = Inr (s', Some body)"
  shows "ResponseClient env hv (bytes_of (post_text name rest) @ [0]) (length (post_text name rest)) (s, sent) =
    Inr (s', sent @ bytes_of (''HTTP/1.1 200 OK'' @ CRLF @ ''Content-Type:application/json'' @ CRLF @ CRLF @ body))"
  by (rule dispatch_handler [OF assms])

definition sample_http_env :: http_env where
  "sample_http_env = \<lparr>hv_cap = 10240, hv_more = [], hv_stack = [], hv_tms = (time_of_day 0 0 0, time_of_day 0 0 0),
     hv_media = \<lambda>_. \<lparr>me_open_input = 0, me_find_info = 0, me_is_video = [True], me_frame_rate = (25, 1), me_out_context = 0,
       me_new_stream = True, me_copy_params = 0, me_avio_open = 0, me_write_header = 0, me_packets = [], me_trailer = 0\<rparr>\<rparr>"

lemma sample_request_read:
  "read_rest sample_http_env (bytes_of (post_text ''deleteplayback'' []) @ [0]) (length (post_text ''deleteplayback'' [])) =
   Inr (bytes_of (post_text ''deleteplayback'' []) @ [0])"
  by code_simp

lemma sample_request_handled:
  "\<exists>body. DelPlaybackDev sample_service_env sample_http_env (Some ('' '' @ http_ver @ [])) s = Inr (SetError no_post_data s, Some body) \<and>
     answers body False (store_api_ret no_post_data)"
proof -
  obtain body where b: "CreateRespondString False (Some (store_api_ret no_post_data)) = Inr (Some body)"
      "answers body False (store_api_ret no_post_data)"
    using CreateRespondString_answers [OF store_api_ret_no_NUL] by blast
  have p: "ParsePostData ('' '' @ http_ver @ []) = None" by code_simp
  have "DelPlaybackDev sample_service_env sample_http_env (Some ('' '' @ http_ver @ [])) s = Inr (SetError no_post_data s, Some body)"
    unfolding DelPlaybackDev_def playback_fields_def post_ids_def post_json_def option.case p
    by (simp add: playback_error_def b del: store_api_ret.simps)
  with b(2) show ?thesis by blast
qed

theorem request_dispatch_witness:
  "\<exists>body. ResponseClient sample_service_env sample_http_env (bytes_of (post_text ''deleteplayback'' []) @ [0])
       (length (post_text ''deleteplayback'' [])) (sample_service, []) =
     Inr (SetError no_post_data sample_service,
          [] @ bytes_of (''HTTP/1.1 200 OK'' @ CRLF @ ''Content-Type:application/json'' @ CRLF @ CRLF @ body)) \<and>
     answers body False (store_api_ret no_post_data)"
proof -
  obtain body where b: "DelPlaybackDev sample_service_env sample_http_env (Some ('' '' @ http_ver @ [])) sample_service =
      Inr (SetError no_post_data sample_service, Some body)" "answers body False (store_api_ret no_post_data)"
    using sample_request_handled by blast
  have h: "(''deleteplayback'', DelPlaybackDev) \<in> set httpReqList" by (simp add: httpReqList_def)
  show ?thesis using request_dispatch [OF h _ _ sample_request_read b(1)] b(2) by auto
qed

section \<open>Adding and deleting a camera\<close>

definition sql_ok :: "('db, 'p) service_env \<Rightarrow> bool" where
  "sql_ok env \<longleftrightarrow> (\<forall>db q. fst (snd (en_exec env db q)))"

lemma run_query_ok: "sql_ok env \<Longrightarrow> \<exists>db'. run_query (en_exec env) q db = (db', 0)"
proof -
  assume ok: "sql_ok env"
  obtain db' b t where e: "en_exec env db q = (db', b, t)" by (metis prod_cases3)
  have "b" using ok [unfolded sql_ok_def, rule_format, of db q] e by simp
  with e show ?thesis by (simp add: run_query_def)
qed

definition statement :: "('db server \<Rightarrow> 'db \<Rightarrow> 'db \<times> int) \<Rightarrow> bool" where
  "statement f \<longleftrightarrow> (\<exists>q. \<forall>exec. f exec = run_query exec q)"

lemma statements:
  "statement (\<lambda>exec. CreateCameraTable exec k)" "statement (\<lambda>exec. InsertCameraInfoToTable exec k name r b)"
  "statement (\<lambda>exec. DeleteCameraInfoInTable exec k)" "statement (\<lambda>exec. UpdateRecScheduleToCameraTable exec k t)"
  "statement (\<lambda>exec. UpdateBakScheduleToCameraTable exec k t)"
  by (auto simp: statement_def fun_eq_iff CreateCameraTable_def InsertCameraInfoToTable_def DeleteCameraInfoInTable_def
      UpdateRecScheduleToCameraTable_def UpdateBakScheduleToCameraTable_def)

lemma sql_step_ok: "sql_ok env \<Longrightarrow> statement f \<Longrightarrow> \<exists>db'. sql_step env (f (en_exec env)) s = (s\<lparr>sv_db := db'\<rparr>, None)"
proof -
  assume "sql_ok env" "statement f"
  then obtain q db' where "f (en_exec env) = run_query (en_exec env) q" "run_query (en_exec env) q (sv_db s) = (db', 0)"
    using run_query_ok unfolding statement_def by metis
  then have "sql_step env (f (en_exec env)) s = (s\<lparr>sv_db := db'\<rparr>, None)" by (simp add: sql_step_def)
  then show ?thesis by blast
qed

lemma AddStream_stopped:
  assumes "AddStream (Some k) sched (Some cb) st = Inr (st', 0, None)"
  shows "\<exists>t. map_of (streamThreadList st') k = Some t \<and> thread_state t = thread_stopped"
  using assms
  by (auto simp: AddStream_def map_of_list_set map_of_list_insert split: option.splits if_splits)

text \<open>What the camera needs to be removed at once: its stream does not run or ends, no backup uses its schedule.\<close>

definition camera_idle :: "('db, 'p) service_env \<Rightarrow> string \<Rightarrow> ('db, 'p) service \<Rightarrow> bool" where
  "camera_idle env k s \<longleftrightarrow> stream_idle (en_ends env) (sv_streams s) k \<and> bak_idle (sv_bak s) k"

lemma add_camera_new:
  assumes "consistent env s" "\<not> known s k" "sql_ok env" "ParseSchedule r = Inr (Inr rs)" "ParseSchedule b = Inr (Inr bs)"
  shows "\<exists>s'. add_camera env k name r b s = Inr (s', None) \<and> consistent env s' \<and> camera_idle env k s' \<and>
           cameraInfoList s' = cameraInfoList s @ [new_camera_info k name r b]"
proof -
  obtain db1 where s1: "sql_step env (CreateCameraTable (en_exec env) k) s = (s\<lparr>sv_db := db1\<rparr>, None)"
    using sql_step_ok [OF assms(3) statements(1)] by blast
  obtain db2 where s2: "sql_step env (InsertCameraInfoToTable (en_exec env) k name r b) (s\<lparr>sv_db := db1\<rparr>) = (s\<lparr>sv_db := db2\<rparr>, None)"
    using sql_step_ok [OF assms(3) statements(2), of k name r b "s\<lparr>sv_db := db1\<rparr>"] by auto
  have c: "consistent env (s\<lparr>sv_db := db2\<rparr>)" "\<not> known (s\<lparr>sv_db := db2\<rparr>) k" using assms(1,2) by (simp_all add: known_def)
  obtain s' bak streams where s': "enter_lists env k name r b rs bs (s\<lparr>sv_db := db2\<rparr>) = Inr (s', None)" "consistent env s'"
      "cameraInfoList s' = cameraInfoList s @ [new_camera_info k name r b]"
      "AddBakSchedule k bs (sv_bak s) = (bak, 0, None)" "sv_bak s' = bak"
      "AddStream (Some k) rs (Some StorePlannedStream) (sv_streams s) = Inr (streams, 0, None)" "sv_streams s' = streams"
    using enter_lists_new [OF c, of name r b rs bs] by auto
  have "bak_idle (sv_bak s') k"
    using s'(4) unfolding s'(5) by (auto simp: bak_idle_def AddBakSchedule_def split: if_splits)
  then have "camera_idle env k s'"
    using AddStream_stopped [OF s'(6)] s'(7) by (auto simp: camera_idle_def stream_idle_def)
  with s'(1-3) show ?thesis by (auto simp: add_camera_enter with_schedule_def assms(4,5) s1 s2)
qed

lemma delete_camera_known:
  assumes "consistent env s" "known s k" "sql_ok env" "camera_idle env k s"
  shows "\<exists>s'. delete_camera env k s = Inr (s', None) \<and> consistent env s' \<and> known s' = (known s)(k := False)"
proof -
  have p: "stream_present (sv_streams s) k" "store_present (sv_store s) k" "bak_present (sv_bak s) k"
    and inv: "store_inv (sv_store s)" "store_env_ok (en_store env)" "streams_ok (sv_streams s)"
    and dist: "distinct (map camera_id (cameraInfoList s))"
    using assms(1,2) by (simp_all add: consistent_def registered_def known_def service_inv_def fun_eq_iff)
  obtain db where s1: "delete_info env k s = (s\<lparr>sv_db := db\<rparr>, None)"
    unfolding delete_info_def using sql_step_ok [OF assms(3) statements(3)] by blast
  obtain streams where d: "DeleteStream (en_ends env) (Some k) (sv_streams s) = Inr (streams, 0, None)"
    using DeleteStream_present [OF inv(3) p(1)] assms(4) by (auto simp: camera_idle_def)
  obtain dev where "storeDeviceList (sv_store s) k = Some dev" using p(2) by (auto simp: store_present_def)
  then obtain st where st: "RemoveStoreDevice (en_store env) k (sv_store s) = Inr (st, 0, None)"
    using RemoveStoreDevice_returns [OF inv(1,2)] by blast
  obtain bak where b: "RemoveBakSchedule k (sv_bak s) = Inr (bak, 0)"
    using p(3) assms(4) by (auto simp: bak_present_def camera_idle_def bak_idle_def RemoveBakSchedule_def)
  have r: "delete_camera env k s = Inr (s\<lparr>sv_db := db, sv_streams := streams, sv_store := st, sv_bak := bak,
      cameraInfoList := DeleteCameraInfoInList k (cameraInfoList s)\<rparr>, None)"
    by (simp add: delete_camera_def s1 d remove_store_def st remove_bak_def b)
  moreover have "keeps (consistent env) (delete_camera env k s)" by (rule strict.keeps_delete_camera [OF assms(1)])
  ultimately show ?thesis
    using DeleteCameraInfoInList_ids [OF dist, of k] by (auto simp: known_def fun_eq_iff)
qed

text \<open>The object a client posts for a camera, with the schedules of two weeks.\<close>

definition text_node :: "string \<Rightarrow> string \<Rightarrow> cjson" where
  "text_node name t = CJSON cJSON_String (Some t) 0 (Fin 0) (Some name) []"

definition named :: "string \<Rightarrow> cjson \<Rightarrow> cjson" where
  "named name c = set_name (Some name) c"

definition object_node :: "cjson list \<Rightarrow> cjson" where
  "object_node items = CJSON cJSON_Object None 0 (Fin 0) None items"

definition camera_json :: "string \<Rightarrow> string \<Rightarrow> string \<Rightarrow> (hms \<times> hms) list list \<Rightarrow> (hms \<times> hms) list list \<Rightarrow> cjson" where
  "camera_json m n name rec_week bak_week = object_node
     [text_node ''mainId'' m, text_node ''subId'' n, text_node ''name'' name,
      named ''recSchedule'' (week_json rec_week), named ''bakSchedule'' (week_json bak_week)]"

lemma json_wf_text_node [simp]: "json_wf (text_node name t) \<longleftrightarrow> CHR 0x00 \<notin> set t"
  by (simp add: text_node_def json_wf.simps cJSON_types)

lemma json_wf_named [simp]: "json_wf (named name c) \<longleftrightarrow> json_wf c"
  by (cases c) (simp add: named_def json_wf.simps)

lemma json_wf_object_node [simp]:
  "json_wf (object_node items) \<longleftrightarrow> (\<forall>c \<in> set items. json_wf c \<and> (\<exists>s. jname c = Some s \<and> CHR 0x00 \<notin> set s))"
  by (auto simp: object_node_def json_wf.simps cJSON_types)

lemma node_simps [simp]:
  "jname (text_node name t) = Some name" "valuestring (text_node name t) = Some t" "jname (named name c) = Some name"
  "jname (object_node items) = None" "child (object_node items) = items" "child (named name c) = child c"
  by (cases c; simp add: text_node_def named_def object_node_def)+

lemma print_number_name: "print_number (CJSON t vs vi vd nm ch) = print_number (CJSON t vs vi vd None ch)"
  by (cases vd) (simp_all add: print_number_def)

lemma print_named [simp]: "cJSON_Print (named name c) = cJSON_Print c"
proof (cases c)
  case (CJSON t vs vi vd nm ch)
  show ?thesis
    using print_number_name [of t vs vi vd "Some name" ch] print_number_name [of t vs vi vd nm ch]
    by (simp add: CJSON cJSON_Print_def named_def Let_def)
qed

lemma item_named: "cJSON_GetObjectItem (object_node items) name = find (\<lambda>c. cJSON_strcasecmp (jname c) (Some name) = 0) items"
  by (simp add: cJSON_GetObjectItem_def)

text \<open>A request that posts an object.\<close>

definition posts :: "string \<Rightarrow> cjson \<Rightarrow> bool" where
  "posts info obj \<longleftrightarrow> (\<exists>body. cJSON_Print obj = Inr (Some body) \<and> ParsePostData info = Some body)"

lemma posts_json: "posts info obj \<Longrightarrow> json_wf obj \<Longrightarrow> jname obj = None \<Longrightarrow> post_json info = Inr (Inr obj)"
  using json_wf_Print [of obj] by (auto simp: posts_def post_json_def)

lemma camera_json_wf:
  assumes "CHR 0x00 \<notin> set m" "CHR 0x00 \<notin> set n" "CHR 0x00 \<notin> set name" "week_ok rec_week" "week_ok bak_week"
  shows "json_wf (camera_json m n name rec_week bak_week)" "jname (camera_json m n name rec_week bak_week) = None"
  using assms by (simp_all add: camera_json_def json_wf_week)

text \<open>The items the handlers look for.\<close>

lemma same_name: "CHR 0x00 \<notin> set s \<Longrightarrow> cJSON_strcasecmp (Some s) (Some s) = 0"
  by (simp add: cJSON_strcasecmp_def strcasecmp_loop_0)

lemma other_names:
  "cJSON_strcasecmp (Some ''mainId'') (Some ''subId'') \<noteq> 0" "cJSON_strcasecmp (Some ''mainId'') (Some ''name'') \<noteq> 0"
  "cJSON_strcasecmp (Some ''mainId'') (Some ''recSchedule'') \<noteq> 0" "cJSON_strcasecmp (Some ''mainId'') (Some ''bakSchedule'') \<noteq> 0"
  "cJSON_strcasecmp (Some ''subId'') (Some ''name'') \<noteq> 0" "cJSON_strcasecmp (Some ''subId'') (Some ''recSchedule'') \<noteq> 0"
  "cJSON_strcasecmp (Some ''subId'') (Some ''bakSchedule'') \<noteq> 0" "cJSON_strcasecmp (Some ''name'') (Some ''recSchedule'') \<noteq> 0"
  "cJSON_strcasecmp (Some ''name'') (Some ''bakSchedule'') \<noteq> 0" "cJSON_strcasecmp (Some ''recSchedule'') (Some ''bakSchedule'') \<noteq> 0"
  by code_simp+

lemmas find_item = cJSON_GetObjectItem_def same_name other_names

text \<open>Messages have no NUL.\<close>

lemma text_no_NUL [simp]:
  "CHR 0x00 \<notin> set text_add" "CHR 0x00 \<notin> set text_delete" "CHR 0x00 \<notin> set text_update" "CHR 0x00 \<notin> set text_ok"
  "CHR 0x00 \<notin> set text_schedule"
  by (simp_all add: text_add_def text_delete_def text_update_def text_ok_def text_schedule_def utf8_text_no_NUL)

lemma respond_ok:
  assumes "CHR 0x00 \<notin> set before" "CHR 0x00 \<notin> set behind"
  shows "\<exists>b. respond n before behind (s, None) = Inr (s, Some b) \<and> answers b True (snprintf n (before @ behind @ text_ok @ '' ''))"
proof -
  have "CHR 0x00 \<notin> set (snprintf n (before @ behind @ text_ok @ '' ''))"
    using assms by (auto simp: snprintf_def dest!: in_set_takeD)
  from CreateRespondString_answers [OF this, of True] show ?thesis by (auto simp: respond_def)
qed

lemma print_week:
  assumes "week_ok week"
  obtains t sche where "print_text (named name (week_json week)) = Inr t" "ParseSchedule t = Inr (Inr sche)"
    "cJSON_Print (week_json week) = Inr (Some t)"
  using print_ParseSchedule_week [OF assms] by (auto simp: print_text_def)

lemma camera_json_fields:
  assumes "posts info (camera_json m n name rec_week bak_week)" "json_wf (camera_json m n name rec_week bak_week)"
  shows "post_ids info = Inr (Inr (camera_json m n name rec_week bak_week, text_node ''mainId'' m, text_node ''subId'' n))"
    "add_fields info = Inr (Inr (text_node ''mainId'' m, text_node ''subId'' n, text_node ''name'' name,
       named ''recSchedule'' (week_json rec_week), named ''bakSchedule'' (week_json bak_week)))"
proof -
  have "jname (camera_json m n name rec_week bak_week) = None" by (simp add: camera_json_def)
  from posts_json [OF assms this]
  show "post_ids info = Inr (Inr (camera_json m n name rec_week bak_week, text_node ''mainId'' m, text_node ''subId'' n))"
    by (simp add: post_ids_def need_def camera_json_def json_names find_item)
  then show "add_fields info = Inr (Inr (text_node ''mainId'' m, text_node ''subId'' n, text_node ''name'' name,
       named ''recSchedule'' (week_json rec_week), named ''bakSchedule'' (week_json bak_week)))"
    by (simp add: add_fields_def need_def camera_json_def REC_SCHE_JSON_NAME_def BAK_SCHE_JSON_NAME_def find_item)
qed

text \<open>(C31) A camera can be added and deleted. On a service whose lists agree, with a database that executes its statements, a
  posted camera with an unknown id and two valid weekly schedules is added: the answer is a JSON object with code \<open>true\<close>
  that names it, and it is known afterwards. Posting the same object to be deleted is answered with \<open>true\<close> too, and
  the cameras known are those from before. The lists agree after each of the two requests.\<close>

theorem add_delete_camera:
  assumes "consistent env s" "\<not> known s (m @ ''-'' @ n)" "sql_ok env" "week_ok rec_week" "week_ok bak_week"
    and "CHR 0x00 \<notin> set m" "CHR 0x00 \<notin> set n" "CHR 0x00 \<notin> set name"
    and "posts info (camera_json m n name rec_week bak_week)"
  shows "\<exists>s1 b1 s2 b2.
     AddRecodeDevice env hv (Some info) s = Inr (s1, Some b1) \<and> consistent env s1 \<and> known s1 = (known s)(m @ ''-'' @ n := True) \<and>
       answers b1 True (snprintf 125 (text_add @ (m @ ''-'' @ n) @ '')'' @ text_ok @ '' '')) \<and>
     DeleteRecodeDevice env hv' (Some info) s1 = Inr (s2, Some b2) \<and> consistent env s2 \<and> known s2 = known s \<and>
       answers b2 True (snprintf 125 (text_delete @ (m @ ''-'' @ n) @ '')'' @ text_ok @ '' ''))"
proof -
  let ?k = "m @ ''-'' @ n"
  obtain r rs where r: "print_text (named ''recSchedule'' (week_json rec_week)) = Inr r" "ParseSchedule r = Inr (Inr rs)"
    using print_week [OF assms(4)] by metis
  obtain b bs where b: "print_text (named ''bakSchedule'' (week_json bak_week)) = Inr b" "ParseSchedule b = Inr (Inr bs)"
    using print_week [OF assms(5)] by metis
  note f = camera_json_fields [OF assms(9) camera_json_wf(1) [OF assms(6-8,4,5)]]
  have id: "device_id (text_node ''mainId'' m) (text_node ''subId'' n) = Inr ?k" by (simp add: device_id_def node_text_def)
  obtain s1 where s1: "add_camera env ?k name r b s = Inr (s1, None)" "consistent env s1" "camera_idle env ?k s1"
      "cameraInfoList s1 = cameraInfoList s @ [new_camera_info ?k name r b]"
    using add_camera_new [OF assms(1-3) r(2) b(2)] by metis
  have k1: "known s1 = (known s)(?k := True)" using s1(4) by (auto simp: known_def fun_eq_iff)
  obtain s2 where s2: "delete_camera env ?k s1 = Inr (s2, None)" "consistent env s2" "known s2 = (known s1)(?k := False)"
    using delete_camera_known [OF s1(2) _ assms(3) s1(3)] k1 by auto
  have nul: "CHR 0x00 \<notin> set (text_add @ ?k)" "CHR 0x00 \<notin> set (text_delete @ ?k)" using assms(6,7) by auto
  obtain b1 where b1: "respond 125 (text_add @ ?k) '')'' (s1, None) = Inr (s1, Some b1)"
      "answers b1 True (snprintf 125 ((text_add @ ?k) @ '')'' @ text_ok @ '' ''))"
    using respond_ok [OF nul(1), of "'')''" 125 s1] by auto
  obtain b2 where b2: "respond 125 (text_delete @ ?k) '')'' (s2, None) = Inr (s2, Some b2)"
      "answers b2 True (snprintf 125 ((text_delete @ ?k) @ '')'' @ text_ok @ '' ''))"
    using respond_ok [OF nul(2), of "'')''" 125 s2] by auto
  have "known s2 = known s" using s2(3) k1 assms(2) by (auto simp: fun_eq_iff)
  moreover have "AddRecodeDevice env hv (Some info) s = Inr (s1, Some b1)"
    using b1(1) s1(1) by (simp add: AddRecodeDevice_def f id r(1) b(1) node_text_def)
  moreover have "DeleteRecodeDevice env hv' (Some info) s1 = Inr (s2, Some b2)"
    using b2(1) s2(1) by (simp add: DeleteRecodeDevice_def f id)
  ultimately show ?thesis using s1(2) k1 b1(2) s2(2) b2(2) by auto
qed

lemma posts_behind:
  assumes "json_wf obj" "jname obj = None"
  shows "\<exists>body. posts ('' '' @ http_ver @ CRLF @ CRLF @ body) obj"
proof -
  obtain body where b: "cJSON_Print obj = Inr (Some body)" using json_wf_Print [OF assms] by blast
  have "strstr (('' '' @ http_ver) @ (CRLF @ CRLF) @ body) (CRLF @ CRLF) = strstr ((CRLF @ CRLF) @ body) (CRLF @ CRLF)"
    using strstr_skip [of "CHR 0x0D" "'' '' @ http_ver" "(CRLF @ CRLF) @ body" "tl (CRLF @ CRLF)"]
    by (simp add: CRLF_def http_ver_def)
  then have "ParsePostData ('' '' @ http_ver @ CRLF @ CRLF @ body) = Some body"
    using strstr_here [of "CRLF @ CRLF" body] by (simp add: ParsePostData_def strstr_behind_def CRLF_def)
  with b show ?thesis by (auto simp: posts_def)
qed

lemma sample_consistent: "consistent sample_service_env sample_service" "\<not> known sample_service k" "sql_ok sample_service_env"
  using sample_service_ok
  by (auto simp: consistent_def known_def sample_service_def sql_ok_def sample_service_env_def registered_def fun_eq_iff)

definition open_hours :: "(hms \<times> hms) list list" where
  "open_hours = replicate 7 [((8, 0, 0), (20, 0, 0))]"

lemma open_hours_ok: "week_ok open_hours"
  by (simp add: open_hours_def week_ok_def hms_ok_def)

theorem add_delete_camera_witness:
  "\<exists>info s1 b1 s2 b2. AddRecodeDevice sample_service_env sample_http_env (Some info) sample_service = Inr (s1, Some b1) \<and>
     known s1 ''1-2'' \<and> DeleteRecodeDevice sample_service_env sample_http_env (Some info) s1 = Inr (s2, Some b2) \<and> \<not> known s2 ''1-2''"
proof -
  obtain info where i: "posts info (camera_json ''1'' ''2'' ''gate'' open_hours open_hours)"
    using posts_behind camera_json_wf [of "''1''" "''2''" "''gate''", OF _ _ _ open_hours_ok open_hours_ok] by fastforce
  show ?thesis
    using add_delete_camera [OF sample_consistent(1) sample_consistent(2) sample_consistent(3) open_hours_ok open_hours_ok _ _ _ i,
        of sample_http_env sample_http_env] sample_consistent(2) [of "''1-2''"]
    by fastforce
qed

section \<open>Setting and reading a schedule\<close>

lemma find_camera_known: "k \<in> camera_id ` set cs \<Longrightarrow> \<exists>cs' i. find_camera k cs = (cs', Some i)"
proof (induction k cs rule: find_camera.induct)
  case (2 k ci rest)
  have "info_field (info_touch CAMERA_ID_MYSQL_NAME ci) CAMERA_ID_MYSQL_NAME = camera_id ci"
    using camera_id_touch [of CAMERA_ID_MYSQL_NAME ci] by (simp add: camera_id_def)
  with 2 show ?case by (auto simp: Let_def)
qed simp

lemma find_camera_field:
  "find_camera k cs = (cs', r) \<Longrightarrow> key \<noteq> CAMERA_ID_MYSQL_NAME \<Longrightarrow> j < length cs \<Longrightarrow> info_field (cs' ! j) key = info_field (cs ! j) key"
proof (induction k cs arbitrary: cs' r j rule: find_camera.induct)
  case (2 k ci rest)
  then show ?case
    by (cases j) (auto simp: Let_def info_touch_def info_field_def split: if_splits prod.splits)
qed simp

lemma find_camera_length: "find_camera k cs = (cs', r) \<Longrightarrow> length cs' = length cs"
  using find_camera_ids [of k cs] by (metis fst_conv length_map)

lemma change_rec_ok:
  assumes "consistent env s" "known s k"
  shows "\<exists>s'. change_rec k sche s = Inr (s', None) \<and> consistent env s' \<and> cameraInfoList s' = cameraInfoList s"
proof -
  have "stream_present (sv_streams s) k" "streams_ok (sv_streams s)"
    using assms by (simp_all add: consistent_def registered_def known_def service_inv_def fun_eq_iff)
  then obtain streams where "UpdateRecodeSchedule k sche (sv_streams s) = Inr (streams, 0, None)"
    by (auto simp: UpdateRecodeSchedule_def stream_present_def streams_ok_def)
  then have r: "change_rec k sche s = Inr (s\<lparr>sv_streams := streams\<rparr>, None)" by (simp add: change_rec_def)
  with strict.keeps_change_rec [OF assms(1), of k sche] show ?thesis by simp
qed

lemma change_bak_ok:
  assumes "consistent env s" "known s k"
  shows "\<exists>s'. change_bak k sche s = Inr (s', None) \<and> consistent env s' \<and> cameraInfoList s' = cameraInfoList s"
proof -
  have "bak_present (sv_bak s) k" using assms by (simp add: consistent_def registered_def known_def fun_eq_iff)
  then obtain bak where "UpdateBakSchedule k sche (sv_bak s) = (bak, 0, None)"
    by (auto simp: UpdateBakSchedule_def bak_present_def)
  then have r: "change_bak k sche s = Inr (s\<lparr>sv_bak := bak\<rparr>, None)" by (simp add: change_bak_def)
  with strict.keeps_change_bak [OF assms(1), of k sche] show ?thesis by simp
qed

lemma update_part_ok:
  assumes "consistent env s" "known s k" "sql_ok env" "\<And>t. statement (\<lambda>exec. sql exec t)" "key \<noteq> CAMERA_ID_MYSQL_NAME"
    and "print_text obj = Inr t" "ParseSchedule t = Inr (Inr sche)"
    and change: "\<And>s. consistent env s \<Longrightarrow> known s k \<Longrightarrow>
      \<exists>s'. change sche s = Inr (s', None) \<and> consistent env s' \<and> cameraInfoList s' = cameraInfoList s"
  shows "\<exists>s'. update_part env (sql (en_exec env)) change key idx (Some obj) (s, None) = Inr (s', None, False) \<and> consistent env s' \<and>
           cameraInfoList s' = (cameraInfoList s)[idx := (cameraInfoList s ! idx)(key \<mapsto> t)]"
proof -
  obtain db where db: "sql_step env (sql (en_exec env) t) s = (s\<lparr>sv_db := db\<rparr>, None)" using sql_step_ok [OF assms(3,4)] by blast
  obtain s2 where s2: "change sche (s\<lparr>sv_db := db\<rparr>) = Inr (s2, None)" "consistent env s2" "cameraInfoList s2 = cameraInfoList s"
    using change [of "s\<lparr>sv_db := db\<rparr>"] assms(1,2) by (auto simp: known_def)
  show ?thesis
    using strict.inv_set_info [OF s2(2) assms(5), of idx t] s2(3)
    by (simp add: update_part_def assms(6,7) db s2(1)) (simp add: set_info_def)
qed

definition schedules_json :: "string \<Rightarrow> string \<Rightarrow> (hms \<times> hms) list list \<Rightarrow> (hms \<times> hms) list list \<Rightarrow> cjson" where
  "schedules_json m n rec_week bak_week = object_node
     [text_node ''mainId'' m, text_node ''subId'' n, named ''recSchedule'' (week_json rec_week), named ''bakSchedule'' (week_json bak_week)]"

definition query_json :: "string \<Rightarrow> string \<Rightarrow> int \<Rightarrow> cjson" where
  "query_json m n i = object_node [text_node ''mainId'' m, text_node ''subId'' n, CJSON cJSON_Number None i (Fin (of_int i)) (Some ''typeId'') []]"

text \<open>The answer: the ids, and the times of every day under its name.\<close>

definition week_answer :: "string \<Rightarrow> string \<Rightarrow> (hms \<times> hms) list list \<Rightarrow> cjson" where
  "week_answer m n week = object_node
     [CJSON cJSON_True None 1 (Fin 0) (Some ''code'') [],
      named ''schedule'' (object_node ([text_node ''mainId'' m, text_node ''subId'' n] @
        map2 (\<lambda>d day. named d (day_json day)) day_names week))]"

lemma efold_fold: "(\<And>x s. x \<in> set xs \<Longrightarrow> f x s = Inr (g x s)) \<Longrightarrow> efold f xs s = Inr (fold g xs s)"
  by (induction xs arbitrary: s) auto

lemma fold_strings:
  "n \<le> length ts \<Longrightarrow> fold (\<lambda>i arr. cJSON_AddItemToArray arr (Some (cJSON_CreateString (ts ! i)))) [0..<n] cJSON_CreateArray =
   cJSON_CreateStringArray (take n ts)"
  by (induction n) (simp_all add: cJSON_AddItemToArray_def create_simps take_Suc_conv_app_nth)

lemma day_times_week:
  assumes "d < length week"
  shows "day_times (week_json week) d = Inr (day_json (week ! d))"
proof -
  let ?ts = "map CommonCorrect.item_text (week ! d)"
  have day: "cJSON_GetArrayItem (week_json week) (int d) = Some (day_json (week ! d))"
    using assms by (simp add: cJSON_GetArrayItem_def week_json_def create_simps)
  have ch: "child (day_json (week ! d)) = map cJSON_CreateString ?ts" by (simp add: day_json_def create_simps)
  have "efold (\<lambda>i dayObj. ebind (node_text (cJSON_GetArrayItem (day_json (week ! d)) (int i)))
          (\<lambda>t. Inr (cJSON_AddItemToArray dayObj (Some (cJSON_CreateString t))))) [0..<length ?ts] cJSON_CreateArray =
      Inr (fold (\<lambda>i arr. cJSON_AddItemToArray arr (Some (cJSON_CreateString (?ts ! i)))) [0..<length ?ts] cJSON_CreateArray)"
    by (rule efold_fold) (simp add: cJSON_GetArrayItem_def ch node_text_def, simp add: create_simps)
  moreover have "fold (\<lambda>i arr. cJSON_AddItemToArray arr (Some (cJSON_CreateString (?ts ! i)))) [0..<length ?ts] cJSON_CreateArray =
      day_json (week ! d)"
    unfolding day_json_def using fold_strings [of "length ?ts" ?ts] by simp
  ultimately show ?thesis by (simp add: day_times_def day cJSON_GetArraySize_def ch)
qed

lemma add_object_node: "cJSON_AddItemToObject (object_node items) name (Some c) = object_node (items @ [named name c])"
  by (simp add: cJSON_AddItemToObject_def cJSON_AddItemToArray_def object_node_def named_def)

lemma create_nodes: "cJSON_CreateObject = object_node []" "named name (cJSON_CreateString t) = text_node name t"
  by (simp_all add: create_simps object_node_def named_def text_node_def)

lemma schedule_object_week:
  assumes "length week = 7"
  shows "schedule_object m n (week_json week) =
    Inr (object_node ([text_node ''mainId'' m, text_node ''subId'' n] @ map2 (\<lambda>d day. named d (day_json day)) day_names week))"
proof -
  obtain a b c d e f g where w: "week = [a, b, c, d, e, f, g]"
    using assms by (auto simp: numeral_eq_Suc length_Suc_conv)
  have "[0..<7] = [0, 1, 2, 3, 4, 5, 6 :: nat]" by (simp add: upt_rec)
  then show ?thesis
    by (simp add: schedule_object_def day_names_def day_times_week [unfolded One_nat_def] w create_nodes add_object_node json_names)
qed

lemma print_true_first:
  "cJSON_Print (object_node [named ''code'' (cJSON_CreateBool True), c]) =
   cJSON_Print (object_node [CJSON cJSON_True None 1 (Fin 0) (Some ''code'') [], c])"
  by (simp add: cJSON_Print_def object_node_def named_def create_simps cJSON_types)

lemma week_answer_printed:
  assumes "week_ok week" "CHR 0x00 \<notin> set m" "CHR 0x00 \<notin> set n"
  shows "\<exists>b. cJSON_Print (cJSON_AddItemToObject (cJSON_AddItemToObject cJSON_CreateObject ''code'' (Some (cJSON_CreateBool True))) ''schedule''
           (Some (object_node ([text_node ''mainId'' m, text_node ''subId'' n] @ map2 (\<lambda>d day. named d (day_json day)) day_names week)))) =
         Inr (Some b) \<and> cJSON_Parse b = Inr (Some (week_answer m n week))"
proof -
  have "json_wf (week_json week)" by (rule json_wf_week [OF assms(1)])
  then have "\<forall>day \<in> set week. json_wf (day_json day)" by (auto simp: week_json_def create_simps json_wf.simps cJSON_types)
  moreover have "\<forall>d \<in> set day_names. CHR 0x00 \<notin> set d" by (simp add: day_names_def)
  ultimately have "json_wf (week_answer m n week)"
    using assms(2,3) by (auto simp: week_answer_def json_wf.simps cJSON_types dest: set_zip_leftD set_zip_rightD)
  moreover have "cJSON_Print (cJSON_AddItemToObject (cJSON_AddItemToObject cJSON_CreateObject ''code'' (Some (cJSON_CreateBool True))) ''schedule''
           (Some (object_node ([text_node ''mainId'' m, text_node ''subId'' n] @ map2 (\<lambda>d day. named d (day_json day)) day_names week)))) =
      cJSON_Print (week_answer m n week)"
    by (simp only: create_nodes add_object_node append.simps print_true_first week_answer_def)
  ultimately show ?thesis using json_wf_Print [of "week_answer m n week"] by (auto simp: week_answer_def)
qed

lemma more_names:
  "cJSON_strcasecmp (Some ''mainId'') (Some ''typeId'') \<noteq> 0" "cJSON_strcasecmp (Some ''subId'') (Some ''typeId'') \<noteq> 0"
  "cJSON_strcasecmp (Some ''mainId'') (Some ''type'') \<noteq> 0" "cJSON_strcasecmp (Some ''subId'') (Some ''type'') \<noteq> 0"
  "cJSON_strcasecmp (Some ''typeId'') (Some ''type'') \<noteq> 0"
  by code_simp+

text \<open>After the two halves of the update the entry of the camera holds both texts.\<close>

lemma update_schedules_ok:
  assumes "consistent env s" "known s (m @ ''-'' @ n)" "sql_ok env" "week_ok rec_week" "week_ok bak_week"
  shows "\<exists>s' i r b. update_schedules env (m @ ''-'' @ n) (schedules_json m n rec_week bak_week) s = Inr (s', None) \<and> consistent env s' \<and>
     i < length (cameraInfoList s') \<and> camera_id (cameraInfoList s' ! i) = m @ ''-'' @ n \<and>
     cameraInfoList s' ! i = (cameraInfoList s' ! i)(REC_SCHE_JSON_NAME \<mapsto> r, BAK_SCHE_JSON_NAME \<mapsto> b) \<and>
     cJSON_Print (week_json rec_week) = Inr (Some r) \<and> cJSON_Print (week_json bak_week) = Inr (Some b)"
proof -
  let ?k = "m @ ''-'' @ n" and ?rec = "named ''recSchedule'' (week_json rec_week)" and ?bak = "named ''bakSchedule'' (week_json bak_week)"
  obtain r rs where r: "print_text ?rec = Inr r" "ParseSchedule r = Inr (Inr rs)" "cJSON_Print (week_json rec_week) = Inr (Some r)"
    using print_week [OF assms(4)] by metis
  obtain b bs where b: "print_text ?bak = Inr b" "ParseSchedule b = Inr (Inr bs)" "cJSON_Print (week_json bak_week) = Inr (Some b)"
    using print_week [OF assms(5)] by metis
  obtain cs i where f: "find_camera ?k (cameraInfoList s) = (cs, Some i)" using find_camera_known assms(2) by (metis known_def)
  have i: "i < length cs" "camera_id (cs ! i) = ?k" using find_camera_nth [OF f] by auto
  have ids: "map camera_id cs = map camera_id (cameraInfoList s)" using find_camera_ids [of ?k "cameraInfoList s"] f by simp
  have c: "consistent env (s\<lparr>cameraInfoList := cs\<rparr>)" by (rule consistent_ids [OF assms(1) ids])
  have kn: "known s0 ?k" if "cameraInfoList s0 = cs[i := ci]" "camera_id ci = ?k" for s0 :: "('a, 'b) service" and ci
    using that i by (auto simp: known_def intro!: image_eqI [of _ _ ci] simp: set_update_memI)
  have kn0: "known (s\<lparr>cameraInfoList := cs\<rparr>) ?k" by (rule kn [of _ "cs ! i"]) (use i in simp_all)
  obtain s1 where s1: "update_part env (UpdateRecScheduleToCameraTable (en_exec env) ?k) (change_rec ?k) REC_SCHE_JSON_NAME i (Some ?rec)
      (s\<lparr>cameraInfoList := cs\<rparr>, None) = Inr (s1, None, False)" "consistent env s1" "cameraInfoList s1 = cs[i := (cs ! i)(REC_SCHE_JSON_NAME \<mapsto> r)]"
    using update_part_ok [where sql = "\<lambda>exec. UpdateRecScheduleToCameraTable exec ?k" and change = "change_rec ?k" and idx = i,
        OF c kn0 assms(3) statements(4) schedule_names(1) r(1,2) change_rec_ok] by auto
  have kn1: "known s1 ?k" by (rule kn [OF s1(3)]) (simp add: i(2) schedule_names)
  obtain s2 where s2: "update_part env (UpdateBakScheduleToCameraTable (en_exec env) ?k) (change_bak ?k) BAK_SCHE_JSON_NAME i (Some ?bak)
      (s1, None) = Inr (s2, None, False)" "consistent env s2"
      "cameraInfoList s2 = (cameraInfoList s1)[i := (cameraInfoList s1 ! i)(BAK_SCHE_JSON_NAME \<mapsto> b)]"
    using update_part_ok [where sql = "\<lambda>exec. UpdateBakScheduleToCameraTable exec ?k" and change = "change_bak ?k" and idx = i,
        OF s1(2) kn1 assms(3) statements(5) schedule_names(2) b(1,2) change_bak_ok] by auto
  have l: "cameraInfoList s2 = cs[i := (cs ! i)(REC_SCHE_JSON_NAME \<mapsto> r, BAK_SCHE_JSON_NAME \<mapsto> b)]" using s1(3) s2(3) i(1) by simp
  have o: "cJSON_GetObjectItem (schedules_json m n rec_week bak_week) REC_SCHE_JSON_NAME = Some ?rec"
    "cJSON_GetObjectItem (schedules_json m n rec_week bak_week) BAK_SCHE_JSON_NAME = Some ?bak"
    by (simp_all add: schedules_json_def find_item REC_SCHE_JSON_NAME_def BAK_SCHE_JSON_NAME_def)
  have "update_schedules env ?k (schedules_json m n rec_week bak_week) s = Inr (s2, None)"
    unfolding update_schedules_def f using s1(1) s2(1) by (simp add: o)
  then show ?thesis
    using s2(2) l i r(3) b(3) by (intro exI [of _ s2] exI [of _ i] exI [of _ r] exI [of _ b]) (simp add: schedule_names fun_upd_twist fun_eq_iff)
qed

lemma schedule_json_entry:
  assumes "distinct (map camera_id (cameraInfoList s))" "i < length (cameraInfoList s)" "camera_id (cameraInfoList s ! i) = k"
    "info_field (cameraInfoList s ! i) key = t" "key \<noteq> CAMERA_ID_MYSQL_NAME"
  shows "\<exists>s'. schedule_json k key s = (s', t)"
proof -
  have "k \<in> camera_id ` set (cameraInfoList s)" using assms(2,3) by (metis image_eqI nth_mem)
  then obtain cs j where f: "find_camera k (cameraInfoList s) = (cs, Some j)" using find_camera_known by metis
  note nth = find_camera_nth [OF f] and len = find_camera_length [OF f]
  have "map camera_id cs = map camera_id (cameraInfoList s)" using find_camera_ids [of k "cameraInfoList s"] f by simp
  then have "map camera_id (cameraInfoList s) ! j = map camera_id (cameraInfoList s) ! i"
    using nth len assms(2,3) by (metis nth_map)
  then have "j = i" using nth_eq_iff_index_eq [OF assms(1), of j i] nth len assms(2) by simp
  then show ?thesis
    using find_camera_field [OF f assms(5), of i] assms(2,4) by (simp add: schedule_json_def f)
qed

lemma week_json_text:
  assumes "week_ok week" "cJSON_Print (week_json week) = Inr (Some t)"
  shows "cJSON_Parse t = Inr (Some (week_json week))" "t \<noteq> []"
proof -
  have n: "jname (week_json week) = None" by (simp add: week_json_def create_simps)
  show p: "cJSON_Parse t = Inr (Some (week_json week))" using json_wf_Print [OF json_wf_week [OF assms(1)] n] assms(2) by auto
  have "cJSON_Parse [] = Inr None" by code_simp
  with p show "t \<noteq> []" by auto
qed

lemma query_json_fields:
  assumes "posts info (query_json m n i)" "CHR 0x00 \<notin> set m" "CHR 0x00 \<notin> set n" "i = 0 \<or> i = 1"
  shows "post_ids info = Inr (Inr (query_json m n i, text_node ''mainId'' m, text_node ''subId'' n))"
    "schedule_type (query_json m n i) = Inr (Inr i)"
proof -
  have "json_wf (query_json m n i)" "jname (query_json m n i) = None"
    using assms(2-4) by (auto simp: query_json_def json_wf.simps cJSON_types INT_MIN_def INT_MAX_def)
  from posts_json [OF assms(1) this]
  show "post_ids info = Inr (Inr (query_json m n i, text_node ''mainId'' m, text_node ''subId'' n))"
    by (simp add: post_ids_def need_def query_json_def json_names find_item)
  show "schedule_type (query_json m n i) = Inr (Inr i)"
    by (simp add: schedule_type_def query_json_def json_names find_item more_names CAMERA_TYPE_MYSQL_NAME_def)
qed

text \<open>What is stored for a camera is what \<open>GetSchedule\<close> answers.\<close>

lemma GetSchedule_stored:
  assumes "consistent env s" "j < length (cameraInfoList s)" "camera_id (cameraInfoList s ! j) = m @ ''-'' @ n"
    and "info_field (cameraInfoList s ! j) (if i = 0 then REC_SCHE_JSON_NAME else BAK_SCHE_JSON_NAME) = t"
    and "week_ok week" "cJSON_Print (week_json week) = Inr (Some t)"
    and "posts info (query_json m n i)" "CHR 0x00 \<notin> set m" "CHR 0x00 \<notin> set n" "i = 0 \<or> i = 1"
  shows "\<exists>s' b. GetSchedule env hv (Some info) s = Inr (s', Some b) \<and> cJSON_Parse b = Inr (Some (week_answer m n week))"
proof -
  let ?k = "m @ ''-'' @ n" and ?key = "if i = 0 then REC_SCHE_JSON_NAME else BAK_SCHE_JSON_NAME"
  have id: "device_id (text_node ''mainId'' m) (text_node ''subId'' n) = Inr ?k" by (simp add: device_id_def node_text_def)
  have "?key \<noteq> CAMERA_ID_MYSQL_NAME" by (simp add: schedule_names)
  with assms(1) obtain s2 where s2: "schedule_json ?k ?key s = (s2, t)"
    using schedule_json_entry [OF _ assms(2-4)] unfolding consistent_def by blast
  note t = week_json_text [OF assms(5,6)]
  have obj: "schedule_object m n (week_json week) =
      Inr (object_node ([text_node ''mainId'' m, text_node ''subId'' n] @ map2 (\<lambda>d day. named d (day_json day)) day_names week))"
    by (rule schedule_object_week) (use assms(5) in \<open>simp add: week_ok_def\<close>)
  have kind: "\<not> (i \<noteq> 0 \<and> i \<noteq> 1)" using assms(10) by blast
  have "GetSchedule env hv (Some info) s =
      ebind (cJSON_Print (cJSON_AddItemToObject (cJSON_AddItemToObject cJSON_CreateObject ''code'' (Some (cJSON_CreateBool True))) ''schedule''
        (Some (object_node ([text_node ''mainId'' m, text_node ''subId'' n] @ map2 (\<lambda>d day. named d (day_json day)) day_names week)))))
        (\<lambda>res. Inr (s2, res))"
    unfolding GetSchedule_def option.case query_json_fields [OF assms(7-10)] abind_simps ebind_Inr sum.case prod.case id s2
    using kind t obj by (auto simp: node_text_def)
  with week_answer_printed [OF assms(5,8,9)] show ?thesis by auto
qed

text \<open>(C32) A schedule that was set is the one that is returned. On a service whose lists agree, with a database that executes its
  statements, posting valid weekly schedules for recording and backup of a known camera is answered with \<open>true\<close>; asking for
  either of them afterwards is answered with an object that holds the ids and, under the name of each day from Monday to Sunday,
  the times that were posted for it.\<close>

theorem set_get_schedule:
  assumes "consistent env s" "known s (m @ ''-'' @ n)" "sql_ok env" "week_ok rec_week" "week_ok bak_week"
    and "CHR 0x00 \<notin> set m" "CHR 0x00 \<notin> set n" "i = 0 \<or> i = 1"
    and "posts info (schedules_json m n rec_week bak_week)" "posts info' (query_json m n i)"
  shows "\<exists>s1 b1 s2 b2. UpdateSchedule env hv (Some info) s = Inr (s1, Some b1) \<and>
       answers b1 True (snprintf 125 (text_update @ (m @ ''-'' @ n) @ text_schedule @ text_ok @ '' '')) \<and>
     GetSchedule env hv' (Some info') s1 = Inr (s2, Some b2) \<and>
       cJSON_Parse b2 = Inr (Some (week_answer m n (if i = 0 then rec_week else bak_week)))"
proof -
  let ?k = "m @ ''-'' @ n" and ?key = "if i = 0 then REC_SCHE_JSON_NAME else BAK_SCHE_JSON_NAME" and ?week = "if i = 0 then rec_week else bak_week"
  have id: "device_id (text_node ''mainId'' m) (text_node ''subId'' n) = Inr ?k" by (simp add: device_id_def node_text_def)
  obtain s1 j r b where s1: "update_schedules env ?k (schedules_json m n rec_week bak_week) s = Inr (s1, None)" "consistent env s1"
      "j < length (cameraInfoList s1)" "camera_id (cameraInfoList s1 ! j) = ?k"
      "cameraInfoList s1 ! j = (cameraInfoList s1 ! j)(REC_SCHE_JSON_NAME \<mapsto> r, BAK_SCHE_JSON_NAME \<mapsto> b)"
      "cJSON_Print (week_json rec_week) = Inr (Some r)" "cJSON_Print (week_json bak_week) = Inr (Some b)"
    using update_schedules_ok [OF assms(1-5)] by metis
  have w: "json_wf (schedules_json m n rec_week bak_week)" "jname (schedules_json m n rec_week bak_week) = None"
    using assms(4-7) by (simp_all add: schedules_json_def json_wf_week)
  have ids: "post_ids info = Inr (Inr (schedules_json m n rec_week bak_week, text_node ''mainId'' m, text_node ''subId'' n))"
    using posts_json [OF assms(9) w] by (simp add: post_ids_def need_def schedules_json_def json_names find_item)
  have "CHR 0x00 \<notin> set (text_update @ ?k)" using assms(6,7) by auto
  from respond_ok [OF this text_no_NUL(5), of 125 s1] obtain b1 where
    b1: "respond 125 (text_update @ ?k) text_schedule (s1, None) = Inr (s1, Some b1)"
      "answers b1 True (snprintf 125 (text_update @ ?k @ text_schedule @ text_ok @ '' ''))" by auto
  have upd: "UpdateSchedule env hv (Some info) s = Inr (s1, Some b1)"
    using b1(1) s1(1) by (simp add: UpdateSchedule_def ids id)
  have "info_field (cameraInfoList s1 ! j) ?key = (if i = 0 then r else b)"
    by (subst s1(5)) (simp add: info_field_def REC_SCHE_JSON_NAME_def BAK_SCHE_JSON_NAME_def)
  moreover have "week_ok ?week" "cJSON_Print (week_json ?week) = Inr (Some (if i = 0 then r else b))" using assms(4,5) s1(6,7) by auto
  ultimately obtain s2 b2 where "GetSchedule env hv' (Some info') s1 = Inr (s2, Some b2)" "cJSON_Parse b2 = Inr (Some (week_answer m n ?week))"
    using GetSchedule_stored [OF s1(2-4) _ _ _ assms(10,6,7,8)] by blast
  with upd b1(2) show ?thesis by auto
qed

lemma sample_camera_added:
  "\<exists>s. consistent sample_service_env s \<and> known s ''1-2''"
proof -
  obtain t sche where "ParseSchedule t = Inr (Inr sche)" using print_week [OF open_hours_ok] by metis
  then obtain s where "consistent sample_service_env s" "cameraInfoList s = cameraInfoList sample_service @ [new_camera_info ''1-2'' ''gate'' t t]"
    using add_camera_new [OF sample_consistent] by metis
  then show ?thesis by (auto simp: known_def)
qed

theorem set_get_schedule_witness:
  "\<exists>s info info' s1 b1 s2 b2. UpdateSchedule sample_service_env sample_http_env (Some info) s = Inr (s1, Some b1) \<and>
     GetSchedule sample_service_env sample_http_env (Some info') s1 = Inr (s2, Some b2) \<and>
     cJSON_Parse b2 = Inr (Some (week_answer ''1'' ''2'' open_hours))"
proof -
  obtain s where s: "consistent sample_service_env s" "known s (''1'' @ ''-'' @ ''2'')" using sample_camera_added by auto
  have "json_wf (schedules_json ''1'' ''2'' open_hours open_hours)" "jname (schedules_json ''1'' ''2'' open_hours open_hours) = None"
    by (simp_all add: schedules_json_def json_wf_week open_hours_ok)
  then obtain info where i: "posts info (schedules_json ''1'' ''2'' open_hours open_hours)" using posts_behind by blast
  have "json_wf (query_json ''1'' ''2'' 0)" "jname (query_json ''1'' ''2'' 0) = None"
    by (simp_all add: query_json_def json_wf.simps cJSON_types INT_MIN_def INT_MAX_def)
  then obtain info' where i': "posts info' (query_json ''1'' ''2'' 0)" using posts_behind by blast
  show ?thesis
    using set_get_schedule [OF s sample_consistent(3) open_hours_ok open_hours_ok _ _ _ i i', of sample_http_env sample_http_env]
    by fastforce
qed

section \<open>Requests that end the service\<close>

text \<open>The checks behind the look-up of \<open>endTime\<close> test \<open>startTimeObj\<close> once more.\<close>

lemma list_range_no_end:
  "device_id m n = Inr k \<Longrightarrow> node_text (Some startObj) = Inr t \<Longrightarrow> list_range m n startObj None = Inl NullDeref"
  by (simp add: list_range_def node_text_def)

text \<open>A request without an end time ends the service. For a posted object with both ids and a start time as strings and without
  \<open>endTime\<close>, the three requests that take an interval dereference a null pointer: the start of a recording on demand when
  there is an \<open>eventId\<close>, the list of recordings when there is a valid \<open>typeId\<close>, and the list of backups in any case.\<close>

theorem missing_end_time_faults:
  assumes "post_json info = Inr (Inr obj)" "cJSON_GetObjectItem obj ''endTime'' = None"
    and "cJSON_GetObjectItem obj ''mainId'' = Some m" "cJSON_GetObjectItem obj ''subId'' = Some n"
    and "cJSON_GetObjectItem obj ''startTime'' = Some startObj"
    and "valuestring m = Some mt" "valuestring n = Some nt" "valuestring startObj = Some st"
  shows "(cJSON_GetObjectItem obj ''eventId'' = Some e \<longrightarrow> EventRecode env hv (Some info) s = Inl NullDeref) \<and>
    (cJSON_GetObjectItem obj ''typeId'' = Some ty \<and> 0 \<le> valueint ty \<and> valueint ty \<le> 2 \<longrightarrow>
       GetRecodeList env hv (Some info) s = Inl NullDeref) \<and>
    GetBackupList env hv (Some info) s = Inl NullDeref"
proof -
  have ids: "post_ids info = Inr (Inr (obj, m, n))" using assms(1,3,4) by (simp add: post_ids_def need_def json_names)
  have ids_read: "device_id m n = Inr (mt @ ''-'' @ nt)" "node_text (Some startObj) = Inr st" "node_text None = Inl NullDeref"
    using assms(6-8) by (simp_all add: device_id_def node_text_def)
  have fields: "list_fields info = Inr (Inr (obj, m, n, startObj, None))"
    using assms(2,5) by (simp add: list_fields_def ids need_def json_names)
  have "GetRecodeList env hv (Some info) s = Inl NullDeref" if "cJSON_GetObjectItem obj ''typeId'' = Some ty" "0 \<le> valueint ty" "valueint ty \<le> 2"
  proof -
    have "valueint ty = 0 \<or> valueint ty = 1 \<or> valueint ty = 2" using that(2,3) by linarith
    then obtain k where "recode_type (valueint ty) = Some k" by (auto simp: recode_type_def)
    with that(1) show ?thesis
      using list_range_no_end [OF ids_read(1,2)] by (simp add: GetRecodeList_def fields need_def json_names)
  qed
  moreover have "EventRecode env hv (Some info) s = Inl NullDeref" if "cJSON_GetObjectItem obj ''eventId'' = Some e"
    using that assms(2,5) ids_read by (simp add: EventRecode_def event_fields_def ids need_def json_names)
  moreover have "GetBackupList env hv (Some info) s = Inl NullDeref"
    using list_range_no_end [OF ids_read(1,2)] by (simp add: GetBackupList_def fields)
  ultimately show ?thesis by blast
qed

definition number_node :: "string \<Rightarrow> int \<Rightarrow> cjson" where
  "number_node name i = CJSON cJSON_Number None i (Fin (of_int i)) (Some name) []"

definition no_end_json :: cjson where
  "no_end_json = object_node [text_node ''mainId'' ''1'', text_node ''subId'' ''2'', text_node ''startTime'' ''2020-09-13 20:00:00'',
     number_node ''eventId'' 1, number_node ''typeId'' 0]"

theorem missing_end_time_faults_witness:
  "\<exists>info. posts info no_end_json \<and> EventRecode sample_service_env sample_http_env (Some info) sample_service = Inl NullDeref \<and>
     GetRecodeList sample_service_env sample_http_env (Some info) sample_service = Inl NullDeref \<and>
     GetBackupList sample_service_env sample_http_env (Some info) sample_service = Inl NullDeref"
proof -
  have w: "json_wf no_end_json" "jname no_end_json = None"
    by (simp_all add: no_end_json_def number_node_def json_wf.simps cJSON_types INT_MIN_def INT_MAX_def)
  then obtain info where i: "posts info no_end_json" using posts_behind by blast
  have "cJSON_GetObjectItem no_end_json ''endTime'' = None"
    "cJSON_GetObjectItem no_end_json ''mainId'' = Some (text_node ''mainId'' ''1'')"
    "cJSON_GetObjectItem no_end_json ''subId'' = Some (text_node ''subId'' ''2'')"
    "cJSON_GetObjectItem no_end_json ''startTime'' = Some (text_node ''startTime'' ''2020-09-13 20:00:00'')"
    by code_simp+
  note faults = missing_end_time_faults [OF posts_json [OF i w] this node_simps(2) node_simps(2) node_simps(2),
      of "number_node ''eventId'' 1" sample_service_env sample_http_env sample_service "number_node ''typeId'' 0"]
  have "cJSON_GetObjectItem no_end_json ''eventId'' = Some (number_node ''eventId'' 1)"
    "cJSON_GetObjectItem no_end_json ''typeId'' = Some (number_node ''typeId'' 0)" "valueint (number_node ''typeId'' 0) = 0"
    by code_simp+
  with faults i show ?thesis by auto
qed

text \<open>The name of a request is copied into 256 bytes without a check.\<close>

lemma req_loop_overrun:
  "HTTP_REQ_STRING_LEN < length req + length name \<Longrightarrow> length req \<le> HTTP_REQ_STRING_LEN \<Longrightarrow> CHR ''/'' \<notin> set name \<Longrightarrow> CHR '' '' \<notin> set name \<Longrightarrow>
   n \<le> length rest \<Longrightarrow> req_loop n req (name @ rest) = Inl OutOfBounds"
proof (induction name arbitrary: req)
  case (Cons c cs)
  show ?case
  proof (cases "HTTP_REQ_STRING_LEN \<le> length req")
    case False
    then have "cs \<noteq> []" using Cons.prems(1) by auto
    then have "\<not> starts (\<lambda>d. d = CHR ''/'' \<or> d = CHR '' '') (cs @ rest)"
      using Cons.prems(3,4) by (cases cs) (auto simp: starts_def)
    with False Cons.IH [of "req @ [c]"] Cons.prems show ?thesis by simp
  qed (use Cons.prems(5) in simp)
qed simp

text \<open>The length of the body is read from an array without a NUL: digits behind it on the stack count.\<close>

lemma content_length_reads_stack:
  "ParseContentLen ''  7!'' (Some (''Content-Length: 12'' @ CRLF)) = Inr 127"
  by code_simp

text \<open>A body that contains \<open>GET /\<close> hides the name of the request.\<close>

lemma get_in_body_hides_name:
  "ParseReq (Some (post_text ''playback'' (CRLF @ CRLF @ ''GET /''))) = Inr (Some ([], []))"
  by code_simp

text \<open>
  The table of the cameras has no key. Adding a camera that is known inserts a second row with its id, finds the camera in the
  lists, and then deletes one row with that id, whichever the database takes: the schedules in the table may be the new ones
  afterwards although the request failed.
\<close>

lemma readding_swaps_row:
  assumes "consistent env s" "known s k" "en_exec env = (\<lambda>log q. (log @ [q], True, None))"
    and "ParseSchedule r = Inr (Inr rs)" "ParseSchedule b = Inr (Inr bs)"
  shows "\<exists>s' q1 q2 q3. add_camera env k name r b s = Inr (s', Some (store_api_ret device_already_exist)) \<and>
     sv_db s' = sv_db s @ [q1, q2, q3] \<and> q2 = snprintf 2048 (insert_camera_text k name r b) \<and>
     q3 = snprintf 256 (''DELETE FROM `camera_info` WHERE `id`='' @ sq k @ '' LIMIT 1'')"
proof -
  have run: "run_query (en_exec env) q log = (log @ [q], 0)" for q log by (simp add: run_query_def assms(3))
  have known: "consistent env (s\<lparr>sv_db := db\<rparr>)" "known (s\<lparr>sv_db := db\<rparr>) k" for db using assms(1,2) by (simp_all add: known_def)
  show ?thesis
    by (simp add: add_camera_enter with_schedule_def assms(4,5) sql_step_def CreateCameraTable_def InsertCameraInfoToTable_def run
        enter_lists_known [OF known] delete_info_def DeleteCameraInfoInTable_def SetError_def bq_def CAMERA_ID_MYSQL_NAME_def)
qed

end
