(* ===== verification/ServiceRun.thy ===== *)
theory ServiceRun
  imports HttpRequests
begin

text \<open>
  The running service as a step relation: HTTP requests, turns of the scheduler, frames that arrive, the writer thread and
  the disk monitor, in any order and with any result of \<open>malloc\<close>, \<open>mkdir\<close> and \<open>write\<close>. Whatever the order, the lists of the
  components name the same devices, but for the entries that a failed \<open>malloc\<close> leaves among the recording devices.
\<close>

section \<open>Steps\<close>

text \<open>
  One request is handled at a time here, and a step that faults has no successor. \<open>memory\<close> says that no \<open>malloc\<close> of a recording
  buffer fails. The stop call (\<open>flag\<close> not 0) is unrestricted; for other frames the condition of the recording component applies.
\<close>

inductive service_step :: "bool \<Rightarrow> ('db, 'p) service \<Rightarrow> ('db, 'p) service \<Rightarrow> bool" for memory :: bool where
  request: "memory \<longrightarrow> malloc_ok (en_store env) \<Longrightarrow>
     ResponseClient env hv content content_len (s, sent) = Inr (s', sent') \<Longrightarrow> service_step memory s s'"
| schedule: "StreamScheduleProc_turn se (sv_streams s) = Inr streams \<Longrightarrow> service_step memory s (s\<lparr>sv_streams := streams\<rparr>)"
| frame: "(\<And>d. flag = 0 \<Longrightarrow> device_of (type_of_fn f) devId (sv_store s) = Some d \<Longrightarrow> device_broken d \<or> frame_room env xs d) \<Longrightarrow>
     call_stream_fn env f (Some devId) (Some xs) flag (sv_store s) = Inr st \<Longrightarrow> service_step memory s (s\<lparr>sv_store := st\<rparr>)"
| writer: "device_of type devId (sv_store s) = Some d \<Longrightarrow>
     WriteToFileProc_device env devId d (sv_store s) = Inr (d', st) \<Longrightarrow>
     service_step memory s (s\<lparr>sv_store := set_device type devId d' st\<rparr>)"
| monitor: "MonitorProc_turn exec path min_free disk_info (cameraInfoList s) (sv_db s, sv_unlinked s) = Inr (db, unlinked) \<Longrightarrow>
     service_step memory s (s\<lparr>sv_db := db, sv_unlinked := unlinked\<rparr>)"

inductive service_reach :: "bool \<Rightarrow> ('db, 'p) service \<Rightarrow> ('db, 'p) service \<Rightarrow> bool" for memory :: bool and s0 where
  start: "service_reach memory s0 s0"
| step: "service_reach memory s0 s \<Longrightarrow> service_step memory s s' \<Longrightarrow> service_reach memory s0 s'"

section \<open>The recording devices and the cameras\<close>

text \<open>Every camera is a recording device; every other entry is one that a failed \<open>malloc\<close> left.\<close>

definition store_agrees :: "bool \<Rightarrow> (string \<Rightarrow> bool) \<Rightarrow> store_state \<Rightarrow> bool" where
  "store_agrees memory P st \<longleftrightarrow>
     (\<forall>k. case storeDeviceList st k of None \<Rightarrow> \<not> P k | Some d \<Rightarrow> P k \<or> \<not> memory \<and> device_broken d)"

lemma store_agrees_memory: "store_agrees True P st \<longleftrightarrow> store_present st = P"
proof -
  have "(case x of None \<Rightarrow> \<not> Q | Some d \<Rightarrow> Q \<or> \<not> True \<and> device_broken d) \<longleftrightarrow> x \<noteq> None \<longleftrightarrow> Q" for x Q by (cases x) auto
  then show ?thesis by (simp add: store_agrees_def store_present_def fun_eq_iff)
qed

lemma store_agrees_present: "store_agrees memory P st \<Longrightarrow> P k \<Longrightarrow> store_present st k"
  by (auto simp: store_agrees_def store_present_def split: option.splits)

lemma store_agrees_upd:
  assumes "store_agrees memory P st" "storeDeviceList st' = (storeDeviceList st)(k := x)"
    "case x of None \<Rightarrow> \<not> Q k | Some d \<Rightarrow> Q k \<or> \<not> memory \<and> device_broken d" "\<And>j. j \<noteq> k \<Longrightarrow> Q j = P j"
  shows "store_agrees memory Q st'"
  unfolding store_agrees_def
proof
  fix j
  show "case storeDeviceList st' j of None \<Rightarrow> \<not> Q j | Some d \<Rightarrow> Q j \<or> \<not> memory \<and> device_broken d"
  proof (cases "j = k")
    case False
    then show ?thesis using assms(1) [unfolded store_agrees_def, rule_format, of j] unfolding assms(2) assms(4) [OF False] by simp
  qed (use assms(2,3) in \<open>auto split: option.splits\<close>)
qed

text \<open>Frames, stop calls and the writer keep the entries, the broken ones broken.\<close>

definition same_devices :: "store_state \<Rightarrow> store_state \<Rightarrow> bool" where
  "same_devices st st' \<longleftrightarrow> (\<forall>k. rel_option (\<lambda>d d'. device_broken d' \<longleftrightarrow> device_broken d) (storeDeviceList st k) (storeDeviceList st' k))"

lemma same_devices_agrees: "same_devices st st' \<Longrightarrow> store_agrees memory P st \<Longrightarrow> store_agrees memory P st'"
  unfolding store_agrees_def same_devices_def
  by (intro allI) (drule_tac x = k in spec, drule_tac x = k in spec, auto simp: option_rel_Some1 split: option.splits)

lemma same_devices_set:
  assumes "device_of type k st = Some d" "storeDeviceList st2 = storeDeviceList st" "device_broken d' \<longleftrightarrow> device_broken d"
  shows "same_devices st (set_device type k d' st2)"
  using assms
  by (auto simp: same_devices_def device_of_def list_of_type_def set_device_def option.rel_refl split: if_splits)

lemma WriteFrameToBuf_same:
  assumes "WriteFrameToBuf env k type xs flag st = Inr (st', n)"
  shows "same_devices st st'"
proof -
  have self: "same_devices st st" by (simp add: same_devices_def option.rel_refl)
  show ?thesis
  proof (cases flag)
    case False
    with assms have "WriteFrameToBuf env k type xs False st = Inr (st', n)" by simp
    from WriteFrameToBuf_running_device [OF this] self show ?thesis
      using same_devices_set [OF _ refl] device_broken_block write_running_block by blast
  next
    case True
    with assms have "WriteFrameToBuf env k type xs True st = Inr (st', n)" by simp
    from WriteFrameToBuf_stop_device [OF this] self show ?thesis
    proof (elim disjE exE conjE)
      fix d d' r st2
      assume d: "device_of type k st = Some d" "pCurStoreBuf d' = Ref r" "pCurStoreBuf d \<noteq> Uninit" "\<forall>q. block_of d' q = block_of d q"
        and l: "storeDeviceList st2 = storeDeviceList st"
        and st': "st' = set_device type k (set_buf d' r (reset_buf (get_buf d' r) 0)) st2"
      let ?d = "set_buf d' r (reset_buf (get_buf d' r) 0)"
      have "block_of ?d q = block_of d q" for q using d(4) by (simp add: block_of_set)
      then have "device_broken ?d \<longleftrightarrow> device_broken d" using d(2,3) by (intro device_broken_block) simp_all
      with d(1) l st' show ?thesis by (simp add: same_devices_set)
    qed simp
  qed
qed

lemma writer_same:
  assumes "device_of type k st = Some d" "WriteToFileProc_device env k d st = Inr (d', st1)"
  shows "same_devices st (set_device type k d' st1)"
  using WriteToFileProc_device_keeps [OF assms(2)] assms(1) by (intro same_devices_set) (auto simp: device_broken_def)

section \<open>The lists agree\<close>

lemma known_eq: "known s = (\<lambda>k. k \<in> camera_id ` set (cameraInfoList s))"
  by (simp add: known_def fun_eq_iff)

definition lists_agree :: "bool \<Rightarrow> ('db, 'p) service \<Rightarrow> bool" where
  "lists_agree memory s \<longleftrightarrow> devices_inv memory (sv_store s) \<and> streams_ok (sv_streams s) \<and>
     bak_present (sv_bak s) = known s \<and> stream_present (sv_streams s) = known s \<and> store_agrees memory (known s) (sv_store s) \<and>
     distinct (map camera_id (cameraInfoList s))"

lemma consistent_lists_agree: "consistent env s \<longleftrightarrow> store_env_ok (en_store env) \<and> lists_agree True s"
  by (auto simp: consistent_def lists_agree_def service_inv_def registered_def devices_inv_memory store_agrees_memory known_eq fun_eq_iff)

lemma lists_agree_frame:
  "sv_bak s' = sv_bak s \<Longrightarrow> sv_store s' = sv_store s \<Longrightarrow> sv_streams s' = sv_streams s \<Longrightarrow> cameraInfoList s' = cameraInfoList s \<Longrightarrow>
   lists_agree memory s' \<longleftrightarrow> lists_agree memory s"
  by (simp add: lists_agree_def known_eq)

lemma lists_agree_store:
  "lists_agree memory s \<Longrightarrow> devices_inv memory st \<Longrightarrow> store_agrees memory (known s) st \<Longrightarrow> lists_agree memory (s\<lparr>sv_store := st\<rparr>)"
  by (simp add: lists_agree_def known_eq)

text \<open>Entering a camera: it is in all lists, or in none but, after a failed \<open>malloc\<close>, the recording devices.\<close>

lemma AddStoreDevice_cases:
  assumes "AddStoreDevice env k type st = (st', n, e)"
  shows "(n, e) = (0, None) \<and> (\<exists>d. device_wf d \<and> storeDeviceList st' = (storeDeviceList st)(k \<mapsto> d)) \<or>
    n < 0 \<and> (\<exists>err. e = Some err) \<and> (st' = st \<or> (\<exists>d. device_broken d \<and> \<not> malloc_ok env \<and> storeDeviceList st' = (storeDeviceList st)(k \<mapsto> d)))"
  using assms init_device_Inl init_device_Inr
  by (fastforce simp: AddStoreDevice_def Let_def split: if_splits sum.splits)

lemma keeps_enter_lists:
  assumes c: "lists_agree memory s" "memory \<longrightarrow> malloc_ok (en_store env)"
  shows "keeps (lists_agree memory) (enter_lists env k name r b rs bs s)"
proof (cases "known s k")
  case True
  then have "bak_present (sv_bak s) k" using c(1) by (simp add: lists_agree_def)
  then have "AddBakSchedule k bs (sv_bak s) = (sv_bak s, -1, Some device_already_exist)"
    by (simp add: AddBakSchedule_def bak_present_def)
  then show ?thesis using c(1) lists_agree_frame [of "SetError e s" s memory for e]
    by (simp add: enter_lists_def add_bak_def api_result_def GetError_def SetError_def)
next
  case False
  have inv: "devices_inv memory (sv_store s)" "streams_ok (sv_streams s)" "bak_present (sv_bak s) = known s"
    "stream_present (sv_streams s) = known s" "store_agrees memory (known s) (sv_store s)" "distinct (map camera_id (cameraInfoList s))"
    using c(1) by (simp_all add: lists_agree_def)
  obtain bak where bak: "AddBakSchedule k bs (sv_bak s) = (bak, 0, None)" "bak_present bak = (known s)(k := True)"
    using bak_registry.add_new [of "sv_bak s" k bs] False inv(3) by auto
  obtain st n e where st: "AddStoreDevice (en_store env) k RECODE_TYPE_PLANNED (sv_store s) = (st, n, e)" by (metis prod_cases3)
  have dinv: "devices_inv memory st" using AddStoreDevice_devices [OF inv(1) c(2), of k RECODE_TYPE_PLANNED] st by simp
  obtain streams where t: "AddStream (Some k) rs (Some StorePlannedStream) (sv_streams s) = Inr (streams, 0, None)" "streams_ok streams"
      "stream_present streams = (known s)(k := True)"
    using AddStream_new [of "sv_streams s" k] False inv(2,4) by auto
  let ?s = "s\<lparr>sv_bak := bak, sv_store := st\<rparr>"
  from AddStoreDevice_cases [OF st] consider
    (ok) d where "(n, e) = (0, None)" "device_wf d" "storeDeviceList st = (storeDeviceList (sv_store s))(k \<mapsto> d)"
  | (fail) err where "n < 0" "e = Some err" "st = sv_store s \<or> (\<exists>d. device_broken d \<and> \<not> malloc_ok (en_store env) \<and>
      storeDeviceList st = (storeDeviceList (sv_store s))(k \<mapsto> d))"
    by blast
  then show ?thesis
  proof cases
    case ok
    let ?t = "?s\<lparr>sv_streams := streams, cameraInfoList := cameraInfoList s @ [new_camera_info k name r b]\<rparr>"
    have kn: "known ?t = (known s)(k := True)" by (auto simp: known_def fun_eq_iff)
    have "store_agrees memory (known ?t) st" using store_agrees_upd [OF inv(5) ok(3), of "known ?t"] by (simp add: kn)
    moreover have "distinct (map camera_id (cameraInfoList ?t))" using inv(6) False by (auto simp: known_def)
    ultimately have "lists_agree memory ?t" using bak(2) t(2,3) dinv by (simp add: lists_agree_def kn del: map_append)
    moreover have "enter_lists env k name r b rs bs s = Inr (?t, None)"
      using ok(1) by (simp add: enter_lists_def add_bak_def add_store_def add_stream_def bak(1) st t(1))
    ultimately show ?thesis by simp
  next
    case fail
    then have sa: "store_agrees memory (known s) st"
      using inv(5) c(2) store_agrees_upd [OF inv(5), of st k "Some d" "known s" for d] by auto
    let ?u = "SetError err ?s"
    have e: "enter_lists env k name r b rs bs s = ebind (remove_bak k ?u) (\<lambda>s'. Inr (s', Some (store_api_ret err)))"
      using fail by (simp add: enter_lists_def add_bak_def add_store_def bak(1) st api_result_def GetError_def SetError_def)
    have "lists_agree memory (?u\<lparr>sv_bak := bak'\<rparr>)" if "RemoveBakSchedule k (sv_bak ?u) = Inr (bak', n')" for bak' n'
    proof -
      have "bak_present bak' = known s"
        using RemoveBakSchedule_result [OF that] bak(2) False by (auto simp: SetError_def fun_eq_iff)
      then show ?thesis using inv dinv sa by (simp add: lists_agree_def SetError_def known_eq)
    qed
    then show ?thesis unfolding e by (auto simp: keeps_def remove_bak_def ebind_eq_Inr)
  qed
qed

lemma lists_agree_delete:
  assumes c: "lists_agree memory s"
    and d: "DeleteStream (en_ends env) (Some k) (sv_streams s) = Inr (streams, r, e)"
    and st: "RemoveStoreDevice (en_store env) k (sv_store s) = Inr (st, r', e')"
    and b: "RemoveBakSchedule k (sv_bak s) = Inr (bak, r'')"
    and s': "sv_streams s' = streams" "sv_store s' = st" "sv_bak s' = bak" "cameraInfoList s' = DeleteCameraInfoInList k (cameraInfoList s)"
  shows "lists_agree memory s'"
proof -
  have inv: "devices_inv memory (sv_store s)" "streams_ok (sv_streams s)" "bak_present (sv_bak s) = known s"
    "stream_present (sv_streams s) = known s" "store_agrees memory (known s) (sv_store s)" "distinct (map camera_id (cameraInfoList s))"
    using c by (simp_all add: lists_agree_def)
  note ids = DeleteCameraInfoInList_ids [OF inv(6), of k]
  have kn: "known s' = (known s)(k := False)" using ids s'(4) by (auto simp: known_def fun_eq_iff)
  have "store_agrees memory (known s') st"
    using store_agrees_upd [OF inv(5) RemoveStoreDevice_lists(1) [OF st], of "known s'"] by (simp add: kn)
  moreover have "devices_inv memory st" using RemoveStoreDevice_all [OF _ st] inv(1) by (simp add: devices_inv_def)
  ultimately show ?thesis
    using DeleteStream_result [OF inv(2) d] RemoveBakSchedule_result [OF b] inv(3,4) ids s' by (simp add: lists_agree_def kn)
qed

text \<open>The second interpretation: no condition on the environment, unless \<open>memory\<close> says that allocations succeed.\<close>

interpretation agree: device_lists env "\<lambda>s. (memory \<longrightarrow> malloc_ok (en_store env)) \<and> lists_agree memory s"
  for memory and env :: "('db, 'p) service_env"
proof (unfold_locales, goal_cases)
  case (1 s' s)
  then show ?case using lists_agree_frame by blast
next
  case (2 s cs)
  then have "camera_id ` set cs = camera_id ` set (cameraInfoList s)" by (metis list.set_map)
  with 2 show ?case by (simp add: lists_agree_def known_eq)
next
  case (3 s k name r b rs bs)
  then show ?case using keeps_enter_lists [of memory s env k name r b rs bs] by (simp add: keeps_def)
next
  case (4 s k streams n e st n' e' bak n'' s')
  then show ?case using lists_agree_delete by blast
next
  case (5 s k sche streams n e)
  then show ?case using UpdateRecodeSchedule_result [of "sv_streams s" k sche streams n e] by (simp add: lists_agree_def known_eq)
next
  case (6 s k sche bak n e)
  then show ?case using UpdateBakSchedule_result [of k sche "sv_bak s" bak n e] by (simp add: lists_agree_def known_eq)
next
  case (7 s k type st n e)
  then have "devices_inv memory st" "storeDeviceList st = storeDeviceList (sv_store s)"
    using AddStoreEvent_devices_inv [of memory "sv_store s" "en_store env" k type] AddStoreEvent_devices [of "en_store env" k type "sv_store s"]
    by (simp_all add: lists_agree_def)
  with 7 show ?case by (simp add: lists_agree_def known_eq store_agrees_def)
next
  case (8 s k type)
  then show ?case using RemoveStoreEvent_all [of _ "sv_store s" k type] RemoveStoreEvent_devices [of k type "sv_store s"]
    by (simp add: lists_agree_def known_eq store_agrees_def devices_inv_def)
qed

section \<open>The other steps\<close>

lemma schedule_one_cancel: "schedule_one env k t = Inr t' \<Longrightarrow> thread_state t' = thread_cancel \<longleftrightarrow> thread_state t = thread_cancel"
  by (auto simp: schedule_one_def Let_def ebind_eq_Inr StartStreamThread_def StopStreamThread_def split: if_splits)

lemma emap_entries:
  "emap (\<lambda>(k, t). ebind (f k t) (\<lambda>t'. Inr (k, t'))) l = Inr l' \<Longrightarrow>
   map fst l' = map fst l \<and> rel_option (\<lambda>t t'. f k t = Inr t') (map_of l k) (map_of l' k)"
  by (induction l arbitrary: l') (auto simp: ebind_eq_Inr)

lemma scheduler_keeps_streams:
  assumes "streams_ok s" "StreamScheduleProc_turn env s = Inr s'"
  shows "streams_ok s' \<and> stream_present s' = stream_present s"
proof -
  obtain l where l: "emap (\<lambda>(k, t). ebind (schedule_one env k t) (\<lambda>t'. Inr (k, t'))) (streamThreadList s) = Inr l"
    and s': "s' = s\<lparr>streamThreadList := l\<rparr>"
    using assms by (auto simp: StreamScheduleProc_turn_def streams_ok_def ebind_eq_Inr split: if_splits)
  have "stream_present s' k = stream_present s k" for k
    using emap_entries [OF l, of k] s' schedule_one_cancel
    by (cases "map_of (streamThreadList s) k"; cases "map_of l k") (auto simp: stream_present_def)
  moreover have "streams_ok s'"
    using assms(1) s' emap_entries [OF l] by (simp add: streams_ok_def keys_sorted_def)
  ultimately show ?thesis by auto
qed

lemma frame_lists:
  assumes "lists_agree memory s" "call_stream_fn env f (Some k) (Some xs) flag (sv_store s) = Inr st"
    "\<And>d. flag = 0 \<Longrightarrow> device_of (type_of_fn f) k (sv_store s) = Some d \<Longrightarrow> device_broken d \<or> frame_room env xs d"
  shows "lists_agree memory (s\<lparr>sv_store := st\<rparr>)"
proof -
  obtain n where w: "WriteFrameToBuf env k (type_of_fn f) xs (flag \<noteq> 0) (sv_store s) = Inr (st, n)"
    using assms(2) by (auto simp: call_stream_fn_def ebind_eq_Inr)
  have inv: "devices_inv memory (sv_store s)" "store_agrees memory (known s) (sv_store s)" using assms(1) by (simp_all add: lists_agree_def)
  have "devices_inv memory st"
  proof (cases "flag = 0")
    case True
    with w have "WriteFrameToBuf env k (type_of_fn f) xs False (sv_store s) = Inr (st, n)" by simp
    from write_frame_devices [OF inv(1) this assms(3) [OF True]] show ?thesis .
  next
    case False
    with w have "WriteFrameToBuf env k (type_of_fn f) xs True (sv_store s) = Inr (st, n)" by simp
    from stop_devices [OF inv(1) this] show ?thesis .
  qed
  then show ?thesis using lists_agree_store [OF assms(1)] same_devices_agrees [OF WriteFrameToBuf_same [OF w] inv(2)] by blast
qed

lemma service_step_lists: "service_step memory s s' \<Longrightarrow> lists_agree memory s \<Longrightarrow> lists_agree memory s'"
proof (induction rule: service_step.induct)
  case (request env hv content content_len s sent s' sent')
  then show ?case using agree.ResponseClient_keeps [of memory env s hv content content_len sent s' sent'] by simp
next
  case (schedule se s streams)
  then show ?case using scheduler_keeps_streams [of "sv_streams s" se streams] by (simp add: lists_agree_def known_eq)
next
  case (frame flag f devId s env xs st)
  then show ?case using frame_lists by blast
next
  case (writer type devId s d env d' st)
  then have "devices_inv memory (sv_store s)" "store_agrees memory (known s) (sv_store s)" by (simp_all add: lists_agree_def)
  then show ?case
    using store_step_devices [OF store_step.writer [OF writer.hyps]] same_devices_agrees [OF writer_same [OF writer.hyps]]
      lists_agree_store [OF writer.prems] by blast
next
  case (monitor exec path min_free disk_info s db unlinked)
  then show ?case by (simp add: lists_agree_def known_eq)
qed

text \<open>
  (C34) The lists stay in step. From a state in which the recording devices, the streams, the backup schedules and the
  list of cameras name the same devices, consider any sequence of HTTP requests (well formed or not), turns of the scheduler, frames and
  stop calls, buffers written and turns of the disk monitor, none of which ends in a fault, with any result of the system calls; a frame
  that does not end a recording has room in the buffer that receives it. Then the streams, the backup schedules and the list of cameras still
  name the same devices, no camera twice, and every camera is a recording device. When no \<open>malloc\<close> failed the recording devices are exactly the
  cameras; otherwise they may also have entries, without their blocks, that the failed \<open>malloc\<close> left and that the handler does not take back.
\<close>

theorem service_lists_agree:
  assumes "service_reach memory s0 s" "lists_agree memory s0"
  shows "bak_present (sv_bak s) = known s \<and> stream_present (sv_streams s) = known s \<and> distinct (map camera_id (cameraInfoList s)) \<and>
    (\<forall>k. known s k \<longrightarrow> store_present (sv_store s) k) \<and> (memory \<longrightarrow> store_present (sv_store s) = known s) \<and>
    (\<forall>k d. storeDeviceList (sv_store s) k = Some d \<longrightarrow> known s k \<or> device_broken d)"
proof -
  have "lists_agree memory s" using assms by (induction rule: service_reach.induct) (auto intro: service_step_lists)
  then have l: "bak_present (sv_bak s) = known s" "stream_present (sv_streams s) = known s" "distinct (map camera_id (cameraInfoList s))"
    "store_agrees memory (known s) (sv_store s)" by (simp_all add: lists_agree_def)
  have "known s k \<or> device_broken d" if "storeDeviceList (sv_store s) k = Some d" for k d
    using l(4) that unfolding store_agrees_def by (metis (mono_tags, lifting) option.simps(5))
  moreover have "memory \<longrightarrow> store_present (sv_store s) = known s" using l(4) store_agrees_memory by auto
  ultimately show ?thesis using l store_agrees_present by blast
qed

theorem service_lists_agree_witness:
  "\<exists>s0 s :: (nat, unit) service. service_step True s0 s \<and> known s0 ''1-2'' \<and> known s ''1-2'' \<and> error_no s = no_post_data \<and>
     bak_present (sv_bak s) = known s \<and> store_present (sv_store s) = known s"
proof -
  obtain s0 where s0: "consistent sample_service_env s0" "known s0 ''1-2''" using sample_camera_added by blast
  obtain body where b: "DelPlaybackDev sample_service_env sample_http_env (Some ('' '' @ http_ver @ [])) s0 =
      Inr (SetError no_post_data s0, Some body)"
    using sample_request_handled by blast
  have h: "(''deleteplayback'', DelPlaybackDev) \<in> set httpReqList" by (simp add: httpReqList_def)
  have c: "malloc_ok (en_store sample_service_env)" "lists_agree True s0"
    using s0(1) by (simp_all add: consistent_lists_agree store_env_ok_def malloc_ok_def)
  let ?s = "SetError no_post_data s0"
  have r: "service_step True s0 ?s"
    by (rule service_step.request [OF _ dispatch_handler [OF h _ _ sample_request_read b]]) (use c(1) in simp_all)
  have "known ?s ''1-2''" "error_no ?s = no_post_data" using s0(2) by (simp_all add: SetError_def known_def)
  with r s0(2) service_lists_agree [OF service_reach.step [OF service_reach.start r] c(2)] show ?thesis by blast
qed

end
