(* ===== verification/RtmpVideo.thy ===== *)
theory RtmpVideo
  imports KeyFrame StoreFile
begin

text \<open>
  Playing a recording (\<open>src/src/rtmpsrv.cpp\<close>): the frames of a stored file are split at their start codes and sent as
  video packets of RTMP, with lengths instead of start codes. The static variables of the file are the record
  \<open>video_state\<close>; the frame that is being sent lies in a block of 300 KiB, \<open>pOneFrame\<close>, and pointers into it are
  offsets. Reads outside the block are faults. A packet is the list of bytes of its body with the header fields the
  code sets; what \<open>librtmp\<close> does with it is a parameter.
\<close>

section \<open>Units\<close>

record NaluInfo =
  nalu_type :: byte
  nalu :: nat
  nalu_len :: u32

record video_state =
  is_key_frame :: bool
  is_get_first_key_frame :: bool
  key_frame_cnt :: u32
  naluList :: "NaluInfo list"
  key_frame_idx :: int
  sps_idx :: int
  pps_idx :: int

definition VIDEO_DATA_BUF_SIZE :: nat where "VIDEO_DATA_BUF_SIZE = 50 * 1024 * 1024"

text \<open>
  \<open>ParseH264Param\<close>. Four bytes are read at every position below \<open>size\<close>, so up to three behind the frame. The
  variable \<open>naluInfo\<close> is indeterminate, \<open>None\<close> here, before the first start code, and \<open>is_first_nalu\<close> says that it is not.
\<close>

function h264_loop :: "nat \<Rightarrow> mem \<Rightarrow> nat \<Rightarrow> nat \<Rightarrow> NaluInfo option \<Rightarrow> NaluInfo list \<Rightarrow> NaluInfo list res" where
  "h264_loop cap m sz idx naluInfo units =
     (if idx < sz then
        if cap < idx + 4 then Inl OutOfBounds
        else (let divide1 = load_u32 m idx; divide2 = divide1 AND 0x00ffffff
          in if divide1 \<noteq> 0x01000000 \<and> divide2 \<noteq> 0x00010000
             then h264_loop cap m sz (idx + 1) (map_option (nalu_len_update (\<lambda>n. n + 1)) naluInfo) units
             else (let units' = (case naluInfo of None \<Rightarrow> units | Some n \<Rightarrow> units @ [n]);
                       idx' = idx + (if divide1 = 0x01000000 then 4 else 3)
               in if cap \<le> idx' then Inl OutOfBounds
                  else h264_loop cap m sz (idx' + 1) (Some \<lparr>nalu_type = m idx' AND 0x1f, nalu = idx', nalu_len = 1\<rparr>) units'))
      else (case naluInfo of None \<Rightarrow> Inl Indeterminate | Some n \<Rightarrow> Inr (units @ [n])))"
  by pat_completeness auto
termination
  by (relation "measure (\<lambda>(cap, m, sz, idx, naluInfo, units). sz - idx)") (auto split: if_splits)

declare h264_loop.simps [simp del]

definition ParseH264Param :: "nat \<Rightarrow> mem \<Rightarrow> nat \<Rightarrow> NaluInfo list res" where
  "ParseH264Param cap pVideoData sz = h264_loop cap pVideoData sz 0 None []"

text \<open>A frame that does not begin with a start code of four bytes leaves the list of the frame before it.\<close>

definition ParseVideoParam :: "nat \<Rightarrow> mem \<Rightarrow> nat \<Rightarrow> video_state \<Rightarrow> video_state res" where
  "ParseVideoParam cap pVideoData sz v =
     (if load_u32 pVideoData 0 = 0x01000000
      then ebind (ParseH264Param cap pVideoData sz) (\<lambda>units. Inr (v\<lparr>naluList := units\<rparr>))
      else Inr v)"

text \<open>One turn of the loop over the units; the flag is \<open>is_key_frame_exist\<close>.\<close>

definition classify :: "nat \<Rightarrow> NaluInfo \<Rightarrow> video_state \<times> bool \<Rightarrow> video_state \<times> bool" where
  "classify i n s = (case s of (v, key) \<Rightarrow>
     if nalu_type n = 0x5 then (v\<lparr>key_frame_cnt := 1, is_key_frame := True, key_frame_idx := int i\<rparr>, True)
     else if nalu_type n = 0x7 then (v\<lparr>sps_idx := int i\<rparr>, key)
     else if nalu_type n = 0x8 then (v\<lparr>pps_idx := int i\<rparr>, key)
     else (v, key))"

fun classify_units :: "nat \<Rightarrow> NaluInfo list \<Rightarrow> video_state \<times> bool \<Rightarrow> video_state \<times> bool" where
  "classify_units i [] s = s"
| "classify_units i (n # ns) s = classify_units (Suc i) ns (classify i n s)"

definition ParseVideoData :: "nat \<Rightarrow> mem \<Rightarrow> nat \<Rightarrow> video_state \<Rightarrow> video_state res" where
  "ParseVideoData cap pData data_size v =
     ebind (ParseVideoParam cap pData data_size (v\<lparr>key_frame_idx := -1, sps_idx := -1, pps_idx := -1\<rparr>)) (\<lambda>v1.
     case classify_units 0 (naluList v1) (v1, False) of (v2, key) \<Rightarrow>
       Inr (if key then v2 else v2\<lparr>key_frame_cnt := key_frame_cnt v2 + 1, is_key_frame := False\<rparr>))"

section \<open>Packets\<close>

definition be16 :: "u32 \<Rightarrow> byte list" where
  "be16 n = [ucast (drop_bit 8 n AND 0xff), ucast (n AND 0xff)]"

definition be32 :: "u32 \<Rightarrow> byte list" where
  "be32 n = [ucast (drop_bit 24 n AND 0xff), ucast (drop_bit 16 n AND 0xff), ucast (drop_bit 8 n AND 0xff), ucast (n AND 0xff)]"

text \<open>The bytes of a unit, and of a packet that is written to \<open>VideoDataBody\<close>.\<close>

definition unit_bytes :: "nat \<Rightarrow> mem \<Rightarrow> NaluInfo \<Rightarrow> byte list res" where
  "unit_bytes cap m n = (if cap < nalu n + unat (nalu_len n) then Inl OutOfBounds else Inr (bytes_at m (nalu n) (unat (nalu_len n))))"

definition video_body :: "byte list \<Rightarrow> byte list res" where
  "video_body xs = (if VIDEO_DATA_BUF_SIZE < length xs then Inl OutOfBounds else Inr xs)"

definition list_unit :: "video_state \<Rightarrow> int \<Rightarrow> NaluInfo res" where
  "list_unit v i = (if 0 \<le> i \<and> nat i < length (naluList v) then Inr (naluList v ! nat i) else Inl OutOfBounds)"

definition PacketVideoParam :: "nat \<Rightarrow> mem \<Rightarrow> video_state \<Rightarrow> byte list res" where
  "PacketVideoParam cap m v =
     ebind (list_unit v (sps_idx v)) (\<lambda>sps. ebind (list_unit v (pps_idx v)) (\<lambda>pps.
     if cap < nalu sps + 4 then Inl OutOfBounds
     else ebind (unit_bytes cap m sps) (\<lambda>sps_bytes. ebind (unit_bytes cap m pps) (\<lambda>pps_bytes.
       video_body ([0x17, 0x00, 0x00, 0x00, 0x00, 0x01, m (nalu sps + 1), m (nalu sps + 2), m (nalu sps + 3), 0xff, 0xe1] @
         be16 (nalu_len sps) @ sps_bytes @ [0x01] @ be16 (nalu_len pps + 1) @ pps_bytes @ [0])))))"

definition packet_units :: "nat \<Rightarrow> mem \<Rightarrow> NaluInfo list \<Rightarrow> byte list \<Rightarrow> byte list res" where
  "packet_units cap m = efold (\<lambda>n body. ebind (unit_bytes cap m n) (\<lambda>bs. Inr (body @ be32 (nalu_len n) @ bs)))"

definition PacketVideoData :: "nat \<Rightarrow> mem \<Rightarrow> video_state \<Rightarrow> byte list res" where
  "PacketVideoData cap m v =
     ebind (packet_units cap m (naluList v) [if is_key_frame v then 0x17 else 0x27, 0x01, 0x00, 0x00, 0x00]) video_body"

record RTMPPacket =
  m_nChannel :: int
  m_headerType :: nat
  m_packetType :: nat
  m_nTimeStamp :: u32
  m_nInfoField2 :: int
  m_hasAbsTimestamp :: nat
  m_body :: "byte list"

definition RTMP_PACKET_SIZE_LARGE :: nat where "RTMP_PACKET_SIZE_LARGE = 0"
definition RTMP_PACKET_SIZE_MEDIUM :: nat where "RTMP_PACKET_SIZE_MEDIUM = 1"
definition RTMP_PACKET_TYPE_VIDEO :: nat where "RTMP_PACKET_TYPE_VIDEO = 0x09"

definition video_packet :: "nat \<Rightarrow> u32 \<Rightarrow> byte list \<Rightarrow> RTMPPacket" where
  "video_packet header_type time_stamp body = \<lparr>m_nChannel = 0x07, m_headerType = header_type, m_packetType = RTMP_PACKET_TYPE_VIDEO,
     m_nTimeStamp = time_stamp, m_nInfoField2 = 1, m_hasAbsTimestamp = 0, m_body = body\<rparr>"

text \<open>\<open>RTMP_SendPacket\<close> on a connection: the connection afterwards and whether the packet was sent.\<close>

type_synonym 'c send = "'c \<Rightarrow> RTMPPacket \<Rightarrow> 'c \<times> int"

definition SendVideoParam :: "'c send \<Rightarrow> nat \<Rightarrow> mem \<Rightarrow> video_state \<Rightarrow> 'c \<Rightarrow> u32 \<Rightarrow> ('c \<times> int) res" where
  "SendVideoParam send cap m v r time_stamp =
     (if key_frame_idx v < 0 \<or> sps_idx v < 0 \<or> pps_idx v < 0 then Inr (r, 0)
      else ebind (PacketVideoParam cap m v) (\<lambda>param.
       let r1 = fst (send r (video_packet RTMP_PACKET_SIZE_LARGE time_stamp param))
       in ebind (PacketVideoData cap m v) (\<lambda>body. Inr (send r1 (video_packet RTMP_PACKET_SIZE_MEDIUM 0 body)))))"

definition SendVideoData :: "'c send \<Rightarrow> nat \<Rightarrow> mem \<Rightarrow> video_state \<Rightarrow> 'c \<Rightarrow> u32 \<Rightarrow> ('c \<times> int) res" where
  "SendVideoData send cap m v r time_stamp =
     ebind (PacketVideoData cap m v) (\<lambda>body. Inr (send r (video_packet RTMP_PACKET_SIZE_MEDIUM time_stamp body)))"

section \<open>Playing a file\<close>

record 'c play_env =
  pl_send :: "'c send"
  pl_connected :: "'c \<Rightarrow> bool"
  pl_files :: "string \<rightharpoonup> file_image"
  pl_undef :: int
  pl_malloc :: "bool \<times> bool"
  pl_heap :: "mem \<times> mem"

definition FRAME_SIZE :: nat where "FRAME_SIZE = 300 * 1024"

text \<open>
  The loop over the frames. \<open>prev_sys_time\<close> is \<open>None\<close> until the first key frame has been sent. The value is the static
  state and the connection; a frame that is empty, too long for \<open>pOneFrame\<close> or behind the last record ends the loop.
\<close>

function play_loop ::
    "'c play_env \<Rightarrow> mem \<Rightarrow> nat \<Rightarrow> mem \<Rightarrow> u64 option \<Rightarrow> video_state \<times> 'c \<Rightarrow> (video_state \<times> 'c) res" where
  "play_loop env frames idx pOneFrame prev_sys_time s =
     (case GetOneFrameByIndex idx frames STORE_FILE_MAX_SIZE FRAME_SIZE of
        Inl f \<Rightarrow> Inl f
      | Inr (None, n) \<Rightarrow> Inr s
      | Inr (Some (xs, sys_time), n) \<Rightarrow>
          if n \<le> 0 then Inr s
          else (case s of (v, r) \<Rightarrow>
            let pOneFrame' = memcpy pOneFrame 0 (mem_of_list xs) 0 (length xs)
            in ebind (ParseVideoData FRAME_SIZE pOneFrame' (length xs) v) (\<lambda>v1.
               if \<not> is_get_first_key_frame v1 then
                 if is_key_frame v1 then
                   ebind (SendVideoParam (pl_send env) FRAME_SIZE pOneFrame' v1 r 0) (\<lambda>(r1, ret).
                   if ret = 0 then play_loop env frames (idx + 1) pOneFrame' prev_sys_time (v1, r1)
                   else play_loop env frames (idx + 1) pOneFrame' (Some sys_time) (v1\<lparr>is_get_first_key_frame := True\<rparr>, r1))
                 else play_loop env frames (idx + 1) pOneFrame' prev_sys_time (v1, r)
               else (case prev_sys_time of
                   None \<Rightarrow> Inl Indeterminate
                 | Some t \<Rightarrow> ebind (SendVideoData (pl_send env) FRAME_SIZE pOneFrame' v1 r (ucast (sys_time - t))) (\<lambda>(r1, ret).
                     if pl_connected env r1 then play_loop env frames (idx + 1) pOneFrame' prev_sys_time (v1, r1)
                     else Inr (v1, r1))))))"
  by pat_completeness auto
termination
proof (relation "measure (\<lambda>(env, frames, idx, pOneFrame, prev, s). STORE_FILE_MAX_SIZE - sizeof_storeinfo * idx)", goal_cases)
qed (auto simp: GetOneFrameByIndex_def sizeof_storeinfo_def Let_def split: if_splits)

declare play_loop.simps [simp del]

text \<open>\<open>StartPlaybackStoreFile\<close>. Its result is not used; it returns early when memory is short or the file cannot be read.\<close>

definition StartPlaybackStoreFile :: "'c play_env \<Rightarrow> string \<Rightarrow> video_state \<times> 'c \<Rightarrow> (video_state \<times> 'c) res" where
  "StartPlaybackStoreFile env file_path s =
     (if \<not> fst (pl_malloc env) \<or> \<not> snd (pl_malloc env) then Inr s
      else ebind (ReadStoreFileFrame (pl_undef env) (pl_files env) file_path (fst (pl_heap env)) STORE_FILE_MAX_SIZE) (\<lambda>(frames, ret).
        if ret < 0 then Inr s else play_loop env frames 0 (snd (pl_heap env)) None s))"

end
