(* ===== verification/RtmpServe.thy ===== *)
theory RtmpServe
  imports RtmpVideo Common
begin

text \<open>
  The RTMP server of \<open>src/src/rtmpsrv.cpp\<close>: the messages it sends, the invocations it answers, a session, the thread that
  accepts connections, and \<open>main\<close> of the process that serves one of them (\<open>src/src/rtmp-server-main.cpp\<close>). What \<open>librtmp\<close>
  does is a parameter: decoding a received body, encoding a value into the space that is left, sending a packet.

  An \<open>AVal\<close> is a pointer with a length. The pointer is \<open>None\<close> when it is null and otherwise the bytes from there to the end
  of the block it points into, since the code reads behind the length in several places.
\<close>

section \<open>Values of AMF\<close>

record AVal =
  av_val :: "string option"
  av_len :: int

definition av_null :: AVal where "av_null = \<lparr>av_val = None, av_len = 0\<rparr>"

definition av_bytes :: "AVal \<Rightarrow> string" where
  "av_bytes a = (case av_val a of None \<Rightarrow> [] | Some s \<Rightarrow> take (nat (av_len a)) s)"

definition AVMATCH :: "AVal \<Rightarrow> string \<Rightarrow> bool" where
  "AVMATCH a s \<longleftrightarrow> av_len a = int (length s) \<and> av_bytes a = s"

text \<open>The value of a property with its type; the types the code does not distinguish are \<open>Amf_Other\<close> of their number.\<close>

datatype amf_prop = AMFProp (p_name: AVal) (p_vu: amf_value)
and amf_value = Amf_Number double | Amf_Boolean bool | Amf_String AVal | Amf_Object "amf_prop list" | Amf_Other nat

type_synonym amf_object = "amf_prop list"

definition AMF_OBJECT :: byte where "AMF_OBJECT = 3"
definition AMF_NULL :: byte where "AMF_NULL = 5"
definition AMF_OBJECT_END :: byte where "AMF_OBJECT_END = 9"

definition p_type :: "amf_value \<Rightarrow> nat" where
  "p_type v = (case v of Amf_Number _ \<Rightarrow> 0 | Amf_Boolean _ \<Rightarrow> 1 | Amf_String _ \<Rightarrow> 2 | Amf_Object _ \<Rightarrow> 3 | Amf_Other n \<Rightarrow> n)"

record amf_lib =
  AMF_Decode :: "byte list \<Rightarrow> amf_object option"
  AMFProp_GetString :: "amf_prop option \<Rightarrow> AVal"
  AMFProp_GetNumber :: "amf_prop option \<Rightarrow> double"
  AMFProp_GetObject :: "amf_prop option \<Rightarrow> amf_object"
  AMF_EncodeString :: "string \<Rightarrow> nat \<Rightarrow> byte list option"
  AMF_EncodeNumber :: "double \<Rightarrow> nat \<Rightarrow> byte list option"
  AMF_EncodeBoolean :: "bool \<Rightarrow> nat \<Rightarrow> byte list option"
  AMF_EncodeNamedString :: "string \<Rightarrow> string \<Rightarrow> nat \<Rightarrow> byte list option"
  AMF_EncodeNamedNumber :: "string \<Rightarrow> double \<Rightarrow> nat \<Rightarrow> byte list option"
  AMFProp_Encode :: "amf_prop \<Rightarrow> nat \<Rightarrow> byte list option"
  lib_number :: "amf_value \<Rightarrow> double"

definition AMF_GetProp :: "amf_object \<Rightarrow> nat \<Rightarrow> amf_prop option" where
  "AMF_GetProp obj i = (if i < length obj then Some (obj ! i) else None)"

text \<open>The number in the union of a property; \<open>lib_number\<close> is what it holds when the property is no number.\<close>

definition p_number :: "amf_lib \<Rightarrow> amf_prop \<Rightarrow> double" where
  "p_number lib p = (case p_vu p of Amf_Number d \<Rightarrow> d | v \<Rightarrow> lib_number lib v)"

section \<open>Counting and dumping the extra parameters\<close>

text \<open>\<open>countAMF\<close>: the length, and what is added to \<open>argc\<close>.\<close>

fun countAMF :: "amf_object \<Rightarrow> int \<times> int" where
  "countAMF [] = (0, 0)"
| "countAMF (AMFProp name v # ps) =
     (let named = av_val name \<noteq> None;
          inner = (case v of
              Amf_Boolean _ \<Rightarrow> (1, 0)
            | Amf_String a \<Rightarrow> (av_len a, 0)
            | Amf_Number _ \<Rightarrow> (40, 0)
            | Amf_Object obj \<Rightarrow> (case countAMF obj of (l, c) \<Rightarrow> (9 + l, c + 2))
            | Amf_Other _ \<Rightarrow> (0, 0));
          rest = countAMF ps
      in (4 + (if named then 1 else 0) + 2 + (if named then av_len name + 1 else 0) + fst inner + fst rest, 2 + snd inner + snd rest))"

text \<open>\<open>%f\<close> of a double; infinities and the rest print as words.\<close>

fun fmt_f :: "double \<Rightarrow> string" where
  "fmt_f (Fin r) = fmt_f6 r"
| "fmt_f PInf = ''inf''"
| "fmt_f NInf = ''-inf''"
| "fmt_f NaN = ''nan''"

text \<open>
  \<open>dumpAMF\<close> on the text written so far and the arguments, each as its offset in that text and its length.
  Types above 6 are read behind the letters of \<open>opt\<close>.
\<close>

definition opt_letters :: string where "opt_letters = ''NBSO Z'' @ [CHR 0x00]"

definition dump_head :: "AVal \<Rightarrow> char \<Rightarrow> string" where
  "dump_head name letter = (if av_val name \<noteq> None then ''N'' else []) @ [letter, CHR '':''] @
     (if av_val name \<noteq> None then takeWhile (\<lambda>c. c \<noteq> CHR 0x00) (av_bytes name) @ '':'' else [])"

definition dump_one :: "string \<Rightarrow> string \<times> (nat \<times> nat) list \<Rightarrow> string \<times> (nat \<times> nat) list" where
  "dump_one arg s = (case s of (ptr, argv) \<Rightarrow>
     (ptr @ '' -C '' @ arg, argv @ [(length ptr + 1, 2), (length ptr + 4, length arg)]))"

fun dumpAMF :: "amf_object \<Rightarrow> string \<times> (nat \<times> nat) list \<Rightarrow> (string \<times> (nat \<times> nat) list) res" where
  "dumpAMF [] s = Inr s"
| "dumpAMF (AMFProp name v # ps) s =
     (if length opt_letters \<le> p_type v then Inl OutOfBounds
      else (let arg = dump_head name (opt_letters ! p_type v) in
        case v of
          Amf_Boolean b \<Rightarrow> dumpAMF ps (dump_one (arg @ (if b then ''1'' else ''0'')) s)
        | Amf_String a \<Rightarrow> dumpAMF ps (dump_one (arg @ av_bytes a) s)
        | Amf_Number d \<Rightarrow> dumpAMF ps (dump_one (arg @ fmt_f d) s)
        | Amf_Object obj \<Rightarrow>
            ebind (dumpAMF obj (dump_one (arg @ ''1'') s)) (\<lambda>s1.
              dumpAMF ps (dump_one ''O:0'' s1))
        | Amf_Other _ \<Rightarrow> dumpAMF ps (dump_one arg s)))"

section \<open>Messages\<close>

text \<open>Encoding into a buffer on the stack of \<open>cap\<close> bytes: a failed encoder returns null, which the next step writes to.\<close>

type_synonym encoder = "nat \<Rightarrow> byte list \<Rightarrow> byte list res"

definition enc :: "(nat \<Rightarrow> byte list option) \<Rightarrow> encoder" where
  "enc f cap body = (case f (cap - length body) of None \<Rightarrow> Inl NullDeref | Some bs \<Rightarrow> Inr (body @ bs))"

definition put_byte :: "byte \<Rightarrow> encoder" where
  "put_byte b cap body = (if length body < cap then Inr (body @ [b]) else Inl OutOfBounds)"

definition encode :: "nat \<Rightarrow> encoder list \<Rightarrow> byte list res" where
  "encode cap fs = efold (\<lambda>f. f cap) fs []"

definition object_end :: "encoder list" where
  "object_end = [put_byte 0, put_byte 0, put_byte AMF_OBJECT_END]"

definition RTMP_MAX_HEADER_SIZE :: nat where "RTMP_MAX_HEADER_SIZE = 18"
definition RTMP_DEFAULT_CHUNKSIZE :: u32 where "RTMP_DEFAULT_CHUNKSIZE = 128"

definition packet :: "int \<Rightarrow> nat \<Rightarrow> nat \<Rightarrow> int \<Rightarrow> byte list \<Rightarrow> RTMPPacket" where
  "packet channel header_type packet_type info body = \<lparr>m_nChannel = channel, m_headerType = header_type, m_packetType = packet_type,
     m_nTimeStamp = 0, m_nInfoField2 = info, m_hasAbsTimestamp = 0, m_body = body\<rparr>"

definition RTMP_PACKET_TYPE_CHUNK_SIZE :: nat where "RTMP_PACKET_TYPE_CHUNK_SIZE = 0x01"
definition RTMP_PACKET_TYPE_CONTROL :: nat where "RTMP_PACKET_TYPE_CONTROL = 0x04"
definition RTMP_PACKET_TYPE_SERVER_BW :: nat where "RTMP_PACKET_TYPE_SERVER_BW = 0x05"
definition RTMP_PACKET_TYPE_CLIENT_BW :: nat where "RTMP_PACKET_TYPE_CLIENT_BW = 0x06"
definition RTMP_PACKET_TYPE_FLEX_MESSAGE :: nat where "RTMP_PACKET_TYPE_FLEX_MESSAGE = 0x11"
definition RTMP_PACKET_TYPE_INFO :: nat where "RTMP_PACKET_TYPE_INFO = 0x12"
definition RTMP_PACKET_TYPE_INVOKE :: nat where "RTMP_PACKET_TYPE_INVOKE = 0x14"

text \<open>The connection \<open>RTMP\<close> with the fields of \<open>Link\<close>. \<open>usher_owned\<close> says that the token was allocated by \<open>AVreplace\<close>.\<close>

record 'c rtmp =
  conn :: 'c
  app :: AVal
  flashVer :: AVal
  swfUrl :: AVal
  tcUrl :: AVal
  pageUrl :: AVal
  playpath :: AVal
  usherToken :: AVal
  usher_owned :: bool
  extras :: amf_object
  m_fAudioCodecs :: double
  m_fVideoCodecs :: double
  m_fEncoding :: double

definition send_on :: "'c send \<Rightarrow> RTMPPacket \<Rightarrow> 'c rtmp \<Rightarrow> 'c rtmp" where
  "send_on send p r = r\<lparr>conn := fst (send (conn r) p)\<rparr>"

definition send_encoded :: "'c send \<Rightarrow> nat \<Rightarrow> encoder list \<Rightarrow> (byte list \<Rightarrow> RTMPPacket) \<Rightarrow> 'c rtmp \<Rightarrow> 'c rtmp res" where
  "send_encoded send pbuf fs pkt r = ebind (encode (pbuf - RTMP_MAX_HEADER_SIZE) fs) (\<lambda>body. Inr (send_on send (pkt body) r))"

definition SendSampleAccess :: "amf_lib \<Rightarrow> 'c send \<Rightarrow> 'c rtmp \<Rightarrow> 'c rtmp res" where
  "SendSampleAccess lib send = send_encoded send 384
     [enc (AMF_EncodeString lib ''|RtmpSampleAccess''), enc (AMF_EncodeBoolean lib True), enc (AMF_EncodeBoolean lib True)]
     (packet 0x05 RTMP_PACKET_SIZE_LARGE RTMP_PACKET_TYPE_INFO 1)"

definition named_number :: "amf_lib \<Rightarrow> string \<Rightarrow> int \<Rightarrow> encoder" where
  "named_number lib name i = enc (AMF_EncodeNamedNumber lib name (Fin (of_int i)))"

definition named_string :: "amf_lib \<Rightarrow> string \<Rightarrow> string \<Rightarrow> encoder" where
  "named_string lib name s = enc (AMF_EncodeNamedString lib name s)"

definition SendMetaData :: "amf_lib \<Rightarrow> 'c send \<Rightarrow> 'c rtmp \<Rightarrow> 'c rtmp res" where
  "SendMetaData lib send = send_encoded send 384
     ([enc (AMF_EncodeString lib ''OnMetaData''), put_byte AMF_OBJECT, named_string lib ''Server'' ''teamway rtmp'',
       named_number lib ''width'' 1280, named_number lib ''height'' 720, named_number lib ''displaywidth'' 1280,
       named_number lib ''displayheight'' 720, named_number lib ''duration'' 0, named_number lib ''framerate'' 25,
       named_number lib ''fps'' 25, named_number lib ''videodatarate'' 0, named_number lib ''videocodecid'' 7,
       named_number lib ''audiodatarate'' 0, named_number lib ''audiodatarate'' 0, named_string lib ''profile'' [],
       named_string lib ''level'' []] @ object_end)
     (packet 0x05 RTMP_PACKET_SIZE_LARGE RTMP_PACKET_TYPE_INFO 1)"

definition literal :: "string \<Rightarrow> AVal" where
  "literal s = \<lparr>av_val = Some (s @ [CHR 0x00]), av_len = int (length s)\<rparr>"

definition SendConnectResult :: "amf_lib \<Rightarrow> 'c send \<Rightarrow> double \<Rightarrow> 'c rtmp \<Rightarrow> 'c rtmp res" where
  "SendConnectResult lib send txn r = send_encoded send 384
     ([enc (AMF_EncodeString lib ''_result''), enc (AMF_EncodeNumber lib txn), put_byte AMF_OBJECT,
       named_string lib ''fmsVer'' ''FMS/3,5,1,525'', named_number lib ''capabilities'' 31, named_number lib ''mode'' 1] @ object_end @
      [put_byte AMF_OBJECT, named_string lib ''level'' ''status'', named_string lib ''code'' ''NetConnection.Connect.Success'',
       named_string lib ''description'' ''Connection succeeded.'',
       enc (AMF_EncodeNamedNumber lib ''objectEncoding'' (m_fEncoding r)),
       enc (AMFProp_Encode lib (AMFProp (literal ''data'') (Amf_Object [AMFProp (literal ''version'') (Amf_String (literal ''3,5,1,525''))])))] @
      object_end)
     (packet 0x03 1 RTMP_PACKET_TYPE_INVOKE 0) r"

definition SendWinAcknowledg :: "'c send \<Rightarrow> u32 \<Rightarrow> 'c rtmp \<Rightarrow> 'c rtmp" where
  "SendWinAcknowledg send n = send_on send (packet 0x02 RTMP_PACKET_SIZE_LARGE RTMP_PACKET_TYPE_SERVER_BW 0 (be32 n))"

definition SendPeerBandwidth :: "'c send \<Rightarrow> u32 \<Rightarrow> byte \<Rightarrow> 'c rtmp \<Rightarrow> 'c rtmp" where
  "SendPeerBandwidth send n dynamic =
     send_on send (packet 0x02 RTMP_PACKET_SIZE_LARGE RTMP_PACKET_TYPE_CLIENT_BW 0 (be32 n @ [dynamic]))"

definition SendChunkSize :: "'c send \<Rightarrow> u32 \<Rightarrow> 'c rtmp \<Rightarrow> 'c rtmp" where
  "SendChunkSize send n = send_on send (packet 0x02 RTMP_PACKET_SIZE_LARGE RTMP_PACKET_TYPE_CHUNK_SIZE 0 (be32 n))"

definition SendResultNumber :: "amf_lib \<Rightarrow> 'c send \<Rightarrow> double \<Rightarrow> double \<Rightarrow> 'c rtmp \<Rightarrow> 'c rtmp res" where
  "SendResultNumber lib send txn ID = send_encoded send 256
     [enc (AMF_EncodeString lib ''_result''), enc (AMF_EncodeNumber lib txn), put_byte AMF_NULL, enc (AMF_EncodeNumber lib ID)]
     (packet 0x03 RTMP_PACKET_SIZE_LARGE RTMP_PACKET_TYPE_INVOKE 0)"

definition SendStreamBegin :: "'c send \<Rightarrow> 'c rtmp \<Rightarrow> 'c rtmp" where
  "SendStreamBegin send = send_on send (packet 0x02 RTMP_PACKET_SIZE_LARGE RTMP_PACKET_TYPE_CONTROL 0 [0, 0, 0, 0, 0, 1])"

definition play_status :: "amf_lib \<Rightarrow> string \<Rightarrow> string \<Rightarrow> AVal \<Rightarrow> encoder list" where
  "play_status lib code description path =
     [named_string lib ''level'' ''status'', named_string lib ''code'' code, named_string lib ''description'' description,
      named_string lib ''details'' (av_bytes path), named_string lib ''clientid'' ''clientid''] @ object_end"

definition SendPlayStart :: "amf_lib \<Rightarrow> 'c send \<Rightarrow> 'c rtmp \<Rightarrow> 'c rtmp res" where
  "SendPlayStart lib send r = send_encoded send 512
     ([enc (AMF_EncodeString lib ''onStatus''), enc (AMF_EncodeNumber lib (Fin 0)), put_byte AMF_NULL, put_byte AMF_OBJECT] @
      play_status lib ''NetStream.Play.Start'' ''Started playing'' (playpath r))
     (packet 0x05 RTMP_PACKET_SIZE_LARGE RTMP_PACKET_TYPE_INVOKE 1) r"

definition SendPlayStop :: "amf_lib \<Rightarrow> 'c send \<Rightarrow> 'c rtmp \<Rightarrow> 'c rtmp res" where
  "SendPlayStop lib send r = send_encoded send 512
     ([enc (AMF_EncodeString lib ''onStatus''), enc (AMF_EncodeNumber lib (Fin 0)), put_byte AMF_OBJECT] @
      play_status lib ''NetStream.Play.Stop'' ''Stopped playing'' (playpath r))
     (packet 0x03 1 RTMP_PACKET_TYPE_INVOKE 0) r"

end
