(* ===== verification/RtmpSession.thy ===== *)
theory RtmpSession
  imports RtmpServe Http
begin

text \<open>
  Sessions of the RTMP server (\<open>src/src/rtmpsrv.cpp\<close>): the invocations of a client, the packets of a connection, the accepting
  thread with its start and stop, and the process that serves one connection.
\<close>

section \<open>Replacing in a token\<close>

text \<open>
  \<open>AVreplace\<close>. \<open>strstr\<close> searches the C string that begins at the token, \<open>t\<close>, whatever the length of the token is. The
  first loop counts, the second copies; positions are offsets from the start of the token. A last part of negative length
  is a copy of nearly \<open>2 ^ 64\<close> bytes. \<open>None\<close>: nothing to replace.
\<close>

function count_orig :: "string \<Rightarrow> string \<Rightarrow> nat \<Rightarrow> nat \<Rightarrow> nat res" where
  "count_orig orig t len sptr =
     (if orig = [] then Inl NoReturn
      else if sptr < len then
        (case strstr (drop sptr t) orig of
           None \<Rightarrow> Inr 0
         | Some s \<Rightarrow> ebind (count_orig orig t len (length t - length s + length orig)) (\<lambda>n. Inr (n + 1)))
      else Inr 0)"
  by pat_completeness auto

lemma strstr_shorter: "strstr s needle = Some r \<Longrightarrow> length r \<le> length s"
  by (induction s) (auto split: if_splits)

lemma strstr_progress:
  assumes "strstr (drop p t) orig = Some s" "orig \<noteq> []"
  shows "p < length t" "p \<le> length t - length s"
proof -
  have "drop p t \<noteq> []" using assms by (cases "drop p t") auto
  then show "p < length t" by simp
  with strstr_shorter [OF assms(1)] show "p \<le> length t - length s" by simp
qed

termination count_orig
proof (relation "measure (\<lambda>(orig, t, len, sptr). length t + length orig - sptr)", goal_cases)
  case (2 orig t len sptr s)
  then show ?case using strstr_progress [of sptr t orig s] by (cases orig) (auto simp: diff_less_mono2)
qed simp

declare count_orig.simps [simp del]

function copy_orig :: "string \<Rightarrow> string \<Rightarrow> string \<Rightarrow> string \<Rightarrow> nat \<Rightarrow> nat \<Rightarrow> nat \<Rightarrow> string \<Rightarrow> string res" where
  "copy_orig orig repl mem_text t len sptr srcbeg dest =
     (let finish = (if len < srcbeg then Inl OutOfBounds else Inr (dest @ take (len - srcbeg) (drop srcbeg mem_text)))
      in if orig = [] then Inl NoReturn
         else if sptr < len then
           (case strstr (drop sptr t) orig of
              None \<Rightarrow> finish
            | Some s \<Rightarrow> (let p = length t - length s
                in copy_orig orig repl mem_text t len (p + length orig) (p + length orig) (dest @ take (p - srcbeg) (drop srcbeg mem_text) @ repl)))
         else finish)"
  by pat_completeness auto
termination
proof (relation "measure (\<lambda>(orig, repl, mem_text, t, len, sptr, srcbeg, dest). length t + length orig - sptr)", goal_cases)
  case (2 orig repl mem_text t len sptr srcbeg dest finish s p)
  then show ?case using strstr_progress [of sptr t orig s] by (cases orig) (auto simp: diff_less_mono2)
qed simp

declare copy_orig.simps [simp del]

definition c_string :: "string \<Rightarrow> string res" where
  "c_string s = (if NUL \<in> set s then Inr (takeWhile (\<lambda>c. c \<noteq> NUL) s) else Inl OutOfBounds)"

definition AVreplace :: "AVal \<Rightarrow> string \<Rightarrow> string \<Rightarrow> AVal option res" where
  "AVreplace src orig repl =
     (case av_val src of
        None \<Rightarrow> Inr None
      | Some s \<Rightarrow>
          if av_len src \<le> 0 then Inr None
          else ebind (c_string s) (\<lambda>t. ebind (count_orig orig t (nat (av_len src)) 0) (\<lambda>n.
            if n = 0 then Inr None
            else ebind (copy_orig orig repl s t (nat (av_len src)) 0 0 []) (\<lambda>dest.
              if av_len src + 1 + (int (length repl) - int (length orig)) * int n < int (length dest) + 1 then Inl OutOfBounds
              else Inr (Some \<lparr>av_val = Some (dest @ [NUL]), av_len = int (length dest)\<rparr>)))))"

section \<open>Invocations\<close>

datatype streaming_state = STREAMING_ACCEPTING | STREAMING_IN_PROGRESS | STREAMING_STOPPING | STREAMING_STOPPED

record STREAMING_SERVER =
  socket :: int
  state :: streaming_state
  streamID :: int
  arglen :: int
  argc :: int
  connect_body :: "byte list option"

text \<open>What the library, the connection, the files and the configuration contribute to a session.\<close>

record 'c serve_env =
  sn_lib :: amf_lib
  sn_play :: "'c play_env"
  sn_ctrl :: "'c \<Rightarrow> 'c"
  sn_close :: "'c \<Rightarrow> 'c"
  sn_storePath :: string

type_synonym 'c session = "STREAMING_SERVER \<times> 'c rtmp \<times> video_state"

definition count_arg :: "AVal \<Rightarrow> STREAMING_SERVER \<Rightarrow> STREAMING_SERVER" where
  "count_arg pval server = server\<lparr>arglen := arglen server + (6 + av_len pval), argc := argc server + 2\<rparr>"

definition connect_prop :: "amf_lib \<Rightarrow> amf_prop \<Rightarrow> STREAMING_SERVER \<times> 'c rtmp \<Rightarrow> STREAMING_SERVER \<times> 'c rtmp" where
  "connect_prop lib p s = (case s of (server, r) \<Rightarrow>
     let pval = (case p_vu p of Amf_String a \<Rightarrow> a | _ \<Rightarrow> av_null); pname = p_name p
     in if AVMATCH pname ''app'' then
          (count_arg pval server, r\<lparr>app := (if av_val pval = None then pval\<lparr>av_val := Some [NUL]\<rparr> else pval)\<rparr>)
        else if AVMATCH pname ''flashVer'' then (count_arg pval server, r\<lparr>flashVer := pval\<rparr>)
        else if AVMATCH pname ''swfUrl'' then (count_arg pval server, r\<lparr>swfUrl := pval\<rparr>)
        else if AVMATCH pname ''tcUrl'' then (count_arg pval server, r\<lparr>tcUrl := pval\<rparr>)
        else if AVMATCH pname ''pageUrl'' then (count_arg pval server, r\<lparr>pageUrl := pval\<rparr>)
        else if AVMATCH pname ''audioCodecs'' then (server, r\<lparr>m_fAudioCodecs := p_number lib p\<rparr>)
        else if AVMATCH pname ''videoCodecs'' then (server, r\<lparr>m_fVideoCodecs := p_number lib p\<rparr>)
        else if AVMATCH pname ''objectEncoding'' then (server, r\<lparr>m_fEncoding := p_number lib p\<rparr>)
        else (server, r))"

definition connect_extras :: "amf_object \<Rightarrow> STREAMING_SERVER \<times> 'c rtmp \<Rightarrow> STREAMING_SERVER \<times> 'c rtmp" where
  "connect_extras obj s = (case s of (server, r) \<Rightarrow>
     if 3 < length obj
     then (case countAMF (drop 3 obj) of (l, c) \<Rightarrow>
       (server\<lparr>arglen := arglen server + l, argc := argc server + c\<rparr>, r\<lparr>extras := drop 3 obj\<rparr>))
     else (server, r))"

definition invoke_connect :: "'c serve_env \<Rightarrow> amf_object \<Rightarrow> double \<Rightarrow> byte list \<Rightarrow> 'c session \<Rightarrow> 'c session res" where
  "invoke_connect env obj txn body s = (case s of (server, r, v) \<Rightarrow>
     let lib = sn_lib env; send = pl_send (sn_play env);
         s1 = fold (connect_prop lib) (AMFProp_GetObject lib (AMF_GetProp obj 2)) (server\<lparr>connect_body := Some body\<rparr>, r)
     in case connect_extras obj s1 of (server2, r2) \<Rightarrow>
        ebind (SendConnectResult lib send txn r2) (\<lambda>r3.
          Inr (server2, SendChunkSize send RTMP_DEFAULT_CHUNKSIZE (SendPeerBandwidth send 2500000 2 (SendWinAcknowledg send 2500000 r3)), v)))"

text \<open>The path of the file: \<open>%20\<close> becomes a blank. A pointer that passes the end of the path never equals it.\<close>

function play_path :: "nat \<Rightarrow> string \<Rightarrow> string res" where
  "play_path n path_ptr =
     (if n = 0 then Inr []
      else case path_ptr of
        [] \<Rightarrow> Inl OutOfBounds
      | c # cs \<Rightarrow>
          if c = CHR ''%'' \<and> length cs < 2 \<and> take 1 cs \<in> {[], ''2''} then Inl OutOfBounds
          else if take 3 path_ptr = ''%20''
          then (if n < 3 then Inl OutOfBounds else ebind (play_path (n - 3) (drop 3 path_ptr)) (\<lambda>p. Inr (CHR '' '' # p)))
          else ebind (play_path (n - 1) cs) (\<lambda>p. Inr (c # p)))"
  by pat_completeness auto
termination by (relation "measure fst") auto

declare play_path.simps [simp del]

definition invoke_play :: "'c serve_env \<Rightarrow> amf_object \<Rightarrow> 'c session \<Rightarrow> ('c session \<times> int) res" where
  "invoke_play env obj s = (case s of (server, r0, v) \<Rightarrow>
     let lib = sn_lib env; send = pl_send (sn_play env);
         r = r0\<lparr>playpath := AMFProp_GetString lib (AMF_GetProp obj 3)\<rparr>
     in if av_len (playpath r) = 0 then Inr ((server, r, v), 0)
        else (case (av_val (app r), av_val (playpath r)) of
            (Some a, Some path) \<Rightarrow>
              ebind (c_string a) (\<lambda>app_text.
              ebind (play_path (nat (av_len (playpath r))) path) (\<lambda>file.
              ebind (SendPlayStart lib send (SendStreamBegin send r)) (\<lambda>r1.
              ebind (SendSampleAccess lib send r1) (\<lambda>r2.
              ebind (SendMetaData lib send r2) (\<lambda>r3.
              ebind (StartPlaybackStoreFile (sn_play env) (sn_storePath env @ app_text @ ''/'' @ file) (v, conn r3)) (\<lambda>(v', c).
              ebind (SendPlayStop lib send (r3\<lparr>conn := sn_ctrl env c\<rparr>)) (\<lambda>r4.
                Inr ((server\<lparr>connect_body := None\<rparr>, r4, v'), 1))))))))
          | _ \<Rightarrow> Inl NullDeref))"

definition invoke_token :: "'c serve_env \<Rightarrow> amf_object \<Rightarrow> 'c session \<Rightarrow> 'c session res" where
  "invoke_token env obj s = (case s of (server, r, v) \<Rightarrow>
     let token = AMFProp_GetString (sn_lib env) (AMF_GetProp obj 3)
     in ebind (AVreplace token [CHR 0x22] [CHR 0x5C, CHR 0x22]) (\<lambda>t.
        let token' = (case t of None \<Rightarrow> token | Some u \<Rightarrow> u)
        in Inr (count_arg token' server, r\<lparr>usherToken := token', usher_owned := (t \<noteq> None)\<rparr>, v)))"

text \<open>\<open>ServeInvoke\<close> on the body of the packet behind \<open>offset\<close>.\<close>

definition ServeInvoke :: "'c serve_env \<Rightarrow> byte list \<Rightarrow> nat \<Rightarrow> 'c session \<Rightarrow> ('c session \<times> int) res" where
  "ServeInvoke env body offset s =
     (if length body \<le> offset then Inl OutOfBounds
      else if body ! offset \<noteq> 0x02 then Inr (s, 0)
      else (case AMF_Decode (sn_lib env) (drop offset body) of
          None \<Rightarrow> Inr (s, 0)
        | Some obj \<Rightarrow>
            let lib = sn_lib env; send = pl_send (sn_play env);
                meth = AMFProp_GetString lib (AMF_GetProp obj 0); txn = AMFProp_GetNumber lib (AMF_GetProp obj 1)
            in if AVMATCH meth ''connect'' then ebind (invoke_connect env obj txn body s) (\<lambda>s'. Inr (s', 0))
               else if AVMATCH meth ''createStream'' then
                 (case s of (server, r, v) \<Rightarrow>
                   let n = streamID server + 1
                   in ebind (SendResultNumber lib send txn (Fin (of_int n)) r) (\<lambda>r'. Inr ((server\<lparr>streamID := n\<rparr>, r', v), 0)))
               else if AVMATCH meth ''getStreamLength'' then
                 (case s of (server, r, v) \<Rightarrow> ebind (SendResultNumber lib send txn (Fin 10) r) (\<lambda>r'. Inr ((server, r', v), 0)))
               else if AVMATCH meth ''NetStream.Authenticate.UsherToken'' then ebind (invoke_token env obj s) (\<lambda>s'. Inr (s', 0))
               else if AVMATCH meth ''play'' then invoke_play env obj s
               else Inr (s, 0)))"

definition ServePacket :: "'c serve_env \<Rightarrow> RTMPPacket \<Rightarrow> 'c session \<Rightarrow> ('c session \<times> int) res" where
  "ServePacket env p s =
     (if m_packetType p = RTMP_PACKET_TYPE_FLEX_MESSAGE \<or> m_packetType p = RTMP_PACKET_TYPE_INVOKE then
        ebind (ServeInvoke env (m_body p) (if m_packetType p = RTMP_PACKET_TYPE_FLEX_MESSAGE then 1 else 0) s) (\<lambda>((server, r, v), ret).
          Inr ((server, if ret \<noteq> 0 then r\<lparr>conn := sn_close env (conn r)\<rparr> else r, v), ret))
      else Inr (s, 0))"

section \<open>Sessions\<close>

text \<open>The packets read from the connection, each with the answer of \<open>RTMPPacket_IsReady\<close>; at their end reading fails.\<close>

fun serve_loop :: "'c serve_env \<Rightarrow> (RTMPPacket \<times> bool) list \<Rightarrow> 'c session \<Rightarrow> 'c session res" where
  "serve_loop env [] s = Inr s"
| "serve_loop env ((p, ready) # ps) s =
     (if \<not> pl_connected (sn_play env) (conn (fst (snd s))) then Inr s
      else if \<not> ready then serve_loop env ps s
      else ebind (ServePacket env p s) (\<lambda>(s', ret). if ret \<noteq> 0 then Inr s' else serve_loop env ps s'))"

text \<open>Before the session: the results of \<open>select\<close> and of the handshake.\<close>

record accept_env =
  ac_select :: int
  ac_handshake :: bool

definition fresh_rtmp :: "'c \<Rightarrow> 'c rtmp" where
  "fresh_rtmp c = \<lparr>conn = c, app = av_null, flashVer = av_null, swfUrl = av_null, tcUrl = av_null, pageUrl = av_null, playpath = av_null,
     usherToken = av_null, usher_owned = False, extras = [], m_fAudioCodecs = Fin 0, m_fVideoCodecs = Fin 0, m_fEncoding = Fin 0\<rparr>"

definition end_session :: "STREAMING_SERVER \<Rightarrow> STREAMING_SERVER" where
  "end_session server = (if state server = STREAMING_IN_PROGRESS then server\<lparr>state := STREAMING_STOPPING\<rparr> else server)"

text \<open>
  \<open>doServe\<close>: the server, the static variables and whether the socket was closed. The token is freed at the end, also when it
  points into a packet.
\<close>

definition doServe ::
    "'c serve_env \<Rightarrow> accept_env \<Rightarrow> (RTMPPacket \<times> bool) list \<Rightarrow> 'c \<Rightarrow> STREAMING_SERVER \<times> video_state \<Rightarrow> (STREAMING_SERVER \<times> video_state \<times> bool) res" where
  "doServe env ac packets c s0 = (case s0 of (server0, v0) \<Rightarrow>
     let server = server0\<lparr>state := STREAMING_IN_PROGRESS\<rparr>
     in if ac_select ac \<le> 0 then Inr (end_session server, v0, False)
        else ebind (if ac_handshake ac then serve_loop env packets (server\<lparr>arglen := 0\<rparr>, fresh_rtmp c, v0) else Inr (server, fresh_rtmp c, v0))
          (\<lambda>(server1, r, v).
            if av_val (usherToken r) \<noteq> None \<and> \<not> usher_owned r then Inl UseAfterFree
            else Inr (end_session server1, v\<lparr>is_get_first_key_frame := False, key_frame_cnt := 0\<rparr>, True)))"

section \<open>The accepting thread\<close>

text \<open>
  \<open>serverThread\<close>: for every turn the state that is found and the descriptor that \<open>accept\<close> returns. Each connection is handed
  to a process by the decimal number of its descriptor. The list ends where the thread waits in \<open>accept\<close>.
\<close>

fun serverThread :: "(streaming_state \<times> int) list \<Rightarrow> string list \<Rightarrow> string list \<times> bool" where
  "serverThread [] started = (started, False)"
| "serverThread ((st, sockfd) # turns) started =
     (if st \<noteq> STREAMING_ACCEPTING then (started, True)
      else serverThread turns (if 0 < sockfd then started @ [snprintf 32 (fmt_d sockfd)] else started))"

record start_env =
  st_socket :: int
  st_bind :: int
  st_listen :: int
  st_calloc :: bool

definition startStreaming :: "start_env \<Rightarrow> STREAMING_SERVER option" where
  "startStreaming env =
     (if st_socket env = -1 then None
      else if st_bind env = -1 then None
      else if st_listen env = -1 then None
      else if \<not> st_calloc env then None
      else Some \<lparr>socket = st_socket env, state = STREAMING_ACCEPTING, streamID = 0, arglen = 0, argc = 0, connect_body = None\<rparr>)"

text \<open>\<open>ends\<close>: the thread of the server leaves its loop and sets its state, which a stop in the middle of a session waits for.\<close>

definition stopStreaming :: "bool \<Rightarrow> STREAMING_SERVER \<Rightarrow> STREAMING_SERVER res" where
  "stopStreaming ends server =
     (if state server = STREAMING_STOPPED then Inr server
      else if state server = STREAMING_IN_PROGRESS \<and> \<not> ends then Inl NoReturn
      else Inr (server\<lparr>state := STREAMING_STOPPED\<rparr>))"

text \<open>The iterator is not advanced, so the handler does not leave a list that has an element.\<close>

definition sigIntHandler :: "STREAMING_SERVER option list \<Rightarrow> unit res" where
  "sigIntHandler rtmpServerList = (if rtmpServerList = [] then Inr () else Inl NoReturn)"

definition RtmpServerStart :: "start_env \<Rightarrow> int" where
  "RtmpServerStart env = (if startStreaming env = None then -1 else 0)"

definition RtmpServerWork ::
    "'c serve_env \<Rightarrow> accept_env \<Rightarrow> bool \<Rightarrow> (RTMPPacket \<times> bool) list \<Rightarrow> (int \<Rightarrow> 'c) \<Rightarrow> int \<Rightarrow> video_state \<Rightarrow> (video_state \<times> bool) option res" where
  "RtmpServerWork env ac calloc_ok packets connection sockfd v =
     (if \<not> calloc_ok then Inr None
      else ebind (doServe env ac packets (connection sockfd)
          (\<lparr>socket = 0, state = STREAMING_ACCEPTING, streamID = 0, arglen = 0, argc = 0, connect_body = None\<rparr>, v))
        (\<lambda>(server, v', closed). Inr (Some (v', closed))))"

text \<open>\<open>main\<close> of the process: the descriptor it serves, when its arguments and the configuration allow it.\<close>

definition rtmp_server_main :: "bool \<Rightarrow> string list \<Rightarrow> int option" where
  "rtmp_server_main info_loaded argv = (if length argv < 2 then None else if \<not> info_loaded then None else Some (atoi (argv ! 1)))"

end
