(* ===== verification/RtmpVideoCorrect.thy ===== *)
theory RtmpVideoCorrect
  imports RtmpVideo StoreProps
begin

text \<open>
  A frame is a sequence of units with start codes between them. Splitting it gives the units, a video packet holds them with
  their lengths, and playing a recorded file sends the configuration and every frame from the first complete key frame on.
\<close>

section \<open>Frames as sequences of units\<close>

definition start_code :: "bool \<Rightarrow> byte list" where
  "start_code long = (if long then [0, 0, 0, 1] else [0, 0, 1])"

definition annexb :: "(bool \<times> byte list) list \<Rightarrow> byte list" where
  "annexb us = concat (map (\<lambda>(long, u). start_code long @ u) us)"

text \<open>A unit is not empty, contains no start code and does not end with a zero byte, as H.264 demands.\<close>

definition unit_ok :: "byte list \<Rightarrow> bool" where
  "unit_ok u \<longleftrightarrow> u \<noteq> [] \<and> last u \<noteq> 0 \<and> list_all (\<lambda>i. \<not> (u ! i = 0 \<and> u ! (i + 1) = 0 \<and> u ! (i + 2) = 1)) [0..<length u - 2]"

fun infos :: "nat \<Rightarrow> (bool \<times> byte list) list \<Rightarrow> NaluInfo list" where
  "infos a [] = []"
| "infos a ((long, u) # us) = \<lparr>nalu_type = hd u AND 0x1f, nalu = a + length (start_code long), nalu_len = word_of_nat (length u)\<rparr> #
     infos (a + length (start_code long) + length u) us"

lemma annexb_simps [simp]:
  "annexb [] = []" "annexb ((long, u) # us) = start_code long @ u @ annexb us"
  by (simp_all add: annexb_def)

lemma length_start_code [simp]: "length (start_code long) = (if long then 4 else 3)"
  by (simp add: start_code_def)

lemma bytes_at_append:
  "bytes_at m a (length xs + n) = xs @ ys \<longleftrightarrow> bytes_at m a (length xs) = xs \<and> bytes_at m (a + length xs) n = ys" (is "?l = ?r")
proof -
  have "bytes_at m a (length xs + n) = bytes_at m a (length xs) @ bytes_at m (a + length xs) n"
    by (rule nth_equalityI) (auto simp: nth_append)
  then show ?thesis by simp
qed

lemma bytes_at_nth: "bytes_at m a (length xs) = xs \<Longrightarrow> i < length xs \<Longrightarrow> m (a + i) = xs ! i"
  by (metis nth_bytes_at)

section \<open>Splitting\<close>

lemma nalu_len_incr: "nalu_len_update (\<lambda>k. k + 1) n = n\<lparr>nalu_len := nalu_len n + 1\<rparr>"
  by (cases n) simp

text \<open>One turn of the loop in terms of start codes.\<close>

lemma h264_loop_other:
  "idx < sz \<Longrightarrow> idx + 4 \<le> cap \<Longrightarrow> \<not> start3 m idx \<Longrightarrow> \<not> start4 m idx \<Longrightarrow>
   h264_loop cap m sz idx cur units = h264_loop cap m sz (idx + 1) (map_option (nalu_len_update (\<lambda>n. n + 1)) cur) units"
  by (subst h264_loop.simps) (simp add: separator3_iff separator4_iff)

definition pending :: "NaluInfo option \<Rightarrow> NaluInfo list" where
  "pending cur = (case cur of None \<Rightarrow> [] | Some n \<Rightarrow> [n])"

lemma start_code_at:
  "bytes_at m a (length (start_code long)) = start_code long \<Longrightarrow> (if long then start4 m a else start3 m a)"
  using bytes_at_nth [of m a "start_code long" 0] bytes_at_nth [of m a "start_code long" 1]
    bytes_at_nth [of m a "start_code long" 2] bytes_at_nth [of m a "start_code long" 3]
  by (auto simp: start_code_def start3_def start4_def)

lemma h264_loop_start:
  assumes "bytes_at m idx (length (start_code long)) = start_code long" "idx + 4 < cap" "idx < sz"
  shows "h264_loop cap m sz idx cur units =
    (let p = idx + length (start_code long)
     in h264_loop cap m sz (p + 1) (Some \<lparr>nalu_type = m p AND 0x1f, nalu = p, nalu_len = 1\<rparr>) (units @ pending cur))"
proof -
  have "start4 m idx \<and> long \<or> start3 m idx \<and> \<not> start4 m idx \<and> \<not> long"
    using start_code_at [OF assms(1)] start3_not_start4 by (auto split: if_splits)
  with assms(2,3) show ?thesis
    by (subst h264_loop.simps) (auto simp: separator3_iff separator4_iff pending_def Let_def split: option.split)
qed

lemma unit_no_start:
  assumes "bytes_at m a (length u) = u" "unit_ok u" "i < length u"
  shows "\<not> start3 m (a + i) \<and> \<not> start4 m (a + i)"
proof -
  have u: "u \<noteq> []" "u ! (length u - 1) \<noteq> 0"
    "\<And>j. j < length u - 2 \<Longrightarrow> \<not> (u ! j = 0 \<and> u ! (j + 1) = 0 \<and> u ! (j + 2) = 1)"
    using assms(2) by (auto simp: unit_ok_def last_conv_nth list_all_iff)
  have at: "m (a + i) = u ! i" "i + 1 < length u \<Longrightarrow> m (a + i + 1) = u ! (i + 1)" "i + 2 < length u \<Longrightarrow> m (a + i + 2) = u ! (i + 2)"
    "i + 3 < length u \<Longrightarrow> m (a + i + 3) = u ! (i + 3)"
    using bytes_at_nth [OF assms(1)] assms(3) by (metis add.assoc)+
  note no3 = u(3) [of i, unfolded less_diff_conv] and no4 = u(3) [of "i + 1", unfolded less_diff_conv add.assoc, simplified]
  consider "i + 3 < length u" | "length u - 1 = i + 2" | "length u - 1 = i + 1" | "length u - 1 = i" using assms(3) by linarith
  then show ?thesis
  proof cases
    case 1
    then show ?thesis using no3 no4 at unfolding start3_def start4_def by (auto simp: numeral_3_eq_3)
  qed (use u(2) no3 at assms(3) in \<open>auto simp: start3_def start4_def\<close>)
qed

lemma h264_loop_unit:
  assumes "bytes_at m a (length u) = u" "unit_ok u" "a + length u \<le> sz" "sz + 3 \<le> cap"
  shows "i + k = length u \<Longrightarrow> h264_loop cap m sz (a + i) (Some n) units =
    h264_loop cap m sz (a + length u) (Some (n\<lparr>nalu_len := nalu_len n + word_of_nat k\<rparr>)) units"
proof (induction k arbitrary: i n)
  case (Suc k)
  have "h264_loop cap m sz (a + i) (Some n) units =
      h264_loop cap m sz (a + (i + 1)) (Some (n\<lparr>nalu_len := nalu_len n + 1\<rparr>)) units"
    using h264_loop_other [of "a + i" sz cap m "Some n" units] unit_no_start [OF assms(1,2), of i] Suc.prems assms(3,4) by (simp add: nalu_len_incr)
  also have "\<dots> = h264_loop cap m sz (a + length u) (Some (n\<lparr>nalu_len := nalu_len n + word_of_nat (Suc k)\<rparr>)) units"
    using Suc.IH [of "i + 1"] Suc.prems by (simp add: algebra_simps)
  finally show ?case .
qed simp

lemma h264_loop_coded_unit:
  assumes "bytes_at m a (length (start_code long) + length u) = start_code long @ u" "unit_ok u"
    and "a + length (start_code long) + length u \<le> sz" "sz + 3 \<le> cap"
  shows "h264_loop cap m sz a cur units = h264_loop cap m sz (a + length (start_code long) + length u)
    (Some \<lparr>nalu_type = hd u AND 0x1f, nalu = a + length (start_code long), nalu_len = word_of_nat (length u)\<rparr>) (units @ pending cur)"
proof -
  let ?p = "a + length (start_code long)"
  have b: "bytes_at m a (length (start_code long)) = start_code long" "bytes_at m ?p (length u) = u"
    using assms(1) unfolding bytes_at_append by auto
  have u: "u \<noteq> []" "m ?p = hd u" using assms(2) bytes_at_nth [OF b(2), of 0] by (auto simp: unit_ok_def hd_conv_nth)
  then have "0 < length u" by simp
  then have lt: "a + 4 < cap" "a < sz" using assms(3,4) by (auto split: if_splits)
  have "h264_loop cap m sz (?p + 1) (Some \<lparr>nalu_type = hd u AND 0x1f, nalu = ?p, nalu_len = 1\<rparr>) (units @ pending cur) =
      h264_loop cap m sz (?p + length u) (Some \<lparr>nalu_type = hd u AND 0x1f, nalu = ?p, nalu_len = word_of_nat (length u)\<rparr>) (units @ pending cur)"
    using h264_loop_unit [OF b(2) assms(2-4), of 1 "length u - 1"] \<open>0 < length u\<close>
    by (simp add: of_nat_diff)
  with h264_loop_start [OF b(1) lt, of cur units] u(2) show ?thesis by (simp add: Let_def)
qed

lemma h264_loop_units:
  assumes "bytes_at m a (length (annexb us)) = annexb us" "list_all (unit_ok \<circ> snd) us" "a + length (annexb us) = sz" "sz + 3 \<le> cap"
    and "us = [] \<Longrightarrow> cur \<noteq> None"
  shows "h264_loop cap m sz a cur units = Inr (units @ pending cur @ infos a us)"
  using assms
proof (induction us arbitrary: a cur units)
  case Nil
  then show ?case by (subst h264_loop.simps) (auto simp: pending_def)
next
  case (Cons x us)
  obtain long u where x: "x = (long, u)" by fastforce
  let ?q = "a + length (start_code long) + length u"
  have b: "bytes_at m a (length (start_code long) + length u) = start_code long @ u" "bytes_at m ?q (length (annexb us)) = annexb us"
    using Cons.prems(1) bytes_at_append [of m a "start_code long @ u" "length (annexb us)" "annexb us"] x by (simp_all add: add.assoc)
  have "h264_loop cap m sz a cur units = h264_loop cap m sz ?q
     (Some \<lparr>nalu_type = hd u AND 0x1f, nalu = a + length (start_code long), nalu_len = word_of_nat (length u)\<rparr>) (units @ pending cur)"
    by (rule h264_loop_coded_unit [OF b(1)]) (use Cons.prems x in auto)
  with Cons.IH [OF b(2)] Cons.prems x show ?case by (simp add: pending_def)
qed

lemma ParseH264Param_annexb:
  assumes "bytes_at m 0 (length (annexb us)) = annexb us" "list_all (unit_ok \<circ> snd) us" "us \<noteq> []" "length (annexb us) + 3 \<le> cap"
  shows "ParseH264Param cap m (length (annexb us)) = Inr (infos 0 us)"
  using h264_loop_units [OF assms(1,2) _ assms(4), of None "[]"] assms(3) by (simp add: ParseH264Param_def pending_def)

section \<open>What the units are\<close>

definition unit_type :: "byte list \<Rightarrow> byte" where
  "unit_type u = hd u AND 0x1f"

fun last_at :: "byte \<Rightarrow> nat \<Rightarrow> byte list \<Rightarrow> int \<Rightarrow> int" where
  "last_at t i [] d = d"
| "last_at t i (x # xs) d = last_at t (Suc i) xs (if x = t then int i else d)"

lemma last_at_none: "t \<notin> set xs \<Longrightarrow> last_at t i xs d = d"
  by (induction xs arbitrary: i d) auto

lemma last_at_some:
  "t \<in> set (map f xs) \<Longrightarrow> \<exists>j<length xs. last_at t i (map f xs) d = int (i + j) \<and> xs ! j = last (filter (\<lambda>x. f x = t) xs)"
proof (induction xs arbitrary: i d)
  case (Cons x xs)
  show ?case
  proof (cases "t \<in> set (map f xs)")
    case True
    then obtain j where "j < length xs" "last_at t (Suc i) (map f xs) (if f x = t then int i else d) = int (Suc i + j)"
        "xs ! j = last (filter (\<lambda>x. f x = t) xs)"
      using Cons.IH by blast
    moreover have "filter (\<lambda>x. f x = t) xs \<noteq> []" using True by (auto simp: filter_empty_conv)
    ultimately show ?thesis by (intro exI [of _ "Suc j"]) simp
  next
    case False
    then have "filter (\<lambda>x. f x = t) xs = []" by (auto simp: filter_empty_conv)
    with False Cons.prems show ?thesis by (intro exI [of _ 0]) (auto simp: last_at_none)
  qed
qed simp

lemma last_at_nonneg: "0 \<le> last_at t i (map f xs) (-1) \<longleftrightarrow> t \<in> set (map f xs)"
  using last_at_none [of t "map f xs" i "-1"] last_at_some [of t f xs i "-1"] by (cases "t \<in> set (map f xs)") auto

lemma classify_units_eq:
  "classify_units i ns (v, key) =
     (v\<lparr>key_frame_cnt := if 5 \<in> set (map nalu_type ns) then 1 else key_frame_cnt v,
        is_key_frame := 5 \<in> set (map nalu_type ns) \<or> is_key_frame v,
        key_frame_idx := last_at 5 i (map nalu_type ns) (key_frame_idx v),
        sps_idx := last_at 7 i (map nalu_type ns) (sps_idx v),
        pps_idx := last_at 8 i (map nalu_type ns) (pps_idx v)\<rparr>, 5 \<in> set (map nalu_type ns) \<or> key)"
proof (induction ns arbitrary: i v key)
  case (Cons n ns)
  obtain v1 key1 where c: "classify i n (v, key) = (v1, key1)" by fastforce
  show ?case unfolding classify_units.simps c Cons.IH
    using c by (auto simp: classify_def split: if_splits)
qed simp

lemma infos_types: "map nalu_type (infos a us) = map unit_type (map snd us)"
  by (induction us arbitrary: a) (auto simp: unit_type_def)

lemma infos_type_set: "nalu_type ` set (infos a us) = (\<lambda>x. unit_type (snd x)) ` set us"
  using arg_cong [OF infos_types, of set a us] by (simp add: image_image)

lemma length_infos [simp]: "length (infos a us) = length us"
  by (induction us arbitrary: a) auto

lemma infos_nth:
  "bytes_at m a (length (annexb us)) = annexb us \<Longrightarrow> length (annexb us) < 2 ^ 32 \<Longrightarrow> j < length us \<Longrightarrow>
   nalu_len (infos a us ! j) = word_of_nat (length (snd (us ! j))) \<and> unat (nalu_len (infos a us ! j)) = length (snd (us ! j)) \<and>
   bytes_at m (nalu (infos a us ! j)) (length (snd (us ! j))) = snd (us ! j) \<and>
   nalu (infos a us ! j) + length (snd (us ! j)) \<le> a + length (annexb us)"
proof (induction us arbitrary: a j)
  case (Cons x us)
  obtain long u where x: "x = (long, u)" by fastforce
  let ?q = "a + length (start_code long) + length u"
  have b: "bytes_at m (a + length (start_code long)) (length u) = u" "bytes_at m ?q (length (annexb us)) = annexb us"
    using Cons.prems(1) bytes_at_append [of m a "start_code long @ u" "length (annexb us)" "annexb us"]
      bytes_at_append [of m a "start_code long" "length u" u] x by (simp_all add: add.assoc)
  have lens: "length u < 2 ^ 32" "length (annexb us) < 2 ^ 32" using Cons.prems(2) x by auto
  show ?case
  proof (cases j)
    case 0
    with b(1) x lens(1) show ?thesis by (auto simp: unat_of_nat)
  next
    case (Suc k)
    with Cons.IH [OF b(2) lens(2), of k] Cons.prems(3) x show ?thesis by auto
  qed
qed simp

text \<open>\<open>ParseVideoData\<close> on a frame that begins with a long start code.\<close>

definition parsed :: "(bool \<times> byte list) list \<Rightarrow> video_state \<Rightarrow> video_state" where
  "parsed us v = (let ts = map unit_type (map snd us); key = 5 \<in> set ts in
     v\<lparr>naluList := infos 0 us, is_key_frame := key, key_frame_cnt := if key then 1 else key_frame_cnt v + 1,
       key_frame_idx := last_at 5 0 ts (-1), sps_idx := last_at 7 0 ts (-1), pps_idx := last_at 8 0 ts (-1)\<rparr>)"

definition frame_ok :: "(bool \<times> byte list) list \<Rightarrow> bool" where
  "frame_ok us \<longleftrightarrow> us \<noteq> [] \<and> fst (hd us) \<and> list_all (unit_ok \<circ> snd) us \<and> length (annexb us) + 3 \<le> FRAME_SIZE \<and>
     list_all (\<lambda>u. unit_type u \<noteq> 7 \<or> 4 \<le> length u) (map snd us)"

lemma ParseVideoData_frame:
  assumes "bytes_at m 0 (length (annexb us)) = annexb us" "frame_ok us"
  shows "ParseVideoData FRAME_SIZE m (length (annexb us)) v = Inr (parsed us v)"
proof -
  obtain u us' where us: "us = (True, u) # us'" using assms(2) by (cases us) (auto simp: frame_ok_def)
  have "bytes_at m 0 (length (start_code True)) = start_code True"
    using assms(1) bytes_at_append [of m 0 "start_code True" "length (u @ annexb us')" "u @ annexb us'"] us by (simp add: add.assoc)
  then have "start4 m 0" using start_code_at by fastforce
  then show ?thesis
    using ParseH264Param_annexb [OF assms(1)] assms(2)
    by (simp add: ParseVideoData_def ParseVideoParam_def separator4_iff frame_ok_def classify_units_eq infos_types infos_type_set parsed_def Let_def)
qed

section \<open>Packets\<close>

definition avcc :: "byte list list \<Rightarrow> byte list" where
  "avcc us = concat (map (\<lambda>u. be32 (word_of_nat (length u)) @ u) us)"

definition data_body :: "byte list list \<Rightarrow> byte list" where
  "data_body us = [if 5 \<in> set (map unit_type us) then 0x17 else 0x27, 0x01, 0x00, 0x00, 0x00] @ avcc us"

definition config_body :: "byte list \<Rightarrow> byte list \<Rightarrow> byte list" where
  "config_body sps pps = [0x17, 0x00, 0x00, 0x00, 0x00, 0x01, sps ! 1, sps ! 2, sps ! 3, 0xff, 0xe1] @
     be16 (word_of_nat (length sps)) @ sps @ [0x01] @ be16 (word_of_nat (length pps + 1)) @ pps @ [0]"

lemma length_avcc: "length (avcc (map snd us)) \<le> 2 * length (annexb us)"
  by (induction us) (auto simp: avcc_def be32_def)

lemma packet_units_eq:
  "(\<And>j. j < length us \<Longrightarrow> unit_bytes cap m (ns ! j) = Inr (us ! j) \<and> nalu_len (ns ! j) = word_of_nat (length (us ! j))) \<Longrightarrow>
   length ns = length us \<Longrightarrow> packet_units cap m ns body = Inr (body @ avcc us)"
proof (induction us arbitrary: ns body)
  case (Cons u us)
  then obtain n ns' where ns: "ns = n # ns'" by (cases ns) auto
  have h: "unit_bytes cap m n = Inr u" "nalu_len n = word_of_nat (length u)" using Cons.prems(1) [of 0] ns by auto
  have "packet_units cap m ns' b = Inr (b @ avcc us)" for b
    using Cons.prems(1) [of "Suc _"] Cons.prems(2) ns by (intro Cons.IH) auto
  with h ns show ?case by (simp add: packet_units_def avcc_def)
qed (simp add: packet_units_def avcc_def)

lemma frame_unit_bytes:
  assumes "bytes_at m 0 (length (annexb us)) = annexb us" "frame_ok us" "j < length us"
  shows "unit_bytes FRAME_SIZE m (infos 0 us ! j) = Inr (snd (us ! j))"
proof -
  have l: "length (annexb us) + 3 \<le> FRAME_SIZE" "length (annexb us) < 2 ^ 32" using assms(2) by (simp_all add: frame_ok_def FRAME_SIZE_def)
  have n: "unat (nalu_len (infos 0 us ! j)) = length (snd (us ! j))" "bytes_at m (nalu (infos 0 us ! j)) (length (snd (us ! j))) = snd (us ! j)"
    "nalu (infos 0 us ! j) + length (snd (us ! j)) \<le> length (annexb us)"
    using infos_nth [OF assms(1) l(2) assms(3)] by auto
  show ?thesis unfolding unit_bytes_def n(1,2) using n(3) l(1) by simp
qed

lemma PacketVideoData_frame:
  assumes "bytes_at m 0 (length (annexb us)) = annexb us" "frame_ok us"
  shows "PacketVideoData FRAME_SIZE m (parsed us v) = Inr (data_body (map snd us))"
proof -
  have "length (annexb us) < 2 ^ 32" using assms(2) by (simp add: frame_ok_def FRAME_SIZE_def)
  then have "packet_units FRAME_SIZE m (infos 0 us) b = Inr (b @ avcc (map snd us))" for b
    using frame_unit_bytes [OF assms] infos_nth [OF assms(1)] by (intro packet_units_eq) auto
  moreover have "length (data_body (map snd us)) \<le> VIDEO_DATA_BUF_SIZE"
    using length_avcc [of us] assms(2) by (simp add: data_body_def frame_ok_def FRAME_SIZE_def VIDEO_DATA_BUF_SIZE_def)
  ultimately show ?thesis
    by (auto simp: PacketVideoData_def parsed_def Let_def video_body_def data_body_def)
qed

definition complete :: "byte list list \<Rightarrow> bool" where
  "complete us \<longleftrightarrow> 5 \<in> set (map unit_type us) \<and> 7 \<in> set (map unit_type us) \<and> 8 \<in> set (map unit_type us)"

definition last_of :: "byte \<Rightarrow> byte list list \<Rightarrow> byte list" where
  "last_of t us = last (filter (\<lambda>u. unit_type u = t) us)"

lemma list_unit_last:
  assumes "bytes_at m 0 (length (annexb us)) = annexb us" "frame_ok us" "t \<in> set (map unit_type (map snd us))"
    and "naluList v = infos 0 us" "i = last_at t 0 (map unit_type (map snd us)) (-1)"
  shows "\<exists>n. list_unit v i = Inr n \<and> unit_bytes FRAME_SIZE m n = Inr (last_of t (map snd us)) \<and>
    nalu_len n = word_of_nat (length (last_of t (map snd us))) \<and> unit_type (last_of t (map snd us)) = t \<and>
    last_of t (map snd us) \<in> set (map snd us) \<and> bytes_at m (nalu n) (length (last_of t (map snd us))) = last_of t (map snd us) \<and>
    nalu n + length (last_of t (map snd us)) \<le> length (annexb us)"
proof -
  obtain j where j: "j < length us" "i = int j" "snd (us ! j) = last_of t (map snd us)"
    using last_at_some [OF assms(3), of 0 "-1"] assms(5) by (auto simp: last_of_def)
  have "filter (\<lambda>u. unit_type u = t) (map snd us) \<noteq> []" using assms(3) by (auto simp: filter_empty_conv)
  then have t: "last_of t (map snd us) \<in> set (filter (\<lambda>u. unit_type u = t) (map snd us))"
    unfolding last_of_def by (rule last_in_set)
  have "length (annexb us) < 2 ^ 32" using assms(2) by (simp add: frame_ok_def FRAME_SIZE_def)
  with infos_nth [OF assms(1) _ j(1)] frame_unit_bytes [OF assms(1,2) j(1)] t j show ?thesis
    by (intro exI [of _ "infos 0 us ! j"]) (auto simp: list_unit_def assms(4))
qed

lemma PacketVideoParam_frame:
  assumes "bytes_at m 0 (length (annexb us)) = annexb us" "frame_ok us" "complete (map snd us)"
  shows "PacketVideoParam FRAME_SIZE m (parsed us v) = Inr (config_body (last_of 7 (map snd us)) (last_of 8 (map snd us)))"
proof -
  let ?s = "last_of 7 (map snd us)" and ?p = "last_of 8 (map snd us)"
  have v: "naluList (parsed us v) = infos 0 us" "sps_idx (parsed us v) = last_at 7 0 (map unit_type (map snd us)) (-1)"
    "pps_idx (parsed us v) = last_at 8 0 (map unit_type (map snd us)) (-1)"
    by (simp_all add: parsed_def Let_def)
  obtain n where n: "list_unit (parsed us v) (sps_idx (parsed us v)) = Inr n" "unit_bytes FRAME_SIZE m n = Inr ?s"
      "nalu_len n = word_of_nat (length ?s)" "unit_type ?s = 7" "?s \<in> set (map snd us)"
      "bytes_at m (nalu n) (length ?s) = ?s" "nalu n + length ?s \<le> length (annexb us)"
    using list_unit_last [OF assms(1,2) _ v(1,2)] assms(3) unfolding complete_def by blast
  obtain k where k: "list_unit (parsed us v) (pps_idx (parsed us v)) = Inr k" "unit_bytes FRAME_SIZE m k = Inr ?p"
      "nalu_len k = word_of_nat (length ?p)" "nalu k + length ?p \<le> length (annexb us)"
    using list_unit_last [OF assms(1,2) _ v(1,3)] assms(3) unfolding complete_def by blast
  have four: "4 \<le> length ?s" using assms(2) n(4,5) unfolding frame_ok_def list_all_iff by blast
  then have s: "m (nalu n + 1) = ?s ! 1" "m (nalu n + 2) = ?s ! 2" "m (nalu n + 3) = ?s ! 3" 
    using bytes_at_nth [OF n(6), of 1] bytes_at_nth [OF n(6), of 2] bytes_at_nth [OF n(6), of 3] by simp_all
  have size: "nalu n + 4 \<le> FRAME_SIZE" "length ?s + length ?p + 20 \<le> VIDEO_DATA_BUF_SIZE"
    using four n(7) k(4) assms(2) by (simp_all add: frame_ok_def FRAME_SIZE_def VIDEO_DATA_BUF_SIZE_def)
  then have "video_body (config_body ?s ?p) = Inr (config_body ?s ?p)"
    by (simp add: video_body_def config_body_def be16_def)
  with n(1-3) k(1-3) s size(1) show ?thesis
    by (simp add: PacketVideoParam_def config_body_def add.commute)
qed

lemma SendVideoParam_frame:
  assumes "bytes_at m 0 (length (annexb us)) = annexb us" "frame_ok us"
  shows "SendVideoParam send FRAME_SIZE m (parsed us v) r ts =
    (if complete (map snd us)
     then Inr (send (fst (send r (video_packet RTMP_PACKET_SIZE_LARGE ts (config_body (last_of 7 (map snd us)) (last_of 8 (map snd us))))))
       (video_packet RTMP_PACKET_SIZE_MEDIUM 0 (data_body (map snd us))))
     else Inr (r, 0))"
proof -
  have "(key_frame_idx (parsed us v) < 0 \<or> sps_idx (parsed us v) < 0 \<or> pps_idx (parsed us v) < 0) \<longleftrightarrow> \<not> complete (map snd us)"
    using last_at_nonneg [of 5 0 unit_type "map snd us"] last_at_nonneg [of 7 0 unit_type "map snd us"]
      last_at_nonneg [of 8 0 unit_type "map snd us"] by (auto simp: parsed_def Let_def complete_def)
  then show ?thesis
    using PacketVideoParam_frame [OF assms] PacketVideoData_frame [OF assms] by (simp add: SendVideoParam_def Let_def)
qed

section \<open>Playing a file\<close>

text \<open>
  What is sent for a list of frames, each the list of its units and its time: nothing before the first frame that holds an IDR
  unit and both parameter sets; the configuration and that frame with time 0; then each frame with its distance from that one.
\<close>

fun playback :: "(byte list list \<times> u64) list \<Rightarrow> RTMPPacket list" where
  "playback [] = []"
| "playback ((us, t) # fs) =
     (if complete us
      then [video_packet RTMP_PACKET_SIZE_LARGE 0 (config_body (last_of 7 us) (last_of 8 us)),
            video_packet RTMP_PACKET_SIZE_MEDIUM 0 (data_body us)] @
           map (\<lambda>(us', t'). video_packet RTMP_PACKET_SIZE_MEDIUM (ucast (t' - t)) (data_body us')) fs
      else playback fs)"

definition send_all :: "'c play_env \<Rightarrow> 'c \<Rightarrow> RTMPPacket list \<Rightarrow> 'c" where
  "send_all env = foldl (\<lambda>r p. fst (pl_send env r p))"

definition good_link :: "'c play_env \<Rightarrow> bool" where
  "good_link env \<longleftrightarrow> (\<forall>r p. snd (pl_send env r p) \<noteq> 0) \<and> (\<forall>r. pl_connected env r)"

lemma memcpy_frame: "bytes_at (memcpy m 0 (mem_of_list xs) 0 (length xs)) 0 (length xs) = xs"
  by (rule bytes_at_eqI) (simp_all add: mem_simps)

lemmas frame_in_block = ParseVideoData_frame [OF memcpy_frame] SendVideoParam_frame [OF memcpy_frame] PacketVideoData_frame [OF memcpy_frame]

lemma parsed_simps [simp]:
  "is_get_first_key_frame (parsed us v) = is_get_first_key_frame v"
  "is_key_frame (parsed us v) \<longleftrightarrow> 5 \<in> set (map unit_type (map snd us))"
  by (simp_all add: parsed_def Let_def)

lemma frame_nonempty: "frame_ok us \<Longrightarrow> annexb us \<noteq> []"
  by (cases us) (auto simp: frame_ok_def start_code_def)

lemma play_loop_before:
  assumes "GetOneFrameByIndex i frames STORE_FILE_MAX_SIZE FRAME_SIZE = Inr (Some (annexb us, t), int (length (annexb us)))"
    and "frame_ok us" "\<not> is_get_first_key_frame v" "good_link env"
  shows "\<exists>m. play_loop env frames i pOneFrame prev (v, r) =
    (if complete (map snd us)
     then play_loop env frames (i + 1) m (Some t) ((parsed us v)\<lparr>is_get_first_key_frame := True\<rparr>,
       send_all env r (playback [(map snd us, t)]))
     else play_loop env frames (i + 1) m prev (parsed us v, r))"
proof -
  have ok: "snd (pl_send env x p) \<noteq> 0" for x p using assms(4) by (simp add: good_link_def)
  have "complete (map snd us) \<Longrightarrow> 5 \<in> set (map unit_type (map snd us))" by (simp add: complete_def)
  with assms(3) ok frame_nonempty [OF assms(2)] show ?thesis
    by (intro exI [of _ "memcpy pOneFrame 0 (mem_of_list (annexb us)) 0 (length (annexb us))"], subst play_loop.simps)
      (auto simp: assms(1) frame_in_block assms(2) send_all_def case_prod_unfold Let_def simp del: set_map)
qed

lemma play_loop_after:
  assumes "GetOneFrameByIndex i frames STORE_FILE_MAX_SIZE FRAME_SIZE = Inr (Some (annexb us, t), int (length (annexb us)))"
    and "frame_ok us" "is_get_first_key_frame v" "good_link env"
  shows "\<exists>m. play_loop env frames i pOneFrame (Some t0) (v, r) =
    play_loop env frames (i + 1) m (Some t0) (parsed us v,
      send_all env r [video_packet RTMP_PACKET_SIZE_MEDIUM (ucast (t - t0)) (data_body (map snd us))])"
  using assms(3,4) frame_nonempty [OF assms(2)]
  by (intro exI [of _ "memcpy pOneFrame 0 (mem_of_list (annexb us)) 0 (length (annexb us))"], subst play_loop.simps)
    (auto simp: assms(1) frame_in_block assms(2) send_all_def good_link_def SendVideoData_def case_prod_unfold Let_def simp del: set_map)

lemma play_loop_end:
  "GetOneFrameByIndex i frames STORE_FILE_MAX_SIZE FRAME_SIZE = Inr (None, -1) \<Longrightarrow> play_loop env frames i m prev s = Inr s"
  by (subst play_loop.simps) simp

text \<open>The frames the loop gets, as lists of units with their times.\<close>

definition served :: "mem \<Rightarrow> nat \<Rightarrow> ((bool \<times> byte list) list \<times> u64) list \<Rightarrow> bool" where
  "served frames i gs \<longleftrightarrow> (\<forall>j<length gs. frame_ok (fst (gs ! j)) \<and>
       GetOneFrameByIndex (i + j) frames STORE_FILE_MAX_SIZE FRAME_SIZE =
         Inr (Some (annexb (fst (gs ! j)), snd (gs ! j)), int (length (annexb (fst (gs ! j)))))) \<and>
     GetOneFrameByIndex (i + length gs) frames STORE_FILE_MAX_SIZE FRAME_SIZE = Inr (None, -1)"

lemma served_Cons: "served frames i ((us, t) # gs) \<Longrightarrow> frame_ok us \<and>
    GetOneFrameByIndex i frames STORE_FILE_MAX_SIZE FRAME_SIZE = Inr (Some (annexb us, t), int (length (annexb us))) \<and> served frames (i + 1) gs"
proof -
  assume s: "served frames i ((us, t) # gs)"
  have "frame_ok (fst (gs ! j)) \<and> GetOneFrameByIndex (i + 1 + j) frames STORE_FILE_MAX_SIZE FRAME_SIZE =
      Inr (Some (annexb (fst (gs ! j)), snd (gs ! j)), int (length (annexb (fst (gs ! j)))))" if "j < length gs" for j
    using s that unfolding served_def by (auto dest: spec [of _ "Suc j"])
  with s show ?thesis unfolding served_def by (auto dest: spec [of _ 0])
qed

lemma send_all_append [simp]: "send_all env r (ps @ qs) = send_all env (send_all env r ps) qs"
  by (simp add: send_all_def)

lemma play_loop_rest:
  "served frames i gs \<Longrightarrow> is_get_first_key_frame v \<Longrightarrow> good_link env \<Longrightarrow>
   \<exists>v'. play_loop env frames i m (Some t0) (v, r) = Inr (v', send_all env r
     (map (\<lambda>(us, t). video_packet RTMP_PACKET_SIZE_MEDIUM (ucast (t - t0)) (data_body (map snd us))) gs))"
proof (induction gs arbitrary: i m v r)
  case Nil
  then show ?case by (simp add: served_def play_loop_end send_all_def)
next
  case (Cons g gs)
  obtain us t where g: "g = (us, t)" by fastforce
  note s = served_Cons [OF Cons.prems(1) [unfolded g]]
  obtain m' where "play_loop env frames i m (Some t0) (v, r) = play_loop env frames (i + 1) m' (Some t0) (parsed us v,
      send_all env r [video_packet RTMP_PACKET_SIZE_MEDIUM (ucast (t - t0)) (data_body (map snd us))])"
    using play_loop_after s Cons.prems(2,3) by metis
  with Cons.IH [of "i + 1" "parsed us v" m'] s Cons.prems(2,3) g show ?case
    by (auto simp: send_all_def)
qed

lemma play_loop_playback:
  "served frames i gs \<Longrightarrow> \<not> is_get_first_key_frame v \<Longrightarrow> good_link env \<Longrightarrow>
   \<exists>v'. play_loop env frames i m prev (v, r) = Inr (v', send_all env r (playback (map (\<lambda>(us, t). (map snd us, t)) gs)))"
proof (induction gs arbitrary: i m v)
  case Nil
  then show ?case by (simp add: served_def play_loop_end send_all_def)
next
  case (Cons g gs)
  obtain us t where g: "g = (us, t)" by fastforce
  note s = served_Cons [OF Cons.prems(1) [unfolded g]]
  obtain m' where m': "play_loop env frames i m prev (v, r) = (if complete (map snd us)
     then play_loop env frames (i + 1) m' (Some t) ((parsed us v)\<lparr>is_get_first_key_frame := True\<rparr>,
       send_all env r (playback [(map snd us, t)]))
     else play_loop env frames (i + 1) m' prev (parsed us v, r))"
    using play_loop_before s Cons.prems(2,3) by metis
  show ?case
  proof (cases "complete (map snd us)")
    case True
    with m' play_loop_rest [of frames "i + 1" gs "(parsed us v)\<lparr>is_get_first_key_frame := True\<rparr>" env m' t
        "send_all env r (playback [(map snd us, t)])"] s Cons.prems(3) g show ?thesis
      by (auto simp: send_all_def comp_def case_prod_unfold)
  next
    case False
    with m' Cons.IH [of "i + 1" "parsed us v" m'] s Cons.prems(2,3) g show ?thesis by auto
  qed
qed

text \<open>A smaller buffer sees the same frames up to its size.\<close>

lemma GetOneFrameByIndex_smaller:
  assumes "GetOneFrameByIndex i m sz out = Inr (Some (xs, t), k)" "out' \<le> out"
  shows "GetOneFrameByIndex i m sz out' = (if length xs \<le> out' then Inr (Some (xs, t), k) else Inr (None, -1))"
  using assms by (auto simp: GetOneFrameByIndex_def Let_def split: if_splits)

lemma GetOneFrameByIndex_none:
  "GetOneFrameByIndex i m sz out = Inr (None, -1) \<Longrightarrow> out' \<le> out \<Longrightarrow> GetOneFrameByIndex i m sz out' = Inr (None, -1)"
  by (auto simp: GetOneFrameByIndex_def Let_def split: if_splits)

definition short_enough :: "frame list \<Rightarrow> frame list" where
  "short_enough fs = takeWhile (\<lambda>f. length (fdata f) \<le> FRAME_SIZE) fs"

definition frames_of :: "(bool \<times> byte list) list list \<Rightarrow> frame list \<Rightarrow> bool" where
  "frames_of = list_all2 (\<lambda>us f. fdata f = annexb us \<and> frame_ok us)"

lemma served_file:
  assumes "\<forall>i<length fs. GetOneFrameByIndex i buf STORE_BUF_MAX_SIZE STORE_BUF_MAX_SIZE =
        Inr (Some (fdata (fs ! i), ftime (fs ! i)), int (length (fdata (fs ! i))))"
    and "GetOneFrameByIndex (length fs) buf STORE_BUF_MAX_SIZE STORE_BUF_MAX_SIZE = Inr (None, -1)"
    and "frames_of uss (short_enough fs)"
  shows "served buf 0 (zip uss (map ftime (short_enough fs)))"
proof -
  let ?gs = "short_enough fs"
  have size: "FRAME_SIZE \<le> STORE_BUF_MAX_SIZE" "STORE_FILE_MAX_SIZE = STORE_BUF_MAX_SIZE"
    by (simp_all add: FRAME_SIZE_def sizes)
  have len: "length ?gs \<le> length fs" "length uss = length ?gs"
    using assms(3) by (auto simp: short_enough_def frames_of_def length_takeWhile_le dest: list_all2_lengthD)
  have get: "GetOneFrameByIndex i buf STORE_BUF_MAX_SIZE FRAME_SIZE =
      (if length (fdata (fs ! i)) \<le> FRAME_SIZE then Inr (Some (fdata (fs ! i), ftime (fs ! i)), int (length (fdata (fs ! i)))) else Inr (None, -1))"
    if "i < length fs" for i
    using GetOneFrameByIndex_smaller [OF _ size(1)] assms(1) that by blast
  have nth: "?gs ! j = fs ! j \<and> length (annexb (uss ! j)) \<le> FRAME_SIZE \<and> fdata (fs ! j) = annexb (uss ! j) \<and> frame_ok (uss ! j)"
    if "j < length ?gs" for j
  proof -
    have "?gs ! j = fs ! j" using that unfolding short_enough_def by (rule takeWhile_nth)
    moreover have "?gs ! j \<in> set ?gs" using that by simp
    then have "length (fdata (?gs ! j)) \<le> FRAME_SIZE" unfolding short_enough_def by (auto dest: set_takeWhileD)
    ultimately show ?thesis using assms(3) that unfolding frames_of_def list_all2_conv_all_nth by auto
  qed
  have stop: "GetOneFrameByIndex (length ?gs) buf STORE_BUF_MAX_SIZE FRAME_SIZE = Inr (None, -1)"
  proof (cases "length ?gs = length fs")
    case True
    then show ?thesis using GetOneFrameByIndex_none [OF assms(2) size(1)] by simp
  next
    case False
    then have "length ?gs < length fs" using len(1) by simp
    moreover from this have "\<not> length (fdata (fs ! length ?gs)) \<le> FRAME_SIZE"
      unfolding short_enough_def by (rule nth_length_takeWhile)
    ultimately show ?thesis using get by simp
  qed
  show ?thesis unfolding served_def size(2) using nth get len stop by auto
qed

lemma StartPlayback_sends:
  assumes "plays (pl_files env) path fs" "frames_of uss (short_enough fs)" "good_link env" "pl_malloc env = (True, True)"
    and "0 \<le> pl_undef env" "\<not> is_get_first_key_frame v"
  shows "\<exists>v'. StartPlaybackStoreFile env path (v, r) =
    Inr (v', send_all env r (playback (zip (map (map snd) uss) (map ftime (short_enough fs)))))"
proof -
  obtain buf where buf: "ReadStoreFileFrame (pl_undef env) (pl_files env) path (fst (pl_heap env)) STORE_BUF_MAX_SIZE = Inr (buf, pl_undef env)"
      "served buf 0 (zip uss (map ftime (short_enough fs)))"
    using assms(1) served_file [OF _ _ assms(2)] unfolding plays_def by metis
  have "map (\<lambda>(us, t). (map snd us, t)) (zip uss (map ftime (short_enough fs))) = zip (map (map snd) uss) (map ftime (short_enough fs))"
    by (simp add: zip_map1 case_prod_unfold)
  with play_loop_playback [OF buf(2) assms(6,3)] buf(1) assms(4,5) show ?thesis
    by (fastforce simp: StartPlaybackStoreFile_def STORE_BUF_MAX_SIZE_def [symmetric])
qed

section \<open>Reading a packet\<close>

fun read_be :: "byte list \<Rightarrow> nat" where
  "read_be [] = 0"
| "read_be (b # bs) = unat b * 256 ^ length bs + read_be bs"

text \<open>What a player makes of the part behind the five bytes of the head: lengths of four bytes, each followed by a unit.\<close>

function avcc_units :: "byte list \<Rightarrow> byte list list option" where
  "avcc_units bs =
     (if bs = [] then Some []
      else if length bs < 4 then None
      else (let n = read_be (take 4 bs) in
        if length bs < 4 + n then None
        else map_option (Cons (take n (drop 4 bs))) (avcc_units (drop (4 + n) bs))))"
  by pat_completeness auto
termination
  by (relation "measure length") auto

declare avcc_units.simps [simp del]

lemma unat_byte_of: "unat (ucast (drop_bit k w AND 0xff) :: byte) = unat (w :: u32) div 2 ^ k mod 256"
proof -
  have "drop_bit k w AND 0xff = take_bit 8 (drop_bit k w)" by (simp add: take_bit_eq_mask mask_eq_exp_minus_1)
  then have "ucast (drop_bit k w AND 0xff) = (ucast (drop_bit k w) :: byte)"
    by (simp only:) (intro bit_word_eqI, auto simp: bit_simps)
  moreover have "unat (ucast (drop_bit k w) :: byte) = unat (drop_bit k w) mod 2 ^ 8"
    by (simp add: unsigned_ucast_eq take_bit_eq_mod)
  moreover have "unat (drop_bit k w) = unat w div 2 ^ k" unfolding unat_drop_bit_eq by (simp add: drop_bit_eq_div)
  ultimately show ?thesis by simp
qed

lemma horner: "n = r0 + 256 * a \<Longrightarrow> a = r1 + 256 * b \<Longrightarrow> b = r2 + 256 * c \<Longrightarrow> c * 256 ^ 3 + (r2 * 256 ^ 2 + (r1 * 256 + r0)) = (n :: nat)"
  by simp

lemma base256: "n < 2 ^ 32 \<Longrightarrow> n div 2 ^ 24 mod 256 * 256 ^ 3 + (n div 2 ^ 16 mod 256 * 256 ^ 2 + (n div 2 ^ 8 mod 256 * 256 + n mod 256)) = (n :: nat)"
proof -
  assume "n < 2 ^ 32"
  then have "n div 2 ^ 24 mod 256 = n div 2 ^ 24" by simp
  moreover have d: "n div 2 ^ 24 = n div 256 div 256 div 256" "n div 2 ^ 16 = n div 256 div 256" "n div 2 ^ 8 = n div 256"
    by (simp_all add: div_mult2_eq [symmetric])
  ultimately show ?thesis
    using horner [OF mod_mult_div_eq [symmetric] mod_mult_div_eq [symmetric] mod_mult_div_eq [symmetric], of n] by (simp only: d)
qed

lemma read_be32: "read_be (be32 w) = unat w"
  using base256 [OF unat_u32_less [of w]] unat_byte_of [of 0 w]
  by (simp add: be32_def unat_byte_of numeral_2_eq_2 numeral_3_eq_3)

lemma avcc_units_avcc: "list_all (\<lambda>u. length u < 2 ^ 32) us \<Longrightarrow> avcc_units (avcc us) = Some us"
proof (induction us)
  case Nil
  show ?case by (subst avcc_units.simps) (simp add: avcc_def)
next
  case (Cons u us)
  let ?l = "word_of_nat (length u) :: u32"
  have n: "read_be (be32 ?l) = length u" using Cons.prems by (simp add: read_be32 unat_of_nat)
  have b: "avcc (u # us) = be32 ?l @ u @ avcc us" "length (be32 ?l) = 4" by (simp_all add: avcc_def be32_def)
  show ?case by (subst avcc_units.simps) (use Cons n b in \<open>auto simp: Let_def\<close>)
qed

section \<open>A recorded file\<close>

lemma recorded_clean:
  "buf_repr b fs \<Longrightarrow> clean b fs \<Longrightarrow> fits (fs @ map request_frame xs) \<Longrightarrow>
   \<exists>b'. efold append_request xs b = Inr b' \<and> buf_repr b' (fs @ map request_frame xs) \<and> clean b' (fs @ map request_frame xs)"
proof (induction xs arbitrary: b fs)
  case (Cons x xs)
  have room: "fits (fs @ [request_frame x])"
    using Cons.prems(3) buflog.room_prefix [of "fs @ [request_frame x]" "map request_frame xs"] by simp
  then obtain b' where b': "append_request x b = Inr b'" "buf_repr b' (fs @ [request_frame x])"
    using buflog.put_repr Cons.prems(1) by blast
  moreover have "clean b' (fs @ [request_frame x])"
    using append_frame_clean [OF Cons.prems(1,2)] b'(1) room by (auto simp: append_request_def request_frame_def split: prod.splits)
  ultimately show ?case using Cons.IH [of b' "fs @ [request_frame x]"] Cons.prems(3) by auto
qed auto

lemma recorded_file: "fits (map request_frame xs) \<Longrightarrow> \<exists>c. file_repr c (map request_frame xs)"
proof -
  assume f: "fits (map request_frame xs)"
  have "buf_repr (get_buf sample_device Ping) []" using sample_repr(1) by (simp add: dev_repr_def)
  then obtain b where b: "buf_repr b (map request_frame xs)" "clean b (map request_frame xs)"
    using recorded_clean [OF _ sample_repr(3), of xs] f by auto
  then obtain m where m: "store_buf b = Some m" "mem_repr m (map request_frame xs)" by (auto simp: buf_repr_def)
  have "head (get_storeinfo m (rec_addr (length (map request_frame xs)))) \<noteq> STORE_INFO_HEAD"
    using clean_head [OF b(2) m(1)] fits_bounds(1) [OF f] by auto
  with f m(2) show ?thesis by (auto simp: file_repr_def)
qed

definition p_frame :: "(bool \<times> byte list) list" where
  "p_frame = [(True, [0x41, 0x9a])]"

definition sample_units :: "(bool \<times> byte list) list list" where
  "sample_units = [p_frame,
     [(True, [0x67, 0x64, 0, 0x1f]), (True, [0x68, 0xee]), (False, [0x65, 0x88])], [(True, [0x41, 0x9a, 7])]]"

definition sample_requests :: "(store_env \<times> byte list \<times> u32) list" where
  "sample_requests = map (\<lambda>us. (sample_env, annexb us, 0)) sample_units"

lemma sample_units_ok: "list_all frame_ok sample_units"
  by (simp add: sample_units_def p_frame_def frame_ok_def unit_ok_def start_code_def FRAME_SIZE_def unit_type_def upt_rec)

lemma sample_units_fit: "fits (map request_frame sample_requests)"
  by (simp add: sample_requests_def sample_units_def p_frame_def request_frame_def start_code_def new_frame_def fits_def sizes)

definition log_env :: "(string \<rightharpoonup> file_image) \<Rightarrow> RTMPPacket list play_env" where
  "log_env files = \<lparr>pl_send = \<lambda>r p. (r @ [p], 1), pl_connected = \<lambda>_. True, pl_files = files, pl_undef = 0,
     pl_malloc = (True, True), pl_heap = (\<lambda>_. 0, \<lambda>_. 0)\<rparr>"

definition initial_video :: video_state where
  "initial_video = \<lparr>is_key_frame = False, is_get_first_key_frame = False, key_frame_cnt = 0, naluList = [],
     key_frame_idx = 0, sps_idx = 0, pps_idx = 0\<rparr>"

lemma sample_short: "short_enough (map request_frame sample_requests) = map request_frame sample_requests"
  by (simp add: short_enough_def sample_requests_def sample_units_def p_frame_def request_frame_def new_frame_def start_code_def FRAME_SIZE_def)

lemma sample_frames_of: "frames_of sample_units (short_enough (map request_frame sample_requests))"
  using sample_units_ok unfolding sample_short
  by (simp add: frames_of_def sample_requests_def list_all2_conv_all_nth list_all_length request_frame_def new_frame_def)

lemma sample_playback:
  "playback (zip (map (map snd) sample_units) (map ftime (map request_frame sample_requests))) =
     [video_packet RTMP_PACKET_SIZE_LARGE 0 (config_body [0x67, 0x64, 0, 0x1f] [0x68, 0xee]),
      video_packet RTMP_PACKET_SIZE_MEDIUM 0 (data_body [[0x67, 0x64, 0, 0x1f], [0x68, 0xee], [0x65, 0x88]]),
      video_packet RTMP_PACKET_SIZE_MEDIUM 0 (data_body [[0x41, 0x9a, 7]])]"
  by (simp add: sample_units_def p_frame_def sample_requests_def request_frame_def new_frame_def complete_def unit_type_def last_of_def)

lemma send_log: "send_all (log_env files) r ps = r @ ps"
  by (induction ps arbitrary: r) (simp_all add: send_all_def log_env_def)

section \<open>Properties\<close>

lemma in_map_iff: "t \<in> set (map f xs) \<longleftrightarrow> (\<exists>x. x \<in> set xs \<and> f x = t)"
  by auto

text \<open>(C37) A frame reaches the player unit by unit. For a frame of well-formed units behind start codes, the first of them long,
  that fits the buffer with three bytes to spare, whatever the buffer held before: splitting it and packing it
  succeed, reading the packet by its lengths gives the units back in order, and the packet
  is marked as a key frame exactly when a unit is an IDR slice.\<close>

theorem frame_packet_units:
  assumes "frame_ok us"
  shows "\<exists>v1 body. ParseVideoData FRAME_SIZE (memcpy block 0 (mem_of_list (annexb us)) 0 (length (annexb us))) (length (annexb us)) v = Inr v1 \<and>
    PacketVideoData FRAME_SIZE (memcpy block 0 (mem_of_list (annexb us)) 0 (length (annexb us))) v1 = Inr body \<and>
    avcc_units (drop 5 body) = Some (map snd us) \<and> (hd body = 0x17 \<longleftrightarrow> (\<exists>u. u \<in> set (map snd us) \<and> unit_type u = 5))"
proof -
  have "length (snd x) \<le> length (annexb us)" if "x \<in> set us" for x
    using that by (induction us) (auto simp: case_prod_unfold annexb_def)
  then have "list_all (\<lambda>u. length u < 2 ^ 32) (map snd us)"
    using assms by (fastforce simp: list_all_iff frame_ok_def FRAME_SIZE_def)
  then have "avcc_units (drop 5 (data_body (map snd us))) = Some (map snd us)"
    using avcc_units_avcc by (simp add: data_body_def)
  moreover have "hd (data_body (map snd us)) = 0x17 \<longleftrightarrow> 5 \<in> set (map unit_type (map snd us))"
    by (simp add: data_body_def del: set_map map_map)
  then have "hd (data_body (map snd us)) = 0x17 \<longleftrightarrow> (\<exists>u. u \<in> set (map snd us) \<and> unit_type u = 5)"
    by (simp only: in_map_iff [of 5 unit_type "map snd us"])
  ultimately show ?thesis
    by (intro exI [of _ "parsed us v"] exI [of _ "data_body (map snd us)"] conjI frame_in_block(1,3) [OF assms])
qed

theorem frame_packet_units_witness:
  "\<exists>v1 body. ParseVideoData FRAME_SIZE (memcpy (\<lambda>_. 0) 0 (mem_of_list (annexb p_frame)) 0 (length (annexb p_frame)))
       (length (annexb p_frame)) initial_video = Inr v1 \<and>
    PacketVideoData FRAME_SIZE (memcpy (\<lambda>_. 0) 0 (mem_of_list (annexb p_frame)) 0 (length (annexb p_frame))) v1 = Inr body \<and>
    avcc_units (drop 5 body) = Some [[0x41, 0x9a]] \<and> hd body \<noteq> 0x17"
proof -
  have "frame_ok p_frame" using sample_units_ok by (simp add: sample_units_def)
  from frame_packet_units [OF this, of "\<lambda>_. 0" initial_video] obtain v1 body where
    b: "ParseVideoData FRAME_SIZE (memcpy (\<lambda>_. 0) 0 (mem_of_list (annexb p_frame)) 0 (length (annexb p_frame)))
       (length (annexb p_frame)) initial_video = Inr v1"
      "PacketVideoData FRAME_SIZE (memcpy (\<lambda>_. 0) 0 (mem_of_list (annexb p_frame)) 0 (length (annexb p_frame))) v1 = Inr body"
      "avcc_units (drop 5 body) = Some (map snd p_frame)" "hd body = 0x17 \<longleftrightarrow> (\<exists>u. u \<in> set (map snd p_frame) \<and> unit_type u = 5)"
    by blast
  have "map snd p_frame = [[0x41, 0x9a]]" "\<not> (\<exists>u. u \<in> set (map snd p_frame) \<and> unit_type u = 5)" by (simp_all add: p_frame_def unit_type_def)
  with b show ?thesis by metis
qed

text \<open>(C36) Playing a recording sends it. When a file holds the frames of a recording, as the writer leaves it, each of those up to
  the first that is longer than 300 KiB consists of well-formed units, and the connection takes every packet, playing the
  file sends: nothing before the first frame with an IDR slice and both parameter sets, the decoder
  configuration of that frame, the frame itself with time 0, and every later frame with its distance in time from it.
  The first frame longer than 300 KiB ends the playback.\<close>

theorem playback_sends_recording:
  assumes "plays (pl_files env) path fs" "frames_of uss (short_enough fs)" "good_link env" "pl_malloc env = (True, True)"
    and "0 \<le> pl_undef env" "\<not> is_get_first_key_frame v"
  shows "\<exists>v'. StartPlaybackStoreFile env path (v, r) =
    Inr (v', send_all env r (playback (zip (map (map snd) uss) (map ftime (short_enough fs)))))"
  by (rule StartPlayback_sends [OF assms])

theorem playback_sends_recording_witness:
  "\<exists>files v'. plays files ''f'' (map request_frame sample_requests) \<and>
     StartPlaybackStoreFile (log_env files) ''f'' (initial_video, []) = Inr (v',
       [video_packet RTMP_PACKET_SIZE_LARGE 0 (config_body [0x67, 0x64, 0, 0x1f] [0x68, 0xee]),
        video_packet RTMP_PACKET_SIZE_MEDIUM 0 (data_body [[0x67, 0x64, 0, 0x1f], [0x68, 0xee], [0x65, 0x88]]),
        video_packet RTMP_PACKET_SIZE_MEDIUM 0 (data_body [[0x41, 0x9a, 7]])])"
proof -
  obtain c where "file_repr c (map request_frame sample_requests)" using recorded_file sample_units_fit by blast
  then have p: "plays [''f'' \<mapsto> (c, STORE_BUF_MAX_SIZE)] ''f'' (map request_frame sample_requests)" by (intro playsI) simp_all
  let ?env = "log_env [''f'' \<mapsto> (c, STORE_BUF_MAX_SIZE)]"
  have env: "plays (pl_files ?env) ''f'' (map request_frame sample_requests)" "good_link ?env" "pl_malloc ?env = (True, True)"
      "0 \<le> pl_undef ?env" "\<not> is_get_first_key_frame initial_video"
    using p by (simp_all add: log_env_def good_link_def initial_video_def)
  show ?thesis
    using playback_sends_recording [OF env(1) sample_frames_of env(2-5), of "[]", unfolded sample_short sample_playback send_log append_Nil] p
    by blast
qed

text \<open>A frame whose first start code is short is sent as the units of the frame before it.\<close>

lemma short_start_code_keeps_units:
  assumes "\<not> start4 m 0"
  shows "\<exists>v1. ParseVideoData cap m sz v = Inr v1 \<and> naluList v1 = naluList v \<and> (is_key_frame v1 \<longleftrightarrow> 5 \<in> nalu_type ` set (naluList v))"
  using assms by (auto simp: ParseVideoData_def ParseVideoParam_def separator4_iff classify_units_eq Let_def)

end
