(* ===== verification/RtmpSessionCorrect.thy ===== *)
theory RtmpSessionCorrect
  imports RtmpSession RtmpVideoCorrect HttpCorrect
begin

text \<open>
  The RTMP server: \<open>AVreplace\<close> and the decoding of a path against plain list functions, the space the messages need, and
  a request to play a recording from the name of the file to the last packet.
\<close>

section \<open>Replacing\<close>

function replace_all :: "string \<Rightarrow> string \<Rightarrow> string \<Rightarrow> string" where
  "replace_all orig repl s = (case s of [] \<Rightarrow> []
     | c # cs \<Rightarrow> if orig \<noteq> [] \<and> is_prefix orig s then repl @ replace_all orig repl (drop (length orig) s) else c # replace_all orig repl cs)"
  by pat_completeness auto
termination by (relation "measure (\<lambda>(orig, repl, s). length s)") auto

function occurrences :: "string \<Rightarrow> string \<Rightarrow> nat" where
  "occurrences orig s = (case s of [] \<Rightarrow> 0
     | c # cs \<Rightarrow> if orig \<noteq> [] \<and> is_prefix orig s then Suc (occurrences orig (drop (length orig) s)) else occurrences orig cs)"
  by pat_completeness auto
termination by (relation "measure (\<lambda>(orig, s). length s)") auto

declare replace_all.simps [simp del] occurrences.simps [simp del]

lemma replace_Nil [simp]: "replace_all orig repl [] = []" "occurrences orig [] = 0"
  by (simp_all add: replace_all.simps occurrences.simps)

lemma replace_Cons:
  "replace_all orig repl (c # cs) = (if orig \<noteq> [] \<and> is_prefix orig (c # cs)
     then repl @ replace_all orig repl (drop (length orig) (c # cs)) else c # replace_all orig repl cs)"
  "occurrences orig (c # cs) = (if orig \<noteq> [] \<and> is_prefix orig (c # cs)
     then Suc (occurrences orig (drop (length orig) (c # cs))) else occurrences orig cs)"
  by (subst replace_all.simps, simp) (subst occurrences.simps, simp)

lemma strstr_none:
  "orig \<noteq> [] \<Longrightarrow> strstr s orig = None \<Longrightarrow> replace_all orig repl s = s \<and> occurrences orig s = 0"
proof (induction s)
  case (Cons c cs)
  then show ?case by (auto simp: replace_Cons split: if_splits)
qed simp

lemma strstr_some:
  "orig \<noteq> [] \<Longrightarrow> strstr s orig = Some w \<Longrightarrow>
   replace_all orig repl s = take (length s - length w) s @ repl @ replace_all orig repl (drop (length orig) w) \<and>
   occurrences orig s = Suc (occurrences orig (drop (length orig) w)) \<and> length w \<le> length s \<and> drop (length s - length w) s = w \<and> length orig \<le> length w"
proof (induction s)
  case (Cons c cs)
  show ?case
  proof (cases "is_prefix orig (c # cs)")
    case True
    then have "length orig \<le> length (c # cs)" unfolding is_prefix_def by (metis length_take min.cobounded1)
    moreover have "w = c # cs" using True Cons.prems(2) by simp
    ultimately show ?thesis using True Cons.prems(1) by (simp add: replace_Cons)
  next
    case False
    with Cons.prems have w: "strstr cs orig = Some w" by simp
    note IH = Cons.IH [OF Cons.prems(1) w]
    then have d: "length (c # cs) - length w = Suc (length cs - length w)" by auto
    show ?thesis unfolding d using False IH by (simp add: replace_Cons)
  qed
qed (auto split: if_splits)

lemma length_replace_all:
  "orig \<noteq> [] \<Longrightarrow> int (length (replace_all orig repl s)) = int (length s) + (int (length repl) - int (length orig)) * int (occurrences orig s)"
proof (induction "length s" arbitrary: s rule: less_induct)
  case less
  show ?case
  proof (cases "strstr s orig")
    case None
    with strstr_none less.prems show ?thesis by simp
  next
    case (Some w)
    note w = strstr_some [OF less.prems Some]
    have "0 < length orig" "length w \<le> length s" "length orig \<le> length w" using w less.prems by auto
    then have "length (drop (length orig) w) < length s" unfolding length_drop by linarith
    note IH = less.hyps [OF this less.prems]
    have "int (length (drop (length orig) w)) = int (length w) - int (length orig)" "int (length s - length w) = int (length s) - int (length w)"
      using w [of repl] by (simp_all add: of_nat_diff)
    moreover have "int (length (replace_all orig repl s)) =
        int (length s - length w) + (int (length repl) + int (length (replace_all orig repl (drop (length orig) w))))"
      "occurrences orig s = Suc (occurrences orig (drop (length orig) w))"
      using w [of repl] by simp_all
    ultimately show ?thesis using IH by (simp only: of_nat_Suc) (simp add: algebra_simps)
  qed
qed

lemma strstr_position:
  assumes "orig \<noteq> []" "p \<le> length t" "strstr (drop p t) orig = Some w"
  shows "p < length t - length w + length orig" "length t - length w + length orig \<le> length t"
    "drop (length t - length w + length orig) t = drop (length orig) w" "length t - length w - p = length (drop p t) - length w"
proof -
  note w = strstr_some [OF assms(1,3), of "[]"]
  have l: "length w \<le> length t - p" "length orig \<le> length w" "0 < length orig" using w assms(1) by auto
  then show "p < length t - length w + length orig" "length t - length w + length orig \<le> length t"
      "length t - length w - p = length (drop p t) - length w"
    using assms(2) unfolding length_drop by linarith+
  have "length t - length w = length t - p - length w + p" using l(1) assms(2) by linarith
  then have "drop (length t - length w) t = w" using w by (metis drop_drop length_drop)
  then show "drop (length t - length w + length orig) t = drop (length orig) w" by (metis add.commute drop_drop)
qed

lemma count_orig_eq:
  "orig \<noteq> [] \<Longrightarrow> p \<le> length t \<Longrightarrow> count_orig orig t (length t) p = Inr (occurrences orig (drop p t))"
proof (induction "length t - p" arbitrary: p rule: less_induct)
  case less
  show ?case
  proof (cases "p < length t")
    case False
    with less.prems show ?thesis by (subst count_orig.simps) simp
  next
    case True
    show ?thesis
    proof (cases "strstr (drop p t) orig")
      case None
      with True less.prems strstr_none [of orig "drop p t"] show ?thesis by (subst count_orig.simps) simp
    next
      case (Some w)
      note w = strstr_some [OF less.prems(1) Some, of "[]"] and q = strstr_position [OF less.prems Some]
      have "count_orig orig t (length t) (length t - length w + length orig) = Inr (occurrences orig (drop (length orig) w))"
        using less.hyps [OF _ less.prems(1) q(2)] q(1,2,3) by simp
      then show ?thesis using less.prems(1) w True Some by (subst count_orig.simps) simp
    qed
  qed
qed

lemma copy_orig_eq:
  "orig \<noteq> [] \<Longrightarrow> p \<le> length t \<Longrightarrow>
   copy_orig orig repl (t @ tail) t (length t) p p dest = Inr (dest @ replace_all orig repl (drop p t))"
proof (induction "length t - p" arbitrary: p dest rule: less_induct)
  case less
  show ?case
  proof (cases "p < length t")
    case False
    with less.prems show ?thesis by (subst copy_orig.simps) simp
  next
    case True
    show ?thesis
    proof (cases "strstr (drop p t) orig")
      case None
      with True less.prems strstr_none [of orig "drop p t"] show ?thesis by (subst copy_orig.simps) simp
    next
      case (Some w)
      note w = strstr_some [OF less.prems(1) Some, of repl] and q = strstr_position [OF less.prems Some]
      have "take (length t - length w - p) (drop p (t @ tail)) = take (length (drop p t) - length w) (drop p t)"
        unfolding q(4) using True by simp
      moreover have "copy_orig orig repl (t @ tail) t (length t) (length t - length w + length orig) (length t - length w + length orig) d =
          Inr (d @ replace_all orig repl (drop (length orig) w))" for d
        using less.hyps [OF _ less.prems(1) q(2)] q(1,2,3) by simp
      ultimately show ?thesis using less.prems(1) w True Some by (subst copy_orig.simps) (simp add: Let_def)
    qed
  qed
qed

lemma c_string_NUL: "NUL \<notin> set s \<Longrightarrow> c_string (s @ NUL # rest) = Inr s"
  by (auto simp: c_string_def takeWhile_tail takeWhile_eq_all_conv)

text \<open>(C38) Replacing in a token is replacing in a list. For a token that is followed by a NUL and contains none, \<open>AVreplace\<close>
  returns, its copy fits the memory it allocates, and the token becomes the text in which every occurrence of the searched text,
  taken from the left, is replaced; it keeps its pointer exactly when there is no occurrence.\<close>

theorem AVreplace_reference:
  assumes "av_val src = Some (s @ NUL # rest)" "av_len src = int (length s)" "NUL \<notin> set s" "orig \<noteq> []"
  shows "\<exists>r. AVreplace src orig repl = Inr r \<and> av_bytes (case r of None \<Rightarrow> src | Some u \<Rightarrow> u) = replace_all orig repl s \<and>
    (r = None \<longleftrightarrow> occurrences orig s = 0)"
proof (cases "occurrences orig s = 0")
  case True
  have "replace_all orig repl s = s"
  proof (cases "strstr s orig")
    case (Some w)
    then show ?thesis using strstr_some [OF assms(4) Some] True by simp
  qed (use strstr_none assms(4) in blast)
  with True count_orig_eq [OF assms(4), of 0 s] assms show ?thesis
    by (auto simp: AVreplace_def c_string_NUL av_bytes_def)
next
  case False
  then have "s \<noteq> []" by auto
  with False count_orig_eq [OF assms(4), of 0 s] copy_orig_eq [OF assms(4), of 0 s repl "NUL # rest" "[]"]
    length_replace_all [OF assms(4), of repl s] assms show ?thesis
    by (simp add: AVreplace_def c_string_NUL av_bytes_def)
qed

theorem AVreplace_reference_witness:
  "\<exists>r. AVreplace (literal ''a!b!!'') ''!'' ''++'' = Inr r \<and>
     av_bytes (case r of None \<Rightarrow> literal ''a!b!!'' | Some u \<Rightarrow> u) = ''a++b++++''"
proof -
  have "replace_all ''!'' ''++'' ''a!b!!'' = ''a++b++++''" by code_simp
  with AVreplace_reference [of "literal ''a!b!!''" "''a!b!!''" "[]" "''!''" "''++''"] show ?thesis
    by (auto simp: literal_def NUL_def)
qed

section \<open>The space of a message\<close>

text \<open>
  What the server relies on of the encoders of \<open>librtmp\<close>: the sizes of AMF0, no write behind the end, and success when there
  are two bytes more than needed (the library reserves the longer form of a string).
\<close>

definition encodes :: "(nat \<Rightarrow> byte list option) \<Rightarrow> nat \<Rightarrow> bool" where
  "encodes f k \<longleftrightarrow> (\<forall>n. (k + 2 \<le> n \<longrightarrow> f n \<noteq> None) \<and> (\<forall>bs. f n = Some bs \<longrightarrow> length bs = k \<and> k \<le> n))"

definition amf_room :: "amf_lib \<Rightarrow> bool" where
  "amf_room lib \<longleftrightarrow> (\<forall>s. length s < 65536 \<longrightarrow> encodes (AMF_EncodeString lib s) (3 + length s)) \<and>
     (\<forall>d. encodes (AMF_EncodeNumber lib d) 9) \<and> (\<forall>b. encodes (AMF_EncodeBoolean lib b) 2) \<and>
     (\<forall>name s. length name < 65536 \<and> length s < 65536 \<longrightarrow> encodes (AMF_EncodeNamedString lib name s) (5 + length name + length s)) \<and>
     (\<forall>name d. length name < 65536 \<longrightarrow> encodes (AMF_EncodeNamedNumber lib name d) (11 + length name))"

definition adds :: "nat \<Rightarrow> nat \<Rightarrow> encoder \<Rightarrow> bool" where
  "adds d k f \<longleftrightarrow> (\<forall>cap body. (length body + k + d \<le> cap \<longrightarrow> (\<exists>bs. f cap body = Inr (body @ bs) \<and> length bs = k)) \<and>
     (\<forall>b. f cap body = Inr b \<longrightarrow> length b = length body + k \<and> length b \<le> cap))"

lemma encodesD:
  assumes "encodes f k"
  shows "k + 2 \<le> n \<Longrightarrow> \<exists>bs. f n = Some bs \<and> length bs = k" "f n = Some bs \<Longrightarrow> length bs = k \<and> k \<le> n"
proof -
  have f: "k + 2 \<le> n \<Longrightarrow> f n \<noteq> None" "f n = Some bs \<Longrightarrow> length bs = k \<and> k \<le> n" for bs
    using assms unfolding encodes_def by blast+
  then show "k + 2 \<le> n \<Longrightarrow> \<exists>bs. f n = Some bs \<and> length bs = k" by (cases "f n") simp_all
  show "f n = Some bs \<Longrightarrow> length bs = k \<and> k \<le> n" by (rule f(2))
qed

lemma addsD:
  assumes "adds d k f"
  shows "length body + k + d \<le> cap \<Longrightarrow> \<exists>bs. f cap body = Inr (body @ bs) \<and> length bs = k"
    "f cap body = Inr b \<Longrightarrow> length b = length body + k \<and> length b \<le> cap"
  using assms unfolding adds_def by blast+

lemma adds_put: "adds d 1 (put_byte b)"
  by (auto simp: adds_def put_byte_def split: if_splits)

lemma adds_enc: "encodes f k \<Longrightarrow> 0 < k \<Longrightarrow> adds 2 k (enc f)"
proof -
  assume f: "encodes f k" and k: "0 < k"
  have "\<exists>bs. enc f cap body = Inr (body @ bs) \<and> length bs = k" if "length body + k + 2 \<le> cap" for cap body
  proof -
    have "k + 2 \<le> cap - length body" using that by simp
    then obtain bs where "f (cap - length body) = Some bs" "length bs = k" using encodesD(1) [OF f] by blast
    then show ?thesis by (simp add: enc_def)
  qed
  moreover have "length b = length body + k \<and> length b \<le> cap" if e: "enc f cap body = Inr b" for cap body b
  proof -
    obtain bs where bs: "f (cap - length body) = Some bs" "b = body @ bs" using e by (auto simp: enc_def split: option.splits)
    then show ?thesis using encodesD(2) [OF f bs(1)] k by (simp, arith)
  qed
  ultimately show ?thesis unfolding adds_def by blast
qed

lemma adds_amf:
  assumes "amf_room lib"
  shows "length s < 65536 \<Longrightarrow> adds 2 (3 + length s) (enc (AMF_EncodeString lib s))" "adds 2 9 (enc (AMF_EncodeNumber lib x))"
    "adds 2 2 (enc (AMF_EncodeBoolean lib b))"
    "length name < 65536 \<Longrightarrow> length s < 65536 \<Longrightarrow> adds 2 (5 + length name + length s) (named_string lib name s)"
    "length name < 65536 \<Longrightarrow> adds 2 (11 + length name) (named_number lib name i)"
  using assms by (auto simp: amf_room_def named_string_def named_number_def intro!: adds_enc)

lemma encode_fits:
  "list_all2 (adds d) ks fs \<Longrightarrow> length body + sum_list ks + d \<le> cap \<Longrightarrow>
   \<exists>bs. efold (\<lambda>f. f cap) fs body = Inr (body @ bs) \<and> length bs = sum_list ks"
proof (induction arbitrary: body rule: list_all2_induct)
  case (Cons k ks f fs)
  then obtain bs where bs: "f cap body = Inr (body @ bs)" "length bs = k"
    using addsD(1) [OF Cons.hyps(1), of body cap] by auto
  with Cons.IH [of "body @ bs"] Cons.prems show ?case by auto
qed auto

lemma encode_needs:
  "list_all2 (adds d) ks fs \<Longrightarrow> efold (\<lambda>f. f cap) fs body = Inr b \<Longrightarrow> length body \<le> cap \<Longrightarrow>
   length b = length body + sum_list ks \<and> length b \<le> cap"
proof (induction arbitrary: body rule: list_all2_induct)
  case (Cons k ks f fs)
  then obtain b1 where b1: "f cap body = Inr b1" "efold (\<lambda>f. f cap) fs b1 = Inr b" by (auto simp: ebind_eq_Inr)
  then have "length b1 = length body + k" "length b1 \<le> cap" using addsD(2) [OF Cons.hyps(1) b1(1)] by auto
  with Cons.IH [OF b1(2)] show ?case by simp
qed auto

lemma efold_append: "efold f (xs @ ys) s = ebind (efold f xs s) (efold f ys)"
proof (induction xs arbitrary: s)
  case (Cons x xs)
  then show ?case by (cases "f x s") simp_all
qed simp

text \<open>A message that ends with an object: the three bytes of its end need no more room than they take.\<close>

lemma send_encoded_fits_iff:
  assumes "list_all2 (adds 2) ks fs" "2 \<le> pbuf - RTMP_MAX_HEADER_SIZE"
  shows "(\<exists>r'. send_encoded send pbuf (fs @ object_end) pkt r = Inr r') \<longleftrightarrow> sum_list ks + 3 \<le> pbuf - RTMP_MAX_HEADER_SIZE"
proof -
  let ?cap = "pbuf - RTMP_MAX_HEADER_SIZE"
  have oe: "list_all2 (adds 0) [1, 1, 1] object_end" by (simp add: object_end_def adds_put [simplified])
  have "(\<exists>b. encode ?cap (fs @ object_end) = Inr b) \<longleftrightarrow> sum_list ks + 3 \<le> ?cap"
  proof
    assume "\<exists>b. encode ?cap (fs @ object_end) = Inr b"
    then obtain b1 b where b: "efold (\<lambda>f. f ?cap) fs [] = Inr b1" "efold (\<lambda>f. f ?cap) object_end b1 = Inr b"
      by (auto simp: encode_def efold_append ebind_eq_Inr)
    have "length b1 = sum_list ks" "length b1 \<le> ?cap" using encode_needs [OF assms(1) b(1)] by simp_all
    with encode_needs [OF oe b(2)] show "sum_list ks + 3 \<le> ?cap" by simp
  next
    assume "sum_list ks + 3 \<le> ?cap"
    moreover from this obtain bs where "efold (\<lambda>f. f ?cap) fs [] = Inr bs" "length bs = sum_list ks"
      using encode_fits [OF assms(1), of "[]" ?cap] by auto
    ultimately show "\<exists>b. encode ?cap (fs @ object_end) = Inr b"
      using encode_fits [OF oe, of bs ?cap] by (auto simp: encode_def efold_append)
  qed
  then show ?thesis by (auto simp: send_encoded_def ebind_eq_Inr)
qed

lemma send_encoded_form: "send_encoded send pbuf fs pkt r = Inr r' \<Longrightarrow> \<exists>b. r' = send_on send (pkt b) r"
  by (auto simp: send_encoded_def ebind_eq_Inr)

lemma play_status_sizes:
  assumes "amf_room lib" "length (av_bytes path) < 65536" "length code < 65536" "length description < 65536"
  shows "\<exists>fs. play_status lib code description path = fs @ object_end \<and>
    list_all2 (adds 2) [16, 9 + length code, 16 + length description, 12 + length (av_bytes path), 21] fs"
  using adds_amf(4) [OF assms(1), of "''level''" "''status''"] adds_amf(4) [OF assms(1), of "''code''" code]
    adds_amf(4) [OF assms(1), of "''description''" description] adds_amf(4) [OF assms(1), of "''details''" "av_bytes path"]
    adds_amf(4) [OF assms(1), of "''clientid''" "''clientid''"] assms
  by (simp add: play_status_def)

lemma play_message_fits_iff:
  assumes "amf_room lib" "length (av_bytes path) < 65536" "length code < 65536" "length description < 65536" "list_all2 (adds 2) ks fs"
  shows "(\<exists>r'. send_encoded send 512 (fs @ play_status lib code description path) pkt r = Inr r') \<longleftrightarrow>
    sum_list ks + length code + length description + length (av_bytes path) \<le> 417"
proof -
  obtain gs where gs: "play_status lib code description path = gs @ object_end"
      "list_all2 (adds 2) [16, 9 + length code, 16 + length description, 12 + length (av_bytes path), 21] gs"
    using play_status_sizes [OF assms(1-4)] by blast
  have "(\<exists>r'. send_encoded send 512 ((fs @ gs) @ object_end) pkt r = Inr r') \<longleftrightarrow>
      sum_list (ks @ [16, 9 + length code, 16 + length description, 12 + length (av_bytes path), 21]) + 3 \<le> 512 - RTMP_MAX_HEADER_SIZE"
    by (rule send_encoded_fits_iff) (use assms(5) gs(2) in \<open>auto simp: RTMP_MAX_HEADER_SIZE_def intro: list_all2_appendI\<close>)
  then show ?thesis by (simp add: gs(1) RTMP_MAX_HEADER_SIZE_def add.assoc)
qed

text \<open>(C39) The play path has 360 bytes. With encoders that use the sizes of AMF0, the message that starts a playback is sent when the
  path in the request has at most 360 bytes; a longer path, which the client chooses, makes the server write to a null pointer or
  behind the buffer on its stack.\<close>

theorem SendPlayStart_path_limit:
  assumes "amf_room lib" "length (av_bytes (playpath r)) < 65536"
  shows "(\<exists>r'. SendPlayStart lib send r = Inr r') \<longleftrightarrow> length (av_bytes (playpath r)) \<le> 360"
proof -
  have "list_all2 (adds 2) [11, 9, 1, 1] [enc (AMF_EncodeString lib ''onStatus''), enc (AMF_EncodeNumber lib (Fin 0)), put_byte AMF_NULL, put_byte AMF_OBJECT]"
    using adds_amf(1) [OF assms(1), of "''onStatus''"] adds_amf(2) [OF assms(1)] adds_put by simp
  from play_message_fits_iff [OF assms _ _ this, of "''NetStream.Play.Start''" "''Started playing''"] show ?thesis
    unfolding SendPlayStart_def by simp
qed

text \<open>An instance of the library with the sizes of AMF0.\<close>

definition sized :: "nat \<Rightarrow> nat \<Rightarrow> byte list option" where
  "sized k n = (if k \<le> n then Some (replicate k 0) else None)"

definition sample_lib :: amf_lib where
  "sample_lib = \<lparr>AMF_Decode = \<lambda>_. None, AMFProp_GetString = \<lambda>_. av_null, AMFProp_GetNumber = \<lambda>_. Fin 0, AMFProp_GetObject = \<lambda>_. [],
     AMF_EncodeString = \<lambda>s. sized (3 + length s), AMF_EncodeNumber = \<lambda>_. sized 9, AMF_EncodeBoolean = \<lambda>_. sized 2,
     AMF_EncodeNamedString = \<lambda>name s. sized (5 + length name + length s), AMF_EncodeNamedNumber = \<lambda>name _. sized (11 + length name),
     AMFProp_Encode = \<lambda>_. sized 31, lib_number = \<lambda>_. Fin 0\<rparr>"

lemma sample_lib_room: "amf_room sample_lib"
  by (simp add: amf_room_def sample_lib_def encodes_def sized_def)

definition long_path :: "unit rtmp" where
  "long_path = (fresh_rtmp ())\<lparr>playpath := literal (replicate 361 CHR ''x'')\<rparr>"

theorem SendPlayStart_path_limit_witness:
  "(\<nexists>r'. SendPlayStart sample_lib (\<lambda>r p. (r, 1)) long_path = Inr r') \<and>
   (\<exists>r'. SendPlayStart sample_lib (\<lambda>r p. (r, 1)) (long_path\<lparr>playpath := literal ''rec''\<rparr>) = Inr r')"
proof -
  have "av_bytes (playpath long_path) = replicate 361 CHR ''x''" "av_bytes (literal ''rec'') = ''rec''"
    by (simp_all add: long_path_def literal_def av_bytes_def)
  then show ?thesis
    using SendPlayStart_path_limit [OF sample_lib_room, of long_path "\<lambda>r p. (r, 1)"]
      SendPlayStart_path_limit [OF sample_lib_room, of "long_path\<lparr>playpath := literal ''rec''\<rparr>" "\<lambda>r p. (r, 1)"] by simp
qed

section \<open>Playing on request\<close>

function percent20 :: "string \<Rightarrow> string" where
  "percent20 s = (case s of [] \<Rightarrow> []
     | c # cs \<Rightarrow> if take 3 s = ''%20'' then CHR '' '' # percent20 (drop 3 s) else c # percent20 cs)"
  by pat_completeness auto
termination by (relation "measure length") auto

declare percent20.simps [simp del]

lemma play_path_percent20: "NUL \<notin> set p \<Longrightarrow> play_path (length p) (p @ NUL # rest) = Inr (percent20 p)"
proof (induction "length p" arbitrary: p rule: less_induct)
  case less
  show ?case
  proof (cases p)
    case Nil
    then show ?thesis by (subst play_path.simps, subst percent20.simps) simp
  next
    case (Cons c cs)
    have first: "\<not> (c = CHR ''%'' \<and> length (cs @ NUL # rest) < 2 \<and> take 1 (cs @ NUL # rest) \<in> {[], ''2''})"
      by (cases cs) (auto simp: NUL_def)
    have esc: "take 3 (p @ NUL # rest) = ''%20'' \<longleftrightarrow> take 3 p = ''%20''"
      using less.prems Cons by (cases cs; cases "tl cs") (auto simp: NUL_def take_Cons')
    show ?thesis
    proof (cases "take 3 p = ''%20''")
      case True
      have "3 \<le> length p" using arg_cong [OF True, of length] by simp
      moreover have "NUL \<notin> set (drop 3 p)" using less.prems in_set_dropD by fast
      ultimately show ?thesis using less.hyps [of "drop 3 p"] True Cons first esc
        by (subst play_path.simps, subst percent20.simps) auto
    next
      case False
      then show ?thesis using less.hyps [of cs] less.prems Cons first esc
        by (subst play_path.simps, subst percent20.simps) auto
    qed
  qed
qed

lemma send_encoded_fits:
  assumes "list_all2 (adds 2) ks fs" "sum_list ks + 2 \<le> pbuf - RTMP_MAX_HEADER_SIZE"
  shows "\<exists>b. send_encoded send pbuf fs pkt r = Inr (send_on send (pkt b) r)"
  using encode_fits [OF assms(1), of "[]" "pbuf - RTMP_MAX_HEADER_SIZE"] assms(2) by (auto simp: send_encoded_def encode_def)

lemma SendSampleAccess_sends:
  assumes "amf_room lib"
  shows "\<exists>b. SendSampleAccess lib send r = Inr (send_on send (packet 0x05 RTMP_PACKET_SIZE_LARGE RTMP_PACKET_TYPE_INFO 1 b) r)"
  unfolding SendSampleAccess_def
  by (rule send_encoded_fits [where ks = "[20, 2, 2]"])
    (use adds_amf(1) [OF assms, of "''|RtmpSampleAccess''"] adds_amf(3) [OF assms] in \<open>simp_all add: RTMP_MAX_HEADER_SIZE_def\<close>)

lemma SendMetaData_sends:
  assumes "amf_room lib"
  shows "\<exists>b. SendMetaData lib send r = Inr (send_on send (packet 0x05 RTMP_PACKET_SIZE_LARGE RTMP_PACKET_TYPE_INFO 1 b) r)"
  unfolding SendMetaData_def
  by (rule send_encoded_fits [where ks = "[13, 1, 23, 16, 17, 23, 24, 19, 20, 14, 24, 23, 24, 24, 12, 10, 1, 1, 1]"])
    (use adds_amf(1) [OF assms, of "''OnMetaData''"] adds_amf(4) [OF assms, of "''Server''" "''teamway rtmp''"]
      adds_amf(4) [OF assms, of "''profile''" "[]"] adds_amf(4) [OF assms, of "''level''" "[]"]
      adds_amf(5) [OF assms, of "''width''"] adds_amf(5) [OF assms, of "''height''"] adds_amf(5) [OF assms, of "''displaywidth''"]
      adds_amf(5) [OF assms, of "''displayheight''"] adds_amf(5) [OF assms, of "''duration''"] adds_amf(5) [OF assms, of "''framerate''"]
      adds_amf(5) [OF assms, of "''fps''"] adds_amf(5) [OF assms, of "''videodatarate''"] adds_amf(5) [OF assms, of "''videocodecid''"]
      adds_amf(5) [OF assms, of "''audiodatarate''"] adds_put in \<open>simp_all add: RTMP_MAX_HEADER_SIZE_def object_end_def\<close>)

lemma play_messages_sent:
  assumes "amf_room lib" "length (av_bytes (playpath r)) \<le> 360"
  shows "\<exists>b. SendPlayStart lib send r = Inr (send_on send (packet 0x05 RTMP_PACKET_SIZE_LARGE RTMP_PACKET_TYPE_INVOKE 1 b) r)"
    "\<exists>b. SendPlayStop lib send r = Inr (send_on send (packet 0x03 1 RTMP_PACKET_TYPE_INVOKE 0 b) r)"
proof -
  have len: "length (av_bytes (playpath r)) < 65536" using assms(2) by simp
  have a: "list_all2 (adds 2) [11, 9, 1, 1] [enc (AMF_EncodeString lib ''onStatus''), enc (AMF_EncodeNumber lib (Fin 0)), put_byte AMF_NULL, put_byte AMF_OBJECT]"
    "list_all2 (adds 2) [11, 9, 1] [enc (AMF_EncodeString lib ''onStatus''), enc (AMF_EncodeNumber lib (Fin 0)), put_byte AMF_OBJECT]"
    using adds_amf(1) [OF assms(1), of "''onStatus''"] adds_amf(2) [OF assms(1)] adds_put by simp_all
  have "\<exists>r'. SendPlayStart lib send r = Inr r'" "\<exists>r'. SendPlayStop lib send r = Inr r'"
    using play_message_fits_iff [OF assms(1) len _ _ a(1), of "''NetStream.Play.Start''" "''Started playing''"]
      play_message_fits_iff [OF assms(1) len _ _ a(2), of "''NetStream.Play.Stop''" "''Stopped playing''"] assms(2)
    unfolding SendPlayStart_def SendPlayStop_def by simp_all
  then show "\<exists>b. SendPlayStart lib send r = Inr (send_on send (packet 0x05 RTMP_PACKET_SIZE_LARGE RTMP_PACKET_TYPE_INVOKE 1 b) r)"
    "\<exists>b. SendPlayStop lib send r = Inr (send_on send (packet 0x03 1 RTMP_PACKET_TYPE_INVOKE 0 b) r)"
    unfolding SendPlayStart_def SendPlayStop_def by (auto dest: send_encoded_form)
qed

lemma send_on_simps [simp]: "conn (send_on send p r) = fst (send (conn r) p)" "playpath (send_on send p r) = playpath r"
  "app (send_on send p r) = app r"
  by (simp_all add: send_on_def)

definition c_text :: "AVal \<Rightarrow> string \<Rightarrow> bool" where
  "c_text a s \<longleftrightarrow> NUL \<notin> set s \<and> av_len a = int (length s) \<and> (\<exists>rest. av_val a = Some (s @ NUL # rest))"

text \<open>(C35) A request to play a file plays it. When the application and the path of a request are texts, the path of 1 to 360 bytes,
  and the file of that name under the store path (each \<open>%20\<close> of the path a blank) holds a recording as the writer left it, a working
  connection gets: the begin of the stream, the start message, the access message, the description, the
  packets of the recording from the first complete key frame on, the end of the stream and the stop
  message, in this order, and the session ends.\<close>

theorem play_serves_recording:
  assumes "amf_room (sn_lib env)" "c_text (app r) a" "c_text (AMFProp_GetString (sn_lib env) (AMF_GetProp obj 3)) p" "p \<noteq> []" "length p \<le> 360"
    and "plays (pl_files (sn_play env)) (sn_storePath env @ a @ ''/'' @ percent20 p) fs" "frames_of uss (short_enough fs)"
    and "good_link (sn_play env)" "pl_malloc (sn_play env) = (True, True)" "0 \<le> pl_undef (sn_play env)" "\<not> is_get_first_key_frame v"
  shows "\<exists>r' v' start access description stop. invoke_play env obj (server, r, v) = Inr ((server\<lparr>connect_body := None\<rparr>, r', v'), 1) \<and>
    conn r' = send_all (sn_play env) (sn_ctrl env (send_all (sn_play env) (conn r)
      ([packet 0x02 RTMP_PACKET_SIZE_LARGE RTMP_PACKET_TYPE_CONTROL 0 [0, 0, 0, 0, 0, 1],
        packet 0x05 RTMP_PACKET_SIZE_LARGE RTMP_PACKET_TYPE_INVOKE 1 start, packet 0x05 RTMP_PACKET_SIZE_LARGE RTMP_PACKET_TYPE_INFO 1 access,
        packet 0x05 RTMP_PACKET_SIZE_LARGE RTMP_PACKET_TYPE_INFO 1 description] @
       playback (zip (map (map snd) uss) (map ftime (short_enough fs))))))
      [packet 0x03 1 RTMP_PACKET_TYPE_INVOKE 0 stop]"
proof -
  let ?lib = "sn_lib env" and ?send = "pl_send (sn_play env)"
  let ?r0 = "r\<lparr>playpath := AMFProp_GetString ?lib (AMF_GetProp obj 3)\<rparr>"
  obtain ra rp where texts: "av_val (app r) = Some (a @ NUL # ra)" "NUL \<notin> set a" "av_val (playpath ?r0) = Some (p @ NUL # rp)" "NUL \<notin> set p"
      "av_len (playpath ?r0) = int (length p)"
    using assms(2,3) by (auto simp: c_text_def)
  then have path: "av_bytes (playpath ?r0) = p" by (simp add: av_bytes_def)
  have "length (av_bytes (playpath (SendStreamBegin ?send ?r0))) \<le> 360" using path assms(5) by (simp add: SendStreamBegin_def)
  from play_messages_sent(1) [OF assms(1) this] obtain start where
    r1: "SendPlayStart ?lib ?send (SendStreamBegin ?send ?r0) =
      Inr (send_on ?send (packet 0x05 RTMP_PACKET_SIZE_LARGE RTMP_PACKET_TYPE_INVOKE 1 start) (SendStreamBegin ?send ?r0))" (is "_ = Inr ?r1") by blast
  obtain access where r2: "SendSampleAccess ?lib ?send ?r1 = Inr (send_on ?send (packet 0x05 RTMP_PACKET_SIZE_LARGE RTMP_PACKET_TYPE_INFO 1 access) ?r1)"
      (is "_ = Inr ?r2") using SendSampleAccess_sends [OF assms(1)] by blast
  obtain description where r3: "SendMetaData ?lib ?send ?r2 = Inr (send_on ?send (packet 0x05 RTMP_PACKET_SIZE_LARGE RTMP_PACKET_TYPE_INFO 1 description) ?r2)"
      (is "_ = Inr ?r3") using SendMetaData_sends [OF assms(1)] by blast
  obtain v' where v': "StartPlaybackStoreFile (sn_play env) (sn_storePath env @ a @ ''/'' @ percent20 p) (v, conn ?r3) =
      Inr (v', send_all (sn_play env) (conn ?r3) (playback (zip (map (map snd) uss) (map ftime (short_enough fs)))))" (is "_ = Inr (v', ?c)")
    using StartPlayback_sends [OF assms(6-11)] by blast
  have "length (av_bytes (playpath (?r3\<lparr>conn := sn_ctrl env ?c\<rparr>))) \<le> 360" using path assms(5) by (simp add: SendStreamBegin_def)
  from play_messages_sent(2) [OF assms(1) this] obtain stop where
    r4: "SendPlayStop ?lib ?send (?r3\<lparr>conn := sn_ctrl env ?c\<rparr>) =
      Inr (send_on ?send (packet 0x03 1 RTMP_PACKET_TYPE_INVOKE 0 stop) (?r3\<lparr>conn := sn_ctrl env ?c\<rparr>))" by blast
  have "invoke_play env obj (server, r, v) =
      Inr ((server\<lparr>connect_body := None\<rparr>, send_on ?send (packet 0x03 1 RTMP_PACKET_TYPE_INVOKE 0 stop) (?r3\<lparr>conn := sn_ctrl env ?c\<rparr>), v'), 1)"
    unfolding invoke_play_def prod.case Let_def using texts assms(4) r1 r2 r3 r4 v'
    by (simp add: c_string_NUL play_path_percent20)
  moreover have "conn ?r3 = send_all (sn_play env) (conn r)
      [packet 0x02 RTMP_PACKET_SIZE_LARGE RTMP_PACKET_TYPE_CONTROL 0 [0, 0, 0, 0, 0, 1],
       packet 0x05 RTMP_PACKET_SIZE_LARGE RTMP_PACKET_TYPE_INVOKE 1 start, packet 0x05 RTMP_PACKET_SIZE_LARGE RTMP_PACKET_TYPE_INFO 1 access,
       packet 0x05 RTMP_PACKET_SIZE_LARGE RTMP_PACKET_TYPE_INFO 1 description]"
    by (simp add: send_all_def SendStreamBegin_def)
  ultimately show ?thesis by (fastforce simp: send_all_def)
qed

definition sample_play_lib :: amf_lib where
  "sample_play_lib = sample_lib\<lparr>AMFProp_GetString := \<lambda>_. literal ''a%20b''\<rparr>"

definition sample_serve_env :: "(string \<rightharpoonup> file_image) \<Rightarrow> RTMPPacket list serve_env" where
  "sample_serve_env files = \<lparr>sn_lib = sample_play_lib, sn_play = log_env files, sn_ctrl = \<lambda>c. c, sn_close = \<lambda>c. c, sn_storePath = ''/mnt/''\<rparr>"

definition sample_server :: STREAMING_SERVER where
  "sample_server = \<lparr>socket = 3, state = STREAMING_IN_PROGRESS, streamID = 1, arglen = 0, argc = 0, connect_body = None\<rparr>"

lemma c_text_literal: "NUL \<notin> set s \<Longrightarrow> c_text (literal s) s"
  by (simp add: c_text_def literal_def NUL_def)

theorem play_serves_recording_witness:
  "\<exists>files r' v' start access description stop. plays files ''/mnt/1-1/a b'' (map request_frame sample_requests) \<and>
     invoke_play (sample_serve_env files) [] (sample_server, (fresh_rtmp [])\<lparr>app := literal ''1-1''\<rparr>, initial_video) =
       Inr ((sample_server, r', v'), 1) \<and>
     conn r' = [packet 0x02 RTMP_PACKET_SIZE_LARGE RTMP_PACKET_TYPE_CONTROL 0 [0, 0, 0, 0, 0, 1],
        packet 0x05 RTMP_PACKET_SIZE_LARGE RTMP_PACKET_TYPE_INVOKE 1 start, packet 0x05 RTMP_PACKET_SIZE_LARGE RTMP_PACKET_TYPE_INFO 1 access,
        packet 0x05 RTMP_PACKET_SIZE_LARGE RTMP_PACKET_TYPE_INFO 1 description,
        video_packet RTMP_PACKET_SIZE_LARGE 0 (config_body [0x67, 0x64, 0, 0x1f] [0x68, 0xee]),
        video_packet RTMP_PACKET_SIZE_MEDIUM 0 (data_body [[0x67, 0x64, 0, 0x1f], [0x68, 0xee], [0x65, 0x88]]),
        video_packet RTMP_PACKET_SIZE_MEDIUM 0 (data_body [[0x41, 0x9a, 7]]),
        packet 0x03 1 RTMP_PACKET_TYPE_INVOKE 0 stop]"
proof -
  obtain c where "file_repr c (map request_frame sample_requests)" using recorded_file sample_units_fit by blast
  then have p: "plays [''/mnt/1-1/a b'' \<mapsto> (c, STORE_BUF_MAX_SIZE)] ''/mnt/1-1/a b'' (map request_frame sample_requests)"
    by (intro playsI) simp_all
  let ?env = "sample_serve_env [''/mnt/1-1/a b'' \<mapsto> (c, STORE_BUF_MAX_SIZE)]"
  have "percent20 ''a%20b'' = ''a b''" by code_simp
  then have path: "plays (pl_files (sn_play ?env)) (sn_storePath ?env @ ''1-1'' @ ''/'' @ percent20 ''a%20b'') (map request_frame sample_requests)"
    using p by (simp add: sample_serve_env_def log_env_def)
  have texts: "c_text (app ((fresh_rtmp [])\<lparr>app := literal ''1-1''\<rparr>)) ''1-1''" "c_text (AMFProp_GetString (sn_lib ?env) (AMF_GetProp [] 3)) ''a%20b''"
    using c_text_literal [of "''1-1''"] c_text_literal [of "''a%20b''"] by (simp_all add: sample_serve_env_def sample_play_lib_def NUL_def)
  have env: "amf_room (sn_lib ?env)" "good_link (sn_play ?env)" "pl_malloc (sn_play ?env) = (True, True)" "0 \<le> pl_undef (sn_play ?env)"
      "\<not> is_get_first_key_frame initial_video" "sn_ctrl ?env = (\<lambda>c. c)" "sn_play ?env = log_env [''/mnt/1-1/a b'' \<mapsto> (c, STORE_BUF_MAX_SIZE)]"
    using sample_lib_room by (simp_all add: sample_serve_env_def sample_play_lib_def log_env_def good_link_def initial_video_def amf_room_def)
  have "sample_server\<lparr>connect_body := None\<rparr> = sample_server" "conn ((fresh_rtmp [])\<lparr>app := literal ''1-1''\<rparr>) = []"
    by (simp_all add: sample_server_def fresh_rtmp_def)
  then show ?thesis
    using play_serves_recording [OF env(1) texts _ _ path sample_frames_of env(2-5), of sample_server, unfolded env(6,7) send_log sample_short sample_playback] p
    by (simp only: append_Nil append_Cons list.simps(3) not_False_eq_True) fastforce
qed

section \<open>Handing a connection over\<close>

text \<open>A connection reaches the process that serves it. While the server accepts, the descriptor of every connection is
  printed for a new process, whose \<open>main\<close> reads the same number back, in the order of the connections; failed calls of
  \<open>accept\<close> start no process.\<close>

theorem connection_handed_over:
  assumes "list_all (\<lambda>(st, sockfd). st = STREAMING_ACCEPTING \<and> sockfd < 2 ^ 31) turns"
  shows "map (\<lambda>arg. rtmp_server_main True [cmd, arg]) (fst (serverThread turns [])) = map Some (filter (\<lambda>fd. 0 < fd) (map snd turns))"
proof -
  have "rtmp_server_main True [cmd, snprintf 32 (fmt_d fd)] = Some fd" if "0 < fd" "fd < 2 ^ 31" for fd
    using that atoi_fmt_d [of fd] length_fmt_d [of fd] by (simp add: rtmp_server_main_def snprintf_def)
  then have "map (\<lambda>arg. rtmp_server_main True [cmd, arg]) (fst (serverThread turns started)) =
      map (\<lambda>arg. rtmp_server_main True [cmd, arg]) started @ map Some (filter (\<lambda>fd. 0 < fd) (map snd turns))" for started
    using assms by (induction turns arbitrary: started) auto
  then show ?thesis by simp
qed

theorem connection_handed_over_witness:
  "map (\<lambda>arg. rtmp_server_main True [''./rtmp-server'', arg])
     (fst (serverThread [(STREAMING_ACCEPTING, 7), (STREAMING_ACCEPTING, -1), (STREAMING_ACCEPTING, 12)] [])) = [Some 7, Some 12]"
  using connection_handed_over [of "[(STREAMING_ACCEPTING, 7), (STREAMING_ACCEPTING, -1), (STREAMING_ACCEPTING, 12)]" "''./rtmp-server''"] by simp

section \<open>Faults a client can cause\<close>

text \<open>Playing before \<open>connect\<close> appends a null pointer to the path.\<close>

lemma play_before_connect:
  "av_val (app r) = None \<Longrightarrow> av_len (AMFProp_GetString (sn_lib env) (AMF_GetProp obj 3)) \<noteq> 0 \<Longrightarrow>
   invoke_play env obj (server, r, v) = Inl NullDeref"
  by (simp add: invoke_play_def Let_def)

text \<open>A path that ends inside \<open>%20\<close>, with the rest of it in the memory behind, moves the pointer past the end.\<close>

lemma split_escape_overruns: "play_path 3 (''a%20'' @ rest) = Inl OutOfBounds" "play_path 2 (''a%20'' @ rest) = Inl OutOfBounds"
  by (simp_all add: play_path.simps)

text \<open>A token without a quote is not copied, and the end of the session frees a pointer into a packet.\<close>

lemma plain_token_freed:
  assumes "AMFProp_GetString (sn_lib env) (AMF_GetProp obj 3) = token" "c_text token s" "CHR 0x22 \<notin> set s"
  shows "\<exists>server' r'. invoke_token env obj (server, r, v) = Inr (server', r', v) \<and> av_val (usherToken r') \<noteq> None \<and> \<not> usher_owned r'"
proof -
  obtain rest where s: "NUL \<notin> set s" "av_len token = int (length s)" "av_val token = Some (s @ NUL # rest)"
    using assms(2) by (auto simp: c_text_def)
  have "strstr s [CHR 0x22] = None" using assms(3) by (induction s) (auto simp: is_prefix_def)
  then have "AVreplace token [CHR 0x22] [CHR 0x5C, CHR 0x22] = Inr None"
    using count_orig_eq [of "[CHR 0x22]" 0 s] strstr_none [of "[CHR 0x22]" s] s by (simp add: AVreplace_def c_string_NUL)
  with s show ?thesis by (simp add: invoke_token_def assms(1) Let_def)
qed

end
