(* ===== verification/Supervision.thy ===== *)
theory Supervision
  imports CommonCorrect
begin

text \<open>
  The processes around the service. \<open>src/daemon/daemon.cpp\<close> restarts the service when the process named in its pid file is gone;
  \<open>src/src/backup-service-main.cpp\<close> writes that file for the backup service, as \<open>main.cpp\<close> does for the store service;
  \<open>src/src/log.cpp\<close> holds the log both write to. Files are a map from paths to their bytes; the outputs of commands and the
  results of system calls are arguments.
\<close>

section \<open>The pid file\<close>

type_synonym files = "string \<rightharpoonup> string"

text \<open>\<open>main.cpp\<close> and \<open>backup-service-main.cpp\<close> have the same three functions, for different files.\<close>

definition UpdataPidFile :: "string \<Rightarrow> bool \<Rightarrow> int \<Rightarrow> files \<Rightarrow> files \<times> int" where
  "UpdataPidFile pid_path opened pid fs =
     (let fs1 = fs(pid_path := None)
      in if opened then (fs1(pid_path \<mapsto> snprintf 128 (fmt_d pid)), 0) else (fs1, -1))"

definition RemovePidFile :: "string \<Rightarrow> files \<Rightarrow> files" where
  "RemovePidFile pid_path fs = fs(pid_path := None)"

text \<open>\<open>main\<close> of the backup service: the files at its end and the value it returns. \<open>running\<close> is what the loop on
  \<open>sys_flag\<close> contributes: nothing but time.\<close>

definition backup_main :: "string \<Rightarrow> bool \<Rightarrow> int \<Rightarrow> int \<Rightarrow> int \<Rightarrow> files \<Rightarrow> files \<times> int" where
  "backup_main pid_path opened pid load_info start_server fs =
     (case UpdataPidFile pid_path opened pid fs of (fs1, r) \<Rightarrow>
       (RemovePidFile pid_path fs1, if r < 0 \<or> load_info < 0 \<or> start_server < 0 then -1 else 0))"

text \<open>\<open>SignalHdl\<close> of the service and of the backup service: the message, the files and the exit status.\<close>

definition SignalHdl :: "string \<Rightarrow> int \<Rightarrow> files \<Rightarrow> files \<times> string \<times> int" where
  "SignalHdl pid_path sig fs = (RemovePidFile pid_path fs, snprintf 128 (''signal = '' @ fmt_d sig @ [CHR 0x0A]), 1)"

section \<open>The daemon\<close>

text \<open>\<open>ReadPid\<close> on the bytes of the file, \<open>None\<close> when it cannot be opened: the buffer has 256 bytes.\<close>

definition ReadPid :: "string option \<Rightarrow> int res" where
  "ReadPid file =
     (case file of
        None \<Rightarrow> Inr (-1)
      | Some bytes \<Rightarrow>
          if bytes = [] then Inr (-1)
          else if 256 \<le> length bytes then Inl OutOfBounds
          else Inr (atoi (takeWhile (\<lambda>c. c \<noteq> NUL) bytes)))"

text \<open>\<open>ExtraPid\<close>: the numbers on the lines of a C string, and the value returned; a last line without line feed is dropped.\<close>

fun ExtraPid_loop :: "nat \<Rightarrow> string \<Rightarrow> int list \<Rightarrow> string \<Rightarrow> (int list \<times> int) res" where
  "ExtraPid_loop pid_size buf pids [] = Inr (pids, int (length pids))"
| "ExtraPid_loop pid_size buf pids (c # cs) =
     (if 256 \<le> length buf then Inl OutOfBounds
      else if c \<noteq> CHR 0x0A then ExtraPid_loop pid_size (buf @ [c]) pids cs
      else (let pids' = pids @ [atoi buf]
        in if pid_size \<le> length pids' then Inr (pids', -1) else ExtraPid_loop pid_size [] pids' cs))"

definition ExtraPid :: "string \<Rightarrow> nat \<Rightarrow> (int list \<times> int) res" where
  "ExtraPid pids_str pid_size = ExtraPid_loop pid_size [] [] pids_str"

text \<open>The search for the pid: the index at which the loop ends.\<close>

fun find_pid :: "int \<Rightarrow> int list \<Rightarrow> int \<Rightarrow> int \<Rightarrow> int" where
  "find_pid pid [] i extra_size = i"
| "find_pid pid (p # ps) i extra_size = (if \<not> i < extra_size then i else if p = pid then i else find_pid pid ps (i + 1) extra_size)"

text \<open>
  One turn of the loop of \<open>main\<close>: whether the service is started. \<open>exists\<close> is \<open>access\<close> on the pid file, \<open>ps\<close> what the
  command that lists the processes prints for a pid, \<open>None\<close> when \<open>popen\<close> fails: its null result is read from all the same.
  The NUL is written behind what was read into 256 bytes.
\<close>

definition daemon_turn :: "bool \<Rightarrow> string option \<Rightarrow> (int \<Rightarrow> string option) \<Rightarrow> bool res" where
  "daemon_turn exists file ps =
     (if \<not> exists then Inr True
      else ebind (ReadPid file) (\<lambda>pid.
        if pid < 0 then Inr True
        else (case ps pid of
            None \<Rightarrow> Inl NullDeref
          | Some printed \<Rightarrow>
              (let result_buf = take 256 printed
               in if result_buf = [] then Inr True
                  else if length result_buf = 256 then Inl OutOfBounds
                  else ebind (ExtraPid (takeWhile (\<lambda>c. c \<noteq> NUL) result_buf) 128) (\<lambda>(pids, extra_size).
                    Inr (find_pid pid pids 0 extra_size = extra_size))))))"

definition run_cmd :: "string \<Rightarrow> string \<Rightarrow> string" where
  "run_cmd process_path process_name = snprintf 256 (process_path @ ''/'' @ process_name @ ''&'')"

section \<open>The log\<close>

record log_state =
  f_log :: bool
  file_log_path :: string
  is_f_log_in_used :: bool
  log_text :: string

definition PrintfRefef :: "string \<Rightarrow> bool \<Rightarrow> log_state \<Rightarrow> (log_state \<times> int) res" where
  "PrintfRefef log_path opened s =
     (if 256 \<le> length log_path then Inl OutOfBounds
      else Inr (s\<lparr>file_log_path := log_path, f_log := opened\<rparr>, if opened then 0 else -1))"

definition max_log_size :: nat where "max_log_size = 10 * 1024 * 1024"

text \<open>A turn of \<open>MoniterLogFile\<close>: the result of \<open>stat\<close>. When it fails the turn ends with the flag set.\<close>

definition MoniterLogFile_turn :: "bool \<Rightarrow> log_state \<Rightarrow> log_state" where
  "MoniterLogFile_turn found s =
     (if \<not> found then s\<lparr>is_f_log_in_used := True\<rparr>
      else s\<lparr>is_f_log_in_used := False, log_text := (if max_log_size \<le> length (log_text s) then [] else log_text s)\<rparr>)"

text \<open>\<open>myprintf\<close> waits for the flag; \<open>turns\<close> are the results of \<open>stat\<close> in the turns of the monitor that follow.\<close>

fun myprintf :: "bool list \<Rightarrow> string \<Rightarrow> log_state \<Rightarrow> (log_state \<times> int) res" where
  "myprintf turns line s =
     (if \<not> f_log s then Inr (s, -1)
      else if \<not> is_f_log_in_used s then Inr (s\<lparr>log_text := log_text s @ line\<rparr>, 0)
      else (case turns of [] \<Rightarrow> Inl NoReturn | found # rest \<Rightarrow> myprintf rest line (MoniterLogFile_turn found s)))"

declare myprintf.simps [simp del]

text \<open>\<open>PrintToLog\<close> formats into a local array, which it drops.\<close>

definition PrintToLog :: "string \<Rightarrow> log_state \<Rightarrow> log_state \<times> int" where
  "PrintToLog line s = (let buf = snprintf 1024 line in (s, 0))"

text \<open>\<open>ThreadCreate\<close>: what \<open>pthread_create\<close> returns and leaves in \<open>id\<close>; that id and the message that is logged.\<close>

definition ThreadCreate :: "int \<Rightarrow> nat \<Rightarrow> nat \<times> string" where
  "ThreadCreate ret tid =
     (tid, if ret \<noteq> 0 then ''ThreadCreate, pthread_create failed with '' @ fmt_d ret @ [CHR 0x0A] else [])"

section \<open>Restarting\<close>

definition ps_lines :: "int list \<Rightarrow> string" where
  "ps_lines ps = concat (map (\<lambda>p. fmt_d p @ [CHR 0x0A]) ps)"

definition pid_ok :: "int \<Rightarrow> bool" where
  "pid_ok p \<longleftrightarrow> 0 < p \<and> p < 2 ^ 31"

lemma fmt_d_digits: "pid_ok p \<Longrightarrow> list_all is_digit (fmt_d p)"
  using dec_digits by (simp add: pid_ok_def fmt_d_def)

lemma digit_not_special: "is_digit c \<Longrightarrow> c \<noteq> CHR 0x0A \<and> c \<noteq> NUL"
  by (auto simp: is_digit_def code_of_def NUL_def)

lemma ExtraPid_loop_line:
  "list_all (\<lambda>c. c \<noteq> CHR 0x0A) ds \<Longrightarrow> length buf + length ds < 256 \<Longrightarrow>
   ExtraPid_loop n buf pids (ds @ CHR 0x0A # cs) =
     (let pids' = pids @ [atoi (buf @ ds)] in if n \<le> length pids' then Inr (pids', -1) else ExtraPid_loop n [] pids' cs)"
proof (induction ds arbitrary: buf)
  case (Cons d ds)
  then show ?case using Cons.IH [of "buf @ [d]"] by simp
qed simp

lemma ExtraPid_loop_lines:
  "list_all pid_ok ps \<Longrightarrow> length pids + length ps < n \<Longrightarrow> ExtraPid_loop n [] pids (ps_lines ps) = Inr (pids @ ps, int (length (pids @ ps)))"
proof (induction ps arbitrary: pids)
  case Nil
  then show ?case by (simp add: ps_lines_def)
next
  case (Cons p ps)
  then have p: "pid_ok p" by simp
  have "list_all (\<lambda>c. c \<noteq> CHR 0x0A) (fmt_d p)" using fmt_d_digits [OF p] digit_not_special by (auto simp: list_all_iff)
  moreover have "length (fmt_d p) \<le> 10" "atoi (fmt_d p) = p" using p length_fmt_d atoi_fmt_d by (simp_all add: pid_ok_def)
  ultimately show ?case
    using Cons.IH [of "pids @ [p]"] Cons.prems ExtraPid_loop_line [of "fmt_d p" "[]" n pids "ps_lines ps"] by (simp add: ps_lines_def)
qed

lemma find_pid_eq: "find_pid pid ps i (i + int (length ps)) = i + int (length (takeWhile (\<lambda>p. p \<noteq> pid) ps))"
proof (induction ps arbitrary: i)
  case (Cons p ps)
  then show ?case using Cons.IH [of "i + 1"] by (simp add: algebra_simps)
qed simp

lemma ps_lines_length: "length ps * 2 \<le> length (ps_lines ps)"
proof (induction ps)
  case (Cons p ps)
  have "0 < length (fmt_d p)" using dec_nonempty by (simp add: fmt_d_def)
  then show ?case using Cons by (simp add: ps_lines_def del: length_greater_0_conv)
qed simp

lemma ps_lines_no_NUL: "list_all pid_ok ps \<Longrightarrow> NUL \<notin> set (ps_lines ps)"
proof (induction ps)
  case (Cons p ps)
  then have "NUL \<notin> set (fmt_d p)" using fmt_d_digits [of p] digit_not_special by (auto simp: list_all_iff)
  with Cons show ?case by (auto simp: ps_lines_def NUL_def)
qed (simp add: ps_lines_def)

lemma length_takeWhile_all: "length (takeWhile (\<lambda>p. p \<noteq> x) xs) = length xs \<longleftrightarrow> x \<notin> set xs"
  using takeWhile_eq_take [of "\<lambda>p. p \<noteq> x" xs] by (metis (mono_tags, lifting) order_refl take_all takeWhile_eq_all_conv)

text \<open>(C40) The daemon restarts what is gone. When the pid file holds the pid the service wrote and the command prints the pids of
  some processes on lines of less than 256 bytes in all, a turn of the daemon starts the service exactly when its pid is not among
  them; without a pid file it starts it.\<close>

theorem daemon_restarts_iff_gone:
  assumes "pid_ok pid" "UpdataPidFile path True pid fs = (fs', ret)" "ps pid = Some (ps_lines procs)" "list_all pid_ok procs" "length (ps_lines procs) < 256"
  shows "daemon_turn True (fs' path) ps = Inr (pid \<notin> set procs) \<and> daemon_turn False (fs' path) ps = Inr True"
proof -
  have len: "length (fmt_d pid) \<le> 10" "atoi (fmt_d pid) = pid" using assms(1) length_fmt_d atoi_fmt_d by (simp_all add: pid_ok_def)
  have digits: "fmt_d pid \<noteq> []" "takeWhile (\<lambda>c. c \<noteq> NUL) (fmt_d pid) = fmt_d pid"
    using fmt_d_digits [OF assms(1)] digit_not_special dec_nonempty by (auto simp: takeWhile_eq_all_conv list_all_iff fmt_d_def)
  have pid_file: "fs' path = Some (fmt_d pid)" using assms(2) len(1) by (auto simp: UpdataPidFile_def Let_def snprintf_def)
  have read: "ReadPid (fs' path) = Inr pid"
    unfolding ReadPid_def pid_file option.case digits(2) using digits(1) len by simp
  have tw: "takeWhile (\<lambda>c. c \<noteq> NUL) (ps_lines procs) = ps_lines procs"
    using ps_lines_no_NUL [OF assms(4)] by (auto simp: takeWhile_eq_all_conv)
  have ex: "ExtraPid (takeWhile (\<lambda>c. c \<noteq> NUL) (ps_lines procs)) 128 = Inr (procs, int (length procs))"
    unfolding tw using ExtraPid_loop_lines [OF assms(4), of "[]" 128] ps_lines_length [of procs] assms(5) by (simp add: ExtraPid_def)
  have "length (takeWhile (\<lambda>p. p \<noteq> pid) procs) = length procs \<longleftrightarrow> pid \<notin> set procs"
    using length_takeWhile_all [of pid procs] .
  moreover have "ps_lines procs = [] \<longleftrightarrow> procs = []" by (cases procs) (simp_all add: ps_lines_def)
  ultimately show ?thesis
    using find_pid_eq [of pid procs 0] read ex assms(1,3,5)
    by (auto simp: daemon_turn_def pid_ok_def Let_def)
qed

theorem daemon_restarts_iff_gone_witness:
  "daemon_turn True (fst (UpdataPidFile ''p'' True 42 Map.empty) ''p'') (\<lambda>_. Some (ps_lines [421, 42, 1742])) = Inr False \<and>
   daemon_turn True (fst (UpdataPidFile ''p'' True 42 Map.empty) ''p'') (\<lambda>_. Some (ps_lines [421, 1742])) = Inr True"
proof -
  have l: "length (ps_lines [421, 42, 1742]) < 256" "length (ps_lines [421, 1742]) < 256" by code_simp+
  note turn = daemon_restarts_iff_gone [of 42 "''p''" Map.empty "fst (UpdataPidFile ''p'' True 42 Map.empty)" "snd (UpdataPidFile ''p'' True 42 Map.empty)"]
  show ?thesis
    using turn [of "\<lambda>_. Some (ps_lines [421, 42, 1742])" "[421, 42, 1742]"] turn [of "\<lambda>_. Some (ps_lines [421, 1742])" "[421, 1742]"] l
    by (simp add: pid_ok_def)
qed

section \<open>The log of a deleted file\<close>

text \<open>Once \<open>stat\<close> fails, no line is written and no caller returns until it succeeds again.\<close>

lemma deleted_log_blocks:
  "f_log s \<Longrightarrow> list_all (\<lambda>found. \<not> found) turns \<Longrightarrow> myprintf turns line (MoniterLogFile_turn False s) = Inl NoReturn"
proof (induction turns arbitrary: s)
  case Nil
  then show ?case by (simp add: myprintf.simps MoniterLogFile_turn_def)
next
  case (Cons t ts)
  then show ?case using Cons.IH [of "MoniterLogFile_turn False s"] by (subst myprintf.simps) (simp add: MoniterLogFile_turn_def)
qed

lemma log_stays_small: "length (log_text (MoniterLogFile_turn True s)) < max_log_size"
  by (simp add: MoniterLogFile_turn_def max_log_size_def)

end
