(* ===== verification/GrpcClient.thy ===== *)
theory GrpcClient
  imports LiveStreamCorrect
begin

text \<open>
  The client of the media server, \<open>src/src/grpc/grpc_client.cc\<close>, which resolves the address of a
  stream. The generated stub is a parameter: each of its methods maps the state of the server
  and a request to the new state and, when the call succeeds, the fields of the reply the client reads; when it
  fails the reply object keeps its default values (0, false, empty). What the methods print to
  \<open>std::cout\<close> is a text. The last part runs the stream thread of \<open>stream.cpp\<close> on top of the client.
\<close>

section \<open>Messages\<close>

record url_request =
  mainid :: string
  subid :: string
  istcp :: int

record playback_request =
  pb_mainid :: string
  pb_subid :: string
  pb_starttime :: string
  pb_endtime :: string

record url_reply =
  rep_code :: int
  rep_url :: string

record plain_reply =
  pl_code :: int
  pl_msg :: string
  pl_rtspurl :: string

record device_entry =
  dv_ip :: string
  dv_mainid :: string
  dv_subid :: string

record 'm stub =
  rpc_GetRTMPUrl :: "'m \<Rightarrow> url_request \<Rightarrow> 'm \<times> url_reply option"
  rpc_GetDeviceStatus :: "'m \<Rightarrow> string \<times> string \<Rightarrow> 'm \<times> bool option"
  rpc_GetRealPlayUrlIn :: "'m \<Rightarrow> url_request \<Rightarrow> 'm \<times> url_reply option"
  rpc_GetPlayBackUrl :: "'m \<Rightarrow> playback_request \<Rightarrow> 'm \<times> plain_reply option"
  rpc_StopVideoById :: "'m \<Rightarrow> url_request \<Rightarrow> 'm \<times> plain_reply option"
  rpc_StopVideoBySsrc :: "'m \<Rightarrow> string \<Rightarrow> 'm \<times> plain_reply option"
  rpc_GetDeviceList :: "'m \<Rightarrow> 'm \<times> (plain_reply \<times> device_entry list) option"

definition no_url :: url_reply where
  "no_url = \<lparr>rep_code = 0, rep_url = []\<rparr>"

definition no_reply :: plain_reply where
  "no_reply = \<lparr>pl_code = 0, pl_msg = [], pl_rtspurl = []\<rparr>"

definition reply_or :: "'a \<Rightarrow> 'a option \<Rightarrow> 'a" where
  "reply_or d r = (case r of None \<Rightarrow> d | Some x \<Rightarrow> x)"

section \<open>The methods of the client\<close>

definition endl :: string where
  "endl = [CHR 0x0A]"

definition GetRTMPUrl :: "'m stub \<Rightarrow> string \<Rightarrow> string \<Rightarrow> int \<Rightarrow> 'm \<Rightarrow> 'm \<times> string" where
  "GetRTMPUrl stub mainId subId isTcp m =
     (case rpc_GetRTMPUrl stub m \<lparr>mainid = mainId, subid = subId, istcp = isTcp\<rparr> of (m1, r) \<Rightarrow>
       (m1, rep_url (reply_or no_url r) @ endl))"

text \<open>\<open>GetRtspUrl\<close>: the status of the device is asked for first and only printed.\<close>

definition GetRtspUrl :: "'m stub \<Rightarrow> string \<Rightarrow> string \<Rightarrow> int \<Rightarrow> 'm \<Rightarrow> 'm \<times> string \<times> string" where
  "GetRtspUrl stub mainId subId isTcp m =
     (case rpc_GetDeviceStatus stub m (mainId, subId) of (m1, st) \<Rightarrow>
      case rpc_GetRealPlayUrlIn stub m1 \<lparr>mainid = mainId, subid = subId, istcp = isTcp\<rparr> of (m2, r) \<Rightarrow>
      let reply = reply_or no_url r
      in (m2, rep_url reply,
          ''{mainId:'' @ mainId @ '' subId:'' @ subId @ '' code: '' @ fmt_d (rep_code reply) @
          '' online: '' @ (if reply_or False st then ''1'' else ''0'') @ ''}'' @ endl))"

definition getPlaybackUrl :: "'m stub \<Rightarrow> string \<Rightarrow> string \<Rightarrow> string \<Rightarrow> string \<Rightarrow> 'm \<Rightarrow> 'm \<times> string" where
  "getPlaybackUrl stub startTime endTime mainId subId m =
     (case rpc_GetPlayBackUrl stub m
             \<lparr>pb_mainid = mainId, pb_subid = subId, pb_starttime = startTime, pb_endtime = endTime\<rparr> of (m1, r) \<Rightarrow>
       let reply = reply_or no_reply r in (m1, fmt_d (pl_code reply) @ pl_msg reply @ pl_rtspurl reply @ endl))"

definition stopVideoById :: "'m stub \<Rightarrow> string \<Rightarrow> string \<Rightarrow> int \<Rightarrow> 'm \<Rightarrow> 'm \<times> string" where
  "stopVideoById stub mainId subId isTcp m =
     (case rpc_StopVideoById stub m \<lparr>mainid = mainId, subid = subId, istcp = isTcp\<rparr> of (m1, r) \<Rightarrow>
       let reply = reply_or no_reply r in (m1, fmt_d (pl_code reply) @ pl_msg reply @ endl))"

definition stopVideoBySsrc :: "'m stub \<Rightarrow> string \<Rightarrow> 'm \<Rightarrow> 'm \<times> string" where
  "stopVideoBySsrc stub ssrc m =
     (case rpc_StopVideoBySsrc stub m ssrc of (m1, r) \<Rightarrow>
       let reply = reply_or no_reply r in (m1, fmt_d (pl_code reply) @ pl_msg reply @ endl))"

definition getDeviceList :: "'m stub \<Rightarrow> 'm \<Rightarrow> 'm \<times> string" where
  "getDeviceList stub m =
     (case rpc_GetDeviceList stub m of (m1, r) \<Rightarrow>
      case reply_or (no_reply, []) r of (reply, devices) \<Rightarrow>
      (m1, ''device list : '' @ fmt_d (pl_code reply) @ pl_msg reply @ endl @
           (if pl_code reply = 0
            then concat (map (\<lambda>d. ''{ip:'' @ dv_ip d @ '' mainId:'' @ dv_mainid d @ '' subId:'' @ dv_subid d @ ''}'' @ endl) devices)
            else ''device list : code = '' @ fmt_d (pl_code reply) @ '', msg = '' @ pl_msg reply @ endl)))"

text \<open>\<open>grpcClientStart\<close>: \<open>connect\<close> is \<open>CreateChannel\<close> with the stub made for the channel.\<close>

definition grpcClientStart :: "config \<Rightarrow> (string \<Rightarrow> 'm stub) \<Rightarrow> string \<Rightarrow> string \<Rightarrow> 'm \<Rightarrow> 'm \<times> string" where
  "grpcClientStart cfg connect mainId subId m =
     (let stream_media_url = snprintf 128 (streamMediaIp cfg @ '':'' @ fmt_d (stream_media_port cfg))
      in case GetRtspUrl (connect stream_media_url) mainId subId 0 m of (m1, rtsp_url, _) \<Rightarrow> (m1, rtsp_url))"

section \<open>Resolving the address of a stream\<close>

text \<open>What a turn of the stream thread meets, apart from the address: \<open>sys_flag\<close>, what other clients
  do to the server before it, the connection, and whether a stop was requested.\<close>

record 'm turn_env =
  te_sys_flag :: bool
  te_server :: "'m \<Rightarrow> 'm"
  te_av :: av_session
  te_stopping :: bool

fun resolve_turns :: "config \<Rightarrow> (string \<Rightarrow> 'm stub) \<Rightarrow> string \<Rightarrow> string \<Rightarrow> 'm turn_env list \<Rightarrow> 'm \<Rightarrow> stream_turn list" where
  "resolve_turns cfg connect mainId subId [] m = []"
| "resolve_turns cfg connect mainId subId (e # es) m =
     (case grpcClientStart cfg connect mainId subId (te_server e m) of (m1, url) \<Rightarrow>
       \<lparr>turn_sys_flag = te_sys_flag e, turn_url = url, turn_av = te_av e, turn_stopping = te_stopping e\<rparr> #
       resolve_turns cfg connect mainId subId es m1)"

definition stream_thread_run :: "config \<Rightarrow> (string \<Rightarrow> 'm stub) \<Rightarrow> 'm turn_env list \<Rightarrow> 'm \<Rightarrow> string \<Rightarrow>
    (stream_call list \<times> bool) option res" where
  "stream_thread_run cfg connect es m sid =
     StreamProc (\<lambda>mainId subId. resolve_turns cfg connect mainId subId es m) sid"

section \<open>What the thread sees of the server\<close>

text \<open>The address is the one of the reply, whatever its code, and empty when the call failed.\<close>

lemma grpcClientStart_url:
  "snd (grpcClientStart cfg connect mainId subId m) =
     (let stub = connect (snprintf 128 (streamMediaIp cfg @ '':'' @ fmt_d (stream_media_port cfg)));
          m1 = fst (rpc_GetDeviceStatus stub m (mainId, subId))
      in case snd (rpc_GetRealPlayUrlIn stub m1 \<lparr>mainid = mainId, subid = subId, istcp = 0\<rparr>) of
           None \<Rightarrow> [] | Some r \<Rightarrow> rep_url r)"
  by (simp add: grpcClientStart_def GetRtspUrl_def Let_def reply_or_def no_url_def split: prod.splits option.splits)

text \<open>A server that does not answer, or answers with an empty address, in any state.\<close>

definition never_resolves :: "config \<Rightarrow> (string \<Rightarrow> 'm stub) \<Rightarrow> string \<Rightarrow> string \<Rightarrow> bool" where
  "never_resolves cfg connect mainId subId \<longleftrightarrow> (\<forall>m. snd (grpcClientStart cfg connect mainId subId m) = [])"

lemma never_resolves_turns:
  assumes "never_resolves cfg connect mainId subId" "\<forall>e \<in> set es. te_sys_flag e"
  shows "stream_loop sid v st (resolve_turns cfg connect mainId subId es m) = Inr ([], False)"
  using assms(2)
proof (induction es arbitrary: m)
  case (Cons e es)
  moreover have "snd (grpcClientStart cfg connect mainId subId (te_server e m)) = []"
    using assms(1) by (simp add: never_resolves_def)
  ultimately show ?case by (auto split: prod.splits)
qed simp

text \<open>
  A camera the media server cannot resolve. While the server is down or does not know the
  camera, its stream thread delivers nothing and does not end, however many turns pass and whether or not it was
  asked to stop.
\<close>

theorem unresolved_stream_waits:
  assumes "id_ok sid" "never_resolves cfg connect (main_id sid) (sub_id sid)" "\<forall>e \<in> set es. te_sys_flag e"
  shows "stream_thread_run cfg connect es m sid = Inr (Some ([], False))"
  using assms never_resolves_turns [OF assms(2,3)] by (simp add: stream_thread_run_def StreamProc_def)

end
