(* ===== verification/Spec2Isabelle.thy ===== *)
theory Spec2Isabelle
  imports StoreProps CJSONHeapCorrect CJSONBuffer BackupCorrect BackupRace LiveStreamCorrect ServiceCorrect Media ApiText
    HttpRequests ServiceRun RtmpSessionCorrect Supervision GrpcClient
begin

text \<open>
  Verification of a video store service.

  \<^bold>\<open>The program.\<close> The service (\<open>src/src\<close>, C++) records the video of network cameras. \<open>main.cpp\<close>
  loads the configuration (\<open>common.cpp\<close>), the cameras from a MySQL database (\<open>mysql.cpp\<close>), and enters each in
  three lists: the recording buffers (\<open>store.cpp\<close>), the live streams (\<open>stream.cpp\<close>) and the backup schedules
  (\<open>backup.cpp\<close>). A scheduler starts and stops a thread per stream; the thread hands every video frame to
  \<open>WriteFrameToBuf\<close>; full buffers go to a file and its name to the database, and the backup client may
  send the file to a backup service, another process built from \<open>server.cpp\<close> and \<open>backup.cpp\<close>. An
  HTTP interface (\<open>http.cpp\<close> on \<open>server.cpp\<close>, bodies in \<open>cJSON.cpp\<close>) changes all of this. A monitor deletes old
  recordings when the disk is full (\<open>monitor.cpp\<close>), files can be converted to MP4 (\<open>media.cpp\<close>), and an RTMP server, one
  process per connection (\<open>rtmpsrv.cpp\<close>, \<open>rtmp-server-main.cpp\<close>), plays stored files to clients. A
  daemon (\<open>src/daemon/daemon.cpp\<close>) restarts the service when its process is gone.

  \<^bold>\<open>Theories.\<close>
  \<^item> \<open>Prelude\<close>: faults, sequencing of fallible steps, memory blocks, little-endian words, C
    strings in received bytes, decimal formatting. \<open>ApiError\<close>: the error numbers of \<open>common.h\<close>.
  \<^item> \<open>KeyFrame\<close>: \<open>ParseKeyFrame\<close>, the scan for an IDR unit, against a specification by start codes.
  \<^item> \<open>Store\<close>, \<open>StoreCorrect\<close>, \<open>StoreFile\<close>, \<open>StoreProps\<close>: \<open>store.cpp\<close>. The two 64 MiB buffers of a
    device, with bounds checks as faults; a buffer represents a list of frames (locale \<open>frame_log\<close>), writing appends to
    it, a full buffer is cut at a key frame or its last group of pictures moves on, with the records an earlier fill
    left behind it, files are read back, and an invariant holds in every state the operations reach, with any result of \<open>malloc\<close>, as long as
    every frame has room in the buffer that receives it (\<open>frame_room\<close>; the code does not check it).
  \<^item> \<open>Cdouble\<close>, \<open>CJSON\<close>, \<open>CJSONCorrect\<close>: \<open>cJSON.cpp\<close> with a model of doubles; printing then parsing gives
    the tree back, formatted or not, and the parser returns on every text. \<open>CJSONTypes\<close>: the trees as a typed
    language; parsed trees are typed, editing keeps them typed, and the printer does not get stuck on them.
    \<open>CJSONBuffer\<close>: printing into one growing buffer, with failing allocations and unwritten bytes, is
    equivalent to the unbuffered printer. \<open>CJSONHeap\<close>, \<open>CJSONHeapCorrect\<close>: the nodes in memory, with their links, references
    and constant names; on properly linked chains the pointer operations refine the tree operations, and
    \<open>cJSON_Delete\<close> frees what a tree owns, each block once.
  \<^item> \<open>Common\<close>, \<open>CommonCorrect\<close>: \<open>common.cpp\<close>: configuration, splitting, schedules and dates.
  \<^item> \<open>Mysql\<close>, \<open>MysqlCorrect\<close>: \<open>mysql.cpp\<close> over a server that is a parameter; the binary search finds the
    first recording at or after a time, and the answer of a query by date is given for all dates and all values of the
    two flags the code does not initialise.
  \<^item> \<open>Server\<close>: \<open>server.cpp\<close>: reading a request without blocking, which delivers what came before the first pause, and the hand-over of accepted sockets as a step relation.
  \<^item> \<open>Backup\<close>, \<open>BackupCorrect\<close>, \<open>BackupRace\<close>: \<open>backup.cpp\<close>: messages byte by byte, service and
    client. The client is verified against the locale \<open>chunk_sink\<close>, which the model of the service
    interprets; together a backup copies the recording, over a network that cuts messages into any pieces but leaves no pause
    within one (the parameter \<open>dlv\<close> with \<open>gapless\<close>). The lifetime of a schedule entry is a step relation over backup threads, updates and a
    removal, which shows when its in-use flag protects a thread.
  \<^item> \<open>LiveStream\<close>, \<open>LiveStreamCorrect\<close>: \<open>stream.cpp\<close>: the list of streams, the reading thread over what it
    sees of the media library, the scheduler, timed recordings. The locale \<open>registry\<close> states what the lists of
    devices have in common; streams and backup schedules interpret it. \<open>GrpcClient\<close>: \<open>grpc_client.cc\<close> over
    the generated stub, and the stream thread on top of it.
  \<^item> \<open>Service\<close>, \<open>ServiceCorrect\<close>: \<open>main.cpp\<close> and \<open>monitor.cpp\<close>: the list of cameras, the callbacks, start-up, a turn
    of the disk monitor. \<open>Media\<close>: \<open>media.cpp\<close>. \<open>ApiText\<close>: the texts of the error numbers.
  \<^item> \<open>Http\<close>, \<open>HttpCorrect\<close>, \<open>HttpRequests\<close>: \<open>http.cpp\<close>: the request line and body, the ten handlers with
    their undo steps, the dispatch and the answer. A camera added can be deleted, and schedules that were set are
    the ones returned. The locale \<open>device_lists\<close> states what an invariant of the lists has to survive; every handler keeps such an
    invariant.
  \<^item> \<open>ServiceRun\<close>: the running service as a step relation over requests, scheduler turns, frames, the
    file writer and the disk monitor; the lists of cameras, streams and schedules agree in every state, and with them the recording devices but
    for entries a failed \<open>malloc\<close> left. It interprets \<open>device_lists\<close> a second time, with no condition on the environment.
  \<^item> \<open>RtmpVideo\<close>, \<open>RtmpVideoCorrect\<close>: splitting a frame into units, video packets, playing a stored file;
    what is sent is a function of the recorded frames. \<open>RtmpServe\<close>, \<open>RtmpSession\<close>, \<open>RtmpSessionCorrect\<close>: the messages, the
    invocations of a client, sessions, the accepting thread; a play request is served with the recording it names.
  \<^item> \<open>Supervision\<close>: the pid file, a turn of the daemon, the backup service's \<open>main\<close>, the log with its size limit.

  \<^bold>\<open>Conventions.\<close> C++ values at their width: \<open>u32\<close> and \<open>u64\<close> words wrap, \<open>int\<close> is an integer with the
  range checked where the code can leave it. Undefined behaviour is a value of type \<open>fault\<close>:
  an operation returns \<open>Inl fault\<close> or \<open>Inr\<close> of its result, and the value the function returns (0 or -1) with the error
  number it sets. What a call sees of the operating system, the clock, the database, the
  media library and uninitialised memory is an argument. A wait for another thread is resolved by running
  that thread's part, or is \<open>NoReturn\<close> when nothing can end it.

  \<^bold>\<open>Bounds and fuel.\<close> The JSON parser has fuel; twice the length of the text plus two is enough
  (\<open>json_parse_returns\<close>). Walks along linked nodes have as much fuel as there are addresses,
  which is enough for every chain without a cycle (\<open>walk_seg\<close>, \<open>delete_loop_frees\<close>). Every other loop is total with a measure. Sizes are those of the code: 64 MiB
  buffers, 96-byte records, 4 MiB reads, fields of 42 and 26 bytes.

  \<^bold>\<open>Not modelled.\<close> Output to the log apart from its own module; the command line of rtmpdump in \<open>rtmpsrv.cpp\<close>, which is disabled in the source; the generated gRPC stubs
  (\<open>gb28181.*\<close>). librtmp, the media library, MySQL and the operating system are parameters. \<open>src/tools\<close>,
  \<open>src/inc\<close> and \<open>src/libs\<close> are third-party code.
\<close>

end
